(* ===== verification/Prelude.thy ===== *)
theory Prelude
  imports Main "HOL-Library.Word" "HOL-Library.Monad_Syntax"
begin

text \<open>
  Shared vocabulary of the development: the machine types of the C code, C strings, the
  fault monad, and the doubly linked list segments used by every intrusive list.

  A C function is a function into \<open>'a option\<close> whenever it can fault: \<open>None\<close> means that
  execution does not continue past this point (a null or dangling dereference, an \<open>assert\<close> or
  \<open>qsf_assert\<close> that fails, an \<open>abort\<close> or \<open>exit\<close>, a loop that never ends). Return codes
  of the C functions are ordinary values inside \<open>Some\<close>. Asserts are modelled as in the Debug
  configuration of \<open>premake5.lua\<close>, where \<open>NDEBUG\<close> is not defined.
\<close>

section \<open>Machine types\<close>

unbundle bit_operations_syntax

type_synonym byte = "8 word"
type_synonym u16 = "16 word"
type_synonym u32 = "32 word"
type_synonym u64 = "64 word"
type_synonym bytes = "byte list"

text \<open>Addresses of heap objects; a null pointer is \<open>None\<close> of \<open>addr option\<close>.\<close>

type_synonym addr = nat

text \<open>The bytes of a C string literal, without its terminating NUL.\<close>

definition str :: "string \<Rightarrow> bytes" where
  "str s = map of_char s"

text \<open>The C string that starts at the beginning of a byte buffer: it ends before the first NUL.\<close>

definition cstr :: "bytes \<Rightarrow> bytes" where
  "cstr b = takeWhile (\<lambda>c. c \<noteq> 0) b"

text \<open>A conversion to a 32-bit \<open>int\<close>.\<close>

definition to_int32 :: "int \<Rightarrow> int" where
  "to_int32 i = sint (of_int i :: u32)"

text \<open>The decimal numeral of a natural number.\<close>

fun dec_nat :: "nat \<Rightarrow> bytes" where
  "dec_nat n = (if n < 10 then [of_nat (n + 48)] else dec_nat (n div 10) @ [of_nat (n mod 10 + 48)])"

declare dec_nat.simps [simp del]

definition dec_int :: "int \<Rightarrow> bytes" where
  "dec_int i = (if i < 0 then 45 # dec_nat (nat (- i)) else dec_nat (nat i))"

section \<open>The fault monad\<close>

named_theorems fault_simps \<open>rewriting of do-blocks that cannot or do fault\<close>

definition c_assert :: "bool \<Rightarrow> unit option" where
  "c_assert b = (if b then Some () else None)"

lemma c_assert_True [simp]: "c_assert True = Some ()"
  by (simp add: c_assert_def)

lemma c_assert_False [simp]: "c_assert False = None"
  by (simp add: c_assert_def)

lemma c_assert_eq_Some [simp]: "c_assert b = Some u \<longleftrightarrow> b"
  by (simp add: c_assert_def)

lemma c_assert_bind [fault_simps]:
  "Option.bind (c_assert b) f = (if b then f () else None)"
  by (simp add: c_assert_def)

lemmas bind_Some_conv = Option.bind_eq_Some_conv

section \<open>Words\<close>

lemma unat_u32_less [simp]: "unat (n :: u32) < 4294967296"
  using unsigned_less [of n] by simp

lemma unat_u16_less [simp]: "unat (n :: u16) < 65536"
  using unsigned_less [of n] by simp

lemma unat_byte_less [simp]: "unat (n :: byte) < 256"
  using unsigned_less [of n] by simp

lemma unat_of_nat_u32: "n < 2 ^ 32 \<Longrightarrow> unat (of_nat n :: u32) = n"
  by (simp add: unat_of_nat)

lemma of_nat_u32_eq_0: "n < 2 ^ 32 \<Longrightarrow> (of_nat n :: u32) = 0 \<longleftrightarrow> n = 0"
proof
  assume n: "n < 2 ^ 32" and "(of_nat n :: u32) = 0"
  then show "n = 0" using unat_of_nat_u32 [of n] by (simp only: unsigned_0)
qed simp

lemma of_nat_u32_nonzero: "n < 2 ^ 32 \<Longrightarrow> 0 < n \<Longrightarrow> (of_nat n :: u32) \<noteq> 0"
  by (simp add: of_nat_u32_eq_0)

lemma unat_of_nat_u16: "n < 2 ^ 16 \<Longrightarrow> unat (of_nat n :: u16) = n"
  by (simp add: unat_of_nat)

lemma unat_ucast_u16: "unat (ucast (n :: u16) :: u32) = unat n"
  by (simp add: unsigned_ucast_eq take_bit_nat_eq_self less_trans [OF unat_u16_less])

lemma to_int32_eq: "to_int32 i = signed_take_bit 31 i"
  by (simp add: to_int32_def signed_of_int)

lemma to_int32_id: "- (2 ^ 31) \<le> i \<Longrightarrow> i < 2 ^ 31 \<Longrightarrow> to_int32 i = i"
  by (simp add: to_int32_eq signed_take_bit_int_eq_self)

lemma to_int32_mod: "to_int32 (i mod 2 ^ 32) = to_int32 i"
proof -
  have "i mod 2 ^ 32 = take_bit 32 i" by (simp add: take_bit_eq_mod)
  then show ?thesis by (simp only: to_int32_eq signed_take_bit_take_bit) simp
qed

text \<open>A 64-bit integer that fits an \<open>int\<close> survives the conversion.\<close>

lemma to_int32_uint:
  assumes "- (2 ^ 31) \<le> sint n" and "sint n < 2 ^ 31"
  shows "to_int32 (uint (n :: u64)) = sint n"
proof -
  have "signed_take_bit 31 (sint n) = sint n" using assms by (simp add: signed_take_bit_int_eq_self)
  then show ?thesis by (simp add: to_int32_eq sint_uint)
qed

section \<open>Lists\<close>

definition hd_or :: "'a list \<Rightarrow> 'a option \<Rightarrow> 'a option" where
  "hd_or xs q = (case xs of [] \<Rightarrow> q | x # _ \<Rightarrow> Some x)"

definition last_or :: "'a option \<Rightarrow> 'a list \<Rightarrow> 'a option" where
  "last_or p xs = (if xs = [] then p else Some (last xs))"

lemma hd_or_simps [simp]: "hd_or [] q = q" "hd_or (x # xs) q = Some x"
  by (simp_all add: hd_or_def)

lemma last_or_simps [simp]:
  "last_or p [] = p" "last_or p (xs @ [x]) = Some x" "last_or p (x # xs) = last_or (Some x) xs"
  by (simp_all add: last_or_def)

lemma hd_or_append [simp]: "hd_or (xs @ ys) q = hd_or xs (hd_or ys q)"
  by (cases xs) simp_all

lemma hd_or_None_iff [simp]: "hd_or xs None = None \<longleftrightarrow> xs = []"
  by (cases xs) simp_all

lemma last_or_None_iff [simp]: "last_or None xs = None \<longleftrightarrow> xs = []"
  by (simp add: last_or_def)

lemma last_or_Some_not_None [simp]: "last_or (Some a) xs \<noteq> None"
  by (simp add: last_or_def)

lemma hd_or_Some_in: "hd_or xs None = Some x \<Longrightarrow> x \<in> set xs"
  by (cases xs) simp_all

lemma last_or_Some_in: "last_or None xs = Some x \<Longrightarrow> x \<in> set xs"
  by (auto simp: last_or_def split: if_splits)

lemma list_find_SomeD: "List.find P xs = Some x \<Longrightarrow> x \<in> set xs \<and> P x"
  by (induction xs) (auto split: if_splits)

lemma list_find_mem: "x \<in> set xs \<Longrightarrow> P x \<Longrightarrow> \<exists>y. List.find P xs = Some y"
  by (induction xs) auto

lemma filter_neq_remove1: "distinct xs \<Longrightarrow> filter (\<lambda>b. b \<noteq> a) xs = remove1 a xs"
  by (induction xs) (auto intro: filter_True)

lemma remove1_split: "a \<notin> set xs \<Longrightarrow> remove1 a (xs @ a # ys) = xs @ ys"
  by (simp add: remove1_append)

lemma distinct_split: "a \<in> set xs \<Longrightarrow> distinct xs \<Longrightarrow>
    \<exists>us vs. xs = us @ a # vs \<and> a \<notin> set us \<and> a \<notin> set vs \<and> remove1 a xs = us @ vs"
  by (metis distinct.simps(2) distinct_append in_set_conv_decomp_first
      not_distinct_conv_prefix remove1_split)

lemma card_ball_word: "card (S :: ('a::len) word set) \<le> 2 ^ LENGTH('a)"
proof -
  have "card S \<le> card (UNIV :: 'a word set)"
    by (rule card_mono) simp_all
  then show ?thesis by (simp add: card_word)
qed

lemma distinct_words_length: "distinct (xs :: ('a::len) word list) \<Longrightarrow> length xs \<le> 2 ^ LENGTH('a)"
  using card_ball_word [of "set xs"] by (simp add: distinct_card)

lemma distinct_nonzero_words_length:
  assumes "distinct (xs :: ('a::len) word list)" and "0 \<notin> set xs"
  shows "length xs < 2 ^ LENGTH('a)"
  using distinct_words_length [of "0 # xs"] assms by simp

section \<open>Doubly linked list segments\<close>

text \<open>
  \<open>dlseg nx pv p xs q\<close>: the objects \<open>xs\<close> are linked in this order by the field \<open>nx\<close> and
  backwards by the field \<open>pv\<close>; \<open>p\<close> is the predecessor of the first and \<open>q\<close> the
  successor of the last. A whole list is \<open>dlseg nx pv None xs None\<close>, entered at
  \<open>hd_or xs None\<close>.
\<close>

fun dlseg :: "('a \<Rightarrow> 'a option) \<Rightarrow> ('a \<Rightarrow> 'a option) \<Rightarrow> 'a option \<Rightarrow> 'a list \<Rightarrow> 'a option \<Rightarrow> bool" where
  "dlseg nx pv p [] q = True"
| "dlseg nx pv p (x # xs) q = (pv x = p \<and> nx x = hd_or xs q \<and> dlseg nx pv (Some x) xs q)"

lemma dlseg_append [simp]:
  "dlseg nx pv p (xs @ ys) q =
     (dlseg nx pv p xs (hd_or ys q) \<and> dlseg nx pv (last_or p xs) ys q)"
  by (induction xs arbitrary: p) auto

lemma dlseg_upd_nx [simp]: "x \<notin> set xs \<Longrightarrow> dlseg (nx(x := v)) pv p xs q = dlseg nx pv p xs q"
  by (induction xs arbitrary: p) auto

lemma dlseg_upd_pv [simp]: "x \<notin> set xs \<Longrightarrow> dlseg nx (pv(x := v)) p xs q = dlseg nx pv p xs q"
  by (induction xs arbitrary: p) auto

lemma dlseg_cong:
  "\<forall>x \<in> set xs. nx' x = nx x \<and> pv' x = pv x \<Longrightarrow> dlseg nx' pv' p xs q = dlseg nx pv p xs q"
  by (induction xs arbitrary: p) auto

definition opt_upd :: "('a \<Rightarrow> 'b) \<Rightarrow> 'a option \<Rightarrow> 'b \<Rightarrow> ('a \<Rightarrow> 'b)" where
  "opt_upd f p v = (case p of None \<Rightarrow> f | Some x \<Rightarrow> f(x := v))"

lemma opt_upd_simps [simp]: "opt_upd f None v = f" "opt_upd f (Some x) v = f(x := v)"
  by (simp_all add: opt_upd_def)

lemma opt_upd_other: "p \<noteq> Some x \<Longrightarrow> opt_upd f p v x = f x"
  by (cases p) auto

lemma dlseg_push:
  assumes "dlseg nx pv None ys None" and "distinct ys" and "a \<notin> set ys"
  shows "dlseg (nx(a := hd_or ys None)) (opt_upd (pv(a := None)) (hd_or ys None) (Some a))
           None (a # ys) None"
  using assms by (cases ys) auto

lemma dlseg_snoc:
  assumes "dlseg nx pv None xs None" and "distinct xs" and "a \<notin> set xs" and "xs \<noteq> []"
  shows "dlseg ((nx(a := None))(last xs := Some a)) (pv(a := Some (last xs)))
           None (xs @ [a]) None"
proof -
  obtain us z where xs: "xs = us @ [z]" using assms(4) by (meson rev_exhaust)
  show ?thesis using assms(1-3) by (auto simp: xs)
qed

lemma dlseg_unlink:
  assumes "dlseg nx pv None (us @ a # vs) None" and "distinct (us @ a # vs)"
  shows "dlseg (opt_upd nx (pv a) (nx a)) (opt_upd pv (nx a) (pv a)) None (us @ vs) None"
proof -
  have pa: "pv a = last_or None us" and na: "nx a = hd_or vs None"
    using assms(1) by simp_all
  have left: "dlseg (opt_upd nx (pv a) (nx a)) pv None us (hd_or vs None)"
  proof (cases us rule: rev_cases)
    case Nil
    then show ?thesis by simp
  next
    case (snoc ws w)
    then show ?thesis using assms pa na by auto
  qed
  have right: "dlseg nx (opt_upd pv (nx a) (pv a)) (last_or None us) vs None"
    using assms pa na by (cases vs) auto
  have "dlseg (opt_upd nx (pv a) (nx a)) (opt_upd pv (nx a) (pv a)) None us (hd_or vs None)"
    using left assms(2) na by (cases vs) auto
  moreover have "dlseg (opt_upd nx (pv a) (nx a)) (opt_upd pv (nx a) (pv a)) (last_or None us) vs None"
    using right assms(2) pa by (cases us rule: rev_cases) auto
  ultimately show ?thesis by simp
qed

section \<open>Singly linked list segments\<close>

fun sll :: "('a \<Rightarrow> 'a option) \<Rightarrow> 'a list \<Rightarrow> 'a option \<Rightarrow> bool" where
  "sll nx [] q = True"
| "sll nx (x # xs) q = (nx x = hd_or xs q \<and> sll nx xs q)"

lemma sll_append [simp]: "sll nx (xs @ ys) q = (sll nx xs (hd_or ys q) \<and> sll nx ys q)"
  by (induction xs) auto

lemma sll_upd [simp]: "x \<notin> set xs \<Longrightarrow> sll (nx(x := v)) xs q = sll nx xs q"
  by (induction xs) auto

lemma sll_cong: "\<forall>x \<in> set xs. nx' x = nx x \<Longrightarrow> sll nx' xs q = sll nx xs q"
  by (induction xs) auto

lemma dlseg_sll: "dlseg nx pv p xs q \<Longrightarrow> sll nx xs q"
  by (induction xs arbitrary: p) auto

lemma sll_last_upd:
  assumes "sll nx xs q" and "distinct xs" and "xs \<noteq> []"
  shows "sll (nx(last xs := q')) xs q'"
proof -
  obtain us z where xs: "xs = us @ [z]" using assms(3) by (meson rev_exhaust)
  show ?thesis using assms(1,2) by (auto simp: xs)
qed

end
