(* ===== verification/Uthash.thy ===== *)
theory Uthash
  imports Prelude
begin

text \<open>
  The intrusive hash table of \<open>src/net/uthash.h\<close>, as the net server uses it: integer keys
  (\<open>HASH_FIND_INT\<close>, \<open>HASH_ADD_INT\<close>), deletion, the application-order iteration, and the
  bucket expansion that an addition can trigger.

  The pointer structure is kept. The fields of \<open>UT_hash_handle\<close> are functions from the
  address of the enclosing element to the field's value (one function per field, as for any
  record type in a typed heap); the application order is the doubly linked list over \<open>prev\<close>
  and \<open>next\<close>, each bucket a doubly linked list over \<open>hh_prev\<close> and \<open>hh_next\<close>. All handles
  of one table point to the same \<open>UT_hash_table\<close>, which is reached through the head element:
  with a null head the expression \<open>(head)->hh.tbl\<close> faults.

  The key of an element is the 32-bit field \<open>hh.key\<close> points to (\<open>session->serial\<close>), so
  \<open>hh_key\<close> gives the current contents of that field and \<open>keylen\<close>, always
  \<open>sizeof(int)\<close>, is not stored. \<open>malloc_ok n\<close> says whether an allocation of \<open>n\<close> bytes
  succeeds; when it does not, \<open>uthash_fatal\<close> exits the process, which is a fault.
\<close>

section \<open>Data\<close>

record ut_handles =
  hh_prev_elt :: "addr \<Rightarrow> addr option"
  hh_next_elt :: "addr \<Rightarrow> addr option"
  hh_prev :: "addr \<Rightarrow> addr option"
  hh_next :: "addr \<Rightarrow> addr option"
  hh_key :: "addr \<Rightarrow> u32"
  hh_hashv :: "addr \<Rightarrow> u32"

record UT_hash_bucket =
  hh_head :: "addr option"
  bkt_count :: u32
  expand_mult :: u32

record UT_hash_table =
  buckets :: "UT_hash_bucket list"
  num_buckets :: u32
  log2_num_buckets :: u32
  num_items :: u32
  tail :: "addr option"
  ideal_chain_maxlen :: u32
  nonideal_items :: u32
  ineff_expands :: u32
  noexpand :: u32

record uthash =
  ut_head :: "addr option"
  ut_tbl :: "UT_hash_table option"
  ut_hh :: ut_handles

definition empty_bucket :: UT_hash_bucket where
  "empty_bucket = \<lparr>hh_head = None, bkt_count = 0, expand_mult = 0\<rparr>"

definition HASH_INITIAL_NUM_BUCKETS :: u32 where "HASH_INITIAL_NUM_BUCKETS = 32"
definition HASH_INITIAL_NUM_BUCKETS_LOG2 :: u32 where "HASH_INITIAL_NUM_BUCKETS_LOG2 = 5"
definition HASH_BKT_CAPACITY_THRESH :: u32 where "HASH_BKT_CAPACITY_THRESH = 10"

text \<open>The sizes of the two structures on a 64-bit target.\<close>

definition sizeof_UT_hash_bucket :: nat where "sizeof_UT_hash_bucket = 16"
definition sizeof_UT_hash_table :: nat where "sizeof_UT_hash_table = 64"

text \<open>\<open>(head)->hh.tbl\<close>: a fault when the head pointer is null.\<close>

definition the_tbl :: "uthash \<Rightarrow> UT_hash_table option" where
  "the_tbl u = (case ut_head u of None \<Rightarrow> None | Some _ \<Rightarrow> ut_tbl u)"

section \<open>The Jenkins hash function\<close>

definition HASH_JEN_MIX :: "u32 \<Rightarrow> u32 \<Rightarrow> u32 \<Rightarrow> u32 \<times> u32 \<times> u32" where
  "HASH_JEN_MIX a b c =
    (let a = a - b; a = a - c; a = a XOR drop_bit 13 c;
         b = b - c; b = b - a; b = b XOR push_bit 8 a;
         c = c - a; c = c - b; c = c XOR drop_bit 13 b;
         a = a - b; a = a - c; a = a XOR drop_bit 12 c;
         b = b - c; b = b - a; b = b XOR push_bit 16 a;
         c = c - a; c = c - b; c = c XOR drop_bit 5 b;
         a = a - b; a = a - c; a = a XOR drop_bit 3 c;
         b = b - c; b = b - a; b = b XOR push_bit 10 a;
         c = c - a; c = c - b; c = c XOR drop_bit 15 b
     in (a, b, c))"

text \<open>Four key bytes at offset \<open>o\<close>, combined as \<open>HASH_JEN\<close> does.\<close>

definition jen_word :: "bytes \<Rightarrow> nat \<Rightarrow> u32" where
  "jen_word key off = ucast (key ! off) + push_bit 8 (ucast (key ! (off + 1)))
     + push_bit 16 (ucast (key ! (off + 2))) + push_bit 24 (ucast (key ! (off + 3)))"

text \<open>The \<open>while (_hj_k >= 12)\<close> loop; \<open>_hj_k\<close> is the number of bytes left.\<close>

function jen_loop :: "bytes \<Rightarrow> u32 \<Rightarrow> u32 \<Rightarrow> u32 \<Rightarrow> bytes \<times> u32 \<times> u32 \<times> u32" where
  "jen_loop key i j hashv =
    (if 12 \<le> length key
     then (let (i, j, hashv) = HASH_JEN_MIX (i + jen_word key 0) (j + jen_word key 4)
                                 (hashv + jen_word key 8)
           in jen_loop (drop 12 key) i j hashv)
     else (key, i, j, hashv))"
  by pat_completeness auto
termination
  by (relation "measure (\<lambda>(key, _). length key)") auto

text \<open>The \<open>switch\<close> on the remaining bytes falls through from its entry case downwards.\<close>

definition HASH_JEN :: "bytes \<Rightarrow> u32" where
  "HASH_JEN key =
    (let (rest, i, j, hashv) = jen_loop key 0x9e3779b9 0x9e3779b9 0xfeedbeef;
         k = length rest;
         hashv = hashv + of_nat (length key);
         hashv = (if 11 \<le> k then hashv + push_bit 24 (ucast (rest ! 10)) else hashv);
         hashv = (if 10 \<le> k then hashv + push_bit 16 (ucast (rest ! 9)) else hashv);
         hashv = (if 9 \<le> k then hashv + push_bit 8 (ucast (rest ! 8)) else hashv);
         j = (if 8 \<le> k then j + push_bit 24 (ucast (rest ! 7)) else j);
         j = (if 7 \<le> k then j + push_bit 16 (ucast (rest ! 6)) else j);
         j = (if 6 \<le> k then j + push_bit 8 (ucast (rest ! 5)) else j);
         j = (if 5 \<le> k then j + ucast (rest ! 4) else j);
         i = (if 4 \<le> k then i + push_bit 24 (ucast (rest ! 3)) else i);
         i = (if 3 \<le> k then i + push_bit 16 (ucast (rest ! 2)) else i);
         i = (if 2 \<le> k then i + push_bit 8 (ucast (rest ! 1)) else i);
         i = (if 1 \<le> k then i + ucast (rest ! 0) else i);
         (i, j, hashv) = HASH_JEN_MIX i j hashv
     in hashv)"

text \<open>The four bytes of a 32-bit key as they lie in memory on a little-endian host.\<close>

definition le32 :: "u32 \<Rightarrow> bytes" where
  "le32 w = [ucast w, ucast (drop_bit 8 w), ucast (drop_bit 16 w), ucast (drop_bit 24 w)]"

definition hash_int :: "u32 \<Rightarrow> u32" where
  "hash_int k = HASH_JEN (le32 k)"

definition HASH_TO_BKT :: "u32 \<Rightarrow> u32 \<Rightarrow> nat" where
  "HASH_TO_BKT hashv num_bkts = unat (hashv AND (num_bkts - 1))"

section \<open>Find\<close>

partial_function (option) HASH_FIND_IN_BKT ::
    "ut_handles \<Rightarrow> u32 \<Rightarrow> addr option \<Rightarrow> addr option option" where
  "HASH_FIND_IN_BKT h key out =
    (case out of
       None \<Rightarrow> Some None
     | Some a \<Rightarrow> if hh_key h a = key then Some (Some a)
                 else HASH_FIND_IN_BKT h key (hh_next h a))"

definition HASH_FIND_INT :: "uthash \<Rightarrow> u32 \<Rightarrow> addr option option" where
  "HASH_FIND_INT u key =
    (case ut_head u of
       None \<Rightarrow> Some None
     | Some _ \<Rightarrow> do {
         t \<leftarrow> the_tbl u;
         let b = HASH_TO_BKT (hash_int key) (num_buckets t);
         c_assert (b < length (buckets t));
         HASH_FIND_IN_BKT (ut_hh u) key (hh_head (buckets t ! b))
       })"

section \<open>Bucket expansion\<close>

text \<open>The inner loop over one old chain: every element moves to the head of its new bucket.\<close>

partial_function (option) expand_chain ::
    "u32 \<Rightarrow> u32 \<Rightarrow> addr option \<Rightarrow> ut_handles \<Rightarrow> UT_hash_bucket list \<Rightarrow> u32
     \<Rightarrow> (ut_handles \<times> UT_hash_bucket list \<times> u32) option" where
  "expand_chain nb2 ideal thh h nbs nonideal =
    (case thh of
       None \<Rightarrow> Some (h, nbs, nonideal)
     | Some a \<Rightarrow>
         (let hh_nxt = hh_next h a;
              b = HASH_TO_BKT (hh_hashv h a) nb2;
              bkt = nbs ! b;
              cnt = bkt_count bkt + 1;
              over = ideal < cnt;
              bkt' = \<lparr>hh_head = Some a, bkt_count = cnt,
                      expand_mult = (if over then cnt div ideal else expand_mult bkt)\<rparr>;
              h' = h\<lparr>hh_prev := opt_upd ((hh_prev h)(a := None)) (hh_head bkt) (Some a),
                     hh_next := (hh_next h)(a := hh_head bkt)\<rparr>
          in if length nbs \<le> b \<or> over \<and> ideal = 0 then None
             else expand_chain nb2 ideal hh_nxt h' (nbs[b := bkt'])
                    (if over then nonideal + 1 else nonideal)))"

text \<open>The outer loop over the old bucket array.\<close>

fun expand_loop :: "u32 \<Rightarrow> u32 \<Rightarrow> UT_hash_bucket list \<Rightarrow> ut_handles \<Rightarrow> UT_hash_bucket list \<Rightarrow> u32
     \<Rightarrow> (ut_handles \<times> UT_hash_bucket list \<times> u32) option" where
  "expand_loop nb2 ideal [] h nbs nonideal = Some (h, nbs, nonideal)"
| "expand_loop nb2 ideal (b # bs) h nbs nonideal = do {
     (h, nbs, nonideal) \<leftarrow> expand_chain nb2 ideal (hh_head b) h nbs nonideal;
     expand_loop nb2 ideal bs h nbs nonideal
   }"

text \<open>The new \<open>ideal_chain_maxlen\<close>: the items spread evenly over twice as many buckets, rounded up.\<close>

definition expand_ideal :: "UT_hash_table \<Rightarrow> u32" where
  "expand_ideal t = drop_bit (unat (log2_num_buckets t + 1)) (num_items t)
     + (if num_items t AND (num_buckets t * 2 - 1) \<noteq> 0 then 1 else 0)"

definition HASH_EXPAND_BUCKETS ::
    "(nat \<Rightarrow> bool) \<Rightarrow> ut_handles \<Rightarrow> UT_hash_table \<Rightarrow> (ut_handles \<times> UT_hash_table) option" where
  "HASH_EXPAND_BUCKETS malloc_ok h t = do {
     let n2 = 2 * num_buckets t;
     c_assert (malloc_ok (unat n2 * sizeof_UT_hash_bucket));
     let ideal = expand_ideal t;
     (h, nbs, nonideal) \<leftarrow>
       expand_loop (num_buckets t * 2) ideal (buckets t) h (replicate (unat n2) empty_bucket) 0;
     let ineff = (if drop_bit 1 (num_items t) < nonideal then ineff_expands t + 1 else 0);
     Some (h, t\<lparr>ideal_chain_maxlen := ideal, nonideal_items := nonideal,
                num_buckets := num_buckets t * 2,
                log2_num_buckets := log2_num_buckets t + 1,
                buckets := nbs, ineff_expands := ineff,
                noexpand := (if 1 < ineff then 1 else noexpand t)\<rparr>)
   }"

section \<open>Add\<close>

definition HASH_MAKE_TABLE :: "(nat \<Rightarrow> bool) \<Rightarrow> addr \<Rightarrow> UT_hash_table option" where
  "HASH_MAKE_TABLE malloc_ok a = do {
     c_assert (malloc_ok sizeof_UT_hash_table);
     c_assert (malloc_ok (unat HASH_INITIAL_NUM_BUCKETS * sizeof_UT_hash_bucket));
     Some \<lparr>buckets = replicate (unat HASH_INITIAL_NUM_BUCKETS) empty_bucket,
           num_buckets = HASH_INITIAL_NUM_BUCKETS,
           log2_num_buckets = HASH_INITIAL_NUM_BUCKETS_LOG2,
           num_items = 0, tail = Some a, ideal_chain_maxlen = 0, nonideal_items = 0,
           ineff_expands = 0, noexpand = 0\<rparr>
   }"

definition HASH_ADD_TO_BKT ::
    "(nat \<Rightarrow> bool) \<Rightarrow> nat \<Rightarrow> addr \<Rightarrow> ut_handles \<Rightarrow> UT_hash_table \<Rightarrow> (ut_handles \<times> UT_hash_table) option"
where
  "HASH_ADD_TO_BKT malloc_ok b a h t = do {
     c_assert (b < length (buckets t));
     let bkt = buckets t ! b;
     let h = h\<lparr>hh_next := (hh_next h)(a := hh_head bkt),
               hh_prev := opt_upd ((hh_prev h)(a := None)) (hh_head bkt) (Some a)\<rparr>;
     let bkt = bkt\<lparr>bkt_count := bkt_count bkt + 1, hh_head := Some a\<rparr>;
     let t = t\<lparr>buckets := (buckets t)[b := bkt]\<rparr>;
     if (expand_mult bkt + 1) * HASH_BKT_CAPACITY_THRESH \<le> bkt_count bkt \<and> noexpand t \<noteq> 1
     then HASH_EXPAND_BUCKETS malloc_ok h t
     else Some (h, t)
   }"

text \<open>\<open>HASH_ADD_INT(head, serial, add)\<close>; the key of \<open>add\<close> is already in its \<open>serial\<close> field.\<close>

definition HASH_ADD_INT :: "(nat \<Rightarrow> bool) \<Rightarrow> uthash \<Rightarrow> addr \<Rightarrow> uthash option" where
  "HASH_ADD_INT malloc_ok u a = do {
     let h = ut_hh u;
     let h = h\<lparr>hh_next_elt := (hh_next_elt h)(a := None)\<rparr>;
     (head, h, t) \<leftarrow>
       (case ut_head u of
          None \<Rightarrow> do {
            t \<leftarrow> HASH_MAKE_TABLE malloc_ok a;
            Some (Some a, h\<lparr>hh_prev_elt := (hh_prev_elt h)(a := None)\<rparr>, t) }
        | Some head \<Rightarrow> do {
            t \<leftarrow> the_tbl u;
            z \<leftarrow> tail t;
            Some (Some head, h\<lparr>hh_next_elt := (hh_next_elt h)(z := Some a),
                             hh_prev_elt := (hh_prev_elt h)(a := Some z)\<rparr>,
                  t\<lparr>tail := Some a\<rparr>) });
     let t = t\<lparr>num_items := num_items t + 1\<rparr>;
     let h = h\<lparr>hh_hashv := (hh_hashv h)(a := hash_int (hh_key h a))\<rparr>;
     let b = HASH_TO_BKT (hh_hashv h a) (num_buckets t);
     (h, t) \<leftarrow> HASH_ADD_TO_BKT malloc_ok b a h t;
     Some \<lparr>ut_head = head, ut_tbl = Some t, ut_hh = h\<rparr>
   }"

section \<open>Delete\<close>

definition HASH_DEL_IN_BKT :: "addr \<Rightarrow> ut_handles \<Rightarrow> UT_hash_bucket \<Rightarrow> ut_handles \<times> UT_hash_bucket" where
  "HASH_DEL_IN_BKT a h bkt =
    (let bkt = bkt\<lparr>bkt_count := bkt_count bkt - 1\<rparr>;
         bkt = (if hh_head bkt = Some a then bkt\<lparr>hh_head := hh_next h a\<rparr> else bkt);
         h = h\<lparr>hh_next := opt_upd (hh_next h) (hh_prev h a) (hh_next h a)\<rparr>;
         h = h\<lparr>hh_prev := opt_upd (hh_prev h) (hh_next h a) (hh_prev h a)\<rparr>
     in (h, bkt))"

definition HASH_DEL :: "uthash \<Rightarrow> addr \<Rightarrow> uthash option" where
  "HASH_DEL u a =
    (let h = ut_hh u in
     if hh_prev_elt h a = None \<and> hh_next_elt h a = None
     then do {
       _ \<leftarrow> the_tbl u;
       Some (u\<lparr>ut_head := None, ut_tbl := None\<rparr>) }
     else do {
       t \<leftarrow> the_tbl u;
       let t = (if tail t = Some a then t\<lparr>tail := hh_prev_elt h a\<rparr> else t);
       let head = (if hh_prev_elt h a \<noteq> None then ut_head u else hh_next_elt h a);
       let h = h\<lparr>hh_next_elt := opt_upd (hh_next_elt h) (hh_prev_elt h a) (hh_next_elt h a)\<rparr>;
       let h = h\<lparr>hh_prev_elt := opt_upd (hh_prev_elt h) (hh_next_elt h a) (hh_prev_elt h a)\<rparr>;
       let b = HASH_TO_BKT (hh_hashv h a) (num_buckets t);
       c_assert (b < length (buckets t));
       let (h, bkt) = HASH_DEL_IN_BKT a h (buckets t ! b);
       let t = t\<lparr>buckets := (buckets t)[b := bkt], num_items := num_items t - 1\<rparr>;
       Some \<lparr>ut_head = head, ut_tbl = Some t, ut_hh = h\<rparr> })"

definition HASH_COUNT :: "uthash \<Rightarrow> u32 option" where
  "HASH_COUNT u =
    (case ut_head u of
       None \<Rightarrow> Some 0
     | Some _ \<Rightarrow> do { t \<leftarrow> the_tbl u; Some (num_items t) })"

end
