(* ===== verification/Net_Server.thy ===== *)
theory Net_Server
  imports Uthash
begin

text \<open>
  The TCP message server of \<open>src/net/qsf_net_server.c\<close>, over the hash table of theory Uthash.

  A session is a heap object: \<open>sessions s a\<close> is the session allocated at the address \<open>a\<close>, and
  a step that touches a session that is not allocated faults. Its \<open>hh\<close> and \<open>serial\<close> fields
  are the ones the table's links run through, so they live in \<open>session_map\<close>; \<open>serial_of\<close>
  reads the serial number. The receive buffer is a list of bytes in which \<open>None\<close> is a byte
  nothing has been written to since \<open>malloc\<close>: reading one faults.

  libuv is not part of the program. Every libuv call that can fail takes its result from an
  argument of the model (records \<open>accept_env\<close>, \<open>start_env\<close>, \<open>write_env\<close>); \<open>uv_now\<close>,
  \<open>uv_strerror\<close> and \<open>uv_ip4_name\<close> are arguments too. The two things the program relies on are
  built into \<open>uv_session_recv\<close>: a read asks for a window with the alloc callback, puts at
  most that many bytes there and then calls the read callback with their number. The read
  handler of the embedding program is a name in \<open>on_read\<close>; what it does to the server is the
  argument \<open>invoke\<close>, so it may call any operation of the server again.
\<close>

section \<open>Data\<close>

definition START_SERIAL_NUMBER :: u32 where "START_SERIAL_NUMBER = 1000"
definition DEFAULT_RECV_BUF_SIZE :: nat where "DEFAULT_RECV_BUF_SIZE = 128"

definition NET_DEFAULT_MAX_CONN :: int where "NET_DEFAULT_MAX_CONN = 5000"
definition NET_DEFAULT_HEARTBEAT :: int where "NET_DEFAULT_HEARTBEAT = 60"
definition NET_DEFAULT_HEARTBEAT_CHECK :: int where "NET_DEFAULT_HEARTBEAT_CHECK = 10"
definition NET_ERR_CONN_LIMIT :: int where "NET_ERR_CONN_LIMIT = 100001"
definition NET_ERR_TIMEOUT :: int where "NET_ERR_TIMEOUT = 100002"

text \<open>
  \<open>qsf_net_session_t\<close>. The tcp handle is represented by what the program does with it:
  reading, shut down, closing, and the buffers passed to \<open>uv_write\<close> in their order.
\<close>

record net_session =
  last_recv_time :: u64
  peer_addr :: bytes
  buf_size :: u32
  recv_bytes :: u16
  body_size :: u16
  recv_buf :: "byte option list"
  h_reading :: bool
  h_shutdown :: bool
  h_closing :: bool
  h_written :: "bytes list"

record ('c, 'u) net_server =
  max_connection :: u32
  max_heart_beat :: u16
  heart_beat_check :: u16
  stopped :: bool
  next_serial :: u32
  udata :: 'u
  on_read :: "'c option"
  acceptor_closing :: bool
  timer_active :: bool
  timer_closing :: bool
  session_map :: uthash
  sessions :: "addr \<Rightarrow> net_session option"
  server_freed :: bool

type_synonym ('c, 'u) handler =
  "'c \<Rightarrow> int \<Rightarrow> u32 \<Rightarrow> bytes \<Rightarrow> u16 \<Rightarrow> ('c, 'u) net_server \<Rightarrow> ('c, 'u) net_server option"

definition serial_of :: "('c, 'u) net_server \<Rightarrow> addr \<Rightarrow> u32" where
  "serial_of s a = hh_key (ut_hh (session_map s)) a"

definition set_session :: "('c, 'u) net_server \<Rightarrow> addr \<Rightarrow> net_session \<Rightarrow> ('c, 'u) net_server" where
  "set_session s a ss = s\<lparr>sessions := (sessions s)(a := Some ss)\<rparr>"

text \<open>\<open>htons\<close> of a 16-bit number as the two bytes it puts in memory, and \<open>ntohs\<close> of them.\<close>

definition be16 :: "u16 \<Rightarrow> bytes" where
  "be16 n = [ucast (drop_bit 8 n), ucast n]"

definition ntoh16 :: "byte \<Rightarrow> byte \<Rightarrow> u16" where
  "ntoh16 h l = push_bit 8 (ucast h) OR ucast l"

text \<open>A fresh block of \<open>n\<close> bytes, or the null pointer: a buffer with no byte to access.\<close>

definition qsf_malloc :: "(nat \<Rightarrow> bool) \<Rightarrow> nat \<Rightarrow> byte option list" where
  "qsf_malloc avail n = (if avail n then replicate n None else [])"

text \<open>\<open>memcpy\<close> out of and into a receive buffer.\<close>

definition buf_get :: "byte option list \<Rightarrow> nat \<Rightarrow> bytes option" where
  "buf_get b n = (if n \<le> length b \<and> None \<notin> set (take n b) then Some (map the (take n b)) else None)"

definition buf_put :: "byte option list \<Rightarrow> nat \<Rightarrow> bytes \<Rightarrow> byte option list option" where
  "buf_put b off d =
    (if off + length d \<le> length b
     then Some (take off b @ map Some d @ drop (off + length d) b) else None)"

section \<open>Sessions\<close>

partial_function (option) serial_loop :: "uthash \<Rightarrow> u32 \<Rightarrow> u32 option" where
  "serial_loop m serial =
    (let serial = (if serial = 0 then serial + 1 else serial)
     in Option.bind (HASH_FIND_INT m serial)
          (\<lambda>s. case s of None \<Rightarrow> Some serial | Some _ \<Rightarrow> serial_loop m (serial + 1)))"

definition set_session_serial :: "('c, 'u) net_server \<Rightarrow> addr \<Rightarrow> ('c, 'u) net_server option" where
  "set_session_serial s a = do {
     serial \<leftarrow> serial_loop (session_map s) (next_serial s);
     let h = ut_hh (session_map s);
     Some (s\<lparr>session_map := (session_map s)\<lparr>ut_hh := h\<lparr>hh_key := (hh_key h)(a := serial)\<rparr>\<rparr>,
             next_serial := serial + 1\<rparr>)
   }"

definition on_session_close :: "('c, 'u) net_server \<Rightarrow> addr \<Rightarrow> ('c, 'u) net_server option" where
  "on_session_close s a = do {
     _ \<leftarrow> sessions s a;
     Some (s\<lparr>sessions := (sessions s)(a := None)\<rparr>)
   }"

definition session_destroy :: "('c, 'u) net_server \<Rightarrow> addr \<Rightarrow> ('c, 'u) net_server option" where
  "session_destroy s a = do {
     ss \<leftarrow> sessions s a;
     let ss = ss\<lparr>h_reading := False\<rparr>;
     Some (set_session s a (if \<not> h_closing ss then ss\<lparr>h_closing := True\<rparr> else ss))
   }"

text \<open>
  What the allocator and libuv answer while a connection is accepted: the block for the
  session, whether an allocation of some size succeeds, and the results of \<open>uv_tcp_init\<close>,
  \<open>uv_accept\<close>, \<open>uv_tcp_getpeername\<close> and \<open>uv_read_start\<close>.
\<close>

record accept_env =
  ae_block :: "addr option"
  ae_avail :: "nat \<Rightarrow> bool"
  ae_init :: int
  ae_accept :: int
  ae_getpeername :: int
  ae_peer :: bytes
  ae_read_start :: int

definition session_create ::
    "accept_env \<Rightarrow> u64 \<Rightarrow> ('c, 'u) net_server \<Rightarrow> (addr \<times> ('c, 'u) net_server) option" where
  "session_create e now s = do {
     a \<leftarrow> ae_block e;
     c_assert (sessions s a = None);
     c_assert (ae_init e = 0);
     Some (a, set_session s a
       \<lparr>last_recv_time = now, peer_addr = [], buf_size = of_nat DEFAULT_RECV_BUF_SIZE,
        recv_bytes = 0, body_size = 0,
        recv_buf = qsf_malloc (ae_avail e) DEFAULT_RECV_BUF_SIZE,
        h_reading = False, h_shutdown = False, h_closing = False, h_written = []\<rparr>)
   }"

section \<open>Receiving\<close>

text \<open>The window offered to libuv: offset and length within the receive buffer.\<close>

definition on_session_alloc :: "('c, 'u) net_server \<Rightarrow> addr \<Rightarrow> (nat \<times> u64) option" where
  "on_session_alloc s a = do {
     ss \<leftarrow> sessions s a;
     let bytes = recv_bytes ss;
     if body_size ss = 0
     then do {
       c_assert (bytes \<le> 2);
       Some (unat bytes, 2 - ucast bytes) }
     else Some (unat bytes, ucast (body_size ss) - ucast bytes)
   }"

definition invoke_read ::
    "('c, 'u) handler \<Rightarrow> int \<Rightarrow> u32 \<Rightarrow> bytes \<Rightarrow> u16 \<Rightarrow> ('c, 'u) net_server \<Rightarrow> ('c, 'u) net_server option"
where
  "invoke_read invoke err serial data sz s = do {
     cb \<leftarrow> on_read s;
     invoke cb err serial data sz s
   }"

definition on_session_read ::
    "(nat \<Rightarrow> bool) \<Rightarrow> ('c, 'u) handler \<Rightarrow> (int \<Rightarrow> bytes) \<Rightarrow> u64 \<Rightarrow> addr \<Rightarrow> int \<Rightarrow> ('c, 'u) net_server
     \<Rightarrow> ('c, 'u) net_server option" where
  "on_session_read avail invoke uv_strerror now a nread s = do {
     ss \<leftarrow> sessions s a;
     c_assert (on_read s \<noteq> None);
     if nread \<le> 0
     then if nread < 0
          then do {
            let msg = uv_strerror nread;
            s \<leftarrow> invoke_read invoke nread (serial_of s a) msg (of_nat (length msg)) s;
            _ \<leftarrow> sessions s a;
            m \<leftarrow> HASH_DEL (session_map s) a;
            session_destroy (s\<lparr>session_map := m\<rparr>) a }
          else Some s
     else do {
       let ss = ss\<lparr>last_recv_time := now, recv_bytes := recv_bytes ss + of_int nread\<rparr>;
       let size = body_size ss;
       if size = 0
       then if recv_bytes ss = 2
            then do {
              hdr \<leftarrow> buf_get (recv_buf ss) 2;
              let ss = ss\<lparr>body_size := ntoh16 (hdr ! 0) (hdr ! 1), recv_bytes := 0\<rparr>;
              let ss = (if buf_size ss < ucast (body_size ss)
                        then ss\<lparr>recv_buf := qsf_malloc avail (unat (body_size ss)),
                                buf_size := ucast (body_size ss)\<rparr>
                        else ss);
              Some (set_session s a ss) }
            else Some (set_session s a ss)
       else if recv_bytes ss = size
            then do {
              let ss = ss\<lparr>recv_bytes := 0, body_size := 0\<rparr>;
              data \<leftarrow> buf_get (recv_buf ss) (unat size);
              invoke_read invoke 0 (serial_of s a) data size (set_session s a ss) }
            else Some (set_session s a ss) }
   }"

text \<open>One read of libuv on a session's stream, for the bytes \<open>d\<close>.\<close>

definition uv_session_recv ::
    "(nat \<Rightarrow> bool) \<Rightarrow> ('c, 'u) handler \<Rightarrow> (int \<Rightarrow> bytes) \<Rightarrow> u64 \<Rightarrow> addr \<Rightarrow> bytes \<Rightarrow> ('c, 'u) net_server
     \<Rightarrow> ('c, 'u) net_server option" where
  "uv_session_recv avail invoke uv_strerror now a d s = do {
     (off, len) \<leftarrow> on_session_alloc s a;
     c_assert (length d \<le> unat len);
     ss \<leftarrow> sessions s a;
     buf \<leftarrow> buf_put (recv_buf ss) off d;
     on_session_read avail invoke uv_strerror now a (int (length d)) (set_session s a (ss\<lparr>recv_buf := buf\<rparr>))
   }"

section \<open>Accepting\<close>

definition on_connection ::
    "('c, 'u) handler \<Rightarrow> accept_env \<Rightarrow> u64 \<Rightarrow> int \<Rightarrow> ('c, 'u) net_server \<Rightarrow> ('c, 'u) net_server option"
where
  "on_connection invoke e now err s =
    (if err \<noteq> 0 then Some s
     else do {
       c_assert (on_read s \<noteq> None);
       if stopped s then Some s
       else do {
         count \<leftarrow> HASH_COUNT (session_map s);
         if max_connection s \<le> count
         then (let msg = str ''max connection count limit''
               in invoke_read invoke NET_ERR_CONN_LIMIT 0 msg (of_nat (length msg)) s)
         else do {
           (a, s) \<leftarrow> session_create e now s;
           if ae_accept e < 0 then session_destroy s a
           else if ae_getpeername e < 0 then session_destroy s a
           else do {
             ss \<leftarrow> sessions s a;
             let s = set_session s a (ss\<lparr>peer_addr := ae_peer e\<rparr>);
             if ae_read_start e < 0 then session_destroy s a
             else do {
               let s = set_session s a (ss\<lparr>peer_addr := ae_peer e, h_reading := True\<rparr>);
               s \<leftarrow> set_session_serial s a;
               m \<leftarrow> HASH_ADD_INT (ae_avail e) (session_map s) a;
               Some (s\<lparr>session_map := m\<rparr>) } } } } })"

section \<open>Heartbeat\<close>

text \<open>\<open>(el)->hh.next\<close> of \<open>HASH_ITER\<close>, for an element pointer that may be null.\<close>

definition iter_next :: "('c, 'u) net_server \<Rightarrow> addr option \<Rightarrow> addr option option" where
  "iter_next s el =
    (case el of
       None \<Rightarrow> Some None
     | Some a \<Rightarrow> do { _ \<leftarrow> sessions s a; Some (hh_next_elt (ut_hh (session_map s)) a) })"

partial_function (option) hearbeat_loop ::
    "('c, 'u) handler \<Rightarrow> u64 \<Rightarrow> u64 \<Rightarrow> addr option \<Rightarrow> addr option \<Rightarrow> ('c, 'u) net_server
     \<Rightarrow> ('c, 'u) net_server option" where
  "hearbeat_loop invoke now max_expire el tmp s =
    (case el of
       None \<Rightarrow> Some s
     | Some a \<Rightarrow>
         Option.bind (sessions s a) (\<lambda>ss.
         Option.bind
           (if max_expire < now - last_recv_time ss
            then (let msg = str ''session timeout'' in
                  Option.bind (invoke_read invoke NET_ERR_TIMEOUT (serial_of s a) msg
                                 (of_nat (length msg)) s) (\<lambda>s.
                  Option.bind (sessions s a) (\<lambda>_.
                  Option.bind (HASH_DEL (session_map s) a) (\<lambda>m.
                  session_destroy (s\<lparr>session_map := m\<rparr>) a))))
            else Some s) (\<lambda>s.
         Option.bind (iter_next s tmp) (\<lambda>tmp'.
         hearbeat_loop invoke now max_expire tmp tmp' s))))"

definition hearbeat_timer_cb ::
    "('c, 'u) handler \<Rightarrow> u64 \<Rightarrow> ('c, 'u) net_server \<Rightarrow> ('c, 'u) net_server option" where
  "hearbeat_timer_cb invoke now s = do {
     let max_expire = ucast (max_heart_beat s) * 1000;
     let el = ut_head (session_map s);
     tmp \<leftarrow> iter_next s el;
     hearbeat_loop invoke now max_expire el tmp s
   }"

section \<open>Life cycle\<close>

text \<open>\<open>memset\<close> to zero and the settings; the \<open>udata\<close> of a zeroed server is the null pointer \<open>u0\<close>.\<close>

definition qsf_create_net_server ::
    "bool \<Rightarrow> int \<Rightarrow> int \<Rightarrow> 'u \<Rightarrow> u32 \<Rightarrow> u16 \<Rightarrow> u16 \<Rightarrow> ('c, 'u) net_server option" where
  "qsf_create_net_server got_block tcp_init timer_init u0 maxc beat check = do {
     c_assert got_block;
     c_assert (tcp_init = 0);
     c_assert (timer_init = 0);
     Some \<lparr>max_connection = maxc, max_heart_beat = beat, heart_beat_check = check, stopped = False,
           next_serial = START_SERIAL_NUMBER, udata = u0, on_read = None,
           acceptor_closing = False, timer_active = False, timer_closing = False,
           session_map = \<lparr>ut_head = None, ut_tbl = None,
             ut_hh = \<lparr>hh_prev_elt = \<lambda>_. None, hh_next_elt = \<lambda>_. None, hh_prev = \<lambda>_. None,
                      hh_next = \<lambda>_. None, hh_key = \<lambda>_. 0, hh_hashv = \<lambda>_. 0\<rparr>\<rparr>,
           sessions = \<lambda>_. None, server_freed = False\<rparr>
   }"

record start_env =
  se_addr :: int
  se_bind :: int
  se_listen :: int
  se_timer :: int

definition qsf_net_server_start ::
    "start_env \<Rightarrow> 'c \<Rightarrow> ('c, 'u) net_server \<Rightarrow> int \<times> ('c, 'u) net_server" where
  "qsf_net_server_start e cb s =
    (let s = s\<lparr>on_read := Some cb\<rparr> in
     if se_addr e < 0 then (se_addr e, s)
     else if se_bind e < 0 then (se_bind e, s)
     else if se_listen e < 0 then (se_listen e, s)
     else if se_timer e < 0 then (se_timer e, s)
     else (0, s\<lparr>timer_active := True\<rparr>))"

partial_function (option) stop_loop ::
    "addr option \<Rightarrow> addr option \<Rightarrow> ('c, 'u) net_server \<Rightarrow> ('c, 'u) net_server option" where
  "stop_loop el tmp s =
    (case el of
       None \<Rightarrow> Some s
     | Some a \<Rightarrow>
         Option.bind (sessions s a) (\<lambda>_.
         Option.bind (HASH_DEL (session_map s) a) (\<lambda>m.
         Option.bind (session_destroy (s\<lparr>session_map := m\<rparr>) a) (\<lambda>s.
         Option.bind (iter_next s tmp) (\<lambda>tmp'.
         stop_loop tmp tmp' s)))))"

definition qsf_net_server_stop :: "('c, 'u) net_server \<Rightarrow> ('c, 'u) net_server option" where
  "qsf_net_server_stop s = do {
     let s = s\<lparr>stopped := True\<rparr>;
     let el = ut_head (session_map s);
     tmp \<leftarrow> iter_next s el;
     s \<leftarrow> stop_loop el tmp s;
     let s = s\<lparr>timer_active := False\<rparr>;
     let s = (if \<not> timer_closing s then s\<lparr>timer_closing := True\<rparr> else s);
     Some (if \<not> acceptor_closing s then s\<lparr>acceptor_closing := True\<rparr> else s)
   }"

definition qsf_net_server_destroy :: "('c, 'u) net_server \<Rightarrow> ('c, 'u) net_server option" where
  "qsf_net_server_destroy s = do {
     s \<leftarrow> qsf_net_server_stop s;
     Some (s\<lparr>server_freed := True\<rparr>)
   }"

section \<open>Sending\<close>

text \<open>Whether the write buffer is allocated, and what \<open>uv_write\<close> returns on the session.\<close>

record write_env =
  we_malloc :: "addr \<Rightarrow> bool"
  we_write :: "addr \<Rightarrow> int"

text \<open>
  The buffer handed to \<open>uv_write\<close> starts at the \<open>size\<close> field, which precedes \<open>data\<close>:
  the length in network order followed by the data.
\<close>

definition do_session_write ::
    "write_env \<Rightarrow> addr \<Rightarrow> bytes \<Rightarrow> u16 \<Rightarrow> ('c, 'u) net_server \<Rightarrow> (int \<times> ('c, 'u) net_server) option"
where
  "do_session_write e a data sz s = do {
     ss \<leftarrow> sessions s a;
     c_assert (sz \<noteq> 0);
     c_assert (we_malloc e a);
     c_assert (unat sz \<le> length data);
     let buf = be16 sz @ take (unat sz) data;
     if we_write e a < 0 then Some (we_write e a, s)
     else Some (0, set_session s a (ss\<lparr>h_written := h_written ss @ [buf]\<rparr>))
   }"

definition qsf_net_server_write ::
    "write_env \<Rightarrow> u32 \<Rightarrow> bytes \<Rightarrow> u16 \<Rightarrow> ('c, 'u) net_server \<Rightarrow> (int \<times> ('c, 'u) net_server) option"
where
  "qsf_net_server_write e serial data sz s = do {
     c_assert (sz \<noteq> 0);
     session \<leftarrow> HASH_FIND_INT (session_map s) serial;
     case session of
       None \<Rightarrow> Some (-1, s)
     | Some a \<Rightarrow> do_session_write e a data sz s
   }"

partial_function (option) write_all_loop ::
    "write_env \<Rightarrow> bytes \<Rightarrow> u16 \<Rightarrow> addr option \<Rightarrow> addr option \<Rightarrow> ('c, 'u) net_server
     \<Rightarrow> ('c, 'u) net_server option" where
  "write_all_loop e data sz el tmp s =
    (case el of
       None \<Rightarrow> Some s
     | Some a \<Rightarrow>
         Option.bind (do_session_write e a data sz s) (\<lambda>(_, s).
         Option.bind (iter_next s tmp) (\<lambda>tmp'.
         write_all_loop e data sz tmp tmp' s)))"

definition qsf_net_server_write_all ::
    "write_env \<Rightarrow> bytes \<Rightarrow> u16 \<Rightarrow> ('c, 'u) net_server \<Rightarrow> (int \<times> ('c, 'u) net_server) option" where
  "qsf_net_server_write_all e data sz s = do {
     c_assert (sz \<noteq> 0);
     let el = ut_head (session_map s);
     tmp \<leftarrow> iter_next s el;
     s \<leftarrow> write_all_loop e data sz el tmp s;
     Some (0, s)
   }"

section \<open>The other operations\<close>

text \<open>\<open>r\<close> is the result of \<open>uv_shutdown\<close>, \<open>got_req\<close> whether its request block was allocated.\<close>

definition qsf_net_server_shutdown ::
    "bool \<Rightarrow> int \<Rightarrow> u32 \<Rightarrow> ('c, 'u) net_server \<Rightarrow> ('c, 'u) net_server option" where
  "qsf_net_server_shutdown got_req r serial s = do {
     session \<leftarrow> HASH_FIND_INT (session_map s) serial;
     case session of
       None \<Rightarrow> Some s
     | Some a \<Rightarrow> do {
         ss \<leftarrow> sessions s a;
         c_assert got_req;
         let ss = ss\<lparr>h_reading := False\<rparr>;
         Some (set_session s a (if r < 0 then ss else ss\<lparr>h_shutdown := True\<rparr>)) }
   }"

definition qsf_net_server_close :: "u32 \<Rightarrow> ('c, 'u) net_server \<Rightarrow> ('c, 'u) net_server option" where
  "qsf_net_server_close serial s = do {
     session \<leftarrow> HASH_FIND_INT (session_map s) serial;
     case session of
       None \<Rightarrow> Some s
     | Some a \<Rightarrow> do {
         m \<leftarrow> HASH_DEL (session_map s) a;
         session_destroy (s\<lparr>session_map := m\<rparr>) a }
   }"

text \<open>The name written to the caller's buffer, if any, and the return code.\<close>

definition qsf_net_server_session_address ::
    "(bytes \<Rightarrow> int \<Rightarrow> int \<times> bytes) \<Rightarrow> u32 \<Rightarrow> int \<Rightarrow> ('c, 'u) net_server \<Rightarrow> (int \<times> bytes option) option"
where
  "qsf_net_server_session_address uv_ip4_name serial len s = do {
     c_assert (len \<noteq> 0);
     session \<leftarrow> HASH_FIND_INT (session_map s) serial;
     case session of
       None \<Rightarrow> Some (-1, None)
     | Some a \<Rightarrow> do {
         ss \<leftarrow> sessions s a;
         let (r, name) = uv_ip4_name (peer_addr ss) len;
         Some (r, Some name) }
   }"

definition qsf_net_server_size :: "('c, 'u) net_server \<Rightarrow> int option" where
  "qsf_net_server_size s = map_option sint (HASH_COUNT (session_map s))"

definition qsf_net_set_server_udata :: "'u \<Rightarrow> ('c, 'u) net_server \<Rightarrow> ('c, 'u) net_server" where
  "qsf_net_set_server_udata ud s = s\<lparr>udata := ud\<rparr>"

definition qsf_net_get_server_udata :: "('c, 'u) net_server \<Rightarrow> 'u" where
  "qsf_net_get_server_udata s = udata s"

end
