(* ===== verification/Wire.thy ===== *)
theory Wire
  imports Net_Server
begin

text \<open>
  The wire format of \<open>src/net/qsf_net_def.h\<close> as a specification: a packet is a header of two
  bytes, the length of the content in network order, followed by the content.
  \<open>wire_parse\<close> reads as many packets as a byte sequence holds and returns what is left over;
  packets of length 0 carry no message. The lemmas say that parsing can be resumed at any
  point of the stream and that it inverts the framing.
\<close>

section \<open>Network order\<close>

lemma ntoh16_be16: "ntoh16 (be16 n ! 0) (be16 n ! 1) = n"
  by (rule bit_word_eqI) (auto simp: ntoh16_def be16_def bit_simps)

lemma ntoh16_be16_simp [simp]: "ntoh16 (ucast (drop_bit 8 n)) (ucast n) = n"
  using ntoh16_be16 [of n] by (simp add: be16_def)

lemma be16_ntoh16 [simp]: "be16 (ntoh16 h l) = [h, l]"
proof -
  have "(ucast (drop_bit 8 (ntoh16 h l)) :: byte) = h"
    by (rule bit_word_eqI) (auto simp: ntoh16_def bit_simps dest: bit_imp_le_length)
  moreover have "(ucast (ntoh16 h l) :: byte) = l"
    by (rule bit_word_eqI) (auto simp: ntoh16_def bit_simps)
  ultimately show ?thesis by (simp add: be16_def)
qed

lemma length_be16 [simp]: "length (be16 n) = 2"
  by (simp add: be16_def)

section \<open>Parsing\<close>

function wire_parse :: "bytes \<Rightarrow> bytes list \<times> bytes" where
  "wire_parse bs =
    (case bs of
       h # l # rest \<Rightarrow>
         (let n = unat (ntoh16 h l) in
          if n = 0 then wire_parse rest
          else if n \<le> length rest
          then (let (ms, r) = wire_parse (drop n rest) in (take n rest # ms, r))
          else ([], bs))
     | _ \<Rightarrow> ([], bs))"
  by pat_completeness auto
termination by (relation "measure length") auto

declare wire_parse.simps [simp del]

text \<open>A message and the packet that carries it.\<close>

definition wire_frame :: "bytes \<Rightarrow> bytes" where
  "wire_frame m = be16 (of_nat (length m)) @ m"

definition wire_ok :: "bytes \<Rightarrow> bool" where
  "wire_ok m \<longleftrightarrow> 0 < length m \<and> length m < 2 ^ 16"

lemma wire_parse_short: "length bs < 2 \<Longrightarrow> wire_parse bs = ([], bs)"
  by (subst wire_parse.simps) (auto split: list.splits)

lemma wire_parse_Nil [simp]: "wire_parse [] = ([], [])"
  by (simp add: wire_parse_short)

lemma wire_parse_cons2:
  "wire_parse (h # l # rest) =
    (if ntoh16 h l = 0 then wire_parse rest
     else if unat (ntoh16 h l) \<le> length rest
     then (take (unat (ntoh16 h l)) rest # fst (wire_parse (drop (unat (ntoh16 h l)) rest)),
           snd (wire_parse (drop (unat (ntoh16 h l)) rest)))
     else ([], h # l # rest))"
  by (subst wire_parse.simps) (simp add: Let_def case_prod_beta unat_eq_0)

lemma wire_parse_be16:
  "n \<noteq> 0 \<Longrightarrow> length p < unat n \<Longrightarrow> wire_parse (be16 n @ p) = ([], be16 n @ p)"
  by (simp add: be16_def wire_parse_cons2)

lemma wire_parse_be16_full:
  "n \<noteq> 0 \<Longrightarrow> length p = unat n \<Longrightarrow> wire_parse (be16 n @ p) = ([p], [])"
  by (simp add: be16_def wire_parse_cons2)

lemma list_two_cases: "(length bs < 2 \<Longrightarrow> P) \<Longrightarrow> (\<And>h l rest. bs = h # l # rest \<Longrightarrow> P) \<Longrightarrow> P"
  by (cases bs; cases "List.tl bs") auto

text \<open>Parsing can be resumed: what is left over is parsed together with what comes next.\<close>

lemma wire_parse_append:
  "wire_parse (x @ y) =
    (fst (wire_parse x) @ fst (wire_parse (snd (wire_parse x) @ y)),
     snd (wire_parse (snd (wire_parse x) @ y)))"
proof (induction x rule: length_induct)
  case (1 x)
  show ?case
  proof (rule list_two_cases [of x])
    assume "length x < 2"
    then show ?thesis by (simp add: wire_parse_short)
  next
    fix h l rest assume x: "x = h # l # rest"
    define n where "n = unat (ntoh16 h l)"
    show ?thesis
    proof (cases "ntoh16 h l = 0")
      case True
      then show ?thesis using 1 [rule_format, of rest] x by (simp add: wire_parse_cons2)
    next
      case nz: False
      show ?thesis
      proof (cases "n \<le> length rest")
        case True
        then show ?thesis
          using 1 [rule_format, of "drop n rest"] x nz
          by (simp add: wire_parse_cons2 n_def [symmetric])
      next
        case False
        then show ?thesis using x nz by (simp add: wire_parse_cons2 [of h l rest] n_def)
      qed
    qed
  qed
qed

lemma wire_parse_residue: "wire_parse (snd (wire_parse x)) = ([], snd (wire_parse x))"
proof (induction x rule: length_induct)
  case (1 x)
  show ?case
  proof (rule list_two_cases [of x])
    assume "length x < 2"
    then show ?thesis by (simp add: wire_parse_short)
  next
    fix h l rest assume x: "x = h # l # rest"
    then show ?thesis
      using 1 [rule_format, of rest] 1 [rule_format, of "drop (unat (ntoh16 h l)) rest"]
      by (simp add: wire_parse_cons2)
  qed
qed

lemma wire_parse_frame: "wire_ok m \<Longrightarrow> wire_parse (wire_frame m @ rest) =
    (m # fst (wire_parse rest), snd (wire_parse rest))"
proof -
  assume m: "wire_ok m"
  then have n: "unat (of_nat (length m) :: u16) = length m"
    by (intro unat_of_nat_u16) (simp add: wire_ok_def)
  moreover have "(of_nat (length m) :: u16) \<noteq> 0"
    using n m by (metis unsigned_0 wire_ok_def less_numeral_extra(3))
  ultimately show ?thesis
    by (simp add: wire_frame_def be16_def wire_parse_cons2)
qed

lemma wire_parse_frames:
  "\<forall>m \<in> set ms. wire_ok m \<Longrightarrow> wire_parse (concat (map wire_frame ms)) = (ms, [])"
  by (induction ms) (simp_all add: wire_parse_frame)

lemma wire_parse_msg_ok: "m \<in> set (fst (wire_parse x)) \<Longrightarrow> wire_ok m"
proof (induction x rule: length_induct)
  case (1 x)
  show ?case
  proof (rule list_two_cases [of x])
    assume "length x < 2"
    then show ?thesis using 1(2) by (simp add: wire_parse_short)
  next
    fix h l rest assume x: "x = h # l # rest"
    define n where "n = unat (ntoh16 h l)"
    have "n < 2 ^ 16" by (simp add: n_def)
    moreover have "ntoh16 h l \<noteq> 0 \<Longrightarrow> 0 < n" by (simp add: n_def unat_gt_0)
    ultimately have "ntoh16 h l \<noteq> 0 \<Longrightarrow> n \<le> length rest \<Longrightarrow> wire_ok (take n rest)"
      by (simp add: wire_ok_def)
    moreover have "m \<in> set (fst (wire_parse rest)) \<Longrightarrow> wire_ok m"
      "m \<in> set (fst (wire_parse (drop n rest))) \<Longrightarrow> wire_ok m"
      using 1(1) [rule_format, of rest] 1(1) [rule_format, of "drop n rest"] x by simp_all
    ultimately show ?thesis
      using 1(2) unfolding x wire_parse_cons2 n_def [symmetric] by (auto split: if_splits)
  qed
qed

end
