(* ===== verification/Session_Correct.thy ===== *)
theory Session_Correct
  imports Wire
begin

text \<open>
  The receive path of one session: \<open>sess_ok\<close> is the invariant of its buffer fields,
  \<open>sess_pending\<close> the bytes of the stream it has taken but not yet delivered. One read of the
  stream refines \<open>wire_parse\<close>, whatever the size of the chunk.
\<close>

definition sess_ok :: "net_session \<Rightarrow> bool" where
  "sess_ok ss \<longleftrightarrow>
     length (recv_buf ss) = unat (buf_size ss) \<and> 2 \<le> unat (buf_size ss) \<and>
     unat (body_size ss) \<le> unat (buf_size ss) \<and>
     None \<notin> set (take (unat (recv_bytes ss)) (recv_buf ss)) \<and>
     unat (recv_bytes ss) < (if body_size ss = 0 then 2 else unat (body_size ss))"

lemma sess_ok_flags [simp]:
  "sess_ok (ss\<lparr>h_reading := b\<rparr>) = sess_ok ss" "sess_ok (ss\<lparr>h_shutdown := b\<rparr>) = sess_ok ss"
  by (simp_all add: sess_ok_def)

definition sess_window :: "net_session \<Rightarrow> nat" where
  "sess_window ss = (if body_size ss = 0 then 2 else unat (body_size ss)) - unat (recv_bytes ss)"

definition sess_pending :: "net_session \<Rightarrow> bytes" where
  "sess_pending ss = (if body_size ss = 0 then [] else be16 (body_size ss))
     @ map the (take (unat (recv_bytes ss)) (recv_buf ss))"

text \<open>The read handler applied to a sequence of messages of one session.\<close>

fun deliver :: "('c, 'u) handler \<Rightarrow> u32 \<Rightarrow> bytes list \<Rightarrow> ('c, 'u) net_server \<Rightarrow> ('c, 'u) net_server option" where
  "deliver invoke serial [] s = Some s"
| "deliver invoke serial (m # ms) s = do {
     s \<leftarrow> invoke_read invoke 0 serial m (of_nat (length m)) s;
     deliver invoke serial ms s }"

lemma deliver_one [simp]:
  "deliver invoke serial [m] s = invoke_read invoke 0 serial m (of_nat (length m)) s"
  by (cases "invoke_read invoke 0 serial m (of_nat (length m)) s") simp_all

lemma serial_of_set_session [simp]: "serial_of (set_session s a ss) b = serial_of s b"
  by (simp add: serial_of_def set_session_def)

lemma set_session_sel [simp]:
  "sessions (set_session s a ss) = (sessions s)(a := Some ss)"
  "session_map (set_session s a ss) = session_map s" "on_read (set_session s a ss) = on_read s"
  "max_connection (set_session s a ss) = max_connection s"
  "max_heart_beat (set_session s a ss) = max_heart_beat s"
  "stopped (set_session s a ss) = stopped s" "next_serial (set_session s a ss) = next_serial s"
  "udata (set_session s a ss) = udata s" "set_session (set_session s a ss') a ss = set_session s a ss"
  by (simp_all add: set_session_def)

lemma buf_put_take:
  assumes "buf_put b off d = Some b'"
  shows "length b' = length b" "take (off + length d) b' = take off b @ map Some d"
  using assms by (auto simp: buf_put_def split: if_splits)

lemma buf_get_Some: "n \<le> length b \<Longrightarrow> None \<notin> set (take n b) \<Longrightarrow> buf_get b n = Some (map the (take n b))"
  by (simp add: buf_get_def)

text \<open>The window: it is not empty, it lies inside the buffer, and its length does not wrap.\<close>

lemma on_session_alloc_window:
  assumes "sess_ok ss" and "sessions s a = Some ss"
  shows "on_session_alloc s a = Some (unat (recv_bytes ss), of_nat (sess_window ss))"
    and "0 < sess_window ss" and "unat (recv_bytes ss) + sess_window ss \<le> length (recv_buf ss)"
    and "sess_window ss < 2 ^ 16"
proof -
  have cast: "of_nat (unat n) = (ucast n :: u64)" for n :: u16
    by (simp add: word_unat_eq_iff unat_of_nat)
  have "on_session_alloc s a = Some (unat (recv_bytes ss), of_nat (sess_window ss))"
  proof (cases "body_size ss = 0")
    case True
    then have "unat (recv_bytes ss) < 2" using assms(1) by (simp add: sess_ok_def)
    moreover from this have "recv_bytes ss \<le> 2" by (simp add: word_le_nat_alt)
    ultimately show ?thesis
      using True assms(2) by (simp add: on_session_alloc_def sess_window_def of_nat_diff cast Let_def)
  next
    case False
    then have "unat (recv_bytes ss) < unat (body_size ss)" using assms(1) by (simp add: sess_ok_def)
    then show ?thesis
      using False assms(2) by (simp add: on_session_alloc_def sess_window_def of_nat_diff cast Let_def)
  qed
  then show "on_session_alloc s a = Some (unat (recv_bytes ss), of_nat (sess_window ss))" .
  show "0 < sess_window ss" "unat (recv_bytes ss) + sess_window ss \<le> length (recv_buf ss)"
    using assms(1) by (auto simp: sess_ok_def sess_window_def split: if_splits)
  show "sess_window ss < 2 ^ 16"
    using less_imp_diff_less [OF unat_u16_less [of "body_size ss"]]
    by (cases "body_size ss = 0") (simp_all add: sess_window_def)
qed

text \<open>The state of a session after a read of \<open>d\<close>, as the code computes it on good states.\<close>

lemma recv_bytes_add:
  assumes "sess_ok ss" and "length d \<le> sess_window ss"
  shows "unat (recv_bytes ss + of_nat (length d)) = unat (recv_bytes ss) + length d"
proof -
  have "unat (recv_bytes ss) + length d \<le> max 2 (unat (body_size ss))"
    using assms by (auto simp: sess_ok_def sess_window_def split: if_splits)
  also have "\<dots> < 2 ^ 16" by simp
  finally have "unat (recv_bytes ss) + length d < 2 ^ 16" .
  then show ?thesis by (simp add: unat_word_ariths unat_of_nat)
qed

lemma uv_session_recv_step:
  assumes ok: "sess_ok ss" and s: "sessions s a = Some ss" and cb: "on_read s \<noteq> None"
    and d: "0 < length d" "length d \<le> sess_window ss" and mem: "\<forall>n < 2 ^ 16. avail n"
  shows "\<exists>ss'. uv_session_recv avail invoke uv_strerror now a d s =
      deliver invoke (serial_of s a) (fst (wire_parse (sess_pending ss @ d))) (set_session s a ss') \<and>
    sess_pending ss' = snd (wire_parse (sess_pending ss @ d)) \<and> sess_ok ss' \<and>
    ss' = ss\<lparr>last_recv_time := now, buf_size := buf_size ss', recv_bytes := recv_bytes ss',
             body_size := body_size ss', recv_buf := recv_buf ss'\<rparr>"
proof -
  note win = on_session_alloc_window [OF ok s]
  have len: "length d \<le> unat (of_nat (sess_window ss) :: u64)"
    using d(2) win(4) by (simp add: unat_of_nat)
  have fits: "unat (recv_bytes ss) + length d \<le> length (recv_buf ss)"
    using d(2) win(3) by simp
  obtain buf where buf: "buf_put (recv_buf ss) (unat (recv_bytes ss)) d = Some buf"
    using fits by (simp add: buf_put_def)
  note put = buf_put_take [OF buf]
  define rb where "rb = recv_bytes ss + of_nat (length d)"
  have rb: "unat rb = unat (recv_bytes ss) + length d"
    unfolding rb_def by (rule recv_bytes_add [OF ok d(2)])
  have init: "None \<notin> set (take (unat rb) buf)"
    unfolding rb put(2) using ok by (auto simp: sess_ok_def)
  have bytes: "map the (take (unat rb) buf) = map the (take (unat (recv_bytes ss)) (recv_buf ss)) @ d"
    unfolding rb put(2) by (simp add: o_def)
  have blen: "length buf = unat (buf_size ss)" using ok put(1) by (simp add: sess_ok_def)
  define s1 where "s1 = set_session s a (ss\<lparr>recv_buf := buf\<rparr>)"
  have rec: "uv_session_recv avail invoke uv_strerror now a d s =
      on_session_read avail invoke uv_strerror now a (int (length d)) s1"
    using win(1) len s buf by (simp add: uv_session_recv_def s1_def)
  have pos: "\<not> int (length d) \<le> 0" using d(1) by simp
  define ss1 where "ss1 = ss\<lparr>recv_buf := buf, last_recv_time := now, recv_bytes := rb\<rparr>"
  have upd: "ss\<lparr>recv_buf := buf\<rparr>\<lparr>last_recv_time := now,
      recv_bytes := recv_bytes (ss\<lparr>recv_buf := buf\<rparr>) + of_int (int (length d))\<rparr> = ss1"
    by (simp add: ss1_def rb_def)
  show ?thesis
  proof (cases "body_size ss = 0")
    case header: True
    have pend: "sess_pending ss @ d = map the (take (unat rb) buf)"
      unfolding bytes by (simp add: sess_pending_def header)
    show ?thesis
    proof (cases "rb = 2")
      case False
      have "unat rb < 2"
      proof -
        have "unat rb \<le> 2" using rb d(2) header win(2) by (simp add: sess_window_def)
        moreover have "unat rb \<noteq> 2"
          using False by (simp add: word_unat_eq_iff)
        ultimately show ?thesis by simp
      qed
      then have "wire_parse (sess_pending ss @ d) = ([], sess_pending ss @ d)"
        unfolding pend by (intro wire_parse_short) simp
      moreover have "sess_ok ss1"
        using ok header \<open>unat rb < 2\<close> init blen by (simp add: sess_ok_def ss1_def)
      moreover have "sess_pending ss1 = sess_pending ss @ d"
        unfolding pend by (simp add: sess_pending_def ss1_def header)
      moreover have "on_session_read avail invoke uv_strerror now a (int (length d)) s1 =
          Some (set_session s a ss1)"
        using False cb pos header upd
        by (simp add: on_session_read_def s1_def ss1_def rb_def)
      ultimately show ?thesis
        unfolding rec by (intro exI [of _ ss1]) (simp add: ss1_def)
    next
      case True
      define h where "h = the (buf ! 0)"
      define l where "l = the (buf ! 1)"
      have two: "2 \<le> length buf" using ok blen by (simp add: sess_ok_def)
      then have take2: "take 2 buf = [buf ! 0, buf ! 1]"
        by (cases buf; cases "List.tl buf") (auto simp: numeral_2_eq_2)
      have u2: "unat rb = 2" using True by simp
      have get: "buf_get buf 2 = Some [h, l]"
        using two init buf_get_Some [of 2 buf] unfolding u2 by (simp add: take2 h_def l_def)
      have pd: "sess_pending ss @ d = [h, l]"
        unfolding pend u2 take2 by (simp add: h_def l_def)
      define n where "n = ntoh16 h l"
      define ss2 where "ss2 = (if buf_size ss < ucast n
          then ss1\<lparr>body_size := n, recv_bytes := 0,
                   recv_buf := qsf_malloc avail (unat n), buf_size := ucast n\<rparr>
          else ss1\<lparr>body_size := n, recv_bytes := 0\<rparr>)"
      have u: "unat (ucast n :: u32) = unat n" by (rule unat_ucast_u16)
      have small: "buf_size ss < ucast n \<longleftrightarrow> unat (buf_size ss) < unat n"
        unfolding word_less_nat_alt u ..
      have "avail (unat n)" using mem by simp
      moreover have "n \<noteq> 0 \<Longrightarrow> 0 < unat n" by (simp add: unat_gt_0)
      ultimately have "sess_ok ss2"
        using ok blen u small
        by (auto simp: sess_ok_def ss2_def ss1_def qsf_malloc_def)
      moreover have "sess_pending ss2 = (if n = 0 then [] else [h, l])"
        by (simp add: sess_pending_def ss2_def ss1_def n_def)
      moreover have "wire_parse [h, l] = ([], if n = 0 then [] else [h, l])"
        by (simp add: wire_parse_cons2 n_def unat_eq_0)
      moreover have "on_session_read avail invoke uv_strerror now a (int (length d)) s1 =
          Some (set_session s a ss2)"
      proof -
        have "on_session_read avail invoke uv_strerror now a (int (length d)) s1 =
            Some (set_session s1 a ss2)"
          using True cb pos header upd get
          by (simp add: on_session_read_def s1_def ss1_def rb_def ss2_def n_def)
        then show ?thesis by (simp add: s1_def)
      qed
      ultimately show ?thesis
        unfolding rec pd by (intro exI [of _ ss2]) (simp add: ss2_def ss1_def)
    qed
  next
    case body: False
    define n where "n = body_size ss"
    have n0: "n \<noteq> 0" using body by (simp add: n_def)
    have pd: "sess_pending ss @ d = be16 n @ map the (take (unat rb) buf)"
      unfolding bytes using body by (simp add: sess_pending_def n_def)
    have fit: "unat n \<le> length buf" using ok blen by (simp add: sess_ok_def n_def)
    have le: "unat rb \<le> unat n"
      using d(2) win(2) body unfolding rb sess_window_def n_def by simp
    then have lrb: "length (map the (take (unat rb) buf)) = unat rb" using fit by simp
    show ?thesis
    proof (cases "rb = n")
      case False
      then have lt: "unat rb < unat n" using le by (simp add: word_unat_eq_iff)
      then have "wire_parse (sess_pending ss @ d) = ([], sess_pending ss @ d)"
        unfolding pd using lrb by (intro wire_parse_be16 n0) simp
      moreover have "sess_ok ss1"
        using ok lt init blen n0 by (simp add: sess_ok_def ss1_def n_def)
      moreover have "sess_pending ss1 = sess_pending ss @ d"
        unfolding pd using n0 by (simp add: sess_pending_def ss1_def n_def)
      moreover have "on_session_read avail invoke uv_strerror now a (int (length d)) s1 =
          Some (set_session s a ss1)"
        using False cb pos body upd
        by (simp add: on_session_read_def s1_def ss1_def rb_def n_def)
      ultimately show ?thesis
        unfolding rec by (intro exI [of _ ss1]) (simp add: ss1_def)
    next
      case True
      define m where "m = map the (take (unat n) buf)"
      have lm: "length m = unat n" using lrb True by (simp add: m_def)
      have "wire_parse (sess_pending ss @ d) = ([m], [])"
        unfolding pd using True lm n0 by (simp add: m_def wire_parse_be16_full)
      moreover have get: "buf_get buf (unat n) = Some m"
        using fit init True buf_get_Some by (simp add: m_def)
      define ss2 where "ss2 = ss1\<lparr>recv_bytes := 0, body_size := 0\<rparr>"
      have "sess_ok ss2" using ok blen by (simp add: sess_ok_def ss2_def ss1_def)
      moreover have "sess_pending ss2 = []" by (simp add: sess_pending_def ss2_def)
      moreover have "on_session_read avail invoke uv_strerror now a (int (length d)) s1 =
          invoke_read invoke 0 (serial_of s a) m (of_nat (length m)) (set_session s a ss2)"
      proof -
        have "on_session_read avail invoke uv_strerror now a (int (length d)) s1 =
            invoke_read invoke 0 (serial_of s a) m n (set_session s1 a ss2)"
          using True cb pos body upd get
          by (simp add: on_session_read_def s1_def ss1_def rb_def ss2_def n_def)
        then show ?thesis by (simp add: s1_def lm)
      qed
      ultimately show ?thesis
        unfolding rec by (intro exI [of _ ss2]) (simp add: ss2_def ss1_def del: deliver.simps(2))
    qed
  qed
qed

end
