(* ===== verification/Keyed_Table.thy ===== *)
theory Keyed_Table
  imports Prelude
begin

text \<open>
  What the net server relies on when it calls the hash table: an interface, stated once as a
  locale over an abstract table state. \<open>rep m xs\<close> says that the table \<open>m\<close> is well formed
  and holds the elements \<open>xs\<close>, in the order of their insertion. The laws are the contract of
  \<open>HASH_FIND_INT\<close>, \<open>HASH_ADD_INT\<close>, \<open>HASH_DEL\<close>, \<open>HASH_COUNT\<close> and of the two pointer reads
  that \<open>HASH_ITER\<close> is made of.
\<close>

locale keyed_table =
  fixes rep :: "'m \<Rightarrow> 'e list \<Rightarrow> bool"
    and key :: "'m \<Rightarrow> 'e \<Rightarrow> 'k"
    and find :: "'m \<Rightarrow> 'k \<Rightarrow> 'e option option"
    and add :: "'m \<Rightarrow> 'e \<Rightarrow> 'm option"
    and del :: "'m \<Rightarrow> 'e \<Rightarrow> 'm option"
    and count :: "'m \<Rightarrow> nat option"
    and head :: "'m \<Rightarrow> 'e option"
    and next_elt :: "'m \<Rightarrow> 'e \<Rightarrow> 'e option"
  assumes rep_distinct: "rep m xs \<Longrightarrow> distinct xs"
    and rep_keys: "rep m xs \<Longrightarrow> distinct (map (key m) xs)"
    and find_law: "rep m xs \<Longrightarrow> find m k = Some (List.find (\<lambda>a. key m a = k) xs)"
    and add_law: "rep m xs \<Longrightarrow> a \<notin> set xs \<Longrightarrow> key m a \<notin> key m ` set xs \<Longrightarrow>
      Suc (length xs) < 2 ^ 32 \<Longrightarrow> add m a = Some m' \<Longrightarrow> rep m' (xs @ [a]) \<and> key m' = key m"
    and del_law: "rep m xs \<Longrightarrow> a \<in> set xs \<Longrightarrow> \<exists>m'. del m a = Some m' \<and> rep m' (remove1 a xs) \<and> key m' = key m"
    and count_law: "rep m xs \<Longrightarrow> count m = Some (length xs)"
    and head_law: "rep m xs \<Longrightarrow> head m = hd_or xs None"
    and next_law: "rep m (us @ a # vs) \<Longrightarrow> next_elt m a = hd_or vs None"
begin

lemma key_inj: "rep m xs \<Longrightarrow> a \<in> set xs \<Longrightarrow> b \<in> set xs \<Longrightarrow> key m a = key m b \<Longrightarrow> a = b"
  by (meson inj_on_contraD rep_keys distinct_map)

lemma find_None_iff: "rep m xs \<Longrightarrow> find m k = Some None \<longleftrightarrow> k \<notin> key m ` set xs"
  by (auto simp: find_law find_None_iff)

lemma find_SomeD:
  assumes "rep m xs" and "find m k = Some (Some a)"
  shows "a \<in> set xs \<and> key m a = k"
  using assms by (auto simp: find_law find_Some_iff)

lemma find_mem: "rep m xs \<Longrightarrow> a \<in> set xs \<Longrightarrow> find m (key m a) = Some (Some a)"
proof -
  assume r: "rep m xs" and a: "a \<in> set xs"
  then have "find m (key m a) \<noteq> Some None" by (simp add: find_None_iff)
  then obtain b where b: "find m (key m a) = Some (Some b)" by (auto simp: find_law [OF r])
  with r a show ?thesis by (metis find_SomeD key_inj)
qed

lemma find_total: "rep m xs \<Longrightarrow> find m k \<noteq> None"
  by (simp add: find_law)

lemma find_after_add:
  assumes "rep m xs" and "rep m' (xs @ [a])" and "key m' = key m"
  shows "find m' (key m a) = Some (Some a)"
    and "k \<noteq> key m a \<Longrightarrow> find m' k = find m k"
proof -
  show "find m' (key m a) = Some (Some a)"
    using find_mem [OF assms(2), of a] assms(3) by simp
  assume k: "k \<noteq> key m a"
  have "List.find (\<lambda>b. key m b = k) (xs @ [a]) = List.find (\<lambda>b. key m b = k) xs"
    using k by (induction xs) auto
  then show "find m' k = find m k"
    using assms by (simp add: find_law)
qed

lemma find_after_del:
  assumes "rep m xs" and "a \<in> set xs" and "rep m' (remove1 a xs)" and "key m' = key m"
  shows "find m' (key m a) = Some None"
    and "k \<noteq> key m a \<Longrightarrow> find m' k = find m k"
proof -
  have "key m a \<notin> key m ` set (remove1 a xs)"
    using key_inj [OF assms(1)] assms(2) rep_distinct [OF assms(1)] by auto
  then show "find m' (key m a) = Some None"
    using find_None_iff [OF assms(3)] assms(4) by simp
  assume k: "k \<noteq> key m a"
  have "List.find (\<lambda>b. key m b = k) (remove1 a xs) = List.find (\<lambda>b. key m b = k) xs"
    using k by (induction xs) auto
  then show "find m' k = find m k"
    using assms by (simp add: find_law)
qed

text \<open>
  The step of \<open>HASH_ITER\<close> that deletes its current element: the saved successor \<open>b\<close> and
  the successor of \<open>b\<close> are still right afterwards, so the iteration goes on over the rest.
\<close>

lemma iter_del_step:
  assumes "rep m (us @ a # vs)"
  obtains m' where "del m a = Some m'" and "rep m' (us @ vs)" and "key m' = key m"
proof -
  have "remove1 a (us @ a # vs) = us @ vs"
    using rep_distinct [OF assms] by (simp add: remove1_split)
  then show ?thesis
    using del_law [OF assms, of a] that by auto
qed

text \<open>Deleting an element does not change the successor of the one after it.\<close>

lemma del_next: "rep m (us @ a # b # vs) \<Longrightarrow> del m a = Some m' \<Longrightarrow> next_elt m' b = hd_or vs None"
  using iter_del_step next_law by (metis option.inject)

end

end
