(* ===== verification/Uthash_Correct.thy ===== *)
theory Uthash_Correct
  imports Uthash Keyed_Table
begin

text \<open>
  Correctness of the hash table of theory Uthash. \<open>ut_rep u xs\<close> is the well-formedness
  invariant together with the abstraction: \<open>xs\<close> are the elements in application order. The
  bucket array is described by \<open>bkts_rep\<close>, which the addition, the deletion and every step
  of an expansion keep. The theory ends with the interpretation of the interface
  \<open>keyed_table\<close> on the model's own operations.
\<close>

section \<open>Bucket numbers\<close>

lemma HASH_TO_BKT_mod: "HASH_TO_BKT hv (2 ^ l) = unat hv mod 2 ^ l"
proof -
  have "hv AND (2 ^ l - 1) = take_bit l hv"
    by (simp add: take_bit_eq_mask mask_eq_exp_minus_1)
  moreover have "unat (take_bit l hv) = take_bit l (unat hv)"
    by (simp add: unsigned_take_bit_eq)
  ultimately show ?thesis
    by (simp only: HASH_TO_BKT_def) (simp only: take_bit_eq_mod)
qed

lemma HASH_TO_BKT_less: "HASH_TO_BKT hv (2 ^ l) < 2 ^ l"
  by (simp add: HASH_TO_BKT_mod)

lemma unat_pow2_u32: "l < 32 \<Longrightarrow> unat (2 ^ l :: u32) = 2 ^ l"
proof -
  assume "l < 32"
  then have "(2 :: nat) ^ l < 2 ^ 32" by (rule power_strict_increasing) simp
  moreover have "unat (of_nat (2 ^ l) :: u32) = take_bit 32 (2 ^ l)"
    by (simp only: unsigned_of_nat) simp
  ultimately show ?thesis using \<open>l < 32\<close> by simp
qed

section \<open>The bucket array\<close>

definition bkts_rep ::
    "(addr \<Rightarrow> addr option) \<Rightarrow> (addr \<Rightarrow> addr option) \<Rightarrow> (addr \<Rightarrow> nat) \<Rightarrow> UT_hash_bucket list \<Rightarrow> addr set
     \<Rightarrow> bool" where
  "bkts_rep nx pv idx bs D \<longleftrightarrow>
     (\<forall>i < length bs. \<exists>ys. dlseg nx pv None ys None \<and> distinct ys \<and>
        set ys = {a \<in> D. idx a = i} \<and> hh_head (bs ! i) = hd_or ys None \<and>
        bkt_count (bs ! i) = of_nat (length ys))"

lemma bkts_repE:
  assumes "bkts_rep nx pv idx bs D" and "i < length bs"
  obtains ys where "dlseg nx pv None ys None" and "distinct ys" and "set ys = {a \<in> D. idx a = i}"
    and "hh_head (bs ! i) = hd_or ys None" and "bkt_count (bs ! i) = of_nat (length ys)"
  using assms unfolding bkts_rep_def by blast

lemma bkts_rep_empty: "bkts_rep nx pv idx (replicate n empty_bucket) {}"
  unfolding bkts_rep_def
  by (intro allI impI exI [of _ "[]"]) (simp add: empty_bucket_def)

lemma bkts_rep_frame:
  assumes "bkts_rep nx pv idx bs D" and "\<forall>a \<in> D. nx' a = nx a \<and> pv' a = pv a \<and> idx' a = idx a"
  shows "bkts_rep nx' pv' idx' bs D"
  unfolding bkts_rep_def
proof (intro allI impI)
  fix i assume "i < length bs"
  then obtain ys where ys: "dlseg nx pv None ys None" "distinct ys" "set ys = {a \<in> D. idx a = i}"
      "hh_head (bs ! i) = hd_or ys None" "bkt_count (bs ! i) = of_nat (length ys)"
    by (rule bkts_repE [OF assms(1)])
  have "dlseg nx' pv' None ys None"
    using ys(1,3) assms(2) dlseg_cong [of ys nx' nx pv' pv] by auto
  moreover have "set ys = {a \<in> D. idx' a = i}" using ys(3) assms(2) by auto
  ultimately show "\<exists>ys. dlseg nx' pv' None ys None \<and> distinct ys \<and> set ys = {a \<in> D. idx' a = i} \<and>
      hh_head (bs ! i) = hd_or ys None \<and> bkt_count (bs ! i) = of_nat (length ys)"
    using ys by blast
qed

text \<open>Pushing a new element onto the front of its bucket.\<close>

lemma bkts_rep_push:
  assumes rep: "bkts_rep nx pv idx bs D" and a: "a \<notin> D" and b: "idx a = b" "b < length bs"
    and bkt: "hh_head bkt' = Some a" "bkt_count bkt' = bkt_count (bs ! b) + 1"
  shows "bkts_rep (nx(a := hh_head (bs ! b))) (opt_upd (pv(a := None)) (hh_head (bs ! b)) (Some a))
           idx (bs[b := bkt']) (insert a D)"
    (is "bkts_rep ?nx ?pv idx ?bs _")
  unfolding bkts_rep_def
proof (intro allI impI)
  fix i assume "i < length ?bs"
  then have i: "i < length bs" by simp
  obtain zs where zs: "dlseg nx pv None zs None" "distinct zs" "set zs = {x \<in> D. idx x = b}"
      "hh_head (bs ! b) = hd_or zs None" "bkt_count (bs ! b) = of_nat (length zs)"
    using bkts_repE [OF rep b(2)] by blast
  show "\<exists>ys. dlseg ?nx ?pv None ys None \<and> distinct ys \<and> set ys = {x \<in> insert a D. idx x = i} \<and>
      hh_head (?bs ! i) = hd_or ys None \<and> bkt_count (?bs ! i) = of_nat (length ys)"
  proof (cases "i = b")
    case True
    have "a \<notin> set zs" using zs(3) a by simp
    then have "dlseg ?nx ?pv None (a # zs) None"
      unfolding zs(4) by (rule dlseg_push [OF zs(1,2)])
    moreover have "set (a # zs) = {x \<in> insert a D. idx x = i}"
      using zs(3) b True by auto
    ultimately show ?thesis
      using True zs a b bkt \<open>a \<notin> set zs\<close> by (intro exI [of _ "a # zs"]) (auto simp: add.commute)
  next
    case False
    obtain ys where ys: "dlseg nx pv None ys None" "distinct ys" "set ys = {x \<in> D. idx x = i}"
        "hh_head (bs ! i) = hd_or ys None" "bkt_count (bs ! i) = of_nat (length ys)"
      using bkts_repE [OF rep i] by blast
    have "\<forall>x \<in> set ys. x \<noteq> a \<and> hh_head (bs ! b) \<noteq> Some x"
      using ys(3) zs(3,4) a False by (auto dest!: hd_or_Some_in [OF sym] hd_or_Some_in)
    then have "\<forall>x \<in> set ys. ?nx x = nx x \<and> ?pv x = pv x"
      by (auto simp: opt_upd_other)
    then have "dlseg ?nx ?pv None ys None" using ys(1) dlseg_cong [of ys ?nx nx ?pv pv] by simp
    moreover have "set ys = {x \<in> insert a D. idx x = i}" using ys(3) b False by auto
    ultimately show ?thesis using False ys by (intro exI [of _ ys]) auto
  qed
qed

text \<open>Unlinking an element from its bucket.\<close>

lemma bkts_rep_unlink:
  assumes rep: "bkts_rep nx pv idx bs D" and a: "a \<in> D" and b: "idx a = b" "b < length bs"
    and bkt: "hh_head bkt' = (if hh_head (bs ! b) = Some a then nx a else hh_head (bs ! b))"
      "bkt_count bkt' = bkt_count (bs ! b) - 1"
  shows "bkts_rep (opt_upd nx (pv a) (nx a)) (opt_upd pv (nx a) (pv a)) idx (bs[b := bkt']) (D - {a})"
    (is "bkts_rep ?nx ?pv idx ?bs _")
  unfolding bkts_rep_def
proof (intro allI impI)
  fix i assume "i < length ?bs"
  then have i: "i < length bs" by simp
  obtain zs where zs: "dlseg nx pv None zs None" "distinct zs" "set zs = {x \<in> D. idx x = b}"
      "hh_head (bs ! b) = hd_or zs None" "bkt_count (bs ! b) = of_nat (length zs)"
    using bkts_repE [OF rep b(2)] by blast
  have "a \<in> set zs" using zs(3) a b by simp
  then obtain us vs where uv: "zs = us @ a # vs" using split_list by fast
  have links: "pv a = last_or None us" "nx a = hd_or vs None"
    using zs(1) uv by simp_all
  show "\<exists>ys. dlseg ?nx ?pv None ys None \<and> distinct ys \<and> set ys = {x \<in> D - {a}. idx x = i} \<and>
      hh_head (?bs ! i) = hd_or ys None \<and> bkt_count (?bs ! i) = of_nat (length ys)"
  proof (cases "i = b")
    case True
    have "dlseg ?nx ?pv None (us @ vs) None"
      using dlseg_unlink [of nx pv us a vs] zs(1,2) uv by simp
    moreover have "set (us @ vs) = {x \<in> D - {a}. idx x = i}"
    proof -
      have "set (us @ vs) = set zs - {a}" using zs(2) uv by auto
      then show ?thesis using zs(3) True by auto
    qed
    moreover have "hh_head bkt' = hd_or (us @ vs) None"
      using zs(2,4) uv links bkt(1) by (cases us) auto
    moreover have "bkt_count bkt' = of_nat (length (us @ vs))"
      using zs(5) uv bkt(2) by simp
    ultimately show ?thesis
      using True zs(2) uv b by (intro exI [of _ "us @ vs"]) auto
  next
    case False
    obtain ys where ys: "dlseg nx pv None ys None" "distinct ys" "set ys = {x \<in> D. idx x = i}"
        "hh_head (bs ! i) = hd_or ys None" "bkt_count (bs ! i) = of_nat (length ys)"
      using bkts_repE [OF rep i] by blast
    have "\<forall>x \<in> set ys. x \<notin> set zs" using ys(3) zs(3) False by auto
    then have "\<forall>x \<in> set ys. pv a \<noteq> Some x \<and> nx a \<noteq> Some x"
      using links uv by (auto dest!: last_or_Some_in hd_or_Some_in)
    then have "\<forall>x \<in> set ys. ?nx x = nx x \<and> ?pv x = pv x"
      by (simp add: opt_upd_other)
    then have "dlseg ?nx ?pv None ys None" using ys(1) dlseg_cong [of ys ?nx nx ?pv pv] by simp
    moreover have "set ys = {x \<in> D - {a}. idx x = i}" using ys(3) b False by auto
    ultimately show ?thesis using False ys by (intro exI [of _ ys]) auto
  qed
qed

section \<open>Expansion\<close>

text \<open>Two states of the handles that agree but for the bucket links.\<close>

definition same_but_links :: "ut_handles \<Rightarrow> ut_handles \<Rightarrow> bool" where
  "same_but_links h h' \<longleftrightarrow> hh_hashv h' = hh_hashv h \<and> hh_key h' = hh_key h \<and>
     hh_prev_elt h' = hh_prev_elt h \<and> hh_next_elt h' = hh_next_elt h"

lemma same_but_links_sel:
  assumes "same_but_links h h'"
  shows "hh_hashv h' = hh_hashv h" "hh_key h' = hh_key h"
    "hh_prev_elt h' = hh_prev_elt h" "hh_next_elt h' = hh_next_elt h"
  using assms by (simp_all add: same_but_links_def)

lemma same_but_links_trans: "same_but_links h h' \<Longrightarrow> same_but_links h' h'' \<Longrightarrow> same_but_links h h''"
  by (simp add: same_but_links_def)

abbreviation bkt_idx :: "ut_handles \<Rightarrow> u32 \<Rightarrow> addr \<Rightarrow> nat" where
  "bkt_idx h nb \<equiv> \<lambda>a. HASH_TO_BKT (hh_hashv h a) nb"

lemma expand_chain_rep:
  assumes "dlseg (hh_next h) (hh_prev h) p ys None" and "distinct ys" and "set ys \<inter> D = {}"
    and "bkts_rep (hh_next h) (hh_prev h) (bkt_idx h nb2) nbs D"
    and "\<forall>a. bkt_idx h nb2 a < length nbs" and "ideal \<noteq> 0"
  shows "\<exists>h' nbs' ni'. expand_chain nb2 ideal (hd_or ys None) h nbs ni = Some (h', nbs', ni') \<and>
    bkts_rep (hh_next h') (hh_prev h') (bkt_idx h nb2) nbs' (D \<union> set ys) \<and>
    length nbs' = length nbs \<and> same_but_links h h' \<and>
    (\<forall>x. x \<notin> D \<union> set ys \<longrightarrow> hh_next h' x = hh_next h x \<and> hh_prev h' x = hh_prev h x)"
  using assms
proof (induction ys arbitrary: p h nbs ni D)
  case Nil
  then show ?case by (simp add: expand_chain.simps same_but_links_def)
next
  case (Cons a ys)
  define b where "b = bkt_idx h nb2 a"
  define bkt where "bkt = nbs ! b"
  define over where "over \<longleftrightarrow> ideal < bkt_count bkt + 1"
  define bkt' where "bkt' = \<lparr>hh_head = Some a, bkt_count = bkt_count bkt + 1,
      expand_mult = (if over then (bkt_count bkt + 1) div ideal else expand_mult bkt)\<rparr>"
  define h1 where "h1 = h\<lparr>hh_prev := opt_upd ((hh_prev h)(a := None)) (hh_head bkt) (Some a),
      hh_next := (hh_next h)(a := hh_head bkt)\<rparr>"
  define ni1 where "ni1 = (if over then ni + 1 else ni)"
  have b: "b < length nbs" using Cons.prems(5) by (simp add: b_def)
  have unf: "expand_chain nb2 ideal (hd_or (a # ys) None) h nbs ni =
      expand_chain nb2 ideal (hd_or ys None) h1 (nbs[b := bkt']) ni1"
    using Cons.prems(1,6) b
    unfolding b_def bkt_def over_def bkt'_def h1_def ni1_def
    by (subst expand_chain.simps) (simp add: Let_def)
  have h1: "same_but_links h h1" by (simp add: same_but_links_def h1_def)
  have D: "a \<notin> D" using Cons.prems(3) by simp
  have head_in: "z \<in> D" if z: "hh_head bkt = Some z" for z
  proof -
    obtain zs where "set zs = {x \<in> D. bkt_idx h nb2 x = b}" "hh_head (nbs ! b) = hd_or zs None"
      by (rule bkts_repE [OF Cons.prems(4) b])
    then show ?thesis using z hd_or_Some_in [of zs z] by (simp add: bkt_def)
  qed
  have push: "bkts_rep (hh_next h1) (hh_prev h1) (bkt_idx h nb2) (nbs[b := bkt']) (insert a D)"
    using bkts_rep_push [OF Cons.prems(4) D b_def [symmetric] b, of bkt']
    by (simp add: h1_def bkt'_def bkt_def)
  have frame: "x \<noteq> a \<Longrightarrow> x \<notin> D \<Longrightarrow> hh_next h1 x = hh_next h x \<and> hh_prev h1 x = hh_prev h x" for x
    using head_in by (auto simp: h1_def opt_upd_def split: option.splits)
  have "\<forall>x \<in> set ys. hh_next h1 x = hh_next h x \<and> hh_prev h1 x = hh_prev h x"
  proof
    fix x assume "x \<in> set ys"
    then have "x \<noteq> a" and "x \<notin> D" using Cons.prems(2,3) by auto
    then show "hh_next h1 x = hh_next h x \<and> hh_prev h1 x = hh_prev h x" by (rule frame)
  qed
  then have rest: "dlseg (hh_next h1) (hh_prev h1) (Some a) ys None"
    using Cons.prems(1) dlseg_cong [of ys "hh_next h1" "hh_next h" "hh_prev h1" "hh_prev h"] by simp
  have idx: "hh_hashv h1 = hh_hashv h" using same_but_links_sel [OF h1] by simp
  have "\<exists>h' nbs' ni'. expand_chain nb2 ideal (hd_or ys None) h1 (nbs[b := bkt']) ni1 = Some (h', nbs', ni') \<and>
    bkts_rep (hh_next h') (hh_prev h') (bkt_idx h1 nb2) nbs' (insert a D \<union> set ys) \<and>
    length nbs' = length (nbs[b := bkt']) \<and> same_but_links h1 h' \<and>
    (\<forall>x. x \<notin> insert a D \<union> set ys \<longrightarrow> hh_next h' x = hh_next h1 x \<and> hh_prev h' x = hh_prev h1 x)"
    by (rule Cons.IH [OF rest]) (use Cons.prems push idx in auto)
  then obtain h' nbs' ni' where res:
      "expand_chain nb2 ideal (hd_or ys None) h1 (nbs[b := bkt']) ni1 = Some (h', nbs', ni')"
      "bkts_rep (hh_next h') (hh_prev h') (bkt_idx h nb2) nbs' (insert a D \<union> set ys)"
      "length nbs' = length nbs" "same_but_links h1 h'"
      "\<forall>x. x \<notin> insert a D \<union> set ys \<longrightarrow> hh_next h' x = hh_next h1 x \<and> hh_prev h' x = hh_prev h1 x"
    unfolding idx by auto
  have "\<forall>x. x \<notin> D \<union> set (a # ys) \<longrightarrow> hh_next h' x = hh_next h x \<and> hh_prev h' x = hh_prev h x"
    using res(5) frame by simp
  moreover have "D \<union> set (a # ys) = insert a D \<union> set ys" by auto
  ultimately show ?case
    unfolding unf using res(1-3) same_but_links_trans [OF h1 res(4)]
    by (intro exI [of _ h'] exI [of _ nbs'] exI [of _ ni'] conjI) simp_all
qed

lemma expand_loop_rep:
  fixes obs :: "UT_hash_bucket list" and X :: "addr set" and oidx :: "addr \<Rightarrow> nat"
  assumes "k \<le> length obs"
    and "\<forall>i. k \<le> i \<and> i < length obs \<longrightarrow> (\<exists>ys. dlseg (hh_next h) (hh_prev h) None ys None \<and>
           distinct ys \<and> set ys = {a \<in> X. oidx a = i} \<and> hh_head (obs ! i) = hd_or ys None)"
    and "bkts_rep (hh_next h) (hh_prev h) (bkt_idx h nb2) nbs {a \<in> X. oidx a < k}"
    and "\<forall>a. bkt_idx h nb2 a < length nbs" and "ideal \<noteq> 0"
  shows "\<exists>h' nbs' ni'. expand_loop nb2 ideal (drop k obs) h nbs ni = Some (h', nbs', ni') \<and>
    bkts_rep (hh_next h') (hh_prev h') (bkt_idx h nb2) nbs' {a \<in> X. oidx a < length obs} \<and>
    length nbs' = length nbs \<and> same_but_links h h'"
  using assms
proof (induction "length obs - k" arbitrary: k h nbs ni)
  case 0
  then show ?case by (simp add: same_but_links_def)
next
  case (Suc n)
  let ?D = "{a \<in> X. oidx a < k}"
  have k: "k < length obs" using Suc.hyps(2) by simp
  obtain ys where ys: "dlseg (hh_next h) (hh_prev h) None ys None" "distinct ys"
      "set ys = {a \<in> X. oidx a = k}" "hh_head (obs ! k) = hd_or ys None"
    using Suc.prems(2) k by blast
  have "set ys \<inter> ?D = {}" using ys(3) by auto
  from expand_chain_rep [OF ys(1,2) this Suc.prems(3,4,5), of ni]
  obtain h1 nbs1 ni1 where c: "expand_chain nb2 ideal (hd_or ys None) h nbs ni = Some (h1, nbs1, ni1)"
    and r: "bkts_rep (hh_next h1) (hh_prev h1) (bkt_idx h nb2) nbs1 (?D \<union> set ys)"
    and len: "length nbs1 = length nbs" and same: "same_but_links h h1"
    and frame: "\<forall>x. x \<notin> ?D \<union> set ys \<longrightarrow> hh_next h1 x = hh_next h x \<and> hh_prev h1 x = hh_prev h x"
    by auto
  have idx: "hh_hashv h1 = hh_hashv h" using same_but_links_sel [OF same] by simp
  have D: "?D \<union> set ys = {a \<in> X. oidx a < Suc k}"
    unfolding ys(3) less_Suc_eq by blast
  have old: "\<forall>i. Suc k \<le> i \<and> i < length obs \<longrightarrow> (\<exists>ys. dlseg (hh_next h1) (hh_prev h1) None ys None \<and>
           distinct ys \<and> set ys = {a \<in> X. oidx a = i} \<and> hh_head (obs ! i) = hd_or ys None)"
  proof (intro allI impI)
    fix i assume i: "Suc k \<le> i \<and> i < length obs"
    then obtain zs where zs: "dlseg (hh_next h) (hh_prev h) None zs None" "distinct zs"
        "set zs = {a \<in> X. oidx a = i}" "hh_head (obs ! i) = hd_or zs None"
      using Suc.prems(2) by (meson Suc_leD)
    have "\<forall>x \<in> set zs. hh_next h1 x = hh_next h x \<and> hh_prev h1 x = hh_prev h x"
      using frame zs(3) i ys(3) by auto
    with zs show "\<exists>ys. dlseg (hh_next h1) (hh_prev h1) None ys None \<and>
           distinct ys \<and> set ys = {a \<in> X. oidx a = i} \<and> hh_head (obs ! i) = hd_or ys None"
      using dlseg_cong [of zs] by blast
  qed
  have "\<exists>h' nbs' ni'. expand_loop nb2 ideal (drop (Suc k) obs) h1 nbs1 ni1 = Some (h', nbs', ni') \<and>
    bkts_rep (hh_next h') (hh_prev h') (bkt_idx h1 nb2) nbs' {a \<in> X. oidx a < length obs} \<and>
    length nbs' = length nbs1 \<and> same_but_links h1 h'"
    by (rule Suc.hyps(1)) (use Suc.hyps(2) k old r D idx len Suc.prems in auto)
  then obtain h' nbs' ni' where res:
      "expand_loop nb2 ideal (drop (Suc k) obs) h1 nbs1 ni1 = Some (h', nbs', ni')"
      "bkts_rep (hh_next h') (hh_prev h') (bkt_idx h nb2) nbs' {a \<in> X. oidx a < length obs}"
      "length nbs' = length nbs" "same_but_links h1 h'"
    unfolding idx len by auto
  moreover have "drop k obs = obs ! k # drop (Suc k) obs" using k by (simp add: Cons_nth_drop_Suc)
  ultimately show ?case
    using c ys(4) same_but_links_trans [OF same res(4)]
    by (intro exI [of _ h'] exI [of _ nbs'] exI [of _ ni'] conjI) simp_all
qed

text \<open>
  The part of the table's invariant that concerns the buckets: their number is a power of two,
  kept in step with its logarithm, and every element of \<open>D\<close> is in the bucket of its hash
  value. The bound 30 is what the allocator's limit leaves.
\<close>

definition bt_rep :: "ut_handles \<Rightarrow> UT_hash_table \<Rightarrow> addr set \<Rightarrow> bool" where
  "bt_rep h t D \<longleftrightarrow> (\<exists>l. 5 \<le> l \<and> l \<le> 30 \<and> num_buckets t = 2 ^ l \<and> log2_num_buckets t = of_nat l \<and>
     length (buckets t) = 2 ^ l \<and>
     bkts_rep (hh_next h) (hh_prev h) (bkt_idx h (2 ^ l)) (buckets t) D)"

lemma ideal_nonzero:
  fixes n :: u32
  assumes "n \<noteq> 0" and "l < 31"
  shows "drop_bit (l + 1) n + (if n AND (2 ^ (l + 1) - 1) \<noteq> 0 then 1 else 0) \<noteq> 0"
proof (cases "take_bit (l + 1) n = 0")
  case True
  then have "drop_bit (l + 1) n \<noteq> 0"
    using assms(1) bits_ident [of "l + 1" n] by auto
  then show ?thesis
    using True by (simp add: take_bit_eq_mask mask_eq_exp_minus_1)
next
  case False
  have "unat (drop_bit (l + 1) n) = unat n div 2 ^ (l + 1)"
    using unat_u32_less [of n]
    by (simp only: unsigned_drop_bit_eq) (simp add: drop_bit_eq_div take_bit_nat_eq_self)
  also have "\<dots> \<le> unat n div 2"
    by (simp add: div_le_mono2)
  also have "\<dots> < 2 ^ 31" using unat_u32_less [of n] by (simp add: less_mult_imp_div_less)
  finally have "unat (drop_bit (l + 1) n) + 1 < 2 ^ 32" by simp
  then have "unat (drop_bit (l + 1) n + 1) = unat (drop_bit (l + 1) n) + 1"
    by (simp add: unat_word_ariths)
  then have "drop_bit (l + 1) n + 1 \<noteq> 0"
    by (metis add_is_0 one_neq_zero unsigned_0)
  then show ?thesis
    using False by (simp add: take_bit_eq_mask mask_eq_exp_minus_1)
qed

lemma HASH_EXPAND_BUCKETS_rep:
  assumes rep: "bt_rep h t D" and items: "num_items t \<noteq> 0"
    and lim: "\<forall>n. malloc_ok n \<longrightarrow> n < 2 ^ 35"
    and ok: "malloc_ok (unat (2 * num_buckets t) * sizeof_UT_hash_bucket)"
  shows "\<exists>h' t'. HASH_EXPAND_BUCKETS malloc_ok h t = Some (h', t') \<and> bt_rep h' t' D \<and>
    same_but_links h h' \<and> tail t' = tail t \<and> num_items t' = num_items t"
proof -
  obtain l where l: "5 \<le> l" "l \<le> 30" "num_buckets t = 2 ^ l" "log2_num_buckets t = of_nat l"
      "length (buckets t) = 2 ^ l" "bkts_rep (hh_next h) (hh_prev h) (bkt_idx h (2 ^ l)) (buckets t) D"
    using rep by (auto simp: bt_rep_def)
  have two: "2 * num_buckets t = 2 ^ (l + 1)" "num_buckets t * 2 = 2 ^ (l + 1)"
    using l(3) by simp_all
  have size: "unat (2 * num_buckets t) = 2 ^ (l + 1)"
    unfolding two using l(2) by (intro unat_pow2_u32) simp
  have "(2 :: nat) ^ (l + 1) * 16 < 2 ^ 35"
    using lim ok size by (auto simp: sizeof_UT_hash_bucket_def)
  then have "(2 :: nat) ^ (l + 5) < 2 ^ 35" by (simp add: power_add)
  then have l30: "l + 1 \<le> 30" using power_less_imp_less_exp [of "2 :: nat" "l + 5" 35] by simp
  have log: "unat (log2_num_buckets t + 1) = l + 1"
    using l(2,4) by (simp add: unat_word_ariths unat_of_nat)
  define ideal where "ideal = expand_ideal t"
  have ideal: "ideal \<noteq> 0"
    unfolding ideal_def expand_ideal_def log two using ideal_nonzero [OF items, of l] l(2) by simp
  have len: "length (replicate (2 ^ (l + 1)) empty_bucket) = (2 :: nat) ^ (l + 1)" by simp
  have "\<exists>h' nbs' ni'. expand_loop (2 ^ (l + 1)) ideal (drop 0 (buckets t)) h
        (replicate (2 ^ (l + 1)) empty_bucket) 0 = Some (h', nbs', ni') \<and>
      bkts_rep (hh_next h') (hh_prev h') (bkt_idx h (2 ^ (l + 1))) nbs'
        {a \<in> D. bkt_idx h (2 ^ l) a < length (buckets t)} \<and>
      length nbs' = length (replicate (2 ^ (l + 1)) empty_bucket) \<and> same_but_links h h'"
  proof (rule expand_loop_rep)
    show "\<forall>i. 0 \<le> i \<and> i < length (buckets t) \<longrightarrow> (\<exists>ys. dlseg (hh_next h) (hh_prev h) None ys None \<and>
        distinct ys \<and> set ys = {a \<in> D. bkt_idx h (2 ^ l) a = i} \<and>
        hh_head (buckets t ! i) = hd_or ys None)"
      using l(6) unfolding bkts_rep_def by blast
    show "\<forall>a. bkt_idx h (2 ^ (l + 1)) a < length (replicate (2 ^ (l + 1)) empty_bucket)"
      unfolding len by (intro allI HASH_TO_BKT_less)
  qed (use ideal bkts_rep_empty in simp_all)
  then obtain h' nbs' ni' where e: "expand_loop (2 ^ (l + 1)) ideal (buckets t) h
        (replicate (2 ^ (l + 1)) empty_bucket) 0 = Some (h', nbs', ni')"
    and r: "bkts_rep (hh_next h') (hh_prev h') (bkt_idx h (2 ^ (l + 1))) nbs'
        {a \<in> D. bkt_idx h (2 ^ l) a < length (buckets t)}"
    and n: "length nbs' = 2 ^ (l + 1)" and same: "same_but_links h h'"
    unfolding len by auto
  have "{a \<in> D. bkt_idx h (2 ^ l) a < length (buckets t)} = D"
    using HASH_TO_BKT_less l(5) by auto
  then have r': "bkts_rep (hh_next h') (hh_prev h') (bkt_idx h' (2 ^ (l + 1))) nbs' D"
    using r same_but_links_sel [OF same] by simp
  define t' where "t' = t\<lparr>ideal_chain_maxlen := ideal, nonideal_items := ni',
      num_buckets := num_buckets t * 2, log2_num_buckets := log2_num_buckets t + 1, buckets := nbs',
      ineff_expands := (if drop_bit 1 (num_items t) < ni' then ineff_expands t + 1 else 0),
      noexpand := (if 1 < (if drop_bit 1 (num_items t) < ni' then ineff_expands t + 1 else 0)
                   then 1 else noexpand t)\<rparr>"
  have "HASH_EXPAND_BUCKETS malloc_ok h t = Some (h', t')"
    using ok e
    unfolding HASH_EXPAND_BUCKETS_def Let_def ideal_def [symmetric] size two(2) t'_def
    by (simp del: power_Suc power_Suc2 add: power_add)
  moreover have "bt_rep h' t' D"
    unfolding bt_rep_def
    by (intro exI [of _ "l + 1"]) (use l two(2) l30 n r' in \<open>simp add: t'_def add.commute\<close>)
  ultimately show ?thesis using same by (intro exI [of _ h'] exI [of _ t']) (simp add: t'_def)
qed

section \<open>The table\<close>

definition ut_rep :: "uthash \<Rightarrow> addr list \<Rightarrow> bool" where
  "ut_rep u xs \<longleftrightarrow>
     distinct xs \<and> length xs < 2 ^ 32 \<and> distinct (map (hh_key (ut_hh u)) xs) \<and>
     dlseg (hh_next_elt (ut_hh u)) (hh_prev_elt (ut_hh u)) None xs None \<and>
     ut_head u = hd_or xs None \<and>
     (if xs = [] then ut_tbl u = None
      else \<exists>t. ut_tbl u = Some t \<and> tail t = Some (last xs) \<and> num_items t = of_nat (length xs) \<and>
        (\<forall>a \<in> set xs. hh_hashv (ut_hh u) a = hash_int (hh_key (ut_hh u) a)) \<and>
        bt_rep (ut_hh u) t (set xs))"

lemma ut_repD:
  assumes "ut_rep u xs"
  shows "distinct xs" "length xs < 2 ^ 32" "distinct (map (hh_key (ut_hh u)) xs)"
    "dlseg (hh_next_elt (ut_hh u)) (hh_prev_elt (ut_hh u)) None xs None" "ut_head u = hd_or xs None"
    "xs = [] \<Longrightarrow> ut_tbl u = None"
  using assms by (auto simp: ut_rep_def)

lemma ut_rep_tblE:
  assumes "ut_rep u xs" and "xs \<noteq> []"
  obtains t where "the_tbl u = Some t" and "ut_tbl u = Some t" and "tail t = Some (last xs)"
    and "num_items t = of_nat (length xs)"
    and "\<forall>a \<in> set xs. hh_hashv (ut_hh u) a = hash_int (hh_key (ut_hh u) a)"
    and "bt_rep (ut_hh u) t (set xs)"
  using assms by (cases xs) (auto simp: ut_rep_def the_tbl_def)

definition empty_uthash :: uthash where
  "empty_uthash = \<lparr>ut_head = None, ut_tbl = None,
     ut_hh = \<lparr>hh_prev_elt = \<lambda>_. None, hh_next_elt = \<lambda>_. None, hh_prev = \<lambda>_. None,
              hh_next = \<lambda>_. None, hh_key = \<lambda>_. 0, hh_hashv = \<lambda>_. 0\<rparr>\<rparr>"

lemma ut_rep_empty: "ut_rep empty_uthash []"
  by (simp add: ut_rep_def empty_uthash_def)

lemma bt_rep_frame:
  assumes "bt_rep h t D" and "num_buckets t' = num_buckets t" and "log2_num_buckets t' = log2_num_buckets t"
    and "buckets t' = buckets t"
    and "\<forall>a \<in> D. hh_next h' a = hh_next h a \<and> hh_prev h' a = hh_prev h a \<and> hh_hashv h' a = hh_hashv h a"
  shows "bt_rep h' t' D"
proof -
  obtain l where l: "5 \<le> l" "l \<le> 30" "num_buckets t = 2 ^ l" "log2_num_buckets t = of_nat l"
      "length (buckets t) = 2 ^ l" "bkts_rep (hh_next h) (hh_prev h) (bkt_idx h (2 ^ l)) (buckets t) D"
    using assms(1) by (auto simp: bt_rep_def)
  have "bkts_rep (hh_next h') (hh_prev h') (bkt_idx h' (2 ^ l)) (buckets t) D"
    by (rule bkts_rep_frame [OF l(6)]) (use assms(5) in simp)
  then show ?thesis using l assms(2-4) by (auto simp: bt_rep_def)
qed

text \<open>The key field of an element outside the table may be written at any time.\<close>

lemma ut_rep_set_key:
  assumes rep: "ut_rep m xs" and a: "a \<notin> set xs"
  shows "ut_rep (m\<lparr>ut_hh := (ut_hh m)\<lparr>hh_key := (hh_key (ut_hh m))(a := k)\<rparr>\<rparr>) xs"
proof -
  let ?h = "(ut_hh m)\<lparr>hh_key := (hh_key (ut_hh m))(a := k)\<rparr>"
  have eq: "\<forall>x \<in> set xs. hh_key ?h x = hh_key (ut_hh m) x" using a by auto
  have keys: "map ((hh_key (ut_hh m))(a := k)) xs = map (hh_key (ut_hh m)) xs"
    using a by (simp add: map_fun_upd)
  have bt: "bt_rep (ut_hh m) t (set xs) \<Longrightarrow> bt_rep ?h t (set xs)" for t
    by (erule bt_rep_frame) simp_all
  show ?thesis
    using rep eq bt by (cases "xs = []") (auto simp: ut_rep_def keys)
qed

subsection \<open>Find\<close>

lemma HASH_FIND_IN_BKT_list:
  assumes "dlseg (hh_next h) (hh_prev h) p ys None"
  shows "HASH_FIND_IN_BKT h k (hd_or ys None) = Some (List.find (\<lambda>a. hh_key h a = k) ys)"
  using assms
proof (induction ys arbitrary: p)
  case Nil
  show ?case by (subst HASH_FIND_IN_BKT.simps) simp
next
  case (Cons a ys)
  then show ?case by (subst HASH_FIND_IN_BKT.simps) auto
qed

lemma find_key_cong:
  assumes "distinct (map f xs)" and "set ys \<subseteq> set xs" and "\<forall>a \<in> set xs. f a = k \<longrightarrow> a \<in> set ys"
  shows "List.find (\<lambda>a. f a = k) ys = List.find (\<lambda>a. f a = k) xs"
proof (cases "List.find (\<lambda>a. f a = k) ys")
  case None
  then have "\<forall>a \<in> set xs. f a \<noteq> k" using assms(3) by (simp add: find_None_iff) blast
  then have "List.find (\<lambda>a. f a = k) xs = None" by (simp add: find_None_iff)
  then show ?thesis using None by simp
next
  case (Some a)
  then have a: "a \<in> set xs" "f a = k"
    using assms(2) list_find_SomeD [OF Some] by auto
  then obtain b where b: "List.find (\<lambda>a. f a = k) xs = Some b"
    using list_find_mem [of a xs "\<lambda>a. f a = k"] by blast
  then have "b = a" using a assms(1) list_find_SomeD [OF b] by (meson distinct_map inj_onD)
  then show ?thesis using Some b by simp
qed

lemma HASH_FIND_INT_rep:
  assumes rep: "ut_rep u xs"
  shows "HASH_FIND_INT u k = Some (List.find (\<lambda>a. hh_key (ut_hh u) a = k) xs)"
proof (cases "xs = []")
  case True
  then show ?thesis using ut_repD(5) [OF rep] by (simp add: HASH_FIND_INT_def)
next
  case False
  let ?h = "ut_hh u"
  obtain t where t: "the_tbl u = Some t"
      "\<forall>a \<in> set xs. hh_hashv ?h a = hash_int (hh_key ?h a)" "bt_rep ?h t (set xs)"
    by (rule ut_rep_tblE [OF rep False])
  obtain l where l: "num_buckets t = 2 ^ l" "length (buckets t) = 2 ^ l"
      "bkts_rep (hh_next ?h) (hh_prev ?h) (bkt_idx ?h (2 ^ l)) (buckets t) (set xs)"
    using t(3) by (auto simp: bt_rep_def)
  define b where "b = HASH_TO_BKT (hash_int k) (2 ^ l)"
  have b: "b < length (buckets t)" unfolding b_def l(2) by (rule HASH_TO_BKT_less)
  obtain ys where ys: "dlseg (hh_next ?h) (hh_prev ?h) None ys None"
      "set ys = {a \<in> set xs. bkt_idx ?h (2 ^ l) a = b}" "hh_head (buckets t ! b) = hd_or ys None"
    by (rule bkts_repE [OF l(3) b])
  have "List.find (\<lambda>a. hh_key ?h a = k) ys = List.find (\<lambda>a. hh_key ?h a = k) xs"
  proof (rule find_key_cong [OF ut_repD(3) [OF rep]])
    show "set ys \<subseteq> set xs" using ys(2) by simp
    show "\<forall>a \<in> set xs. hh_key ?h a = k \<longrightarrow> a \<in> set ys"
      using ys(2) t(2) by (simp add: b_def)
  qed
  moreover obtain a where "ut_head u = Some a"
    using ut_repD(5) [OF rep] False by (cases xs) auto
  ultimately show ?thesis
    using t(1) l(1) b HASH_FIND_IN_BKT_list [OF ys(1), of k] ys(3)
    by (simp add: HASH_FIND_INT_def b_def [symmetric])
qed

subsection \<open>Add\<close>

lemma HASH_ADD_TO_BKT_rep_gen:
  assumes rep: "bt_rep h t D" and a: "a \<notin> D" and items: "num_items t \<noteq> 0 \<or> buckets t ! HASH_TO_BKT (hh_hashv h a) (num_buckets t) = empty_bucket"
    and lim: "\<forall>n. malloc_ok n \<longrightarrow> n < 2 ^ 35"
    and add: "HASH_ADD_TO_BKT malloc_ok (HASH_TO_BKT (hh_hashv h a) (num_buckets t)) a h t = Some (h', t')"
  shows "bt_rep h' t' (insert a D) \<and> same_but_links h h' \<and> tail t' = tail t \<and> num_items t' = num_items t"
proof -
  obtain l where l: "5 \<le> l" "l \<le> 30" "num_buckets t = 2 ^ l" "log2_num_buckets t = of_nat l"
      "length (buckets t) = 2 ^ l" "bkts_rep (hh_next h) (hh_prev h) (bkt_idx h (2 ^ l)) (buckets t) D"
    using rep by (auto simp: bt_rep_def)
  define b where "b = HASH_TO_BKT (hh_hashv h a) (num_buckets t)"
  have b: "b < length (buckets t)" unfolding b_def l(3,5) by (rule HASH_TO_BKT_less)
  define bkt where "bkt = buckets t ! b"
  define bkt1 where "bkt1 = bkt\<lparr>bkt_count := bkt_count bkt + 1, hh_head := Some a\<rparr>"
  define h1 where "h1 = h\<lparr>hh_next := (hh_next h)(a := hh_head bkt),
      hh_prev := opt_upd ((hh_prev h)(a := None)) (hh_head bkt) (Some a)\<rparr>"
  define t1 where "t1 = t\<lparr>buckets := (buckets t)[b := bkt1]\<rparr>"
  have "bkts_rep (hh_next h1) (hh_prev h1) (bkt_idx h (2 ^ l)) (buckets t1) (insert a D)"
    using bkts_rep_push [OF l(6) a _ b, of bkt1]
    by (simp add: h1_def t1_def bkt1_def bkt_def b_def l(3))
  then have rep1: "bt_rep h1 t1 (insert a D)"
    unfolding bt_rep_def by (intro exI [of _ l]) (use l in \<open>simp add: t1_def h1_def\<close>)
  have same1: "same_but_links h h1" by (simp add: same_but_links_def h1_def)
  have t1: "tail t1 = tail t" "num_items t1 = num_items t" by (simp_all add: t1_def)
  have res: "(if (expand_mult bkt1 + 1) * HASH_BKT_CAPACITY_THRESH \<le> bkt_count bkt1 \<and> noexpand t1 \<noteq> 1
      then HASH_EXPAND_BUCKETS malloc_ok h1 t1 else Some (h1, t1)) = Some (h', t')"
    using add b unfolding b_def [symmetric] HASH_ADD_TO_BKT_def Let_def bkt_def [symmetric]
      bkt1_def [symmetric] h1_def [symmetric]
    by (auto simp: t1_def split: if_splits)
  show ?thesis
  proof (cases "(expand_mult bkt1 + 1) * HASH_BKT_CAPACITY_THRESH \<le> bkt_count bkt1 \<and> noexpand t1 \<noteq> 1")
    case True
    then have e: "HASH_EXPAND_BUCKETS malloc_ok h1 t1 = Some (h', t')" using res by simp
    have "bkt \<noteq> empty_bucket"
      using True by (auto simp: bkt1_def empty_bucket_def HASH_BKT_CAPACITY_THRESH_def word_le_nat_alt)
    then have items: "num_items t \<noteq> 0" using items by (simp add: bkt_def b_def)
    from e have "malloc_ok (unat (2 * num_buckets t1) * sizeof_UT_hash_bucket)"
      by (auto simp: HASH_EXPAND_BUCKETS_def c_assert_def Let_def split: if_splits)
    from HASH_EXPAND_BUCKETS_rep [OF rep1 _ lim this] items t1 e same_but_links_trans [OF same1]
    show ?thesis by auto
  next
    case False
    then have "h' = h1" "t' = t1" using res by (auto split: if_splits)
    then show ?thesis using rep1 same1 t1 by simp
  qed
qed

lemma HASH_ADD_TO_BKT_rep:
  assumes rep: "bt_rep h t D" and a: "a \<notin> D" and items: "num_items t \<noteq> 0"
    and lim: "\<forall>n. malloc_ok n \<longrightarrow> n < 2 ^ 35"
    and add: "HASH_ADD_TO_BKT malloc_ok (HASH_TO_BKT (hh_hashv h a) (num_buckets t)) a h t = Some (h', t')"
  shows "bt_rep h' t' (insert a D) \<and> same_but_links h h' \<and> tail t' = tail t \<and> num_items t' = num_items t"
  using HASH_ADD_TO_BKT_rep_gen [OF rep a _ lim add] items by simp

lemma bt_rep_MAKE_TABLE:
  assumes "HASH_MAKE_TABLE malloc_ok a = Some t"
  shows "bt_rep h (t\<lparr>num_items := n\<rparr>) {} \<and> tail t = Some a \<and> num_items t = 0"
proof -
  have t: "num_buckets t = 2 ^ 5" "log2_num_buckets t = of_nat 5" "buckets t = replicate (2 ^ 5) empty_bucket"
      "tail t = Some a" "num_items t = 0"
    using assms by (auto simp: HASH_MAKE_TABLE_def c_assert_def HASH_INITIAL_NUM_BUCKETS_def
        HASH_INITIAL_NUM_BUCKETS_LOG2_def split: if_splits)
  have "bt_rep h (t\<lparr>num_items := n\<rparr>) {}"
    unfolding bt_rep_def
    by (intro exI [of _ 5]) (use t bkts_rep_empty [of _ _ _ "2 ^ 5"] in \<open>simp add: t\<close>)
  then show ?thesis using t by simp
qed

lemma ut_rep_snocI:
  assumes rep: "ut_rep u xs" and a: "a \<notin> set xs" "hh_key (ut_hh u) a \<notin> hh_key (ut_hh u) ` set xs"
    and len: "Suc (length xs) < 2 ^ 32"
    and same: "hh_key h' = hh_key (ut_hh u)"
    and app: "dlseg (hh_next_elt h') (hh_prev_elt h') None (xs @ [a]) None"
    and hash: "\<forall>x \<in> set xs. hh_hashv h' x = hh_hashv (ut_hh u) x" "hh_hashv h' a = hash_int (hh_key h' a)"
    and tbl: "tail t' = Some a" "num_items t' = of_nat (Suc (length xs))" "bt_rep h' t' (insert a (set xs))"
  shows "ut_rep \<lparr>ut_head = hd_or (xs @ [a]) None, ut_tbl = Some t', ut_hh = h'\<rparr> (xs @ [a])"
proof -
  have "\<forall>x \<in> set xs. hh_hashv h' x = hash_int (hh_key h' x)"
    using rep hash(1) same by (cases "xs = []") (auto simp: ut_rep_def)
  then show ?thesis
    using assms ut_repD(1,3) [OF rep] by (simp add: ut_rep_def)
qed

lemma HASH_ADD_INT_rep:
  assumes rep: "ut_rep u xs" and a: "a \<notin> set xs" "hh_key (ut_hh u) a \<notin> hh_key (ut_hh u) ` set xs"
    and len: "Suc (length xs) < 2 ^ 32" and lim: "\<forall>n. malloc_ok n \<longrightarrow> n < 2 ^ 35"
    and add: "HASH_ADD_INT malloc_ok u a = Some u'"
  shows "ut_rep u' (xs @ [a]) \<and> hh_key (ut_hh u') = hh_key (ut_hh u)"
proof -
  let ?h = "ut_hh u"
  obtain head h1 t1 h' t' where
    first: "(case ut_head u of
          None \<Rightarrow> do {
            t \<leftarrow> HASH_MAKE_TABLE malloc_ok a;
            Some (Some a, ?h\<lparr>hh_next_elt := (hh_next_elt ?h)(a := None),
                             hh_prev_elt := (hh_prev_elt ?h)(a := None)\<rparr>, t) }
        | Some head \<Rightarrow> do {
            t \<leftarrow> the_tbl u;
            z \<leftarrow> tail t;
            Some (Some head, ?h\<lparr>hh_next_elt := ((hh_next_elt ?h)(a := None))(z := Some a),
                             hh_prev_elt := (hh_prev_elt ?h)(a := Some z)\<rparr>,
                  t\<lparr>tail := Some a\<rparr>) }) = Some (head, h1, t1)"
    and second: "HASH_ADD_TO_BKT malloc_ok
        (HASH_TO_BKT (hash_int (hh_key h1 a)) (num_buckets t1)) a
        (h1\<lparr>hh_hashv := (hh_hashv h1)(a := hash_int (hh_key h1 a))\<rparr>)
        (t1\<lparr>num_items := num_items t1 + 1\<rparr>) = Some (h', t')"
    and u': "u' = \<lparr>ut_head = head, ut_tbl = Some t', ut_hh = h'\<rparr>"
    using add by (auto simp: HASH_ADD_INT_def bind_Some_conv Let_def cong: option.case_cong)
  define h2 where "h2 = h1\<lparr>hh_hashv := (hh_hashv h1)(a := hash_int (hh_key h1 a))\<rparr>"
  define t2 where "t2 = t1\<lparr>num_items := num_items t1 + 1\<rparr>"
  have mid: "head = hd_or (xs @ [a]) None \<and> hh_key h1 = hh_key ?h \<and> hh_hashv h1 = hh_hashv ?h \<and>
      hh_next h1 = hh_next ?h \<and> hh_prev h1 = hh_prev ?h \<and>
      dlseg (hh_next_elt h1) (hh_prev_elt h1) None (xs @ [a]) None \<and>
      tail t1 = Some a \<and> num_items t2 = of_nat (Suc (length xs)) \<and> bt_rep h2 t2 (set xs)"
  proof (cases "xs = []")
    case True
    then have "ut_head u = None" using ut_repD(5) [OF rep] by simp
    then have "HASH_MAKE_TABLE malloc_ok a = Some t1" "head = Some a"
      and h1: "h1 = ?h\<lparr>hh_next_elt := (hh_next_elt ?h)(a := None),
                    hh_prev_elt := (hh_prev_elt ?h)(a := None)\<rparr>"
      using first by (auto simp: bind_Some_conv)
    then show ?thesis
      using True bt_rep_MAKE_TABLE [of malloc_ok a t1 h2 "num_items t1 + 1"]
      by (auto simp: t2_def)
  next
    case False
    obtain t where t: "the_tbl u = Some t" "tail t = Some (last xs)"
        "num_items t = of_nat (length xs)" "bt_rep ?h t (set xs)"
      by (rule ut_rep_tblE [OF rep False])
    obtain x ys where "xs = x # ys" using False by (cases xs) auto
    then have "ut_head u = Some x" and hd: "hd_or (xs @ [a]) None = Some x"
      using ut_repD(5) [OF rep] by simp_all
    then have 1: "head = Some x" "t1 = t\<lparr>tail := Some a\<rparr>"
      and h1: "h1 = ?h\<lparr>hh_next_elt := ((hh_next_elt ?h)(a := None))(last xs := Some a),
                  hh_prev_elt := (hh_prev_elt ?h)(a := Some (last xs))\<rparr>"
      using first t(1,2) by auto
    have "dlseg (hh_next_elt h1) (hh_prev_elt h1) None (xs @ [a]) None"
      unfolding h1 using dlseg_snoc [OF ut_repD(4,1) [OF rep] a(1) False]
      by (simp del: dlseg_append)
    moreover have "bt_rep h2 t2 (set xs)"
      by (rule bt_rep_frame [OF t(4)]) (use 1 h1 a(1) in \<open>auto simp: t2_def h2_def\<close>)
    ultimately show ?thesis using 1 hd t(3) h1 by (simp add: t2_def del: dlseg_append)
  qed
  have items: "num_items t2 \<noteq> 0"
  proof -
    have "unat (of_nat (Suc (length xs)) :: u32) = Suc (length xs)"
      using len by (rule unat_of_nat_u32)
    then show ?thesis using mid by (metis nat.distinct(1) unsigned_0)
  qed
  have "HASH_ADD_TO_BKT malloc_ok (HASH_TO_BKT (hh_hashv h2 a) (num_buckets t2)) a h2 t2 = Some (h', t')"
    using second by (simp add: h2_def t2_def)
  from HASH_ADD_TO_BKT_rep [OF _ a(1) items lim this] mid
  have fin: "bt_rep h' t' (insert a (set xs))" "same_but_links h2 h'" "tail t' = tail t2"
      "num_items t' = num_items t2" by auto
  note sel = same_but_links_sel [OF fin(2)]
  have "ut_rep u' (xs @ [a])"
    unfolding u' conjunct1 [OF mid]
    by (rule ut_rep_snocI [OF rep a len])
       (use mid fin sel a(1) in \<open>auto simp: h2_def t2_def\<close>)
  then show ?thesis using mid sel by (simp add: u' h2_def)
qed

subsection \<open>Delete\<close>

lemma HASH_DEL_IN_BKT_rep:
  assumes "bt_rep h t D" and "a \<in> D"
    and b: "b = HASH_TO_BKT (hh_hashv h a) (num_buckets t)"
    and del: "HASH_DEL_IN_BKT a h (buckets t ! b) = (h', bkt')"
  shows "b < length (buckets t) \<and> bt_rep h' (t\<lparr>buckets := (buckets t)[b := bkt'], num_items := n\<rparr>) (D - {a}) \<and>
    same_but_links h h'"
proof -
  obtain l where l: "5 \<le> l" "l \<le> 30" "num_buckets t = 2 ^ l" "log2_num_buckets t = of_nat l"
      "length (buckets t) = 2 ^ l" "bkts_rep (hh_next h) (hh_prev h) (bkt_idx h (2 ^ l)) (buckets t) D"
    using assms(1) by (auto simp: bt_rep_def)
  have lt: "b < length (buckets t)" unfolding b l(3,5) by (rule HASH_TO_BKT_less)
  have idx: "bkt_idx h (2 ^ l) a = b" using b l(3) by simp
  define bkt where "bkt = buckets t ! b"
  have bkt': "bkt' = bkt\<lparr>bkt_count := bkt_count bkt - 1,
      hh_head := (if hh_head bkt = Some a then hh_next h a else hh_head bkt)\<rparr>"
    using del by (auto simp: HASH_DEL_IN_BKT_def Let_def bkt_def)
  have "bkts_rep (opt_upd (hh_next h) (hh_prev h a) (hh_next h a))
      (opt_upd (hh_prev h) (hh_next h a) (hh_prev h a)) (bkt_idx h (2 ^ l))
      ((buckets t)[b := bkt']) (D - {a})"
    by (rule bkts_rep_unlink [OF l(6) assms(2) idx lt]) (simp_all add: bkt' bkt_def)
  moreover have np: "hh_prev h a \<noteq> Some a"
  proof -
    obtain ys where "dlseg (hh_next h) (hh_prev h) None ys None" "distinct ys"
        "set ys = {x \<in> D. bkt_idx h (2 ^ l) x = b}"
      by (rule bkts_repE [OF l(6) lt])
    moreover from this obtain us vs where "ys = us @ a # vs"
      using assms(2) b l(3) by (metis (mono_tags, lifting) mem_Collect_eq split_list)
    ultimately show ?thesis using last_or_Some_in [of us a] by auto
  qed
  then have "opt_upd (hh_next h) (hh_prev h a) (hh_next h a) a = hh_next h a"
    by (simp add: opt_upd_other)
  then have h': "hh_next h' = opt_upd (hh_next h) (hh_prev h a) (hh_next h a)"
      "hh_prev h' = opt_upd (hh_prev h) (hh_next h a) (hh_prev h a)" "same_but_links h h'"
    using del by (auto simp: HASH_DEL_IN_BKT_def Let_def same_but_links_def)
  ultimately show ?thesis
    using lt l same_but_links_sel [OF h'(3)] by (auto simp: bt_rep_def)
qed

lemma HASH_DEL_rep:
  assumes rep: "ut_rep u xs" and a: "a \<in> set xs"
  shows "\<exists>u'. HASH_DEL u a = Some u' \<and> ut_rep u' (remove1 a xs) \<and> hh_key (ut_hh u') = hh_key (ut_hh u)"
proof -
  let ?h = "ut_hh u"
  obtain us vs where xs: "xs = us @ a # vs" "a \<notin> set us" "a \<notin> set vs" "remove1 a xs = us @ vs"
    using distinct_split [OF a ut_repD(1) [OF rep]] by blast
  have links: "hh_prev_elt ?h a = last_or None us" "hh_next_elt ?h a = hd_or vs None"
    using ut_repD(4) [OF rep] xs(1) by simp_all
  obtain t where t: "the_tbl u = Some t" "tail t = Some (last xs)"
      "num_items t = of_nat (length xs)"
      "\<forall>a \<in> set xs. hh_hashv ?h a = hash_int (hh_key ?h a)" "bt_rep ?h t (set xs)"
    by (rule ut_rep_tblE [OF rep]) (use a in auto)
  show ?thesis
  proof (cases "us = [] \<and> vs = []")
    case True
    then have "HASH_DEL u a = Some (u\<lparr>ut_head := None, ut_tbl := None\<rparr>)"
      using links t(1) by (simp add: HASH_DEL_def)
    then show ?thesis using True xs(4) by (simp add: ut_rep_def)
  next
    case False
    define b where "b = HASH_TO_BKT (hh_hashv ?h a) (num_buckets t)"
    define h1 where "h1 = ?h\<lparr>hh_next_elt := opt_upd (hh_next_elt ?h) (last_or None us) (hd_or vs None),
        hh_prev_elt := opt_upd (hh_prev_elt ?h) (hd_or vs None) (last_or None us)\<rparr>"
    define t1 where "t1 = (if last xs = a then t\<lparr>tail := last_or None us\<rparr> else t)"
    obtain h2 bkt where del: "HASH_DEL_IN_BKT a h1 (buckets t1 ! b) = (h2, bkt)" by fastforce
    have rep1: "bt_rep h1 t1 (set xs)"
      by (rule bt_rep_frame [OF t(5)]) (simp_all add: t1_def h1_def)
    have b1: "b = HASH_TO_BKT (hh_hashv h1 a) (num_buckets t1)"
      by (simp add: b_def h1_def t1_def)
    define t2 where "t2 = t1\<lparr>buckets := (buckets t1)[b := bkt], num_items := num_items t1 - 1\<rparr>"
    have fin: "b < length (buckets t1)" "bt_rep h2 t2 (set xs - {a})" "same_but_links h1 h2"
      using HASH_DEL_IN_BKT_rep [OF rep1 a b1 del] by (auto simp: t2_def)
    note sel = same_but_links_sel [OF fin(3)]
    have upd: "opt_upd (hh_next_elt ?h) (last_or None us) (hd_or vs None) a = hd_or vs None"
    proof -
      have "last_or None us \<noteq> Some a" using xs(2) last_or_Some_in by metis
      then show ?thesis using links(2) by (simp add: opt_upd_other)
    qed
    have head: "(if hh_prev_elt ?h a \<noteq> None then ut_head u else hh_next_elt ?h a) = hd_or (us @ vs) None"
      using links ut_repD(5) [OF rep] xs(1) by (cases us) simp_all
    have "HASH_DEL u a = Some \<lparr>ut_head = hd_or (us @ vs) None, ut_tbl = Some t2, ut_hh = h2\<rparr>"
      using False links t(1,2) fin(1) del upd head
      by (cases "last xs = a") (auto simp: HASH_DEL_def Let_def h1_def t1_def t2_def b_def)
    moreover have "ut_rep \<lparr>ut_head = hd_or (us @ vs) None, ut_tbl = Some t2, ut_hh = h2\<rparr> (us @ vs)"
    proof -
      have "dlseg (hh_next_elt h2) (hh_prev_elt h2) None (us @ vs) None"
        using dlseg_unlink [of "hh_next_elt ?h" "hh_prev_elt ?h" us a vs] ut_repD(1,4) [OF rep] xs(1) links sel
        by (simp add: h1_def)
      moreover have "set xs - {a} = set (us @ vs)" using xs(1-3) by auto
      moreover have "tail t2 = Some (last (us @ vs))"
        using t(2) xs False by (cases vs rule: rev_cases) (auto simp: t2_def t1_def last_or_def)
      moreover have "num_items t2 = of_nat (length (us @ vs))"
        using t(3) xs(1) by (simp add: t2_def t1_def)
      ultimately show ?thesis
        using ut_repD(1-3) [OF rep] xs(1) sel fin(2) False t(4)
        by (auto simp: ut_rep_def h1_def)
    qed
    ultimately show ?thesis using xs(4) sel by (simp add: h1_def)
  qed
qed

section \<open>Count and progress\<close>

lemma HASH_COUNT_rep:
  assumes rep: "ut_rep u xs"
  shows "HASH_COUNT u = Some (of_nat (length xs))"
proof (cases xs)
  case Nil
  then show ?thesis using ut_repD(5) [OF rep] by (simp add: HASH_COUNT_def)
next
  case (Cons x ys)
  then obtain t where "the_tbl u = Some t" "num_items t = of_nat (length xs)"
    using ut_rep_tblE [OF rep] by blast
  then show ?thesis using ut_repD(5) [OF rep] Cons by (simp add: HASH_COUNT_def)
qed

text \<open>
  An addition succeeds when the allocations it may need do: the table and its first buckets
  when it is the first element, and a bucket array of twice the size otherwise.
\<close>

definition ut_room :: "(nat \<Rightarrow> bool) \<Rightarrow> uthash \<Rightarrow> bool" where
  "ut_room malloc_ok u =
    (case ut_tbl u of
       None \<Rightarrow> malloc_ok sizeof_UT_hash_table \<and> malloc_ok (32 * sizeof_UT_hash_bucket)
     | Some t \<Rightarrow> malloc_ok (unat (2 * num_buckets t) * sizeof_UT_hash_bucket))"

lemma HASH_ADD_TO_BKT_progress:
  assumes rep: "bt_rep h t D" and a: "a \<notin> D" and items: "num_items t \<noteq> 0"
    and lim: "\<forall>n. malloc_ok n \<longrightarrow> n < 2 ^ 35"
    and room: "malloc_ok (unat (2 * num_buckets t) * sizeof_UT_hash_bucket)"
  shows "HASH_ADD_TO_BKT malloc_ok (HASH_TO_BKT (hh_hashv h a) (num_buckets t)) a h t \<noteq> None"
proof -
  obtain l where l: "5 \<le> l" "l \<le> 30" "num_buckets t = 2 ^ l" "log2_num_buckets t = of_nat l"
      "length (buckets t) = 2 ^ l" "bkts_rep (hh_next h) (hh_prev h) (bkt_idx h (2 ^ l)) (buckets t) D"
    using rep by (auto simp: bt_rep_def)
  define b where "b = HASH_TO_BKT (hh_hashv h a) (num_buckets t)"
  have b: "b < length (buckets t)" unfolding b_def l(3,5) by (rule HASH_TO_BKT_less)
  define bkt where "bkt = buckets t ! b"
  define bkt1 where "bkt1 = bkt\<lparr>bkt_count := bkt_count bkt + 1, hh_head := Some a\<rparr>"
  define h1 where "h1 = h\<lparr>hh_next := (hh_next h)(a := hh_head bkt),
      hh_prev := opt_upd ((hh_prev h)(a := None)) (hh_head bkt) (Some a)\<rparr>"
  define t1 where "t1 = t\<lparr>buckets := (buckets t)[b := bkt1]\<rparr>"
  have "bkts_rep (hh_next h1) (hh_prev h1) (bkt_idx h (2 ^ l)) (buckets t1) (insert a D)"
    using bkts_rep_push [OF l(6) a _ b, of bkt1]
    by (simp add: h1_def t1_def bkt1_def bkt_def b_def l(3))
  then have rep1: "bt_rep h1 t1 (insert a D)"
    unfolding bt_rep_def by (intro exI [of _ l]) (use l in \<open>simp add: t1_def h1_def\<close>)
  have "HASH_EXPAND_BUCKETS malloc_ok h1 t1 \<noteq> None"
    using HASH_EXPAND_BUCKETS_rep [OF rep1 _ lim] items room by (auto simp: t1_def)
  then show ?thesis
    using b unfolding b_def [symmetric] HASH_ADD_TO_BKT_def Let_def bkt_def [symmetric]
      bkt1_def [symmetric] h1_def [symmetric]
    by (auto simp: t1_def)
qed

lemma HASH_ADD_INT_progress:
  assumes rep: "ut_rep u xs" and a: "a \<notin> set xs" and len: "Suc (length xs) < 2 ^ 32"
    and lim: "\<forall>n. malloc_ok n \<longrightarrow> n < 2 ^ 35" and room: "ut_room malloc_ok u"
    and first: "malloc_ok (64 * sizeof_UT_hash_bucket)"
  shows "\<exists>u'. HASH_ADD_INT malloc_ok u a = Some u'"
proof (cases "xs = []")
  case True
  then have u: "ut_head u = None" "ut_tbl u = None" using ut_repD(5,6) [OF rep] by simp_all
  obtain t where t: "HASH_MAKE_TABLE malloc_ok a = Some t" "num_buckets t = 32"
    using room u(2) by (simp add: HASH_MAKE_TABLE_def ut_room_def HASH_INITIAL_NUM_BUCKETS_def)
  define h where "h = (ut_hh u)\<lparr>hh_next_elt := (hh_next_elt (ut_hh u))(a := None),
      hh_prev_elt := (hh_prev_elt (ut_hh u))(a := None),
      hh_hashv := (hh_hashv (ut_hh u))(a := hash_int (hh_key (ut_hh u) a))\<rparr>"
  have "HASH_ADD_TO_BKT malloc_ok (HASH_TO_BKT (hh_hashv h a) (num_buckets (t\<lparr>num_items := 1\<rparr>))) a
      h (t\<lparr>num_items := 1\<rparr>) \<noteq> None"
    by (rule HASH_ADD_TO_BKT_progress [of _ _ "{}"])
       (use bt_rep_MAKE_TABLE [OF t(1)] lim first t(2) in simp_all)
  moreover have "num_items t = 0" using bt_rep_MAKE_TABLE [OF t(1)] by simp
  ultimately show ?thesis
    using u t(1) by (auto simp: HASH_ADD_INT_def Let_def h_def)
next
  case False
  let ?h = "ut_hh u"
  obtain t where t: "the_tbl u = Some t" "ut_tbl u = Some t" "tail t = Some (last xs)"
      "num_items t = of_nat (length xs)" "bt_rep ?h t (set xs)"
    by (rule ut_rep_tblE [OF rep False])
  obtain x where x: "ut_head u = Some x"
    using ut_repD(5) [OF rep] False by (cases xs) auto
  define h where "h = ?h\<lparr>hh_next_elt := (hh_next_elt ?h)(a := None, last xs := Some a),
      hh_prev_elt := (hh_prev_elt ?h)(a := Some (last xs)),
      hh_hashv := (hh_hashv ?h)(a := hash_int (hh_key ?h a))\<rparr>"
  define t1 where "t1 = t\<lparr>tail := Some a, num_items := num_items t + 1\<rparr>"
  have n: "num_items t1 = of_nat (Suc (length xs))" using t(4) by (simp add: t1_def)
  have items: "num_items t1 \<noteq> 0"
    unfolding n using unat_of_nat_u32 [OF len] by (metis nat.distinct(1) unsigned_0)
  have "HASH_ADD_TO_BKT malloc_ok (HASH_TO_BKT (hh_hashv h a) (num_buckets t1)) a h t1 \<noteq> None"
  proof (rule HASH_ADD_TO_BKT_progress [OF _ a items lim])
    show "bt_rep h t1 (set xs)"
      by (rule bt_rep_frame [OF t(5)]) (use a in \<open>auto simp: h_def t1_def\<close>)
    show "malloc_ok (unat (2 * num_buckets t1) * sizeof_UT_hash_bucket)"
      using room t(2) by (simp add: ut_room_def t1_def)
  qed
  then show ?thesis
    using x t(1,3) by (auto simp: HASH_ADD_INT_def Let_def h_def t1_def)
qed

section \<open>The interface\<close>

text \<open>
  An allocator that grants no request of 32 GiB or more. \<open>avail\<close> is otherwise arbitrary, so
  any single allocation may fail.
\<close>

definition malloc_below :: "(nat \<Rightarrow> bool) \<Rightarrow> nat \<Rightarrow> bool" where
  "malloc_below avail n \<longleftrightarrow> avail n \<and> n < 2 ^ 35"

lemma malloc_below_lim: "\<forall>n. malloc_below avail n \<longrightarrow> n < 2 ^ 35"
  by (simp add: malloc_below_def)

definition ut_key :: "uthash \<Rightarrow> addr \<Rightarrow> u32" where
  "ut_key u = hh_key (ut_hh u)"

definition ut_next :: "uthash \<Rightarrow> addr \<Rightarrow> addr option" where
  "ut_next u = hh_next_elt (ut_hh u)"

definition ut_count :: "uthash \<Rightarrow> nat option" where
  "ut_count u = map_option unat (HASH_COUNT u)"

interpretation ut: keyed_table ut_rep ut_key HASH_FIND_INT "HASH_ADD_INT (malloc_below avail)"
    HASH_DEL ut_count ut_head ut_next for avail
proof
  fix u xs k a u'
  assume rep: "ut_rep u xs"
  show "distinct xs" "distinct (map (ut_key u) xs)"
    using ut_repD [OF rep] by (simp_all add: ut_key_def)
  show "HASH_FIND_INT u k = Some (List.find (\<lambda>a. ut_key u a = k) xs)"
    unfolding ut_key_def by (rule HASH_FIND_INT_rep [OF rep])
  show "ut_count u = Some (length xs)"
    using HASH_COUNT_rep [OF rep] ut_repD(2) [OF rep] by (simp add: ut_count_def unat_of_nat_u32)
  show "ut_head u = hd_or xs None" by (rule ut_repD(5) [OF rep])
  show "\<exists>u'. HASH_DEL u a = Some u' \<and> ut_rep u' (remove1 a xs) \<and> ut_key u' = ut_key u" if "a \<in> set xs"
    using HASH_DEL_rep [OF rep that] by (simp add: ut_key_def)
  show "ut_rep u' (xs @ [a]) \<and> ut_key u' = ut_key u"
    if "a \<notin> set xs" "ut_key u a \<notin> ut_key u ` set xs" "Suc (length xs) < 2 ^ 32"
      "HASH_ADD_INT (malloc_below avail) u a = Some u'"
    using HASH_ADD_INT_rep [OF rep that(1) _ that(3) malloc_below_lim that(4)] that(2)
    by (simp add: ut_key_def)
next
  fix u us vs and a :: addr
  assume "ut_rep u (us @ a # vs)"
  then show "ut_next u a = hd_or vs None"
    using ut_repD(4) by (fastforce simp: ut_next_def)
qed

end
