(* ===== verification/Net_Server_Correct.thy ===== *)
theory Net_Server_Correct
  imports Session_Correct Uthash_Correct
begin

text \<open>
  The invariant of the net server and its preservation by every operation. \<open>server_inv s xs\<close>
  ties the hash table to the heap: \<open>xs\<close> are the connected sessions in the order they were
  accepted, all of them allocated, not closing and with a sound receive buffer; a session that
  left the table is closing and waits for its close callback. The table is used through the
  interface \<open>keyed_table\<close> only (the facts \<open>ut.\<dots>\<close>).
\<close>

section \<open>The invariant\<close>

definition live_ok :: "net_session option \<Rightarrow> bool" where
  "live_ok s \<longleftrightarrow> (\<exists>ss. s = Some ss \<and> \<not> h_closing ss \<and> sess_ok ss)"

definition server_inv :: "('c, 'u) net_server \<Rightarrow> addr list \<Rightarrow> bool" where
  "server_inv s xs \<longleftrightarrow>
     ut_rep (session_map s) xs \<and> length xs \<le> unat (max_connection s) \<and>
     (\<forall>a \<in> set xs. serial_of s a \<noteq> 0 \<and> live_ok (sessions s a)) \<and>
     (\<forall>a ss. a \<notin> set xs \<longrightarrow> sessions s a = Some ss \<longrightarrow> h_closing ss) \<and>
     (xs \<noteq> [] \<longrightarrow> on_read s \<noteq> None)"

lemma server_invD:
  assumes "server_inv s xs"
  shows "ut_rep (session_map s) xs" "length xs \<le> unat (max_connection s)" "distinct xs"
    "xs \<noteq> [] \<Longrightarrow> on_read s \<noteq> None"
    "a \<in> set xs \<Longrightarrow> serial_of s a \<noteq> 0" "a \<in> set xs \<Longrightarrow> live_ok (sessions s a)"
    "a \<notin> set xs \<Longrightarrow> sessions s a = Some ss \<Longrightarrow> h_closing ss"
  using assms ut.rep_distinct by (auto simp: server_inv_def)

lemma serial_of_ut_key: "serial_of s = ut_key (session_map s)"
  by (rule ext) (simp add: serial_of_def ut_key_def)

lemma server_inv_liveE:
  assumes "server_inv s xs" and "a \<in> set xs"
  obtains ss where "sessions s a = Some ss" and "\<not> h_closing ss" and "sess_ok ss"
  using server_invD(6) [OF assms] by (auto simp: live_ok_def)

lemma server_inv_cb: "server_inv s xs \<Longrightarrow> a \<in> set xs \<Longrightarrow> on_read s \<noteq> None"
  by (cases xs) (auto simp: server_inv_def)

text \<open>A session that is not closing is in the table.\<close>

lemma server_inv_mem:
  assumes "server_inv s xs" and "sessions s a = Some ss" and "\<not> h_closing ss"
  shows "a \<in> set xs"
  using server_invD(7) [OF assms(1) _ assms(2)] assms(3) by blast

section \<open>Handlers\<close>

text \<open>
  \<open>keeps s s'\<close>: \<open>s'\<close> differs from \<open>s\<close> at most in the user data and in what was written on
  the sessions. A handler is \<open>tame_at\<close> an error code when it returns, keeps the server in this
  sense, and its effect on the user data is the function \<open>f\<close> of the serial number and the data.
\<close>

definition sess_core :: "net_session \<Rightarrow> net_session" where
  "sess_core ss = ss\<lparr>h_written := []\<rparr>"

definition keeps :: "('c, 'u) net_server \<Rightarrow> ('c, 'u) net_server \<Rightarrow> bool" where
  "keeps s s' \<longleftrightarrow> session_map s' = session_map s \<and> on_read s' = on_read s \<and>
     max_connection s' = max_connection s \<and> max_heart_beat s' = max_heart_beat s \<and>
     heart_beat_check s' = heart_beat_check s \<and> stopped s' = stopped s \<and>
     next_serial s' = next_serial s \<and> acceptor_closing s' = acceptor_closing s \<and>
     timer_active s' = timer_active s \<and> timer_closing s' = timer_closing s \<and>
     server_freed s' = server_freed s \<and>
     (\<forall>a. map_option sess_core (sessions s' a) = map_option sess_core (sessions s a))"

definition tame_at ::
    "('c, 'u) handler \<Rightarrow> int \<Rightarrow> (u32 \<Rightarrow> bytes \<Rightarrow> 'u \<Rightarrow> 'u) \<Rightarrow> bool" where
  "tame_at invoke err f \<longleftrightarrow>
     (\<forall>c k d n s. \<exists>s'. invoke c err k d n s = Some s' \<and> keeps s s' \<and> udata s' = f k d (udata s))"

lemma keeps_refl [simp]: "keeps s s"
  by (simp add: keeps_def)

lemma keeps_trans: "keeps s t \<Longrightarrow> keeps t u \<Longrightarrow> keeps s u"
  by (simp add: keeps_def)

lemma keeps_serial_of: "keeps s s' \<Longrightarrow> serial_of s' = serial_of s"
  by (simp add: keeps_def serial_of_def fun_eq_iff)

lemma sess_core_eqD:
  assumes "sess_core x = sess_core y"
  shows "last_recv_time x = last_recv_time y" "h_closing x = h_closing y" "sess_ok x = sess_ok y"
    "sess_pending x = sess_pending y" "sess_window x = sess_window y" "h_reading x = h_reading y"
proof -
  have *: "last_recv_time x = last_recv_time (sess_core x)" "h_closing x = h_closing (sess_core x)"
    "sess_ok x = sess_ok (sess_core x)" "sess_pending x = sess_pending (sess_core x)"
    "sess_window x = sess_window (sess_core x)" "h_reading x = h_reading (sess_core x)" for x
    by (simp_all add: sess_core_def sess_ok_def sess_pending_def sess_window_def)
  show "last_recv_time x = last_recv_time y" "h_closing x = h_closing y" "sess_ok x = sess_ok y"
    "sess_pending x = sess_pending y" "sess_window x = sess_window y" "h_reading x = h_reading y"
    using assms by (simp_all only: * [of x] * [of y])
qed

lemma live_ok_cong: "map_option sess_core x = map_option sess_core y \<Longrightarrow> live_ok x = live_ok y"
  by (cases x; cases y) (auto simp: live_ok_def dest: sess_core_eqD(2,3))

lemma keeps_sessions: "keeps s s' \<Longrightarrow> map_option sess_core (sessions s' a) = map_option sess_core (sessions s a)"
  by (simp add: keeps_def)

lemma keeps_session:
  assumes "keeps s s'" and "sessions s a = Some ss"
  obtains ss' where "sessions s' a = Some ss'" and "sess_core ss' = sess_core ss"
  using that keeps_sessions [OF assms(1), of a] assms(2) by (auto simp: map_option_eq_Some)

lemma keeps_live_ok: "keeps s s' \<Longrightarrow> live_ok (sessions s' a) = live_ok (sessions s a)"
  by (intro live_ok_cong keeps_sessions)

lemma keeps_closing:
  assumes "keeps s s'" and "sessions s' a = Some ss'"
  shows "\<exists>ss. sessions s a = Some ss \<and> h_closing ss = h_closing ss'"
  using keeps_sessions [OF assms(1), of a] assms(2)
  by (cases "sessions s a") (auto dest: sess_core_eqD(2))

lemma keeps_server_inv: "keeps s s' \<Longrightarrow> server_inv s xs \<Longrightarrow> server_inv s' xs"
  unfolding server_inv_def
  by (auto simp: keeps_serial_of keeps_live_ok dest: keeps_closing)
     (simp_all add: keeps_def)

section \<open>Disconnecting a session\<close>

lemma drop_session:
  assumes inv: "server_inv s xs" and a: "a \<in> set xs"
  shows "\<exists>m s'. HASH_DEL (session_map s) a = Some m \<and>
    session_destroy (s\<lparr>session_map := m\<rparr>) a = Some s' \<and> server_inv s' (remove1 a xs) \<and>
    serial_of s' = serial_of s \<and> sessions s a \<noteq> None \<and>
    s' = s\<lparr>session_map := m, sessions := (sessions s)
           (a := Some ((the (sessions s a))\<lparr>h_reading := False, h_closing := True\<rparr>))\<rparr>"
proof -
  note rep = server_invD(1) [OF inv]
  obtain m where m: "HASH_DEL (session_map s) a = Some m" "ut_rep m (remove1 a xs)"
      "ut_key m = ut_key (session_map s)"
    using ut.del_law [OF rep a] by blast
  obtain ss where ss: "sessions s a = Some ss" "\<not> h_closing ss" "sess_ok ss"
    by (rule server_inv_liveE [OF inv a])
  define s' where "s' = s\<lparr>session_map := m, sessions := (sessions s)
      (a := Some (ss\<lparr>h_reading := False, h_closing := True\<rparr>))\<rparr>"
  have d: "session_destroy (s\<lparr>session_map := m\<rparr>) a = Some s'"
    using ss by (simp add: session_destroy_def set_session_def s'_def)
  have ser: "serial_of s' = serial_of s" using m(3) by (simp add: serial_of_ut_key s'_def)
  have sub: "x \<in> set (remove1 a xs) \<longleftrightarrow> x \<in> set xs \<and> x \<noteq> a" for x
    using server_invD(3) [OF inv] by auto
  have "length (remove1 a xs) \<le> length xs" by (simp add: length_remove1)
  then have len: "length (remove1 a xs) \<le> unat (max_connection s')"
    using server_invD(2) [OF inv] by (simp add: s'_def)
  have "server_inv s' (remove1 a xs)"
    unfolding server_inv_def ser using len m(2) inv sub
    by (auto simp: s'_def server_inv_def)
  then show ?thesis using m(1) d ss(1) ser s'_def by auto
qed

text \<open>The step of an iteration: deleting the current element leaves the saved one valid.\<close>

lemma iter_next_hd:
  assumes "server_inv s (us @ vs)"
  shows "iter_next s (hd_or vs None) = Some (hd_or (drop 1 vs) None)"
proof (cases vs)
  case Nil
  then show ?thesis by (simp add: iter_next_def)
next
  case (Cons b ws)
  have "ut_next (session_map s) b = hd_or ws None"
    using ut.next_law [of "session_map s" us b ws] server_invD(1) [OF assms] Cons by simp
  moreover obtain ss where "sessions s b = Some ss"
    using server_inv_liveE [OF assms, of b] Cons by auto
  ultimately show ?thesis using Cons by (simp add: iter_next_def ut_next_def)
qed

section \<open>Stop\<close>

lemma stop_loop_inv:
  assumes "server_inv s xs"
  shows "\<exists>s'. stop_loop (hd_or xs None) (hd_or (drop 1 xs) None) s = Some s' \<and> server_inv s' [] \<and>
    stopped s' = stopped s \<and> timer_closing s' = timer_closing s \<and>
    acceptor_closing s' = acceptor_closing s \<and> (\<forall>b. sessions s b \<noteq> None \<longrightarrow> sessions s' b \<noteq> None)"
  using assms
proof (induction xs arbitrary: s)
  case Nil
  then show ?case by (simp add: stop_loop.simps)
next
  case (Cons a xs)
  obtain m s1 where 1: "HASH_DEL (session_map s) a = Some m"
      "session_destroy (s\<lparr>session_map := m\<rparr>) a = Some s1" "server_inv s1 xs" "sessions s a \<noteq> None"
    and s1: "s1 = s\<lparr>session_map := m, sessions := (sessions s)
           (a := Some ((the (sessions s a))\<lparr>h_reading := False, h_closing := True\<rparr>))\<rparr>"
    using drop_session [OF Cons.prems, of a] by auto
  obtain ss where ss: "sessions s a = Some ss" using 1(4) by blast
  obtain s' where s': "stop_loop (hd_or xs None) (hd_or (drop 1 xs) None) s1 = Some s'" "server_inv s' []"
      "stopped s' = stopped s1" "timer_closing s' = timer_closing s1"
      "acceptor_closing s' = acceptor_closing s1" "\<forall>b. sessions s1 b \<noteq> None \<longrightarrow> sessions s' b \<noteq> None"
    using Cons.IH [OF 1(3)] by blast
  have "iter_next s1 (hd_or xs None) = Some (hd_or (drop 1 xs) None)"
    using iter_next_hd [of s1 "[]" xs] 1(3) by simp
  then have "stop_loop (hd_or (a # xs) None) (hd_or (drop 1 (a # xs)) None) s = Some s'"
    using 1(1,2) s'(1) ss by (subst stop_loop.simps) simp
  then show ?case using s' by (simp add: s1)
qed

lemma qsf_net_server_stop_inv:
  assumes "server_inv s xs"
  shows "\<exists>s'. qsf_net_server_stop s = Some s' \<and> server_inv s' [] \<and> stopped s' \<and> timer_closing s' \<and>
    acceptor_closing s' \<and> \<not> timer_active s' \<and> (\<forall>b. sessions s b \<noteq> None \<longrightarrow> sessions s' b \<noteq> None)"
proof -
  have inv: "server_inv (s\<lparr>stopped := True\<rparr>) xs"
    using assms by (simp add: server_inv_def serial_of_def)
  have frame: "server_inv (t\<lparr>timer_active := b, timer_closing := c, acceptor_closing := d\<rparr>) [] = server_inv t []"
    for t :: "('a, 'b) net_server" and b c d
    by (simp add: server_inv_def)
  have head: "ut_head (session_map s) = hd_or xs None"
    using ut.head_law [OF server_invD(1) [OF assms]] .
  have tmp: "iter_next (s\<lparr>stopped := True\<rparr>) (hd_or xs None) = Some (hd_or (drop 1 xs) None)"
    using iter_next_hd [of "s\<lparr>stopped := True\<rparr>" "[]" xs] inv by simp
  obtain s' where s': "stop_loop (hd_or xs None) (hd_or (drop 1 xs) None) (s\<lparr>stopped := True\<rparr>) = Some s'"
      "server_inv s' []" "stopped s'" "\<forall>b. sessions s b \<noteq> None \<longrightarrow> sessions s' b \<noteq> None"
    using stop_loop_inv [OF inv] by auto
  define s2 where "s2 = s'\<lparr>timer_active := False, timer_closing := True, acceptor_closing := True\<rparr>"
  have "qsf_net_server_stop s = Some s2"
    using head tmp s'(1)
    by (auto simp: qsf_net_server_stop_def s2_def Let_def intro!: net_server.equality)
  then show ?thesis using s' frame by (simp add: s2_def)
qed

section \<open>Heartbeat\<close>

text \<open>
  The sessions the check removes: those whose last receive time lies more than the maximal
  heartbeat back (the difference of the two clock values is taken modulo \<open>2 ^ 64\<close>).
\<close>

definition expired :: "('c, 'u) net_server \<Rightarrow> u64 \<Rightarrow> u64 \<Rightarrow> addr \<Rightarrow> bool" where
  "expired s now max_expire a \<longleftrightarrow>
     (\<exists>ss. sessions s a = Some ss \<and> max_expire < now - last_recv_time ss)"

definition timeout_msg :: bytes where
  "timeout_msg = str ''session timeout''"

lemma invoke_read_tame:
  assumes "tame_at invoke err f" and "on_read s \<noteq> None"
  obtains s' where "invoke_read invoke err k d n s = Some s'" and "keeps s s'"
    and "udata s' = f k d (udata s)"
  using assms by (force simp: tame_at_def invoke_read_def)

text \<open>
  A handler that returns and keeps the server when it is told the error \<open>err\<close>; \<open>H\<close> relates
  the user data before and after, for the serial number it is told. \<open>told\<close> chains \<open>H\<close>.
\<close>

definition tell_ok :: "('c, 'u) handler \<Rightarrow> int \<Rightarrow> bytes \<Rightarrow> (u32 \<Rightarrow> 'u \<Rightarrow> 'u \<Rightarrow> bool) \<Rightarrow> bool" where
  "tell_ok invoke err d H \<longleftrightarrow> (\<forall>k n s xs. server_inv s xs \<longrightarrow> on_read s \<noteq> None \<longrightarrow>
     (\<exists>s'. invoke_read invoke err k d n s = Some s' \<and> keeps s s' \<and> H k (udata s) (udata s')))"

fun told :: "('k \<Rightarrow> 'u \<Rightarrow> 'u \<Rightarrow> bool) \<Rightarrow> 'k list \<Rightarrow> 'u \<Rightarrow> 'u \<Rightarrow> bool" where
  "told H [] u u' = (u' = u)"
| "told H (k # ks) u u' = (\<exists>v. H k u v \<and> told H ks v u')"

lemma told_fold: "told (\<lambda>k u v. v = f k u) ks u u' \<longleftrightarrow> u' = fold f ks u"
  by (induction ks arbitrary: u) simp_all

lemma tell_ok_tame: "tame_at invoke err f \<Longrightarrow> tell_ok invoke err d (\<lambda>k u v. v = f k d u)"
  unfolding tell_ok_def by (meson invoke_read_tame)

lemma keeps_expired: "keeps s s' \<Longrightarrow> expired s' now m a = expired s now m a"
  using keeps_sessions [of s s' a]
  by (cases "sessions s a"; cases "sessions s' a") (auto simp: expired_def dest: sess_core_eqD(1))

text \<open>What a check leaves behind, seen from the sessions \<open>vs\<close> still to be visited.\<close>

definition beat_done ::
    "('c, 'u) net_server \<Rightarrow> ('c, 'u) net_server \<Rightarrow> addr list \<Rightarrow> (addr \<Rightarrow> bool) \<Rightarrow> (u32 \<Rightarrow> 'u \<Rightarrow> 'u \<Rightarrow> bool) \<Rightarrow> bool"
where
  "beat_done s s' vs ex H \<longleftrightarrow>
     serial_of s' = serial_of s \<and>
     told H (map (serial_of s) (filter ex vs)) (udata s) (udata s') \<and>
     (\<forall>a. a \<notin> set (filter ex vs) \<longrightarrow>
        map_option sess_core (sessions s' a) = map_option sess_core (sessions s a))"

lemma hearbeat_loop_done:
  assumes "server_inv s (us @ vs)" and "tell_ok invoke NET_ERR_TIMEOUT timeout_msg H"
  shows "\<exists>s'. hearbeat_loop invoke now m (hd_or vs None) (hd_or (drop 1 vs) None) s = Some s' \<and>
    server_inv s' (us @ filter (\<lambda>a. \<not> expired s now m a) vs) \<and>
    beat_done s s' vs (expired s now m) H"
  using assms(1)
proof (induction vs arbitrary: s us)
  case Nil
  then show ?case by (subst hearbeat_loop.simps) (simp add: beat_done_def)
next
  case (Cons a vs)
  have a: "a \<in> set (us @ a # vs)" by simp
  have dist: "distinct (us @ a # vs)" by (rule server_invD(3) [OF Cons.prems])
  obtain ss where ss: "sessions s a = Some ss" by (rule server_inv_liveE [OF Cons.prems a])
  have cb: "on_read s \<noteq> None" using server_invD(4) [OF Cons.prems] by simp
  show ?case
  proof (cases "expired s now m a")
    case True
    then have late: "m < now - last_recv_time ss" using ss by (simp add: expired_def)
    obtain s1 where s1: "invoke_read invoke NET_ERR_TIMEOUT (serial_of s a) timeout_msg
          (of_nat (length timeout_msg)) s = Some s1" "keeps s s1"
        "H (serial_of s a) (udata s) (udata s1)"
      using assms(2) Cons.prems cb unfolding tell_ok_def by blast
    have inv1: "server_inv s1 (us @ a # vs)" by (rule keeps_server_inv [OF s1(2) Cons.prems])
    obtain mp s2 where 2: "HASH_DEL (session_map s1) a = Some mp"
        "session_destroy (s1\<lparr>session_map := mp\<rparr>) a = Some s2" "server_inv s2 (us @ vs)"
        "serial_of s2 = serial_of s1" "sessions s1 a \<noteq> None"
      and s2: "s2 = s1\<lparr>session_map := mp, sessions := (sessions s1)
           (a := Some ((the (sessions s1 a))\<lparr>h_reading := False, h_closing := True\<rparr>))\<rparr>"
      using drop_session [OF inv1 a] dist by (auto simp: remove1_split)
    have ex: "\<forall>x \<in> set vs. expired s2 now m x = expired s now m x"
    proof
      fix x assume "x \<in> set vs"
      then have "x \<noteq> a" using dist by auto
      then show "expired s2 now m x = expired s now m x"
        using keeps_expired [OF s1(2)] by (simp add: s2 expired_def)
    qed
    obtain s' where s': "hearbeat_loop invoke now m (hd_or vs None) (hd_or (drop 1 vs) None) s2 = Some s'"
        "server_inv s' (us @ filter (\<lambda>a. \<not> expired s2 now m a) vs)"
        "beat_done s2 s' vs (expired s2 now m) H"
      using Cons.IH [OF 2(3)] by blast
    have "hearbeat_loop invoke now m (hd_or (a # vs) None) (hd_or (drop 1 (a # vs)) None) s = Some s'"
      using ss late s1(1) 2(1,2,5) s'(1) iter_next_hd [OF 2(3)]
      by (subst hearbeat_loop.simps) (auto simp: timeout_msg_def Let_def)
    moreover have flt: "filter (\<lambda>a. \<not> expired s2 now m a) vs = filter (\<lambda>a. \<not> expired s now m a) vs"
        "filter (expired s2 now m) vs = filter (expired s now m) vs"
      using ex by (auto intro!: filter_cong)
    moreover have "beat_done s s' (a # vs) (expired s now m) H"
    proof -
      have ser: "serial_of s2 = serial_of s" using 2(4) keeps_serial_of [OF s1(2)] by simp
      have ud: "H (serial_of s a) (udata s) (udata s2)" using s1(3) by (simp add: s2)
      have core: "map_option sess_core (sessions s2 x) = map_option sess_core (sessions s x)" if "x \<noteq> a" for x
        using that keeps_sessions [OF s1(2), of x] by (simp add: s2)
      have "set (filter (expired s now m) (a # vs)) = insert a (set (filter (expired s now m) vs))"
        using True by auto
      then show ?thesis
        using s'(3) True core ud unfolding beat_done_def flt(2) ser by auto
    qed
    ultimately show ?thesis using s'(2) True by (intro exI [of _ s']) simp
  next
    case False
    then have late: "\<not> m < now - last_recv_time ss" using ss by (simp add: expired_def)
    obtain s' where s': "hearbeat_loop invoke now m (hd_or vs None) (hd_or (drop 1 vs) None) s = Some s'"
        "server_inv s' ((us @ [a]) @ filter (\<lambda>a. \<not> expired s now m a) vs)"
        "beat_done s s' vs (expired s now m) H"
      using Cons.IH [of s "us @ [a]"] Cons.prems by auto
    have "iter_next s (hd_or vs None) = Some (hd_or (drop 1 vs) None)"
      using iter_next_hd [of s "us @ [a]" vs] Cons.prems by simp
    then have "hearbeat_loop invoke now m (hd_or (a # vs) None) (hd_or (drop 1 (a # vs)) None) s = Some s'"
      using ss late s'(1) by (subst hearbeat_loop.simps) simp
    then show ?thesis using s'(2,3) False by (intro exI [of _ s']) (simp add: beat_done_def)
  qed
qed

definition max_expire :: "('c, 'u) net_server \<Rightarrow> u64" where
  "max_expire s = ucast (max_heart_beat s) * 1000"

lemma hearbeat_timer_cb_done:
  assumes "server_inv s xs" and "tell_ok invoke NET_ERR_TIMEOUT timeout_msg H"
  shows "\<exists>s'. hearbeat_timer_cb invoke now s = Some s' \<and>
    server_inv s' (filter (\<lambda>a. \<not> expired s now (max_expire s) a) xs) \<and>
    beat_done s s' xs (expired s now (max_expire s)) H"
proof -
  have "ut_head (session_map s) = hd_or xs None"
    using ut.head_law [OF server_invD(1) [OF assms(1)]] .
  then show ?thesis
    using hearbeat_loop_done [of s "[]" xs, OF _ assms(2)] iter_next_hd [of s "[]" xs] assms(1)
    by (simp add: hearbeat_timer_cb_def max_expire_def)
qed

section \<open>Accepting\<close>

lemma serial_loop_from:
  assumes rep: "ut_rep m xs" and v: "v \<noteq> 0" "v \<notin> ut_key m ` set xs"
  shows "\<exists>r. serial_loop m k = Some r \<and> r \<noteq> 0 \<and> r \<notin> ut_key m ` set xs"
proof (induction "unat (v - k)" arbitrary: k rule: less_induct)
  case less
  define k1 where "k1 = (if k = 0 then k + 1 else k)"
  have k1: "k1 \<noteq> 0" by (simp add: k1_def)
  show ?case
  proof (cases "k1 \<in> ut_key m ` set xs")
    case False
    then have "HASH_FIND_INT m k1 = Some None" using ut.find_None_iff [OF rep] by simp
    then have "serial_loop m k = Some k1"
      by (subst serial_loop.simps) (simp add: k1_def Let_def)
    then show ?thesis using k1 False by simp
  next
    case True
    have dec: "unat (x - 1) < unat x" if "x \<noteq> 0" for x :: u32
      using that by (simp add: unat_minus_one unat_gt_0)
    have "v \<noteq> k1" using True v(2) by blast
    then have "unat (v - k1 - 1) < unat (v - k1)" by (intro dec) simp
    also have "unat (v - k1) \<le> unat (v - k)"
      using dec [of v] v(1) by (simp add: k1_def)
    finally have "unat (v - (k1 + 1)) < unat (v - k)" by (simp add: diff_diff_add)
    from less [OF this] obtain r where r: "serial_loop m (k1 + 1) = Some r" "r \<noteq> 0"
        "r \<notin> ut_key m ` set xs" by blast
    obtain b where "HASH_FIND_INT m k1 = Some (Some b)"
      using True ut.find_mem [OF rep] by auto
    then have "serial_loop m k = serial_loop m (k1 + 1)"
      by (subst serial_loop.simps) (simp add: k1_def Let_def)
    then show ?thesis using r by simp
  qed
qed

lemma serial_loop_fresh:
  assumes rep: "ut_rep m xs" and len: "Suc (length xs) < 2 ^ 32"
  shows "\<exists>r. serial_loop m k = Some r \<and> r \<noteq> 0 \<and> r \<notin> ut_key m ` set xs"
proof -
  have "card (ut_key m ` set xs) \<le> length xs"
    using card_image_le [of "set xs" "ut_key m"] card_length [of xs] by simp
  then have "card (insert 0 (ut_key m ` set xs)) < 2 ^ 32"
    using len by (simp add: card_insert_if)
  moreover have "card (UNIV :: u32 set) = 2 ^ 32" by (simp add: card_word)
  ultimately have "insert 0 (ut_key m ` set xs) \<noteq> UNIV" by (metis less_irrefl)
  then obtain v where "v \<noteq> 0" "v \<notin> ut_key m ` set xs" by blast
  then show ?thesis by (rule serial_loop_from [OF rep])
qed

text \<open>What the accept path asks of the allocator and of libuv to get through.\<close>

definition accept_ok :: "accept_env \<Rightarrow> ('c, 'u) net_server \<Rightarrow> addr \<Rightarrow> bool" where
  "accept_ok e s a \<longleftrightarrow> ae_block e = Some a \<and> sessions s a = None \<and> ae_init e = 0 \<and>
     (\<forall>n < 2 ^ 16. ae_avail e n) \<and> (\<forall>n. ae_avail e n \<longrightarrow> n < 2 ^ 35) \<and>
     ut_room (ae_avail e) (session_map s)"

definition new_session :: "accept_env \<Rightarrow> u64 \<Rightarrow> net_session" where
  "new_session e now =
     \<lparr>last_recv_time = now, peer_addr = ae_peer e, buf_size = of_nat DEFAULT_RECV_BUF_SIZE,
      recv_bytes = 0, body_size = 0, recv_buf = replicate DEFAULT_RECV_BUF_SIZE None,
      h_reading = True, h_shutdown = False, h_closing = False, h_written = []\<rparr>"

lemma new_session_ok: "sess_ok (new_session e now)" "sess_pending (new_session e now) = []"
  by (simp_all add: new_session_def sess_ok_def sess_pending_def DEFAULT_RECV_BUF_SIZE_def)

text \<open>The connection is registered under a fresh serial number that is not zero.\<close>

lemma on_connection_accepts:
  assumes inv: "server_inv s xs" and ok: "accept_ok e s a" and cb: "on_read s \<noteq> None"
    and run: "\<not> stopped s" "length xs < unat (max_connection s)"
    and r: "ae_accept e \<ge> 0" "ae_getpeername e \<ge> 0" "ae_read_start e \<ge> 0"
  shows "\<exists>s' k. on_connection invoke e now 0 s = Some s' \<and> server_inv s' (xs @ [a]) \<and>
    k \<noteq> 0 \<and> k \<notin> serial_of s ` set xs \<and> serial_of s' = (serial_of s)(a := k) \<and> a \<notin> set xs \<and>
    sessions s' = (sessions s)(a := Some (new_session e now)) \<and> udata s' = udata s \<and>
    on_read s' = on_read s \<and> max_connection s' = max_connection s \<and> next_serial s' = k + 1 \<and>
    stopped s' = stopped s \<and> max_heart_beat s' = max_heart_beat s \<and>
    (\<exists>m. ut_head m = ut_head (session_map s) \<and> HASH_ADD_INT (ae_avail e) m a = Some (session_map s'))"
proof -
  note rep = server_invD(1) [OF inv]
  have a: "a \<notin> set xs"
    using server_invD(6) [OF inv, of a] ok by (auto simp: accept_ok_def live_ok_def)
  have len: "Suc (length xs) < 2 ^ 32"
    using run(2) unat_u32_less [of "max_connection s"] by (simp del: unat_u32_less)
  have "unat (of_nat (length xs) :: u32) = length xs" using len by (intro unat_of_nat_u32) simp
  then have count: "HASH_COUNT (session_map s) = Some (of_nat (length xs))"
      "\<not> max_connection s \<le> of_nat (length xs)"
    using HASH_COUNT_rep [OF rep] run(2) by (simp_all add: word_le_nat_alt not_le)
  obtain k where k: "serial_loop (session_map s) (next_serial s) = Some k" "k \<noteq> 0"
      "k \<notin> ut_key (session_map s) ` set xs"
    using serial_loop_fresh [OF rep len] by blast
  define m1 where "m1 = (session_map s)\<lparr>ut_hh := (ut_hh (session_map s))
      \<lparr>hh_key := (hh_key (ut_hh (session_map s)))(a := k)\<rparr>\<rparr>"
  have rep1: "ut_rep m1 xs" unfolding m1_def by (rule ut_rep_set_key [OF rep a])
  have key1: "ut_key m1 = (ut_key (session_map s))(a := k)" by (simp add: m1_def ut_key_def)
  have room: "ut_room (ae_avail e) m1" "ut_room (ae_avail e) m1 = ut_room (ae_avail e) (session_map s)"
    using ok by (simp_all add: accept_ok_def ut_room_def m1_def)
  have lim: "\<forall>n. ae_avail e n \<longrightarrow> n < 2 ^ 35" "ae_avail e (64 * sizeof_UT_hash_bucket)"
    using ok by (simp_all add: accept_ok_def sizeof_UT_hash_bucket_def)
  obtain m2 where m2: "HASH_ADD_INT (ae_avail e) m1 a = Some m2"
    using HASH_ADD_INT_progress [OF rep1 a len lim(1) room(1) lim(2)] by blast
  have below: "malloc_below (ae_avail e) = ae_avail e"
    using lim(1) by (auto simp: malloc_below_def)
  have "ut_key m1 a \<notin> ut_key m1 ` set xs" using k(3) a key1 by auto
  from ut.add_law [OF rep1 a this len, of "ae_avail e"] m2 below
  have rep2: "ut_rep m2 (xs @ [a])" "ut_key m2 = ut_key m1" by simp_all
  define s' where "s' = s\<lparr>session_map := m2, next_serial := k + 1,
      sessions := (sessions s)(a := Some (new_session e now))\<rparr>"
  have ser: "serial_of s' = (serial_of s)(a := k)"
    unfolding serial_of_ut_key using rep2(2) key1 by (simp add: s'_def)
  have "DEFAULT_RECV_BUF_SIZE < 2 ^ 16" by (simp add: DEFAULT_RECV_BUF_SIZE_def)
  then have "on_connection invoke e now 0 s = Some s'"
    using cb run(1) count ok r k(1) m2
    by (simp add: on_connection_def session_create_def accept_ok_def qsf_malloc_def
        set_session_serial_def m1_def set_session_def s'_def new_session_def Let_def)
  moreover have "server_inv s' (xs @ [a])"
    using rep2(1) ser run(2) a k(2) inv new_session_ok(1) [of e now] cb
    by (auto simp: server_inv_def s'_def live_ok_def new_session_def)
  moreover have "ut_head m1 = ut_head (session_map s)" "session_map s' = m2" by (simp_all add: m1_def s'_def)
  ultimately show ?thesis
    using ser k(2,3) a m2
    by (auto simp: s'_def serial_of_ut_key intro!: exI [of _ s'] exI [of _ k] exI [of _ m1])
qed

end
