(* ===== verification/Net_Server_Run.thy ===== *)
theory Net_Server_Run
  imports Net_Server_Correct
begin

text \<open>
  The net server as a system: the events libuv and the embedding program feed it, one step per
  event, and the properties of every reachable state. Progress and preservation are proved
  together, for any read handler that returns and keeps the invariant (\<open>handler_ok\<close>).
\<close>

section \<open>The remaining operations\<close>

lemma on_connection_refused:
  assumes "server_inv s xs" and "on_read s \<noteq> None" and "\<not> stopped s"
    and "length xs = unat (max_connection s)"
  shows "on_connection invoke e now 0 s =
    invoke_read invoke NET_ERR_CONN_LIMIT 0 (str ''max connection count limit'') 26 s"
proof -
  have "length xs < 2 ^ 32" using assms(4) by simp
  then have "HASH_COUNT (session_map s) = Some (max_connection s)"
    using HASH_COUNT_rep [OF server_invD(1) [OF assms(1)]] assms(4)
    by (simp add: word_unat_eq_iff unat_of_nat_u32)
  then show ?thesis using assms(2,3) by (simp add: on_connection_def str_def)
qed

lemma server_inv_set_closing:
  assumes "server_inv s xs" and "a \<notin> set xs" and "h_closing ss"
  shows "server_inv (set_session s a ss) xs"
  using assms unfolding server_inv_def by (auto simp: serial_of_def)

text \<open>When libuv refuses the connection, the new session is closed and not registered.\<close>

lemma on_connection_fails:
  assumes inv: "server_inv s xs" and ok: "accept_ok e s a" and cb: "on_read s \<noteq> None"
    and run: "\<not> stopped s" "length xs < unat (max_connection s)"
    and r: "ae_accept e < 0 \<or> ae_getpeername e < 0 \<or> ae_read_start e < 0"
  shows "\<exists>s'. on_connection invoke e now 0 s = Some s' \<and> server_inv s' xs \<and>
    session_map s' = session_map s \<and> on_read s' = on_read s"
proof -
  have a: "a \<notin> set xs"
    using server_invD(6) [OF inv, of a] ok by (auto simp: accept_ok_def live_ok_def)
  have "length xs < 2 ^ 32" using run(2) unat_u32_less [of "max_connection s"] by (simp del: unat_u32_less)
  then have count: "HASH_COUNT (session_map s) = Some (of_nat (length xs))"
      "\<not> max_connection s \<le> of_nat (length xs)"
    using HASH_COUNT_rep [OF server_invD(1) [OF inv]] run(2)
    by (simp_all add: word_le_nat_alt not_le unat_of_nat_u32)
  have "\<exists>ss. on_connection invoke e now 0 s = Some (set_session s a ss) \<and> h_closing ss"
    using cb run(1) count ok r
    by (auto simp: on_connection_def session_create_def accept_ok_def session_destroy_def Let_def)
  then show ?thesis using server_inv_set_closing [OF inv a] by auto
qed

lemma qsf_net_server_close_known:
  assumes inv: "server_inv s xs" and a: "a \<in> set xs"
  shows "\<exists>s'. qsf_net_server_close (serial_of s a) s = Some s' \<and> server_inv s' (remove1 a xs) \<and>
    serial_of s' = serial_of s \<and>
    sessions s' = (sessions s)(a := Some ((the (sessions s a))\<lparr>h_reading := False, h_closing := True\<rparr>)) \<and>
    on_read s' = on_read s"
proof -
  obtain m s' where 1: "HASH_DEL (session_map s) a = Some m"
      "session_destroy (s\<lparr>session_map := m\<rparr>) a = Some s'" "server_inv s' (remove1 a xs)"
      "serial_of s' = serial_of s"
    and s': "s' = s\<lparr>session_map := m, sessions := (sessions s)
           (a := Some ((the (sessions s a))\<lparr>h_reading := False, h_closing := True\<rparr>))\<rparr>"
    using drop_session [OF inv a] by blast
  have "HASH_FIND_INT (session_map s) (serial_of s a) = Some (Some a)"
    unfolding serial_of_ut_key by (rule ut.find_mem [OF server_invD(1) [OF inv] a])
  then have "qsf_net_server_close (serial_of s a) s = Some s'"
    using 1 by (simp add: qsf_net_server_close_def)
  then show ?thesis using 1(3,4) by (auto simp: s')
qed

lemma find_unknown:
  assumes "server_inv s xs" and "k \<notin> serial_of s ` set xs"
  shows "HASH_FIND_INT (session_map s) k = Some None"
  using assms ut.find_None_iff [OF server_invD(1) [OF assms(1)]] by (simp add: serial_of_ut_key)

lemma find_known:
  assumes "server_inv s xs" and "a \<in> set xs"
  shows "HASH_FIND_INT (session_map s) (serial_of s a) = Some (Some a)"
  unfolding serial_of_ut_key by (rule ut.find_mem [OF server_invD(1) [OF assms(1)] assms(2)])

lemma find_cases:
  assumes "server_inv s xs"
  obtains "k \<notin> serial_of s ` set xs" and "HASH_FIND_INT (session_map s) k = Some None"
  | a where "a \<in> set xs" and "k = serial_of s a" and "HASH_FIND_INT (session_map s) k = Some (Some a)"
  using find_unknown [OF assms, of k] find_known [OF assms] by blast

lemma keeps_set_session:
  assumes "sessions s a = Some ss" and "sess_core ss' = sess_core ss"
  shows "keeps s (set_session s a ss')"
  using assms by (simp add: keeps_def set_session_def)

lemma server_inv_set_live:
  assumes "server_inv s xs" and "a \<in> set xs" and "\<not> h_closing ss" and "sess_ok ss"
  shows "server_inv (set_session s a ss) xs"
  using assms unfolding server_inv_def by (auto simp: serial_of_def live_ok_def)

lemma on_session_close_inv:
  assumes "server_inv s xs" and "sessions s a = Some ss" and "h_closing ss"
  shows "\<exists>s'. on_session_close s a = Some s' \<and> server_inv s' xs \<and> sessions s' = (sessions s)(a := None) \<and>
    on_read s' = on_read s"
proof -
  have a: "a \<notin> set xs" using server_inv_liveE [OF assms(1), of a] assms(2,3) by auto
  then have "server_inv (s\<lparr>sessions := (sessions s)(a := None)\<rparr>) xs"
    using assms(1) by (auto simp: server_inv_def serial_of_def)
  then show ?thesis using assms(2) by (simp add: on_session_close_def)
qed

section \<open>Sending\<close>

text \<open>The data of a write and the environment in which it gets through.\<close>

definition write_ok :: "write_env \<Rightarrow> bytes \<Rightarrow> u16 \<Rightarrow> bool" where
  "write_ok e d n \<longleftrightarrow> n \<noteq> 0 \<and> unat n \<le> length d \<and> (\<forall>a. we_malloc e a)"

definition sent :: "write_env \<Rightarrow> bytes \<Rightarrow> u16 \<Rightarrow> addr \<Rightarrow> net_session \<Rightarrow> net_session" where
  "sent e d n a ss =
     (if we_write e a < 0 then ss
      else ss\<lparr>h_written := h_written ss @ [be16 n @ take (unat n) d]\<rparr>)"

lemma sess_core_sent [simp]: "sess_core (sent e d n a ss) = sess_core ss"
  by (simp add: sent_def sess_core_def)

lemma do_session_write_sent:
  assumes "sessions s a = Some ss" and "write_ok e d n"
  shows "do_session_write e a d n s =
    Some (if we_write e a < 0 then we_write e a else 0, set_session s a (sent e d n a ss))"
proof -
  have "set_session s a ss = s"
    using assms(1) by (auto simp: set_session_def fun_upd_idem intro: net_server.equality)
  then show ?thesis
    using assms by (auto simp: do_session_write_def write_ok_def sent_def)
qed

lemma write_all_loop_sent:
  assumes "server_inv s (us @ vs)" and ok: "write_ok e d n"
  shows "\<exists>s'. write_all_loop e d n (hd_or vs None) (hd_or (drop 1 vs) None) s = Some s' \<and> keeps s s' \<and>
    udata s' = udata s \<and>
    sessions s' = (\<lambda>a. if a \<in> set vs then map_option (sent e d n a) (sessions s a) else sessions s a)"
  using assms(1)
proof (induction vs arbitrary: s us)
  case Nil
  then show ?case by (subst write_all_loop.simps) simp
next
  case (Cons a vs)
  obtain ss where ss: "sessions s a = Some ss"
    using server_inv_liveE [OF Cons.prems, of a] by auto
  define s1 where "s1 = set_session s a (sent e d n a ss)"
  have w: "do_session_write e a d n s = Some (if we_write e a < 0 then we_write e a else 0, s1)"
    unfolding s1_def by (rule do_session_write_sent [OF ss ok])
  have k1: "keeps s s1" unfolding s1_def by (rule keeps_set_session [OF ss]) simp
  have inv1: "server_inv s1 ((us @ [a]) @ vs)"
    using keeps_server_inv [OF k1 Cons.prems] by simp
  obtain s' where s': "write_all_loop e d n (hd_or vs None) (hd_or (drop 1 vs) None) s1 = Some s'"
      "keeps s1 s'" "udata s' = udata s1"
      "sessions s' = (\<lambda>a. if a \<in> set vs then map_option (sent e d n a) (sessions s1 a) else sessions s1 a)"
    using Cons.IH [OF inv1] by blast
  have "iter_next s1 (hd_or vs None) = Some (hd_or (drop 1 vs) None)"
    using iter_next_hd [OF inv1] .
  then have "write_all_loop e d n (hd_or (a # vs) None) (hd_or (drop 1 (a # vs)) None) s = Some s'"
    using w s'(1) by (subst write_all_loop.simps) simp
  moreover have "a \<notin> set vs" using server_invD(3) [OF Cons.prems] by simp
  then have "sessions s' = (\<lambda>b. if b \<in> set (a # vs) then map_option (sent e d n b) (sessions s b) else sessions s b)"
    unfolding s'(4) using ss by (auto simp: s1_def)
  moreover have "udata s' = udata s" using s'(3) by (simp add: s1_def)
  ultimately show ?case using keeps_trans [OF k1 s'(2)] by blast
qed

lemma qsf_net_server_write_all_sent:
  assumes "server_inv s xs" and "write_ok e d n"
  shows "\<exists>s'. qsf_net_server_write_all e d n s = Some (0, s') \<and> keeps s s' \<and> udata s' = udata s \<and>
    sessions s' = (\<lambda>a. if a \<in> set xs then map_option (sent e d n a) (sessions s a) else sessions s a)"
proof -
  have "ut_head (session_map s) = hd_or xs None"
    using ut.head_law [OF server_invD(1) [OF assms(1)]] .
  then show ?thesis
    using write_all_loop_sent [of s "[]" xs, OF _ assms(2)] iter_next_hd [of s "[]" xs] assms
    by (auto simp: qsf_net_server_write_all_def write_ok_def)
qed

lemma qsf_net_server_write_sent:
  assumes inv: "server_inv s xs" and ok: "write_ok e d n" and a: "a \<in> set xs" "sessions s a = Some ss"
  shows "qsf_net_server_write e (serial_of s a) d n s =
    Some (if we_write e a < 0 then we_write e a else 0, set_session s a (sent e d n a ss))"
proof -
  have "n \<noteq> 0" using ok by (simp add: write_ok_def)
  then show ?thesis
    unfolding do_session_write_sent [OF a(2) ok, symmetric]
    using find_known [OF inv a(1)] by (simp add: qsf_net_server_write_def)
qed

lemma qsf_net_server_write_unknown:
  assumes "server_inv s xs" and "n \<noteq> 0" and "k \<notin> serial_of s ` set xs"
  shows "qsf_net_server_write e k d n s = Some (-1, s)"
  using find_unknown [OF assms(1,3)] assms(2) by (simp add: qsf_net_server_write_def)

section \<open>Events\<close>

text \<open>
  A handler for the whole run: it returns, it keeps the invariant, and when it is told of a
  failed or expired session it does not disturb the tables, because the code goes on to delete
  that session from them. The other calls come last in their callback, so there it may do what
  it likes within the invariant.
\<close>

definition handler_ok :: "('c, 'u) handler \<Rightarrow> bool" where
  "handler_ok invoke \<longleftrightarrow> (\<forall>c err k d n s xs. server_inv s xs \<longrightarrow> on_read s = Some c \<longrightarrow>
     (\<exists>s'. invoke c err k d n s = Some s' \<and> on_read s' \<noteq> None \<and> (\<exists>ys. server_inv s' ys) \<and>
       (err \<noteq> 0 \<longrightarrow> err \<noteq> NET_ERR_CONN_LIMIT \<longrightarrow> keeps s s')))"

datatype net_event =
    Ev_connect accept_env u64 int
  | Ev_recv "nat \<Rightarrow> bool" u64 addr bytes
  | Ev_error u64 addr int
  | Ev_tick u64
  | Ev_closed addr
  | Ev_close u32
  | Ev_shutdown bool int u32
  | Ev_write write_env u32 bytes u16
  | Ev_write_all write_env bytes u16
  | Ev_stop

fun net_run ::
    "('c, 'u) handler \<Rightarrow> (int \<Rightarrow> bytes) \<Rightarrow> net_event \<Rightarrow> ('c, 'u) net_server \<Rightarrow> ('c, 'u) net_server option" where
  "net_run invoke uv_strerror (Ev_connect e now err) s = on_connection invoke e now err s"
| "net_run invoke uv_strerror (Ev_recv avail now a d) s = uv_session_recv avail invoke uv_strerror now a d s"
| "net_run invoke uv_strerror (Ev_error now a nread) s =
     on_session_read (\<lambda>_. True) invoke uv_strerror now a nread s"
| "net_run invoke uv_strerror (Ev_tick now) s = hearbeat_timer_cb invoke now s"
| "net_run invoke uv_strerror (Ev_closed a) s = on_session_close s a"
| "net_run invoke uv_strerror (Ev_close k) s = qsf_net_server_close k s"
| "net_run invoke uv_strerror (Ev_shutdown got r k) s = qsf_net_server_shutdown got r k s"
| "net_run invoke uv_strerror (Ev_write e k d n) s = map_option snd (qsf_net_server_write e k d n s)"
| "net_run invoke uv_strerror (Ev_write_all e d n) s = map_option snd (qsf_net_server_write_all e d n s)"
| "net_run invoke uv_strerror Ev_stop s = qsf_net_server_stop s"

text \<open>
  When an event can come up: libuv calls back only for handles that are open, reads at most the
  window it was offered, and runs the close callback of a closing handle; memory is granted.
\<close>

fun net_enabled :: "net_event \<Rightarrow> ('c, 'u) net_server \<Rightarrow> bool" where
  "net_enabled (Ev_connect e now err) s = (on_read s \<noteq> None \<and> (\<exists>a. accept_ok e s a))"
| "net_enabled (Ev_recv avail now a d) s =
     ((\<forall>n < 2 ^ 16. avail n) \<and> 0 < length d \<and>
      (\<exists>ss. sessions s a = Some ss \<and> \<not> h_closing ss \<and> length d \<le> sess_window ss))"
| "net_enabled (Ev_error now a nread) s =
     (nread < 0 \<and> nread \<noteq> NET_ERR_CONN_LIMIT \<and> (\<exists>ss. sessions s a = Some ss \<and> \<not> h_closing ss))"
| "net_enabled (Ev_tick now) s = True"
| "net_enabled (Ev_closed a) s = (\<exists>ss. sessions s a = Some ss \<and> h_closing ss)"
| "net_enabled (Ev_close k) s = True"
| "net_enabled (Ev_shutdown got r k) s = got"
| "net_enabled (Ev_write e k d n) s = write_ok e d n"
| "net_enabled (Ev_write_all e d n) s = write_ok e d n"
| "net_enabled Ev_stop s = True"

lemma handler_okE:
  assumes "handler_ok invoke" and "server_inv s xs" and "on_read s \<noteq> None"
  obtains s' ys where "invoke_read invoke err k d n s = Some s'" and "on_read s' \<noteq> None"
    and "server_inv s' ys" and "err \<noteq> 0 \<longrightarrow> err \<noteq> NET_ERR_CONN_LIMIT \<longrightarrow> keeps s s'"
proof -
  obtain c where c: "on_read s = Some c" using assms(3) by blast
  obtain s' where "invoke c err k d n s = Some s'" "on_read s' \<noteq> None" "\<exists>ys. server_inv s' ys"
      "err \<noteq> 0 \<longrightarrow> err \<noteq> NET_ERR_CONN_LIMIT \<longrightarrow> keeps s s'"
    using assms(1,2) c unfolding handler_ok_def by blast
  then show ?thesis using that c by (auto simp: invoke_read_def)
qed

lemma deliver_ok:
  assumes "handler_ok invoke" and "server_inv s xs" and "on_read s \<noteq> None"
  shows "\<exists>s' ys. deliver invoke k ms s = Some s' \<and> server_inv s' ys \<and> on_read s' \<noteq> None"
  using assms(2,3)
proof (induction ms arbitrary: s xs)
  case Nil
  then show ?case by auto
next
  case (Cons m ms)
  obtain s1 ys where s1: "invoke_read invoke 0 k m (of_nat (length m)) s = Some s1" "on_read s1 \<noteq> None"
      "server_inv s1 ys"
    by (rule handler_okE [OF assms(1) Cons.prems])
  then show ?case using Cons.IH [OF s1(3,2)] by auto
qed

lemma net_step_recv:
  assumes h: "handler_ok invoke" and inv: "server_inv s xs" and en: "net_enabled (Ev_recv avail now a d) s"
  shows "\<exists>s' ys. uv_session_recv avail invoke uv_strerror now a d s = Some s' \<and> server_inv s' ys \<and>
    on_read s' \<noteq> None"
proof -
  obtain ss where ss: "sessions s a = Some ss" "\<not> h_closing ss" "length d \<le> sess_window ss"
      "0 < length d" "\<forall>n < 2 ^ 16. avail n"
    using en by auto
  have a: "a \<in> set xs" by (rule server_inv_mem [OF inv ss(1,2)])
  have ok: "sess_ok ss" using server_inv_liveE [OF inv a] ss(1) by auto
  have cb: "on_read s \<noteq> None" by (rule server_inv_cb [OF inv a])
  obtain ss' where ss': "uv_session_recv avail invoke uv_strerror now a d s =
      deliver invoke (serial_of s a) (fst (wire_parse (sess_pending ss @ d))) (set_session s a ss')"
      "sess_ok ss'" and upd: "ss' = ss\<lparr>last_recv_time := now, buf_size := buf_size ss',
         recv_bytes := recv_bytes ss', body_size := body_size ss', recv_buf := recv_buf ss'\<rparr>"
    using uv_session_recv_step [OF ok ss(1) cb ss(4,3,5)] by blast
  have "h_closing ss' = h_closing ss" by (subst upd) simp
  then have "server_inv (set_session s a ss') xs"
    using server_inv_set_live [OF inv a] ss(2) ss'(2) by simp
  from deliver_ok [OF h this] cb show ?thesis unfolding ss'(1) by auto
qed

lemma net_step_error:
  assumes h: "handler_ok invoke" and inv: "server_inv s xs" and en: "net_enabled (Ev_error now a nread) s"
  shows "\<exists>s'. on_session_read avail invoke uv_strerror now a nread s = Some s' \<and>
    server_inv s' (remove1 a xs) \<and> a \<in> set xs"
proof -
  obtain ss where ss: "sessions s a = Some ss" "\<not> h_closing ss" and n: "nread < 0" "nread \<noteq> NET_ERR_CONN_LIMIT"
    using en by auto
  have a: "a \<in> set xs" by (rule server_inv_mem [OF inv ss])
  have cb: "on_read s \<noteq> None" by (rule server_inv_cb [OF inv a])
  obtain s1 where s1: "invoke_read invoke nread (serial_of s a) (uv_strerror nread)
        (of_nat (length (uv_strerror nread))) s = Some s1" "keeps s s1"
    using handler_okE [OF h inv cb] n by (metis less_irrefl)
  obtain m s' where "HASH_DEL (session_map s1) a = Some m" "sessions s1 a \<noteq> None"
      "session_destroy (s1\<lparr>session_map := m\<rparr>) a = Some s'" "server_inv s' (remove1 a xs)"
    using drop_session [OF keeps_server_inv [OF s1(2) inv] a] by blast
  then show ?thesis using ss(1) cb n s1(1) a by (auto simp: on_session_read_def Let_def)
qed

lemma handler_ok_tell: "handler_ok invoke \<Longrightarrow> tell_ok invoke NET_ERR_TIMEOUT timeout_msg (\<lambda>_ _ _. True)"
  unfolding tell_ok_def
proof (intro allI impI)
  fix k n and s :: "('a, 'b) net_server" and xs
  assume h: "handler_ok invoke" and i: "server_inv s xs" and c: "on_read s \<noteq> None"
  obtain s' ys where "invoke_read invoke NET_ERR_TIMEOUT k timeout_msg n s = Some s'"
      "on_read s' \<noteq> None" "server_inv s' ys"
      "NET_ERR_TIMEOUT \<noteq> 0 \<longrightarrow> NET_ERR_TIMEOUT \<noteq> NET_ERR_CONN_LIMIT \<longrightarrow> keeps s s'"
    by (rule handler_okE [OF h i c, of NET_ERR_TIMEOUT k timeout_msg n])
  then show "\<exists>s'. invoke_read invoke NET_ERR_TIMEOUT k timeout_msg n s = Some s' \<and> keeps s s' \<and> True"
    by (simp add: NET_ERR_TIMEOUT_def NET_ERR_CONN_LIMIT_def)
qed

lemma net_step_connect:
  assumes h: "handler_ok invoke" and inv: "server_inv s xs" and en: "net_enabled (Ev_connect e now err) s"
  shows "\<exists>s' ys. on_connection invoke e now err s = Some s' \<and> server_inv s' ys"
proof -
  obtain a where ok: "accept_ok e s a" and cb: "on_read s \<noteq> None" using en by auto
  show ?thesis
  proof (cases "err \<noteq> 0 \<or> stopped s")
    case True
    then show ?thesis using inv cb by (auto simp: on_connection_def)
  next
    case False
    then have run: "err = 0" "\<not> stopped s" by simp_all
    consider "length xs = unat (max_connection s)" | "length xs < unat (max_connection s)"
      using server_invD(2) [OF inv] by linarith
    then show ?thesis
    proof cases
      case 1
      then show ?thesis
        unfolding run(1) on_connection_refused [OF inv cb run(2) 1]
        using handler_okE [OF h inv cb] by metis
    next
      case 2
      show ?thesis
      proof (cases "ae_accept e < 0 \<or> ae_getpeername e < 0 \<or> ae_read_start e < 0")
        case True
        then show ?thesis
          unfolding run(1) using on_connection_fails [OF inv ok cb run(2) 2] by blast
      next
        case False
        then show ?thesis
          unfolding run(1) using on_connection_accepts [OF inv ok cb run(2) 2] by force
      qed
    qed
  qed
qed

lemma net_step_shutdown:
  assumes inv: "server_inv s xs"
  shows "\<exists>s'. qsf_net_server_shutdown True r k s = Some s' \<and> server_inv s' xs"
proof (rule find_cases [OF inv, of k])
  assume "HASH_FIND_INT (session_map s) k = Some None"
  then show ?thesis using inv by (simp add: qsf_net_server_shutdown_def)
next
  fix a assume a: "a \<in> set xs" "HASH_FIND_INT (session_map s) k = Some (Some a)"
  obtain ss where ss: "sessions s a = Some ss" "\<not> h_closing ss" "sess_ok ss"
    by (rule server_inv_liveE [OF inv a(1)])
  have "server_inv (set_session s a (ss\<lparr>h_reading := False, h_shutdown := b\<rparr>)) xs" for b
    by (rule server_inv_set_live [OF inv a(1)]) (use ss in simp_all)
  moreover have "server_inv (set_session s a (ss\<lparr>h_reading := False\<rparr>)) xs"
    by (rule server_inv_set_live [OF inv a(1)]) (use ss in simp_all)
  ultimately show ?thesis using ss a(2) by (simp add: qsf_net_server_shutdown_def Let_def)
qed

text \<open>Every event that can come up is handled without a fault and leaves the invariant in place.\<close>

lemma net_step_ok:
  assumes h: "handler_ok invoke" and inv: "server_inv s xs" and en: "net_enabled ev s"
  shows "\<exists>s' ys. net_run invoke uv_strerror ev s = Some s' \<and> server_inv s' ys"
proof (cases ev)
  case (Ev_connect e now err)
  then show ?thesis using net_step_connect [OF h inv] en by simp
next
  case (Ev_recv avail now a d)
  then have "net_enabled (Ev_recv avail now a d) s" using en by simp
  from net_step_recv [OF h inv this, of uv_strerror] show ?thesis
    unfolding Ev_recv net_run.simps by blast
next
  case (Ev_error now a nread)
  then show ?thesis using net_step_error [OF h inv] en by fastforce
next
  case (Ev_tick now)
  then show ?thesis using hearbeat_timer_cb_done [OF inv handler_ok_tell [OF h]] by fastforce
next
  case (Ev_closed a)
  then show ?thesis using on_session_close_inv [OF inv] en by fastforce
next
  case (Ev_close k)
  show ?thesis
  proof (rule find_cases [OF inv, of k])
    assume "HASH_FIND_INT (session_map s) k = Some None"
    then show ?thesis using Ev_close inv by (auto simp: qsf_net_server_close_def)
  next
    fix a assume "a \<in> set xs" "k = serial_of s a"
    then show ?thesis using Ev_close qsf_net_server_close_known [OF inv] by fastforce
  qed
next
  case (Ev_shutdown got r k)
  then show ?thesis using net_step_shutdown [OF inv, of r k] en by auto
next
  case (Ev_write e k d n)
  then have ok: "write_ok e d n" using en by simp
  then have n: "n \<noteq> 0" by (simp add: write_ok_def)
  show ?thesis
  proof (rule find_cases [OF inv, of k])
    assume "k \<notin> serial_of s ` set xs"
    then show ?thesis using Ev_write qsf_net_server_write_unknown [OF inv n] inv by auto
  next
    fix a assume a: "a \<in> set xs" "k = serial_of s a"
    obtain ss where ss: "sessions s a = Some ss" by (rule server_inv_liveE [OF inv a(1)])
    have "server_inv (set_session s a (sent e d n a ss)) xs"
      by (rule keeps_server_inv [OF keeps_set_session [OF ss] inv]) simp
    then show ?thesis using Ev_write qsf_net_server_write_sent [OF inv ok a(1) ss] a(2) by auto
  qed
next
  case (Ev_write_all e d n)
  then show ?thesis
    using qsf_net_server_write_all_sent [OF inv] en keeps_server_inv [OF _ inv] by fastforce
next
  case Ev_stop
  then show ?thesis using qsf_net_server_stop_inv [OF inv] by fastforce
qed

section \<open>Reachable states\<close>

inductive net_reach ::
    "('c, 'u) handler \<Rightarrow> (int \<Rightarrow> bytes) \<Rightarrow> ('c, 'u) net_server \<Rightarrow> ('c, 'u) net_server \<Rightarrow> bool"
  for invoke uv_strerror s0 where
  init: "net_reach invoke uv_strerror s0 s0"
| step: "net_reach invoke uv_strerror s0 s \<Longrightarrow> net_enabled ev s \<Longrightarrow>
    net_run invoke uv_strerror ev s = Some s' \<Longrightarrow> net_reach invoke uv_strerror s0 s'"

lemma net_reach_inv:
  assumes "handler_ok invoke" and "net_reach invoke uv_strerror s0 s" and "server_inv s0 xs0"
  shows "\<exists>xs. server_inv s xs"
  using assms(2,3)
proof (induction rule: net_reach.induct)
  case init
  then show ?case by blast
next
  case (step s ev s')
  then show ?case using net_step_ok [OF assms(1) _ step.hyps(2)] by (metis option.inject)
qed

text \<open>A server as it is after \<open>qsf_create_net_server\<close> and a successful start.\<close>

lemma created_inv:
  assumes "qsf_create_net_server True 0 0 u0 maxc beat check = Some s"
    and "qsf_net_server_start e cb s = (0, s')"
  shows "server_inv s' []"
  using assms ut_rep_empty
  by (auto simp: qsf_create_net_server_def qsf_net_server_start_def server_inv_def empty_uthash_def
      Let_def split: if_splits)

end
