(* ===== verification/Net_Stream.thy ===== *)
theory Net_Stream
  imports Net_Server_Run
begin

text \<open>
  Message delivery over whole runs: reads of many sessions interleaved in any order and cut in
  any way, and the messages written by one side as read by the other.
\<close>

section \<open>One read with a tame handler\<close>

text \<open>A handler that returns and keeps the server whenever it is told a message.\<close>

definition tame_msgs :: "('c, 'u) handler \<Rightarrow> (u32 \<Rightarrow> bytes \<Rightarrow> 'u \<Rightarrow> 'u) \<Rightarrow> bool" where
  "tame_msgs invoke f \<longleftrightarrow> (\<forall>c k m s. wire_ok m \<longrightarrow>
     (\<exists>s'. invoke c 0 k m (of_nat (length m)) s = Some s' \<and> keeps s s' \<and> udata s' = f k m (udata s)))"

lemma tame_at_msgs: "tame_at invoke 0 f \<Longrightarrow> tame_msgs invoke f"
  by (simp add: tame_at_def tame_msgs_def)

text \<open>
  More generally, for a server with the sessions \<open>xs\<close> whose serial numbers are \<open>ser\<close>: while \<open>I\<close> holds
  of the user data, the handler returns, keeps the server and \<open>I\<close>, and does \<open>f\<close> to what is \<open>seen\<close> of the
  server, which reading alone does not change.
\<close>

definition tells ::
    "('c, 'u) handler \<Rightarrow> addr list \<Rightarrow> (addr \<Rightarrow> u32) \<Rightarrow> ('u \<Rightarrow> bool) \<Rightarrow> (('c, 'u) net_server \<Rightarrow> 'x)
     \<Rightarrow> (u32 \<Rightarrow> bytes \<Rightarrow> 'x \<Rightarrow> 'x) \<Rightarrow> bool" where
  "tells invoke xs ser I seen f \<longleftrightarrow>
     (\<forall>c k m s. server_inv s xs \<longrightarrow> serial_of s = ser \<longrightarrow> I (udata s) \<longrightarrow> k \<in> ser ` set xs \<longrightarrow> wire_ok m \<longrightarrow>
        (\<exists>s'. invoke c 0 k m (of_nat (length m)) s = Some s' \<and> keeps s s' \<and> I (udata s') \<and>
           seen s' = f k m (seen s))) \<and>
     (\<forall>s a ss ss'. sessions s a = Some ss \<longrightarrow> h_written ss' = h_written ss \<longrightarrow> seen (set_session s a ss') = seen s)"

lemma tells_msg:
  assumes "tells invoke xs ser I seen f" and "server_inv s xs" and "serial_of s = ser" and "I (udata s)"
    and "k \<in> ser ` set xs" and "wire_ok m"
  shows "\<exists>s'. invoke c 0 k m (of_nat (length m)) s = Some s' \<and> keeps s s' \<and> I (udata s') \<and> seen s' = f k m (seen s)"
  using assms unfolding tells_def by blast

lemma tells_read:
  assumes "tells invoke xs ser I seen f" and "sessions s a = Some ss" and "h_written ss' = h_written ss"
  shows "seen (set_session s a ss') = seen s"
  using assms unfolding tells_def by blast

lemma tame_tells: "tame_msgs invoke f \<Longrightarrow> tells invoke xs ser (\<lambda>_. True) udata f"
  by (simp add: tame_msgs_def tells_def)

lemma deliver_tells:
  assumes t: "tells invoke xs ser I seen f" and k: "k \<in> ser ` set xs"
    and "on_read s \<noteq> None" and "\<forall>m \<in> set ms. wire_ok m"
    and "server_inv s xs" and "serial_of s = ser" and "I (udata s)"
  shows "\<exists>s'. deliver invoke k ms s = Some s' \<and> keeps s s' \<and> I (udata s') \<and> seen s' = fold (f k) ms (seen s)"
  using assms(3-)
proof (induction ms arbitrary: s)
  case Nil
  then show ?case by simp
next
  case (Cons m ms)
  have m: "wire_ok m" using Cons.prems(2) by simp
  obtain c where c: "on_read s = Some c" using Cons.prems(1) by blast
  obtain s1 where s1: "invoke c 0 k m (of_nat (length m)) s = Some s1" "keeps s s1" "I (udata s1)"
      "seen s1 = f k m (seen s)"
    using tells_msg [OF t Cons.prems(3-5) k m] by blast
  have "on_read s1 \<noteq> None" using s1(2) Cons.prems(1) by (simp add: keeps_def)
  then obtain s' where "deliver invoke k ms s1 = Some s'" "keeps s1 s'" "I (udata s')"
      "seen s' = fold (f k) ms (seen s1)"
    using Cons.IH [of s1] Cons.prems(2,4) keeps_server_inv [OF s1(2) Cons.prems(3)] keeps_serial_of [OF s1(2)] s1(3)
    by auto
  then show ?case using s1 c keeps_trans [OF s1(2)] by (auto simp: invoke_read_def)
qed

definition pending_of :: "('c, 'u) net_server \<Rightarrow> addr \<Rightarrow> bytes" where
  "pending_of s a = sess_pending (the (sessions s a))"

lemma recv_tells:
  assumes tells: "tells invoke xs (serial_of s) I seen f" and inv: "server_inv s xs" and I: "I (udata s)"
    and en: "net_enabled (Ev_recv avail now a d) s"
  shows "a \<in> set xs \<and> (\<exists>s'. uv_session_recv avail invoke uv_strerror now a d s = Some s' \<and>
    server_inv s' xs \<and> serial_of s' = serial_of s \<and> I (udata s') \<and>
    seen s' = fold (f (serial_of s a)) (fst (wire_parse (pending_of s a @ d))) (seen s) \<and>
    (\<forall>b \<in> set xs. pending_of s' b =
       (if b = a then snd (wire_parse (pending_of s a @ d)) else pending_of s b)))"
proof -
  obtain ss where ss: "sessions s a = Some ss" "\<not> h_closing ss" "length d \<le> sess_window ss"
      "0 < length d" "\<forall>n < 2 ^ 16. avail n"
    using en by auto
  have a: "a \<in> set xs" by (rule server_inv_mem [OF inv ss(1,2)])
  have ok: "sess_ok ss" using server_inv_liveE [OF inv a] ss(1) by auto
  have cb: "on_read s \<noteq> None" by (rule server_inv_cb [OF inv a])
  obtain ss' where run: "uv_session_recv avail invoke uv_strerror now a d s =
      deliver invoke (serial_of s a) (fst (wire_parse (sess_pending ss @ d))) (set_session s a ss')"
    and pend: "sess_pending ss' = snd (wire_parse (sess_pending ss @ d))" and ok': "sess_ok ss'"
    and upd: "ss' = ss\<lparr>last_recv_time := now, buf_size := buf_size ss',
         recv_bytes := recv_bytes ss', body_size := body_size ss', recv_buf := recv_buf ss'\<rparr>"
    using uv_session_recv_step [OF ok ss(1) cb ss(4,3,5)] by blast
  define s1 where "s1 = set_session s a ss'"
  have "h_closing ss' = h_closing ss" by (subst upd) simp
  then have inv1: "server_inv s1 xs"
    using server_inv_set_live [OF inv a] ss(2) ok' by (simp add: s1_def)
  have "on_read s1 \<noteq> None" using cb by (simp add: s1_def)
  moreover have "\<forall>m \<in> set (fst (wire_parse (sess_pending ss @ d))). wire_ok m"
    using wire_parse_msg_ok by blast
  moreover have "serial_of s1 = serial_of s" by (auto simp: s1_def)
  moreover have "serial_of s a \<in> serial_of s ` set xs" using a by simp
  moreover have "I (udata s1)" using I by (simp add: s1_def)
  ultimately obtain s' where s':
    "uv_session_recv avail invoke uv_strerror now a d s = Some s'" "keeps s1 s'" "I (udata s')"
    "seen s' = fold (f (serial_of s a)) (fst (wire_parse (sess_pending ss @ d))) (seen s1)"
    using deliver_tells [OF tells _ _ _ inv1] unfolding run s1_def [symmetric] by blast
  have "h_written ss' = h_written ss" by (subst upd) simp
  then have seen1: "seen s1 = seen s" using tells_read [OF tells ss(1)] by (simp add: s1_def)
  have "pending_of s' b = pending_of s1 b" if "b \<in> set xs" for b
    using server_inv_liveE [OF inv1 that] keeps_session [OF s'(2)] sess_core_eqD(4)
    by (metis option.sel pending_of_def)
  moreover have "pending_of s1 b = (if b = a then sess_pending ss' else pending_of s b)" for b
    by (simp add: pending_of_def s1_def)
  moreover have "serial_of s' = serial_of s" using keeps_serial_of [OF s'(2)] by (auto simp: s1_def)
  moreover have "pending_of s a = sess_pending ss" using ss(1) by (simp add: pending_of_def)
  ultimately show ?thesis
    using a s' seen1 keeps_server_inv [OF s'(2) inv1] pend by (auto simp: s1_def)
qed

section \<open>Interleaved streams\<close>

text \<open>
  \<open>net_recvs\<close>: a sequence of reads \<open>(now, a, d)\<close>, each within the window its session offers at
  that moment. \<open>stream_of a\<close> is the byte stream of one session in such a sequence.
\<close>

inductive net_recvs ::
    "('c, 'u) handler \<Rightarrow> (int \<Rightarrow> bytes) \<Rightarrow> (nat \<Rightarrow> bool) \<Rightarrow> ('c, 'u) net_server \<Rightarrow>
     (u64 \<times> addr \<times> bytes) list \<Rightarrow> ('c, 'u) net_server \<Rightarrow> bool"
  for invoke uv_strerror avail where
  recvs_Nil: "net_recvs invoke uv_strerror avail s [] s"
| recvs_Cons: "net_enabled (Ev_recv avail now a d) s \<Longrightarrow>
    uv_session_recv avail invoke uv_strerror now a d s = Some s1 \<Longrightarrow>
    net_recvs invoke uv_strerror avail s1 evs s' \<Longrightarrow>
    net_recvs invoke uv_strerror avail s ((now, a, d) # evs) s'"

definition stream_of :: "addr \<Rightarrow> (u64 \<times> addr \<times> bytes) list \<Rightarrow> bytes" where
  "stream_of a evs = concat (map (\<lambda>(_, b, d). if b = a then d else []) evs)"

text \<open>The messages of a delivery log that carry one serial number.\<close>

definition msgs_of :: "u32 \<Rightarrow> (u32 \<times> bytes) list \<Rightarrow> bytes list" where
  "msgs_of k log = map snd (filter (\<lambda>e. fst e = k) log)"

lemma msgs_of_simps [simp]:
  "msgs_of k [] = []" "msgs_of k (l1 @ l2) = msgs_of k l1 @ msgs_of k l2"
  "msgs_of k (map (Pair j) ms) = (if j = k then ms else [])"
  by (simp_all add: msgs_of_def filter_map o_def map_idI)

lemma stream_of_simps [simp]:
  "stream_of a [] = []" "stream_of a ((now, b, d) # evs) = (if b = a then d else []) @ stream_of a evs"
  by (simp_all add: stream_of_def)

lemma fold_Pair: "fold (\<lambda>(k, m). f k m) (map (Pair k) ms) u = fold (f k) ms u"
  by (induction ms arbitrary: u) simp_all

lemma serial_of_inj:
  assumes "server_inv s xs" and "a \<in> set xs" and "b \<in> set xs"
  shows "serial_of s a = serial_of s b \<longleftrightarrow> a = b"
  using ut.key_inj [OF server_invD(1) [OF assms(1)] assms(2,3)] by (auto simp: serial_of_ut_key)

lemma net_recvs_tells:
  assumes "net_recvs invoke uv_strerror avail s evs s'" and "tells invoke xs ser I seen f" and "server_inv s xs"
    and "serial_of s = ser" and "I (udata s)"
  shows "\<exists>log. server_inv s' xs \<and> serial_of s' = serial_of s \<and> I (udata s') \<and>
    seen s' = fold (\<lambda>(k, m). f k m) log (seen s) \<and>
    fst ` set log \<subseteq> serial_of s ` set xs \<and>
    (\<forall>a \<in> set xs. msgs_of (serial_of s a) log = fst (wire_parse (pending_of s a @ stream_of a evs)) \<and>
       pending_of s' a = snd (wire_parse (pending_of s a @ stream_of a evs)))"
  using assms(1,3-5)
proof (induction rule: net_recvs.induct)
  case (recvs_Nil s)
  have "wire_parse (pending_of s a) = ([], pending_of s a)" if mem: "a \<in> set xs" for a
  proof -
    obtain ss where ss: "sessions s a = Some ss" "sess_ok ss"
      by (rule server_inv_liveE [OF recvs_Nil(1) mem])
    show ?thesis
    proof (cases "body_size ss = 0")
      case True
      then show ?thesis
        using ss by (simp add: pending_of_def sess_pending_def sess_ok_def wire_parse_short)
    next
      case False
      then show ?thesis
        using ss unfolding pending_of_def sess_pending_def
        by (simp add: sess_ok_def wire_parse_be16)
    qed
  qed
  then show ?case using recvs_Nil by (intro exI [of _ "[]"]) simp
next
  case (recvs_Cons now a d s s1 evs s')
  have a: "a \<in> set xs" and inv1: "server_inv s1 xs" and ser: "serial_of s1 = serial_of s" and I1: "I (udata s1)"
    and ud: "seen s1 = fold (f (serial_of s a)) (fst (wire_parse (pending_of s a @ d))) (seen s)"
    and pend: "\<forall>b \<in> set xs. pending_of s1 b =
       (if b = a then snd (wire_parse (pending_of s a @ d)) else pending_of s b)"
    using recv_tells [OF assms(2) [folded recvs_Cons.prems(2)] recvs_Cons.prems(1,3) recvs_Cons.hyps(1), of uv_strerror]
      recvs_Cons.hyps(2) by auto
  obtain log where log: "server_inv s' xs" "serial_of s' = serial_of s1" "I (udata s')"
      "seen s' = fold (\<lambda>(k, m). f k m) log (seen s1)" "fst ` set log \<subseteq> serial_of s1 ` set xs"
      "\<forall>b \<in> set xs. msgs_of (serial_of s1 b) log = fst (wire_parse (pending_of s1 b @ stream_of b evs)) \<and>
         pending_of s' b = snd (wire_parse (pending_of s1 b @ stream_of b evs))"
    using recvs_Cons.IH [OF inv1] ser I1 recvs_Cons.prems(2) by auto
  define ms where "ms = fst (wire_parse (pending_of s a @ d))"
  define log' where "log' = map (Pair (serial_of s a)) ms @ log"
  have "seen s' = fold (\<lambda>(k, m). f k m) log' (seen s)"
    using log(4) ud by (simp add: log'_def fold_Pair ms_def)
  moreover have "fst ` set log' \<subseteq> serial_of s ` set xs"
    using log(5) a ser by (auto simp: log'_def)
  moreover have "msgs_of (serial_of s b) log' = fst (wire_parse (pending_of s b @ stream_of b ((now, a, d) # evs))) \<and>
      pending_of s' b = snd (wire_parse (pending_of s b @ stream_of b ((now, a, d) # evs)))"
    if b: "b \<in> set xs" for b
  proof (cases "b = a")
    case True
    then show ?thesis
      using log(6) b ser pend wire_parse_append [of "pending_of s a @ d" "stream_of a evs"]
      by (simp add: log'_def ms_def)
  next
    case False
    then show ?thesis
      using log(6) b ser pend serial_of_inj [OF recvs_Cons.prems(1) a b] by (simp add: log'_def)
  qed
  ultimately show ?case using log(1-3) ser by (intro exI [of _ log']) simp
qed

lemmas net_recvs_parse = net_recvs_tells [OF _ tame_tells _ refl TrueI, simplified]

section \<open>Every chopping runs\<close>

text \<open>
  The window a session offers, as a function of the bytes it has pending: the rest of the
  length prefix, then the rest of the body. \<open>wire_fits\<close> says that a sequence of reads respects
  the windows.
\<close>

definition wire_window :: "bytes \<Rightarrow> nat" where
  "wire_window p = (case p of h # l # r \<Rightarrow> unat (ntoh16 h l) - length r | _ \<Rightarrow> 2 - length p)"

fun wire_fits :: "(addr \<Rightarrow> bytes) \<Rightarrow> (u64 \<times> addr \<times> bytes) list \<Rightarrow> bool" where
  "wire_fits p [] = True"
| "wire_fits p ((now, a, d) # evs) =
     (0 < length d \<and> length d \<le> wire_window (p a) \<and>
      wire_fits (p(a := snd (wire_parse (p a @ d)))) evs)"

lemma sess_window_pending:
  assumes "sess_ok ss"
  shows "sess_window ss = wire_window (sess_pending ss)"
proof -
  have len: "unat (recv_bytes ss) \<le> length (recv_buf ss)"
    using assms by (auto simp: sess_ok_def split: if_splits)
  show ?thesis
  proof (cases "body_size ss = 0")
    case True
    have "length (sess_pending ss) = unat (recv_bytes ss)" "unat (recv_bytes ss) < 2"
      using True len assms by (simp_all add: sess_pending_def sess_ok_def)
    then show ?thesis
      using True by (auto simp: sess_window_def wire_window_def split: list.splits)
  next
    case False
    then show ?thesis using len by (simp add: sess_window_def wire_window_def sess_pending_def be16_def)
  qed
qed

lemma wire_fits_cong:
  assumes "wire_fits p evs" and "(fst \<circ> snd) ` set evs \<subseteq> X" and "\<forall>a \<in> X. q a = p a"
  shows "wire_fits q evs"
  using assms
proof (induction evs arbitrary: p q)
  case (Cons ev evs)
  obtain now a d where ev: "ev = (now, a, d)" by (cases ev) auto
  have a: "q a = p a" using Cons.prems(2,3) by (simp add: ev)
  let ?up = "\<lambda>p :: addr \<Rightarrow> bytes. p(a := snd (wire_parse (p a @ d)))"
  have "wire_fits (?up p) evs" "(fst \<circ> snd) ` set evs \<subseteq> X" "\<forall>b \<in> X. ?up q b = ?up p b"
    using Cons.prems a by (auto simp: ev)
  then have "wire_fits (?up q) evs" by (rule Cons.IH)
  then show ?case using Cons.prems(1) a by (simp add: ev)
qed simp

lemma net_recvs_runs:
  assumes tells: "tells invoke xs ser I seen f" and "server_inv s xs" and mem: "\<forall>n < 2 ^ 16. avail n"
    and "(fst \<circ> snd) ` set evs \<subseteq> set xs" and "wire_fits (pending_of s) evs"
    and "serial_of s = ser" and "I (udata s)"
  shows "\<exists>s'. net_recvs invoke uv_strerror avail s evs s'"
  using assms(2,4-)
proof (induction evs arbitrary: s)
  case Nil
  then show ?case by (blast intro: net_recvs.recvs_Nil)
next
  case (Cons ev evs)
  obtain now a d where ev: "ev = (now, a, d)" by (cases ev) auto
  have a: "a \<in> set xs" using Cons.prems(2) by (simp add: ev)
  obtain ss where ss: "sessions s a = Some ss" "\<not> h_closing ss" "sess_ok ss"
    by (rule server_inv_liveE [OF Cons.prems(1) a])
  have en: "net_enabled (Ev_recv avail now a d) s"
    using ss mem Cons.prems(3) by (simp add: ev sess_window_pending pending_of_def)
  obtain s1 where s1: "uv_session_recv avail invoke uv_strerror now a d s = Some s1" "server_inv s1 xs"
      "\<forall>b \<in> set xs. pending_of s1 b = (if b = a then snd (wire_parse (pending_of s a @ d)) else pending_of s b)"
    "serial_of s1 = serial_of s" "I (udata s1)"
    using recv_tells [OF tells [folded Cons.prems(4)] Cons.prems(1,5) en, of uv_strerror] by blast
  have "wire_fits (pending_of s1) evs"
    by (rule wire_fits_cong [of "(pending_of s)(a := snd (wire_parse (pending_of s a @ d)))" _ "set xs"])
       (use Cons.prems(2,3) s1(3) in \<open>auto simp: ev\<close>)
  then obtain s' where "net_recvs invoke uv_strerror avail s1 evs s'"
    using Cons.IH [OF s1(2)] Cons.prems(2,4) s1(4,5) by auto
  then show ?case unfolding ev using net_recvs.recvs_Cons [OF en s1(1)] by blast
qed

lemmas net_recvs_total = net_recvs_runs [OF tame_tells _ _ _ _ refl TrueI]

section \<open>From one side to the other\<close>

text \<open>A sequence of successful writes of whole messages to one session.\<close>

fun write_msgs ::
    "write_env \<Rightarrow> u32 \<Rightarrow> bytes list \<Rightarrow> ('c, 'u) net_server \<Rightarrow> ('c, 'u) net_server option" where
  "write_msgs e k [] s = Some s"
| "write_msgs e k (m # ms) s = do {
     (r, s) \<leftarrow> qsf_net_server_write e k m (of_nat (length m)) s;
     c_assert (r = 0);
     write_msgs e k ms s }"

lemma write_ok_wire:
  assumes "wire_ok m" and "\<forall>a. we_malloc e a"
  shows "write_ok e m (of_nat (length m))" and "be16 (of_nat (length m)) @ take (unat (of_nat (length m) :: u16)) m = wire_frame m"
proof -
  have n: "unat (of_nat (length m) :: u16) = length m"
    using assms(1) by (intro unat_of_nat_u16) (simp add: wire_ok_def)
  then have "(of_nat (length m) :: u16) \<noteq> 0"
    using assms(1) by (metis unsigned_0 wire_ok_def less_numeral_extra(3))
  then show "write_ok e m (of_nat (length m))" using n assms(2) by (simp add: write_ok_def)
  show "be16 (of_nat (length m)) @ take (unat (of_nat (length m) :: u16)) m = wire_frame m"
    using n by (simp add: wire_frame_def)
qed

lemma write_msgs_frames:
  assumes "server_inv s xs" and "a \<in> set xs" and "\<forall>m \<in> set ms. wire_ok m"
    and "\<forall>a. we_malloc e a" and "\<forall>a. we_write e a \<ge> 0"
  shows "\<exists>s'. write_msgs e (serial_of s a) ms s = Some s' \<and> keeps s s' \<and> udata s' = udata s \<and>
    h_written (the (sessions s' a)) = h_written (the (sessions s a)) @ map wire_frame ms"
  using assms(1,3)
proof (induction ms arbitrary: s)
  case Nil
  then show ?case by simp
next
  case (Cons m ms)
  obtain ss where ss: "sessions s a = Some ss" by (rule server_inv_liveE [OF Cons.prems(1) assms(2)])
  have m: "wire_ok m" using Cons.prems(2) by simp
  define s1 where "s1 = set_session s a (sent e m (of_nat (length m)) a ss)"
  have w: "qsf_net_server_write e (serial_of s a) m (of_nat (length m)) s = Some (0, s1)"
    using qsf_net_server_write_sent [OF Cons.prems(1) write_ok_wire(1) [OF m assms(4)] assms(2) ss] assms(5)
    by (simp add: s1_def not_less)
  have k: "keeps s s1" unfolding s1_def by (rule keeps_set_session [OF ss]) simp
  have "h_written (the (sessions s1 a)) = h_written ss @ [wire_frame m]"
    using assms(5) write_ok_wire(2) [OF m assms(4)] by (simp add: s1_def sent_def not_less)
  moreover have "serial_of s1 = serial_of s" by (rule keeps_serial_of [OF k])
  moreover obtain s' where "write_msgs e (serial_of s1 a) ms s1 = Some s'" "keeps s1 s'"
      "udata s' = udata s1" "h_written (the (sessions s' a)) = h_written (the (sessions s1 a)) @ map wire_frame ms"
    using Cons.IH [OF keeps_server_inv [OF k Cons.prems(1)]] Cons.prems(2) by auto
  ultimately show ?case using w ss keeps_trans [OF k] by (auto simp: s1_def)
qed

section \<open>A handler that disconnects\<close>

text \<open>A handler that closes the session it is told about, whatever it is told.\<close>

definition kicking :: "('c, 'u) handler" where
  "kicking c err k d n s = qsf_net_server_close k s"

lemma kicking_faults:
  assumes inv: "server_inv s [a]" and n: "nread < 0"
  shows "on_session_read avail kicking uv_strerror now a nread s = None"
proof -
  let ?h = "ut_hh (session_map s)"
  note rep = server_invD(1) [OF inv]
  have head: "ut_head (session_map s) = Some a" using ut.head_law [OF rep] by simp
  have links: "hh_prev_elt ?h a = None" "hh_next_elt ?h a = None" using ut_repD(4) [OF rep] by simp_all
  obtain t where t: "the_tbl (session_map s) = Some t" using ut_rep_tblE [OF rep] by auto
  have f: "HASH_FIND_INT (session_map s) (serial_of s a) = Some (Some a)"
    by (rule find_known [OF inv]) simp
  obtain ss where ss: "sessions s a = Some ss" using server_inv_liveE [OF inv, of a] by auto
  have cb: "on_read s \<noteq> None" by (rule server_inv_cb [OF inv]) simp
  show ?thesis
    using n ss cb f links t head
    by (auto simp: on_session_read_def invoke_read_def kicking_def qsf_net_server_close_def HASH_DEL_def
        session_destroy_def set_session_def the_tbl_def Let_def bind_eq_None_conv split: option.splits)
qed

end
