(* ===== verification/Net_Demo.thy ===== *)
theory Net_Demo
  imports Net_Stream
begin

section \<open>A server to try the theorems on\<close>

text \<open>A handler that logs what it is told, in the user data of the server.\<close>

definition logger :: "(nat, (int \<times> u32 \<times> bytes) list) handler" where
  "logger c err k d n s = Some (s\<lparr>udata := udata s @ [(err, k, d)]\<rparr>)"

definition demo_accept :: "addr \<Rightarrow> accept_env" where
  "demo_accept a = \<lparr>ae_block = Some a, ae_avail = (\<lambda>n. n < 2 ^ 35), ae_init = 0, ae_accept = 0,
     ae_getpeername = 0, ae_peer = [127, 0, 0, 1], ae_read_start = 0\<rparr>"

text \<open>A server for two connections after its start, and with the sessions 3 and 5 connected.\<close>

definition demo_open :: "(nat, (int \<times> u32 \<times> bytes) list) net_server" where
  "demo_open = snd (qsf_net_server_start \<lparr>se_addr = 0, se_bind = 0, se_listen = 0, se_timer = 0\<rparr> 7
     (the (qsf_create_net_server True 0 0 [] 2 60 10)))"

definition demo_one :: "(nat, (int \<times> u32 \<times> bytes) list) net_server" where
  "demo_one = the (on_connection logger (demo_accept 3) 10 0 demo_open)"

definition demo_two :: "(nat, (int \<times> u32 \<times> bytes) list) net_server" where
  "demo_two = the (on_connection logger (demo_accept 5) 20 0 demo_one)"

lemma demo_open: "server_inv demo_open []" "on_read demo_open = Some 7" "\<not> stopped demo_open"
  "max_connection demo_open = 2" "sessions demo_open = Map.empty" "udata demo_open = []"
  "ut_head (session_map demo_open) = None" "ut_tbl (session_map demo_open) = None"
  "next_serial demo_open = 1000" "max_heart_beat demo_open = 60"
  using ut_rep_empty
  by (simp_all add: demo_open_def qsf_create_net_server_def qsf_net_server_start_def server_inv_def
      empty_uthash_def START_SERIAL_NUMBER_def)

lemma HASH_ADD_INT_first:
  assumes "HASH_ADD_INT malloc_ok m a = Some m'" and "ut_head m = None"
  shows "\<exists>t. ut_tbl m' = Some t \<and> num_buckets t = 32"
  using assms word_le_nat_alt [of 10 "1 :: u32"]
  by (auto simp: HASH_ADD_INT_def HASH_MAKE_TABLE_def HASH_ADD_TO_BKT_def HASH_BKT_CAPACITY_THRESH_def
      HASH_INITIAL_NUM_BUCKETS_def empty_bucket_def Let_def bind_Some_conv split: if_splits)

lemma demo_accept_3: "accept_ok (demo_accept 3) demo_open 3"
  by (simp add: accept_ok_def demo_accept_def demo_open ut_room_def sizeof_UT_hash_table_def
      sizeof_UT_hash_bucket_def)

lemma demo_one: "server_inv demo_one [3]" "on_read demo_one = Some 7" "\<not> stopped demo_one"
  "max_connection demo_one = 2" "sessions demo_one = [3 \<mapsto> new_session (demo_accept 3) 10]"
  "udata demo_one = []" "\<exists>t. ut_tbl (session_map demo_one) = Some t \<and> num_buckets t = 32"
  "max_heart_beat demo_one = 60"
  and demo_one_run: "on_connection logger (demo_accept 3) 10 0 demo_open = Some demo_one"
proof -
  from on_connection_accepts [OF demo_open(1) demo_accept_3, of logger 10] obtain s' where
    s': "on_connection logger (demo_accept 3) 10 0 demo_open = Some s'" "server_inv s' [3]"
      "sessions s' = [3 \<mapsto> new_session (demo_accept 3) 10]" "udata s' = []" "on_read s' = Some 7"
      "max_connection s' = 2" "\<not> stopped s'" "max_heart_beat s' = 60"
    and m: "\<exists>m. ut_head m = None \<and> HASH_ADD_INT (ae_avail (demo_accept 3)) m 3 = Some (session_map s')"
    by (auto simp: demo_open demo_accept_def)
  then show "server_inv demo_one [3]" "on_read demo_one = Some 7" "\<not> stopped demo_one"
    "max_connection demo_one = 2" "sessions demo_one = [3 \<mapsto> new_session (demo_accept 3) 10]"
    "udata demo_one = []" "max_heart_beat demo_one = 60" "on_connection logger (demo_accept 3) 10 0 demo_open = Some demo_one"
    by (simp_all add: demo_one_def)
  show "\<exists>t. ut_tbl (session_map demo_one) = Some t \<and> num_buckets t = 32"
    using m HASH_ADD_INT_first s'(1) by (auto simp: demo_one_def)
qed

lemma demo_accept_5: "accept_ok (demo_accept 5) demo_one 5"
proof -
  obtain t where "ut_tbl (session_map demo_one) = Some t" "num_buckets t = 32" using demo_one(7) by blast
  then show ?thesis
    by (simp add: accept_ok_def demo_accept_def demo_one ut_room_def sizeof_UT_hash_bucket_def)
qed

lemma demo_two: "server_inv demo_two [3, 5]" "on_read demo_two = Some 7" "\<not> stopped demo_two"
  "max_connection demo_two = 2" "udata demo_two = []"
  "sessions demo_two = [3 \<mapsto> new_session (demo_accept 3) 10, 5 \<mapsto> new_session (demo_accept 5) 20]" "max_heart_beat demo_two = 60"
proof -
  from on_connection_accepts [OF demo_one(1) demo_accept_5, of logger 20] obtain s' where
    s': "on_connection logger (demo_accept 5) 20 0 demo_one = Some s'" "server_inv s' [3, 5]"
      "sessions s' = [3 \<mapsto> new_session (demo_accept 3) 10, 5 \<mapsto> new_session (demo_accept 5) 20]"
      "udata s' = []" "on_read s' = Some 7" "max_connection s' = 2" "\<not> stopped s'" "max_heart_beat s' = 60"
    by (auto simp: demo_one demo_accept_def)
  then show "server_inv demo_two [3, 5]" "on_read demo_two = Some 7" "\<not> stopped demo_two"
    "max_connection demo_two = 2" "udata demo_two = []"
    "sessions demo_two = [3 \<mapsto> new_session (demo_accept 3) 10, 5 \<mapsto> new_session (demo_accept 5) 20]" "max_heart_beat demo_two = 60"
    by (simp_all add: demo_two_def)
qed

lemma logger_tame: "tame_at logger err (\<lambda>k d log. log @ [(err, k, d)])"
  by (simp add: tame_at_def logger_def keeps_def)

lemma logger_ok: "handler_ok logger"
proof -
  have k: "keeps s (s\<lparr>udata := u\<rparr>)" for s :: "(nat, (int \<times> u32 \<times> bytes) list) net_server" and u
    by (simp add: keeps_def)
  then show ?thesis by (auto simp: handler_ok_def logger_def intro: keeps_server_inv [OF k])
qed

end
