(* ===== verification/Net_Properties.thy ===== *)
theory Net_Properties
  imports Net_Demo
begin

text \<open>
  The properties of the message server (\<open>src/net/qsf_net_server.c\<close>) and of its hash table
  (\<open>src/net/uthash.h\<close>), each followed by a witness on the demo server of Net_Demo.
\<close>

section \<open>Messages\<close>

definition demo_reads :: "(u64 \<times> addr \<times> bytes) list" where
  "demo_reads = [(30, 3, [0]), (31, 5, [0, 2]), (32, 3, [1]), (33, 5, [7]), (34, 3, [65]), (35, 5, [8]), (36, 3, [0])]"

lemma demo_two_pending: "pending_of demo_two 3 = []" "pending_of demo_two 5 = []"
  using demo_two(6) new_session_ok(2) by (simp_all add: pending_of_def)

lemma demo_reads_fit: "(fst \<circ> snd) ` set demo_reads \<subseteq> set [3, 5]" "wire_fits (pending_of demo_two) demo_reads"
proof -
  show dom: "(fst \<circ> snd) ` set demo_reads \<subseteq> set [3, 5]" by (simp add: demo_reads_def)
  have "wire_fits (\<lambda>_. []) demo_reads" by code_simp
  then show "wire_fits (pending_of demo_two) demo_reads"
    by (rule wire_fits_cong [OF _ dom]) (simp add: demo_two_pending)
qed

lemma demo_reads_parse:
  "fst (wire_parse (stream_of 3 demo_reads)) = [[65]]" "fst (wire_parse (stream_of 5 demo_reads)) = [[7, 8]]"
  "snd (wire_parse (stream_of 3 demo_reads)) = [0]"
  by code_simp+

text \<open>
  C1: Reads of many sessions, interleaved in any order and cut in any way that respects the
  windows the server offers, all run; and each session's handler is called with exactly the
  messages that parsing its own byte stream gives, in order, while the unparsed rest of the
  stream is what the session still holds. The other sessions' bytes never leak into it.
\<close>

theorem net_interleaved_framing:
  assumes "tame_at invoke 0 f" and "server_inv s xs" and "\<forall>n < 2 ^ 16. avail n"
    and "(fst \<circ> snd) ` set evs \<subseteq> set xs" and "wire_fits (pending_of s) evs"
  shows "\<exists>s' log. net_recvs invoke uv_strerror avail s evs s' \<and> server_inv s' xs \<and>
    udata s' = fold (\<lambda>(k, m). f k m) log (udata s) \<and> fst ` set log \<subseteq> serial_of s ` set xs \<and>
    (\<forall>a \<in> set xs.
       msgs_of (serial_of s a) log = fst (wire_parse (pending_of s a @ stream_of a evs)) \<and>
       pending_of s' a = snd (wire_parse (pending_of s a @ stream_of a evs)))"
proof -
  obtain s' where run: "net_recvs invoke uv_strerror avail s evs s'"
    using net_recvs_total [OF tame_at_msgs [OF assms(1)] assms(2-5)] by blast
  show ?thesis using net_recvs_parse [OF run tame_at_msgs [OF assms(1)] assms(2)] run by blast
qed

theorem net_interleaved_framing_witness:
  "\<exists>s' log. net_recvs logger (\<lambda>_. []) (\<lambda>_. True) demo_two demo_reads s' \<and>
     udata s' = fold (\<lambda>(k, m) log. log @ [(0, k, m)]) log [] \<and>
     msgs_of (serial_of demo_two 3) log = [[65]] \<and> msgs_of (serial_of demo_two 5) log = [[7, 8]] \<and>
     pending_of s' 3 = [0]"
proof -
  have "\<forall>n < 2 ^ 16. (\<lambda>_. True) (n :: nat)" by simp
  from net_interleaved_framing [OF logger_tame demo_two(1) this demo_reads_fit, of "\<lambda>_. []"]
  show ?thesis by (auto simp: demo_two_pending demo_reads_parse demo_two(5))
qed

text \<open>
  C2: End to end. Messages of 1 to 65535 bytes that one server writes to a session arrive
  unchanged: when another server's session reads the written bytes, cut in any way and
  interleaved with any other sessions, its handler is called with exactly these messages in
  this order, and nothing is left over.
\<close>

theorem net_end_to_end:
  assumes s: "server_inv s xs" "a \<in> set xs" and ms: "\<forall>m \<in> set ms. wire_ok m"
    and e: "\<forall>a. we_malloc e a" "\<forall>a. we_write e a \<ge> 0"
    and t: "tame_at invoke 0 f" "server_inv t ys" "b \<in> set ys" "pending_of t b = []"
    and run: "net_recvs invoke uv_strerror avail t evs t'"
    and wire: "stream_of b evs = concat (drop (length (h_written (the (sessions s a))))
       (h_written (the (sessions (the (write_msgs e (serial_of s a) ms s)) a))))"
  shows "write_msgs e (serial_of s a) ms s \<noteq> None \<and>
    (\<exists>log. udata t' = fold (\<lambda>(k, m). f k m) log (udata t) \<and> msgs_of (serial_of t b) log = ms) \<and>
    pending_of t' b = []"
proof -
  obtain s' where s': "write_msgs e (serial_of s a) ms s = Some s'"
      "h_written (the (sessions s' a)) = h_written (the (sessions s a)) @ map wire_frame ms"
    using write_msgs_frames [OF s ms e] by blast
  have "wire_parse (stream_of b evs) = (ms, [])"
    unfolding wire using s' wire_parse_frames [OF ms] by simp
  then show ?thesis using net_recvs_parse [OF run tame_at_msgs [OF t(1)] t(2)] t(3,4) s'(1) by auto
qed


definition demo_write :: write_env where
  "demo_write = \<lparr>we_malloc = (\<lambda>_. True), we_write = (\<lambda>_. 0)\<rparr>"

lemma demo_write_all: "\<forall>a. we_malloc demo_write a" "\<forall>a. we_write demo_write a \<ge> 0"
  by (simp_all add: demo_write_def)

definition demo_carry :: "(u64 \<times> addr \<times> bytes) list" where
  "demo_carry = [(30, 5, [0, 1]), (31, 5, [65]), (32, 5, [0]), (33, 5, [2]), (34, 5, [7]), (35, 5, [8])]"

lemma demo_carry_fits: "(fst \<circ> snd) ` set demo_carry \<subseteq> set [3, 5]" "wire_fits (pending_of demo_two) demo_carry"
proof -
  show dom: "(fst \<circ> snd) ` set demo_carry \<subseteq> set [3, 5]" by (simp add: demo_carry_def)
  have "wire_fits (\<lambda>_. []) demo_carry" by code_simp
  then show "wire_fits (pending_of demo_two) demo_carry"
    by (rule wire_fits_cong [OF _ dom]) (simp add: demo_two_pending)
qed

lemma demo_carry_stream: "stream_of 5 demo_carry = concat (map wire_frame [[65], [7, 8]])"
  by code_simp

theorem net_end_to_end_witness:
  "\<exists>t'. write_msgs demo_write (serial_of demo_two 3) [[65], [7, 8]] demo_two \<noteq> None \<and>
     net_recvs logger (\<lambda>_. []) (\<lambda>_. True) demo_two demo_carry t' \<and>
     (\<exists>log. udata t' = fold (\<lambda>(k, m) log. log @ [(0, k, m)]) log [] \<and>
        msgs_of (serial_of demo_two 5) log = [[65], [7, 8]]) \<and> pending_of t' 5 = []"
proof -
  have all: "\<forall>n < 2 ^ 16. (\<lambda>_. True) (n :: nat)" by simp
  obtain t' where run: "net_recvs logger (\<lambda>_. []) (\<lambda>_. True) demo_two demo_carry t'"
    using net_recvs_total [OF tame_at_msgs [OF logger_tame] demo_two(1) all demo_carry_fits] by blast
  have ms: "\<forall>m \<in> set [[65], [7, 8]]. wire_ok m" by (simp add: wire_ok_def)
  have mem: "3 \<in> set [3 :: addr, 5]" "5 \<in> set [3 :: addr, 5]" by simp_all
  obtain s' where "write_msgs demo_write (serial_of demo_two 3) [[65], [7, 8]] demo_two = Some s'"
      "h_written (the (sessions s' 3)) = h_written (the (sessions demo_two 3)) @ map wire_frame [[65], [7, 8]]"
    using write_msgs_frames [OF demo_two(1) mem(1) ms demo_write_all] by blast
  then have "stream_of 5 demo_carry = concat (drop (length (h_written (the (sessions demo_two 3))))
      (h_written (the (sessions (the (write_msgs demo_write (serial_of demo_two 3) [[65], [7, 8]] demo_two)) 3))))"
    by (simp add: demo_carry_stream)
  from net_end_to_end [OF demo_two(1) mem(1) ms demo_write_all logger_tame demo_two(1) mem(2)
      demo_two_pending(2) run this] run demo_two(5)
  show ?thesis by auto
qed

section \<open>Runs\<close>





section \<open>Receiving\<close>

text \<open>
  C14: One read refines the parser. Whatever part of the window is filled, the read calls the
  handler with the messages that parsing the pending bytes and the new ones gives (at most one),
  holds exactly the rest, keeps the buffer sound, growing it when a length prefix asks for more
  than the 128 bytes it starts with, and touches nothing but the receive state of this session.
\<close>

theorem session_recv_refines:
  assumes "sess_ok ss" and "sessions s a = Some ss" and "on_read s \<noteq> None"
    and "0 < length d" and "length d \<le> sess_window ss" and "\<forall>n < 2 ^ 16. avail n"
  shows "\<exists>ss'. uv_session_recv avail invoke uv_strerror now a d s =
      deliver invoke (serial_of s a) (fst (wire_parse (sess_pending ss @ d))) (set_session s a ss') \<and>
    sess_pending ss' = snd (wire_parse (sess_pending ss @ d)) \<and> sess_ok ss' \<and>
    last_recv_time ss' = now \<and> peer_addr ss' = peer_addr ss \<and> h_closing ss' = h_closing ss \<and>
    h_written ss' = h_written ss"
proof -
  obtain ss' where ss': "uv_session_recv avail invoke uv_strerror now a d s =
      deliver invoke (serial_of s a) (fst (wire_parse (sess_pending ss @ d))) (set_session s a ss')"
    "sess_pending ss' = snd (wire_parse (sess_pending ss @ d))" "sess_ok ss'"
    and upd: "ss' = ss\<lparr>last_recv_time := now, buf_size := buf_size ss', recv_bytes := recv_bytes ss',
         body_size := body_size ss', recv_buf := recv_buf ss'\<rparr>"
    using uv_session_recv_step [OF assms] by blast
  have "last_recv_time ss' = now" "peer_addr ss' = peer_addr ss" "h_closing ss' = h_closing ss"
    "h_written ss' = h_written ss" by (subst upd, simp)+
  then show ?thesis using ss' by blast
qed

lemma demo_two_session: "sessions demo_two 3 = Some (new_session (demo_accept 3) 10)"
  by (simp add: demo_two(6))

theorem session_recv_refines_witness:
  "\<exists>ss'. uv_session_recv (\<lambda>_. True) logger (\<lambda>_. []) 30 3 [0, 200] demo_two = Some (set_session demo_two 3 ss') \<and>
     sess_pending ss' = [0, 200] \<and> length (recv_buf ss') = unat (buf_size ss') \<and>
     200 \<le> unat (buf_size ss') \<and> last_recv_time ss' = 30"
proof -
  define ss where "ss = new_session (demo_accept 3) 10"
  have ss: "sess_ok ss" "sessions demo_two 3 = Some ss" "sess_pending ss = []" "2 \<le> sess_window ss"
    using new_session_ok [of "demo_accept 3" 10] demo_two_session
    by (simp_all add: ss_def) (simp add: new_session_def sess_window_def)
  have cb: "on_read demo_two \<noteq> None" by (simp add: demo_two(2))
  have all: "\<forall>n < 2 ^ 16. (\<lambda>_. True) (n :: nat)" by simp
  have parse: "wire_parse [0, 200] = ([], [0, 200])" by code_simp
  have win: "length [0, 200 :: byte] \<le> sess_window ss" using ss(4) by simp
  obtain ss' where ss': "uv_session_recv (\<lambda>_. True) logger (\<lambda>_. []) 30 3 [0, 200] demo_two =
      Some (set_session demo_two 3 ss')" "sess_pending ss' = [0, 200]" "sess_ok ss'" "last_recv_time ss' = 30"
    using session_recv_refines [OF ss(1,2) cb _ win all, of logger "\<lambda>_. []" 30]
    by (auto simp: ss(3) parse)
  have "be16 (body_size ss') = [0, 200]"
    using ss'(2,3) by (auto simp: sess_pending_def sess_ok_def be16_def split: if_splits dest: arg_cong [of _ _ length])
  then have "body_size ss' = ntoh16 0 200" by (metis nth_Cons_0 nth_Cons_Suc ntoh16_be16 One_nat_def)
  then have "unat (body_size ss') = 200" by (simp add: ntoh16_def)
  then show ?thesis using ss' by (intro exI [of _ ss']) (auto simp: sess_ok_def)
qed

section \<open>Accepting\<close>

text \<open>
  C23: The search for a serial number ends and gives one that is not zero and not in use, also
  when the 32-bit counter wraps around, as long as the table is not full.
\<close>

theorem session_serial_fresh:
  assumes "ut_rep m xs" and "Suc (length xs) < 2 ^ 32"
  shows "\<exists>r. serial_loop m k = Some r \<and> r \<noteq> 0 \<and> HASH_FIND_INT m r = Some None"
  using serial_loop_fresh [OF assms, of k] ut.find_None_iff [OF assms(1)] by blast

theorem session_serial_fresh_witness:
  "\<exists>r. serial_loop (session_map demo_two) 0xffffffff = Some r \<and> r \<noteq> 0 \<and>
     HASH_FIND_INT (session_map demo_two) r = Some None"
  by (rule session_serial_fresh [OF server_invD(1) [OF demo_two(1)]]) simp

text \<open>
  A connection below the limit that libuv accepts is registered: its session joins the table
  at the end under a fresh serial number, with an empty receive buffer and reading, and no other
  session changes.
\<close>

lemma net_accept_registers:
  assumes "server_inv s xs" and "accept_ok e s a" and "on_read s \<noteq> None" and "\<not> stopped s"
    and "length xs < unat (max_connection s)"
    and "ae_accept e \<ge> 0" and "ae_getpeername e \<ge> 0" and "ae_read_start e \<ge> 0"
  shows "\<exists>s' k. on_connection invoke e now 0 s = Some s' \<and> server_inv s' (xs @ [a]) \<and> k \<noteq> 0 \<and>
    k \<notin> serial_of s ` set xs \<and> serial_of s' = (serial_of s)(a := k) \<and> next_serial s' = k + 1 \<and>
    sessions s' = (sessions s)(a := Some (new_session e now)) \<and> udata s' = udata s"
  using on_connection_accepts [OF assms, of invoke now] by blast

lemma net_accept_registers_witness:
  "\<exists>s' k. on_connection logger (demo_accept 5) 20 0 demo_one = Some s' \<and> server_inv s' [3, 5] \<and>
     k \<noteq> serial_of demo_one 3 \<and> serial_of s' 5 = k \<and> sessions s' 3 = sessions demo_one 3"
proof -
  have "length [3 :: addr] < unat (max_connection demo_one)" by (simp add: demo_one(4))
  from net_accept_registers [OF demo_one(1) demo_accept_5 _ demo_one(3) this, of logger 20] show ?thesis
    by (auto simp: demo_one(2)) (auto simp: demo_accept_def)
qed

text \<open>
  At the limit the connection is not accepted: the handler is told error 100001 with serial
  number 0, and that is all that happens. When libuv fails to accept it, the new session is
  closed again without ever entering the table.
\<close>

lemma net_accept_refuses:
  assumes "server_inv s xs" and "on_read s = Some c" and "\<not> stopped s"
  shows "(length xs = unat (max_connection s) \<longrightarrow>
      on_connection invoke e now 0 s = invoke c 100001 0 (str ''max connection count limit'') 26 s) \<and>
    (length xs < unat (max_connection s) \<and> accept_ok e s a \<and>
       (ae_accept e < 0 \<or> ae_getpeername e < 0 \<or> ae_read_start e < 0) \<longrightarrow>
      (\<exists>s'. on_connection invoke e now 0 s = Some s' \<and> server_inv s' xs \<and> session_map s' = session_map s))"
  using on_connection_refused [OF assms(1) _ assms(3)] on_connection_fails [OF assms(1) _ _ assms(3)] assms(2)
  by (auto simp: invoke_read_def NET_ERR_CONN_LIMIT_def; metis)

lemma net_accept_refuses_witness:
  "\<exists>s'. on_connection logger (demo_accept 7) 30 0 demo_two = Some s' \<and>
     udata s' = [(100001, 0, str ''max connection count limit'')] \<and> sessions s' 7 = None"
  using net_accept_refuses [OF demo_two(1-3), of logger "demo_accept 7" 30]
  by (simp add: demo_two(4,5,6) logger_def)


section \<open>Leaving\<close>

text \<open>
  C15: The heartbeat check removes exactly the sessions whose last receive time lies more than
  \<open>max_heart_beat\<close> seconds back, tells the handler of each of them, in the order they were
  accepted, with error 100002, and leaves the other sessions alone, also while the list it walks
  is being cut.
\<close>

theorem net_heartbeat_exact:
  assumes "server_inv s xs" and "tame_at invoke 100002 f"
  shows "\<exists>s'. hearbeat_timer_cb invoke now s = Some s' \<and>
    server_inv s' (filter (\<lambda>a. \<not> expired s now (max_expire s) a) xs) \<and>
    udata s' = fold (\<lambda>k. f k (str ''session timeout''))
      (map (serial_of s) (filter (expired s now (max_expire s)) xs)) (udata s) \<and>
    (\<forall>a. a \<notin> set (filter (expired s now (max_expire s)) xs) \<longrightarrow>
       map_option sess_core (sessions s' a) = map_option sess_core (sessions s a))"
proof -
  have "tame_at invoke NET_ERR_TIMEOUT f" using assms(2) by (simp add: NET_ERR_TIMEOUT_def)
  from hearbeat_timer_cb_done [OF assms(1) tell_ok_tame [OF this], of now] show ?thesis
    by (auto simp: beat_done_def told_fold timeout_msg_def)
qed

theorem net_heartbeat_exact_witness:
  "\<exists>s'. hearbeat_timer_cb logger 60015 demo_two = Some s' \<and> server_inv s' [5] \<and>
     udata s' = [(100002, serial_of demo_two 3, str ''session timeout'')]"
proof -
  have m: "max_expire demo_two = 60000" by (simp add: max_expire_def demo_two(7))
  have "expired demo_two 60015 60000 3" "\<not> expired demo_two 60015 60000 5"
    by (simp_all add: expired_def demo_two(6) new_session_def word_less_nat_alt)
  then show ?thesis
    using net_heartbeat_exact [OF demo_two(1) logger_tame, of 60015] by (auto simp: m demo_two(5))
qed

text \<open>
  C24: Stopping disconnects everything: the table is empty, every session still allocated is
  closing, the timer is stopped and it and the acceptor are closing, and from then on connections
  are ignored.
\<close>

theorem net_stop_empties:
  assumes "server_inv s xs"
  shows "\<exists>s'. qsf_net_server_stop s = Some s' \<and> HASH_COUNT (session_map s') = Some 0 \<and>
    (\<forall>a ss. sessions s' a = Some ss \<longrightarrow> h_closing ss) \<and> timer_closing s' \<and> acceptor_closing s' \<and>
    \<not> timer_active s' \<and> (on_read s' \<noteq> None \<longrightarrow> on_connection invoke e now 0 s' = Some s')"
proof -
  obtain s' where s': "qsf_net_server_stop s = Some s'" "server_inv s' []" "stopped s'" "timer_closing s'"
      "acceptor_closing s'" "\<not> timer_active s'"
    using qsf_net_server_stop_inv [OF assms] by blast
  then show ?thesis
    using HASH_COUNT_rep [OF server_invD(1) [OF s'(2)]] server_invD(7) [OF s'(2)]
    by (auto simp: on_connection_def)
qed

theorem net_stop_empties_witness:
  "\<exists>s'. qsf_net_server_stop demo_two = Some s' \<and> HASH_COUNT (session_map s') = Some 0 \<and> acceptor_closing s'"
  using net_stop_empties [OF demo_two(1)] by blast

text \<open>
  Closing a session by its serial number takes it, and only it, out of the table: it is no
  longer found, every other session is still found under its own serial number, and its handle
  is closing and no longer reading. Closing an unknown number does nothing.
\<close>

lemma net_close_session:
  assumes "server_inv s xs" and "a \<in> set xs" and "k \<notin> serial_of s ` set xs"
  shows "qsf_net_server_close k s = Some s \<and>
    (\<exists>s' ss. qsf_net_server_close (serial_of s a) s = Some s' \<and> server_inv s' (remove1 a xs) \<and>
       HASH_FIND_INT (session_map s') (serial_of s a) = Some None \<and>
       sessions s' a = Some ss \<and> h_closing ss \<and> \<not> h_reading ss \<and>
       (\<forall>b \<in> set xs - {a}. HASH_FIND_INT (session_map s') (serial_of s b) = Some (Some b) \<and>
          sessions s' b = sessions s b))"
proof -
  obtain s' where s': "qsf_net_server_close (serial_of s a) s = Some s'" "server_inv s' (remove1 a xs)"
      "serial_of s' = serial_of s"
      "sessions s' = (sessions s)(a := Some ((the (sessions s a))\<lparr>h_reading := False, h_closing := True\<rparr>))"
    using qsf_net_server_close_known [OF assms(1,2)] by blast
  have mem: "b \<in> set (remove1 a xs) \<longleftrightarrow> b \<in> set xs \<and> b \<noteq> a" for b
    using server_invD(3) [OF assms(1)] by auto
  have "serial_of s a \<notin> serial_of s' ` set (remove1 a xs)"
    using serial_of_inj [OF assms(1,2)] s'(3) mem by auto
  then have "HASH_FIND_INT (session_map s') (serial_of s a) = Some None"
    by (rule find_unknown [OF s'(2)])
  moreover have "HASH_FIND_INT (session_map s') (serial_of s b) = Some (Some b)" if "b \<in> set xs - {a}" for b
    using find_known [OF s'(2), of b] that mem s'(3) by auto
  ultimately show ?thesis
    using s' find_unknown [OF assms(1,3)] by (auto simp: qsf_net_server_close_def)
qed

lemma net_close_session_witness:
  "\<exists>s'. qsf_net_server_close (serial_of demo_two 3) demo_two = Some s' \<and> server_inv s' [5] \<and>
     HASH_FIND_INT (session_map s') (serial_of demo_two 5) = Some (Some 5)"
proof -
  have "0 \<notin> serial_of demo_two ` set [3, 5]" using server_invD(5) [OF demo_two(1)] by auto
  from net_close_session [OF demo_two(1) _ this, of 3] show ?thesis by auto
qed

section \<open>Sending\<close>

text \<open>
  A write to a connected session hands one buffer to libuv, the data's length in network
  order followed by the data, and returns 0; it returns libuv's error when libuv refuses it, and
  \<open>- 1\<close> for a serial number that is not connected, without any other effect.
\<close>

lemma net_write_packet:
  assumes "server_inv s xs" and "write_ok e d n" and "a \<in> set xs" and "sessions s a = Some ss"
    and "k \<notin> serial_of s ` set xs"
  shows "qsf_net_server_write e k d n s = Some (- 1, s) \<and>
    qsf_net_server_write e (serial_of s a) d n s =
      (if we_write e a < 0 then Some (we_write e a, s)
       else Some (0, set_session s a (ss\<lparr>h_written := h_written ss @ [be16 n @ take (unat n) d]\<rparr>)))"
proof -
  have "set_session s a ss = s"
    using assms(4) by (auto simp: set_session_def fun_upd_idem intro: net_server.equality)
  then show ?thesis
    using qsf_net_server_write_sent [OF assms(1-4)] qsf_net_server_write_unknown [OF assms(1) _ assms(5)] assms(2)
    by (auto simp: sent_def write_ok_def)
qed

lemma net_write_packet_witness:
  "\<exists>s' ss. qsf_net_server_write demo_write (serial_of demo_two 3) [9, 8, 7] 3 demo_two = Some (0, s') \<and>
     sessions s' 3 = Some ss \<and> h_written ss = [[0, 3, 9, 8, 7]]"
proof -
  have "0 \<notin> serial_of demo_two ` set [3, 5]" using server_invD(5) [OF demo_two(1)] by auto
  moreover have "write_ok demo_write [9, 8, 7] 3" by (simp add: write_ok_def demo_write_def)
  ultimately show ?thesis
    using net_write_packet [OF demo_two(1) _ _ demo_two_session, of demo_write "[9, 8, 7]" 3 0]
    by (simp add: demo_write_def be16_def new_session_def)
qed

text \<open>
  A broadcast hands the same packet to every connected session on which libuv takes it, a
  refusal on one session does not keep it from the others, and it always returns 0.
\<close>

lemma net_write_all_packet:
  assumes "server_inv s xs" and "write_ok e d n"
  shows "\<exists>s'. qsf_net_server_write_all e d n s = Some (0, s') \<and> server_inv s' xs \<and>
    (\<forall>a. sessions s' a =
       (if a \<in> set xs \<and> we_write e a \<ge> 0
        then map_option (\<lambda>ss. ss\<lparr>h_written := h_written ss @ [be16 n @ take (unat n) d]\<rparr>) (sessions s a)
        else sessions s a))"
proof -
  have "sent e d n a = (\<lambda>ss. if we_write e a \<ge> 0 then ss\<lparr>h_written := h_written ss @ [be16 n @ take (unat n) d]\<rparr> else ss)" for a
    by (rule ext) (simp add: sent_def)
  then show ?thesis
    using qsf_net_server_write_all_sent [OF assms] keeps_server_inv [OF _ assms(1)]
    by (fastforce simp: option.map_ident)
qed

lemma net_write_all_packet_witness:
  "\<exists>s' s3 s5. qsf_net_server_write_all \<lparr>we_malloc = \<lambda>_. True, we_write = \<lambda>a. if a = 3 then -32 else 0\<rparr> [9] 1 demo_two
       = Some (0, s') \<and> sessions s' 3 = Some s3 \<and> sessions s' 5 = Some s5 \<and> h_written s3 = [] \<and> h_written s5 = [[0, 1, 9]]"
proof -
  have "write_ok \<lparr>we_malloc = \<lambda>_. True, we_write = \<lambda>a. if a = 3 then -32 else 0\<rparr> [9] 1"
    by (simp add: write_ok_def)
  from net_write_all_packet [OF demo_two(1) this] show ?thesis
    by (auto simp: demo_two(6) new_session_def be16_def)
qed


section \<open>Two faults\<close>



text \<open>
  \<open>qsf_net_server_destroy\<close> frees the server's block while the acceptor and the heartbeat
  timer, which lie inside it, are still closing, and while sessions that refer to the server are
  still waiting for their close callbacks.
\<close>

lemma net_destroy_frees_early:
  assumes "server_inv s xs"
  shows "\<exists>s'. qsf_net_server_destroy s = Some s' \<and> server_freed s' \<and> timer_closing s' \<and>
    acceptor_closing s' \<and> (\<forall>a \<in> set xs. \<exists>ss. sessions s' a = Some ss \<and> h_closing ss)"
proof -
  obtain s' where s': "qsf_net_server_stop s = Some s'" "server_inv s' []" "timer_closing s'" "acceptor_closing s'"
      "\<forall>b. sessions s b \<noteq> None \<longrightarrow> sessions s' b \<noteq> None"
    using qsf_net_server_stop_inv [OF assms] by blast
  have "\<exists>ss. sessions s' a = Some ss \<and> h_closing ss" if "a \<in> set xs" for a
  proof -
    have "sessions s a \<noteq> None" using server_invD(6) [OF assms that] by (auto simp: live_ok_def)
    then obtain ss where ss: "sessions s' a = Some ss" using s'(5) by blast
    moreover have "h_closing ss" by (rule server_invD(7) [OF s'(2) _ ss]) simp
    ultimately show ?thesis by blast
  qed
  then show ?thesis using s' by (simp add: qsf_net_server_destroy_def)
qed

lemma net_destroy_frees_early_witness:
  "\<exists>s' ss. qsf_net_server_destroy demo_two = Some s' \<and> server_freed s' \<and> acceptor_closing s' \<and>
     sessions s' 3 = Some ss \<and> h_closing ss"
  using net_destroy_frees_early [OF demo_two(1)] by auto

section \<open>The hash table\<close>

text \<open>
  C18: Adding an element under a new key puts it at the end of the table's order, makes it the
  result of a search for its key and changes no other search, also when the addition triggers
  the doubling of the bucket array. The only way it can fail is an allocation that fails.
\<close>

theorem uthash_add_find:
  assumes "ut_rep u xs" and "a \<notin> set xs" and "ut_key u a \<notin> ut_key u ` set xs"
    and "Suc (length xs) < 2 ^ 32" and "\<forall>n. avail n \<longrightarrow> n < 2 ^ 35" and "ut_room avail u"
    and "avail (64 * sizeof_UT_hash_bucket)"
  shows "\<exists>u'. HASH_ADD_INT avail u a = Some u' \<and> ut_rep u' (xs @ [a]) \<and>
    (\<forall>k. HASH_FIND_INT u' k = (if k = ut_key u a then Some (Some a) else HASH_FIND_INT u k))"
proof -
  obtain u' where u': "HASH_ADD_INT avail u a = Some u'"
    using HASH_ADD_INT_progress [OF assms(1,2,4-7)] by blast
  have "malloc_below avail = avail" using assms(5) by (auto simp: malloc_below_def)
  then have r: "ut_rep u' (xs @ [a])" "ut_key u' = ut_key u"
    using ut.add_law [OF assms(1-4), of avail u'] u' by simp_all
  then show ?thesis using u' ut.find_after_add [OF assms(1) r] by auto
qed

theorem uthash_add_find_witness:
  "\<exists>u'. HASH_ADD_INT (\<lambda>n. n < 2 ^ 35) empty_uthash 3 = Some u' \<and>
     HASH_FIND_INT u' 0 = Some (Some 3) \<and> HASH_FIND_INT u' 1 = Some None"
proof -
  have "ut_room (\<lambda>n. n < 2 ^ 35) empty_uthash"
    by (simp add: ut_room_def empty_uthash_def sizeof_UT_hash_table_def sizeof_UT_hash_bucket_def)
  moreover have "HASH_FIND_INT empty_uthash 1 = Some None" by (simp add: HASH_FIND_INT_def empty_uthash_def)
  moreover have "ut_key empty_uthash 3 = 0" by (simp add: ut_key_def empty_uthash_def)
  ultimately show ?thesis
    using uthash_add_find [OF ut_rep_empty, of 3 "\<lambda>n. n < 2 ^ 35"] by (auto simp: sizeof_UT_hash_bucket_def)
qed

text \<open>
  C19: Deleting an element of the table makes its key unknown and changes no other search; the
  order of the rest is kept, and adding stays possible with a sound table.
\<close>

theorem uthash_del_find:
  assumes "ut_rep u xs" and "a \<in> set xs"
  shows "\<exists>u'. HASH_DEL u a = Some u' \<and> ut_rep u' (remove1 a xs) \<and>
    (\<forall>k. HASH_FIND_INT u' k = (if k = ut_key u a then Some None else HASH_FIND_INT u k))"
proof -
  obtain u' where u': "HASH_DEL u a = Some u'" "ut_rep u' (remove1 a xs)" "ut_key u' = ut_key u"
    using ut.del_law [OF assms] by blast
  show ?thesis using u' ut.find_after_del [OF assms u'(2,3)] by auto
qed

theorem uthash_del_find_witness:
  "\<exists>u'. HASH_DEL (session_map demo_two) 3 = Some u' \<and> ut_rep u' [5] \<and>
     HASH_FIND_INT u' (serial_of demo_two 3) = Some None"
  using uthash_del_find [OF server_invD(1) [OF demo_two(1)], of 3] by (auto simp: serial_of_ut_key)

text \<open>
  C17: Doubling the bucket array preserves the table: every element moves to the bucket its hash
  value selects among twice as many, the order of the elements and every search stay the same.
\<close>

theorem uthash_expand_find:
  assumes "ut_rep u xs" and "ut_tbl u = Some t" and "\<forall>n. avail n \<longrightarrow> n < 2 ^ 35"
    and "avail (unat (2 * num_buckets t) * sizeof_UT_hash_bucket)"
  shows "\<exists>h' t'. HASH_EXPAND_BUCKETS avail (ut_hh u) t = Some (h', t') \<and>
    num_buckets t' = 2 * num_buckets t \<and> ut_rep (u\<lparr>ut_hh := h', ut_tbl := Some t'\<rparr>) xs \<and>
    (\<forall>k. HASH_FIND_INT (u\<lparr>ut_hh := h', ut_tbl := Some t'\<rparr>) k = HASH_FIND_INT u k)"
proof -
  have ne: "xs \<noteq> []" using ut_repD(6) [OF assms(1)] assms(2) by auto
  have t: "tail t = Some (last xs)" "num_items t = of_nat (length xs)"
      "\<forall>a \<in> set xs. hh_hashv (ut_hh u) a = hash_int (hh_key (ut_hh u) a)" "bt_rep (ut_hh u) t (set xs)"
    using assms(1,2) ne by (auto simp: ut_rep_def)
  have "unat (num_items t) = length xs" using t(2) ut_repD(2) [OF assms(1)] by (simp add: unat_of_nat_u32)
  then have items: "num_items t \<noteq> 0" using ne by auto
  obtain h' t' where e: "HASH_EXPAND_BUCKETS avail (ut_hh u) t = Some (h', t')" "bt_rep h' t' (set xs)"
      "same_but_links (ut_hh u) h'" "tail t' = tail t" "num_items t' = num_items t"
    using HASH_EXPAND_BUCKETS_rep [OF t(4) items assms(3,4)] by blast
  have nb: "num_buckets t' = 2 * num_buckets t"
    using e(1) by (auto simp: HASH_EXPAND_BUCKETS_def Let_def bind_Some_conv)
  let ?u = "u\<lparr>ut_hh := h', ut_tbl := Some t'\<rparr>"
  have rep: "ut_rep ?u xs"
    using assms(1) ne e t same_but_links_sel [OF e(3)] by (simp add: ut_rep_def)
  have "HASH_FIND_INT ?u k = HASH_FIND_INT u k" for k
    using ut.find_law [OF rep] ut.find_law [OF assms(1)] same_but_links_sel [OF e(3)] by (simp add: ut_key_def)
  then show ?thesis using e(1) nb rep by blast
qed

theorem uthash_expand_find_witness:
  "\<exists>t h' t'. ut_tbl (session_map demo_one) = Some t \<and>
     HASH_EXPAND_BUCKETS (\<lambda>n. n < 2 ^ 35) (ut_hh (session_map demo_one)) t = Some (h', t') \<and>
     num_buckets t' = 64"
proof -
  obtain t where t: "ut_tbl (session_map demo_one) = Some t" "num_buckets t = 32" using demo_one(7) by blast
  show ?thesis
    using uthash_expand_find [OF server_invD(1) [OF demo_one(1)] t(1), of "\<lambda>n. n < 2 ^ 35"] t
    by (auto simp: sizeof_UT_hash_bucket_def)
qed


end
