(* ===== verification/Lua_Api.thy ===== *)
theory Lua_Api
  imports Prelude
begin

text \<open>
  What the C code sees of Lua: values, the argument checks of \<open>lauxlib\<close>, and the outcome of a
  C function called from Lua. The Lua library itself is not part of the program; conversions
  between numbers and strings are the fields of \<open>lua_conv\<close>, an argument of the model.

  A bound function maps its argument list to a \<open>lua_res\<close>: either it raises a Lua error
  (\<open>Inl\<close>, a \<open>longjmp\<close> out of the C function) or it returns the values it pushed.
\<close>

section \<open>Values\<close>

type_synonym lua_Integer = "64 word"

datatype lua_value =
    L_nil
  | L_bool bool
  | L_int lua_Integer
  | L_float nat
  | L_str bytes
  | L_table nat
  | L_fun nat
  | L_userdata nat
  | L_light nat

text \<open>\<open>L_float\<close>, \<open>L_table\<close>, \<open>L_fun\<close> carry a reference; what it denotes is up to the parameter.\<close>

record lua_conv =
  num_str :: "lua_value \<Rightarrow> bytes"
  float_int :: "nat \<Rightarrow> lua_Integer option"
  str_int :: "bytes \<Rightarrow> lua_Integer option"
  str_isnum :: "bytes \<Rightarrow> bool"

text \<open>Conversions for examples in which no number is converted.\<close>

definition no_conv :: lua_conv where
  "no_conv = \<lparr>num_str = \<lambda>_. [], float_int = \<lambda>_. None, str_int = \<lambda>_. None, str_isnum = \<lambda>_. False\<rparr>"

datatype lua_error =
    Arg_error nat
  | Lua_error bytes

type_synonym 'a lua_res = "lua_error + 'a"

definition luaL_error :: "string \<Rightarrow> 'a lua_res" where
  "luaL_error msg = Inl (Lua_error (str msg))"

definition lua_bind :: "'a lua_res \<Rightarrow> ('a \<Rightarrow> 'b lua_res) \<Rightarrow> 'b lua_res" where
  "lua_bind m f = (case m of Inl e \<Rightarrow> Inl e | Inr x \<Rightarrow> f x)"

lemma lua_bind_simps [simp]: "lua_bind (Inl e) f = Inl e" "lua_bind (Inr x) f = f x"
  by (simp_all add: lua_bind_def)

lemma lua_bind_Inr: "lua_bind m f = Inr y \<longleftrightarrow> (\<exists>x. m = Inr x \<and> f x = Inr y)"
  by (cases m) simp_all

section \<open>Reading the stack\<close>

text \<open>Argument \<open>i\<close> (from 1) of a call; \<open>None\<close> is the absent argument, \<open>LUA_TNONE\<close>.\<close>

definition lua_arg :: "lua_value list \<Rightarrow> nat \<Rightarrow> lua_value option" where
  "lua_arg args i = (if 1 \<le> i \<and> i \<le> length args then Some (args ! (i - 1)) else None)"

text \<open>\<open>lua_tostring\<close>: strings and numbers; \<open>None\<close> is the null pointer.\<close>

definition lua_tostring :: "lua_conv \<Rightarrow> lua_value option \<Rightarrow> bytes option" where
  "lua_tostring cv v =
    (case v of
       Some (L_str b) \<Rightarrow> Some b
     | Some (L_int n) \<Rightarrow> Some (num_str cv (L_int n))
     | Some (L_float x) \<Rightarrow> Some (num_str cv (L_float x))
     | _ \<Rightarrow> None)"

definition lua_tointeger :: "lua_conv \<Rightarrow> lua_value option \<Rightarrow> lua_Integer option" where
  "lua_tointeger cv v =
    (case v of
       Some (L_int n) \<Rightarrow> Some n
     | Some (L_float x) \<Rightarrow> float_int cv x
     | Some (L_str b) \<Rightarrow> str_int cv b
     | _ \<Rightarrow> None)"

definition lua_isnoneornil :: "lua_value option \<Rightarrow> bool" where
  "lua_isnoneornil v \<longleftrightarrow> v = None \<or> v = Some L_nil"

definition lua_isfunction :: "lua_value option \<Rightarrow> bool" where
  "lua_isfunction v \<longleftrightarrow> (\<exists>f. v = Some (L_fun f))"

definition lua_istable :: "lua_value option \<Rightarrow> bool" where
  "lua_istable v = (case v of Some (L_table _) \<Rightarrow> True | _ \<Rightarrow> False)"

text \<open>\<open>lua_isstring\<close> holds of strings and numbers, \<open>lua_isnumber\<close> of numbers and numerals.\<close>

definition lua_isstring :: "lua_value option \<Rightarrow> bool" where
  "lua_isstring v = (case v of Some (L_str _) \<Rightarrow> True | Some (L_int _) \<Rightarrow> True | Some (L_float _) \<Rightarrow> True | _ \<Rightarrow> False)"

definition lua_isnumber :: "lua_conv \<Rightarrow> lua_value option \<Rightarrow> bool" where
  "lua_isnumber cv v =
    (case v of Some (L_int _) \<Rightarrow> True | Some (L_float _) \<Rightarrow> True | Some (L_str b) \<Rightarrow> str_isnum cv b | _ \<Rightarrow> False)"

text \<open>\<open>lua_tointeger\<close> without a success flag gives 0 for what it cannot convert.\<close>

definition lua_tointeger0 :: "lua_conv \<Rightarrow> lua_value option \<Rightarrow> lua_Integer" where
  "lua_tointeger0 cv v = (case lua_tointeger cv v of None \<Rightarrow> 0 | Some n \<Rightarrow> n)"

definition lua_toboolean :: "lua_value option \<Rightarrow> bool" where
  "lua_toboolean v \<longleftrightarrow> v \<noteq> None \<and> v \<noteq> Some L_nil \<and> v \<noteq> Some (L_bool False)"

definition luaL_checklstring :: "lua_conv \<Rightarrow> lua_value list \<Rightarrow> nat \<Rightarrow> bytes lua_res" where
  "luaL_checklstring cv args i =
    (case lua_tostring cv (lua_arg args i) of None \<Rightarrow> Inl (Arg_error i) | Some b \<Rightarrow> Inr b)"

text \<open>\<open>luaL_checkstring\<close> reads the same string as a C string: up to its first NUL.\<close>

definition luaL_checkstring :: "lua_conv \<Rightarrow> lua_value list \<Rightarrow> nat \<Rightarrow> bytes lua_res" where
  "luaL_checkstring cv args i = lua_bind (luaL_checklstring cv args i) (\<lambda>b. Inr (cstr b))"

definition luaL_checkinteger :: "lua_conv \<Rightarrow> lua_value list \<Rightarrow> nat \<Rightarrow> lua_Integer lua_res" where
  "luaL_checkinteger cv args i =
    (case lua_tointeger cv (lua_arg args i) of None \<Rightarrow> Inl (Arg_error i) | Some n \<Rightarrow> Inr n)"

definition luaL_optinteger :: "lua_conv \<Rightarrow> lua_value list \<Rightarrow> nat \<Rightarrow> lua_Integer \<Rightarrow> lua_Integer lua_res"
where
  "luaL_optinteger cv args i d =
    (if lua_isnoneornil (lua_arg args i) then Inr d else luaL_checkinteger cv args i)"

definition luaL_optlstring :: "lua_conv \<Rightarrow> lua_value list \<Rightarrow> nat \<Rightarrow> bytes \<Rightarrow> bytes lua_res" where
  "luaL_optlstring cv args i d =
    (if lua_isnoneornil (lua_arg args i) then Inr d else luaL_checklstring cv args i)"

text \<open>\<open>luaL_checkoption\<close>: the index of the argument in a list of names.\<close>

fun option_index :: "bytes \<Rightarrow> bytes list \<Rightarrow> nat option" where
  "option_index s [] = None"
| "option_index s (x # xs) = (if cstr s = x then Some 0 else map_option Suc (option_index s xs))"

definition luaL_checkoption ::
    "lua_conv \<Rightarrow> lua_value list \<Rightarrow> nat \<Rightarrow> bytes option \<Rightarrow> bytes list \<Rightarrow> nat lua_res" where
  "luaL_checkoption cv args i d opts =
    (let name = (case d of
         None \<Rightarrow> luaL_checklstring cv args i
       | Some b \<Rightarrow> luaL_optlstring cv args i b)
     in case name of Inl e \<Rightarrow> Inl e | Inr s \<Rightarrow>
        (case option_index s opts of None \<Rightarrow> Inl (Arg_error i) | Some n \<Rightarrow> Inr n))"

text \<open>\<open>strcmp(a, b) == 0\<close>.\<close>

definition strcmp_eq :: "bytes \<Rightarrow> bytes \<Rightarrow> bool" where
  "strcmp_eq a b \<longleftrightarrow> cstr a = cstr b"

lemma luaL_check_str [simp]:
  "lua_arg args i = Some (L_str b) \<Longrightarrow> luaL_checklstring cv args i = Inr b"
  "lua_arg args i = Some (L_str b) \<Longrightarrow> luaL_checkstring cv args i = Inr (cstr b)"
  by (simp_all add: luaL_checklstring_def luaL_checkstring_def lua_tostring_def)

lemma luaL_check_int [simp]:
  "lua_arg args i = Some (L_int n) \<Longrightarrow> luaL_checkinteger cv args i = Inr n"
  by (simp add: luaL_checkinteger_def lua_tointeger_def)

section \<open>C strings in fixed buffers\<close>

text \<open>
  \<open>strncpy(dst, src, n)\<close> fills \<open>n\<close> bytes: the source string, cut at \<open>n\<close>, padded with NULs.
  There is no NUL when the source has \<open>n\<close> bytes or more. \<open>buf_cstr\<close> reads a buffer as a C
  string and faults when it has no NUL, because the read then leaves the buffer.
\<close>

definition strncpy :: "bytes \<Rightarrow> nat \<Rightarrow> bytes" where
  "strncpy src n = take n src @ replicate (n - length src) 0"

definition buf_cstr :: "bytes \<Rightarrow> bytes option" where
  "buf_cstr b = (if 0 \<in> set b then Some (cstr b) else None)"

text \<open>A C string argument: a byte sequence without NUL.\<close>

definition is_cstr :: "bytes \<Rightarrow> bool" where
  "is_cstr s \<longleftrightarrow> 0 \<notin> set s"

lemma cstr_is_cstr [simp]: "is_cstr (cstr b)"
  by (auto simp: is_cstr_def cstr_def dest: set_takeWhileD)

lemma cstr_id: "is_cstr s \<Longrightarrow> cstr s = s"
  by (auto simp: cstr_def is_cstr_def takeWhile_eq_all_conv)

lemma cstr_append_NUL: "is_cstr s \<Longrightarrow> cstr (s @ 0 # r) = s"
  by (induction s) (auto simp: cstr_def is_cstr_def)

lemma length_strncpy [simp]: "length (strncpy s n) = n"
  by (simp add: strncpy_def)

text \<open>A \<open>strncpy\<close> can be read back exactly when the string was shorter than the buffer.\<close>

lemma buf_cstr_strncpy:
  assumes "is_cstr s"
  shows "buf_cstr (strncpy s n) = (if length s < n then Some s else None)"
proof (cases "length s < n")
  case True
  then obtain k where "n - length s = Suc k" by (metis Suc_diff_Suc)
  then show ?thesis using True assms by (simp add: strncpy_def buf_cstr_def cstr_append_NUL)
next
  case False
  then have "0 \<notin> set (strncpy s n)"
    using assms by (auto simp: strncpy_def is_cstr_def dest: in_set_takeD)
  then show ?thesis using False by (simp add: buf_cstr_def)
qed

end
