(* ===== verification/Node.thy ===== *)
theory Node
  imports Lua_Api
begin

text \<open>
  The nodes of \<open>src/qsf_node.c\<close>: the registry of running nodes (a singly linked list behind a
  mutex), creation and removal, the life of a node's thread, and the two primitives with which
  a node talks to the router.

  The registry is kept as the code has it, with \<open>next\<close> pointers and the pointer-to-pointer
  traversal: a \<open>slot\<close> is the place a pointer is stored in, the list head or the \<open>next\<close> field of
  a node. The char arrays \<open>name\<close>, \<open>path\<close> and \<open>args\<close> keep their sizes. A function that takes
  the mutex appears as one atomic step; the mutex itself is the flag \<open>ctx_locked\<close>.
\<close>

section \<open>Data\<close>

definition MAX_ID_LENGTH :: nat where "MAX_ID_LENGTH = 32"
definition MAX_ARG_LENGTH :: nat where "MAX_ARG_LENGTH = 256"
definition MAX_PATH :: nat where "MAX_PATH = 260"
definition QSF_NODE_TAG_VALUE_GOOD :: u32 where "QSF_NODE_TAG_VALUE_GOOD = 0xabadcafe"
definition QSF_NODE_TAG_VALUE_BAD :: u32 where "QSF_NODE_TAG_VALUE_BAD = 0xdeadbeef"

text \<open>\<open>n_L\<close> and \<open>n_dealer\<close>: whether the Lua state and the dealer socket are open.\<close>

record qsf_node =
  n_next :: "addr option"
  n_L :: bool
  n_dealer :: bool
  n_name :: bytes
  n_path :: bytes
  n_args :: bytes
  n_tag :: u32

record node_context =
  ctx_count :: int
  ctx_list :: "addr option"
  ctx_locked :: bool
  ctx_nodes :: "addr \<Rightarrow> qsf_node option"

datatype slot = Head | Next addr

fun read_slot :: "node_context \<Rightarrow> slot \<Rightarrow> addr option option" where
  "read_slot c Head = Some (ctx_list c)"
| "read_slot c (Next a) = map_option n_next (ctx_nodes c a)"

fun write_slot :: "node_context \<Rightarrow> slot \<Rightarrow> addr option \<Rightarrow> node_context option" where
  "write_slot c Head v = Some (c\<lparr>ctx_list := v\<rparr>)"
| "write_slot c (Next a) v = do {
     n \<leftarrow> ctx_nodes c a;
     Some (c\<lparr>ctx_nodes := (ctx_nodes c)(a := Some (n\<lparr>n_next := v\<rparr>))\<rparr>) }"

text \<open>The name a node is compared by: \<open>name\<close> read as a C string.\<close>

definition node_cname :: "node_context \<Rightarrow> addr \<Rightarrow> bytes option" where
  "node_cname c a = do { n \<leftarrow> ctx_nodes c a; buf_cstr (n_name n) }"

section \<open>The list\<close>

partial_function (option) find_loop :: "node_context \<Rightarrow> bytes \<Rightarrow> addr option \<Rightarrow> addr option option" where
  "find_loop c name phead =
    (case phead of
       None \<Rightarrow> Some None
     | Some a \<Rightarrow>
         Option.bind (node_cname c a) (\<lambda>nm.
           if nm = name then Some (Some a)
           else Option.bind (ctx_nodes c a) (\<lambda>n. find_loop c name (n_next n))))"

definition find_from_node_list :: "node_context \<Rightarrow> bytes \<Rightarrow> addr option option" where
  "find_from_node_list c name = find_loop c name (ctx_list c)"

partial_function (option) remove_loop :: "node_context \<Rightarrow> bytes \<Rightarrow> slot \<Rightarrow> node_context option" where
  "remove_loop c name pph =
    Option.bind (read_slot c pph) (\<lambda>v.
      case v of
        None \<Rightarrow> Some c
      | Some p \<Rightarrow>
          Option.bind (node_cname c p) (\<lambda>nm.
            if nm = name
            then Option.bind (ctx_nodes c p) (\<lambda>n.
                 Option.bind (write_slot c pph (n_next n)) (\<lambda>c.
                 Some (c\<lparr>ctx_nodes := (ctx_nodes c)(p := None), ctx_count := ctx_count c - 1\<rparr>)))
            else remove_loop c name (Next p)))"

text \<open>\<open>s->name\<close> is the same memory throughout; it is read before the loop and compared in it.\<close>

definition remove_from_node_list :: "node_context \<Rightarrow> addr \<Rightarrow> node_context option" where
  "remove_from_node_list c s = do {
     name \<leftarrow> node_cname c s;
     remove_loop c name Head
   }"

partial_function (option) last_slot :: "node_context \<Rightarrow> slot \<Rightarrow> slot option" where
  "last_slot c pph =
    Option.bind (read_slot c pph) (\<lambda>v.
      case v of None \<Rightarrow> Some pph | Some p \<Rightarrow> last_slot c (Next p))"

text \<open>\<open>block\<close> is what \<open>malloc\<close> returns: a fresh block, or \<open>None\<close> for the null pointer.\<close>

definition create_from_node_list ::
    "addr option \<Rightarrow> bytes \<Rightarrow> bytes \<Rightarrow> bytes \<Rightarrow> node_context \<Rightarrow> (addr \<times> node_context) option" where
  "create_from_node_list block name path args c = do {
     s \<leftarrow> block;
     c_assert (ctx_nodes c s = None);
     let n = \<lparr>n_next = None, n_L = False, n_dealer = False,
              n_name = strncpy name MAX_ID_LENGTH, n_path = strncpy path MAX_PATH,
              n_args = strncpy args MAX_ARG_LENGTH, n_tag = 0\<rparr>;
     let c = c\<lparr>ctx_nodes := (ctx_nodes c)(s := Some n)\<rparr>;
     pph \<leftarrow> last_slot c Head;
     c \<leftarrow> write_slot c pph (Some s);
     Some (s, c\<lparr>ctx_count := ctx_count c + 1\<rparr>)
   }"

section \<open>Creating a node\<close>

definition uv_mutex_lock :: "node_context \<Rightarrow> node_context option" where
  "uv_mutex_lock c = (if ctx_locked c then None else Some (c\<lparr>ctx_locked := True\<rparr>))"

definition uv_mutex_unlock :: "node_context \<Rightarrow> node_context option" where
  "uv_mutex_unlock c = (if ctx_locked c then Some (c\<lparr>ctx_locked := False\<rparr>) else None)"

text \<open>\<open>r\<close> is the result of \<open>uv_thread_create\<close>; the new thread runs only once the lock is free.\<close>

definition qsf_create_node ::
    "addr option \<Rightarrow> int \<Rightarrow> bytes \<Rightarrow> bytes \<Rightarrow> bytes \<Rightarrow> node_context \<Rightarrow> (int \<times> node_context) option" where
  "qsf_create_node block r name path args c =
    (if MAX_ID_LENGTH \<le> length name then Some (1, c)
     else if name = str ''sys'' then Some (2, c)
     else do {
       c \<leftarrow> uv_mutex_lock c;
       s \<leftarrow> find_from_node_list c name;
       if s \<noteq> None
       then do { c \<leftarrow> uv_mutex_unlock c; Some (3, c) }
       else do {
         (s, c) \<leftarrow> create_from_node_list block name path args c;
         c \<leftarrow> (if r < 0 then remove_from_node_list c s else Some c);
         c \<leftarrow> uv_mutex_unlock c;
         Some (r, c) } })"

section \<open>The thread of a node\<close>

datatype luaopen =
    luaopen_luv | luaopen_zmq | luaopen_net | luaopen_lfs | luaopen_node | luaopen_zlib
  | luaopen_mysql | luaopen_crypto | luaopen_base64 | luaopen_process

definition preload_libs :: "(bytes \<times> luaopen) list" where
  "preload_libs =
    [(str ''luv'', luaopen_luv), (str ''zmq'', luaopen_zmq), (str ''net'', luaopen_net),
     (str ''lfs'', luaopen_lfs), (str ''node'', luaopen_node), (str ''zlib'', luaopen_zlib),
     (str ''mysql'', luaopen_mysql), (str ''crypto'', luaopen_crypto),
     (str ''base64'', luaopen_base64), (str ''process'', luaopen_process)]"

text \<open>The table \<open>_PRELOAD\<close> after the loop over the libraries.\<close>

definition open_preload_libs :: "(bytes \<Rightarrow> luaopen option) \<Rightarrow> (bytes \<Rightarrow> luaopen option)" where
  "open_preload_libs t = fold (\<lambda>(name, f) t. t(name := Some f)) preload_libs t"

text \<open>\<open>snprintf\<close> into a buffer of \<open>n\<close> bytes, as the string found there afterwards.\<close>

definition snprintf_str :: "nat \<Rightarrow> bytes \<Rightarrow> bytes" where
  "snprintf_str n text = (if n = 0 then [] else take (n - 1) text)"

definition path_chunk :: "bytes \<Rightarrow> bytes" where
  "path_chunk path = str ''package.path = package.path .. '' @ [39] @ str '';'' @ [39]
     @ str '' .. '' @ [39] @ path @ [39]"

definition cpath_chunk :: "bytes \<Rightarrow> bytes" where
  "cpath_chunk cpath = str ''package.cpath = package.cpath .. '' @ [39] @ str '';'' @ [39]
     @ str '' .. '' @ [39] @ cpath @ [39]"

text \<open>
  The chunks \<open>load_node_path\<close> runs, for the values of \<open>lua_path\<close> and \<open>lua_cpath\<close>; \<open>ok\<close> says
  whether \<open>luaL_dostring\<close> succeeds on a chunk.
\<close>

definition load_node_path :: "(bytes \<Rightarrow> bool) \<Rightarrow> bytes \<Rightarrow> bytes \<Rightarrow> bytes list option" where
  "load_node_path ok path cpath = do {
     c1 \<leftarrow> (if path \<noteq> []
            then do {
              let chunk = snprintf_str 512 (path_chunk path);
              c_assert (0 < length (path_chunk path));
              c_assert (ok chunk);
              Some [chunk] }
            else Some []);
     c2 \<leftarrow> (if path \<noteq> []
            then do {
              let chunk = snprintf_str 512 (cpath_chunk cpath);
              c_assert (0 < length (cpath_chunk cpath));
              c_assert (ok chunk);
              Some [chunk] }
            else Some []);
     Some (c1 @ c2)
   }"

text \<open>
  What the thread meets: whether a Lua state can be made, the two path settings, which chunks
  run, whether the dealer of that name can be created, and what \<open>luaL_loadfile\<close> returns.
  The thread's visible actions are recorded in order.
\<close>

record thread_env =
  te_newstate :: bool
  te_lua_path :: bytes
  te_lua_cpath :: bytes
  te_dostring :: "bytes \<Rightarrow> bool"
  te_dealer :: "bytes \<Rightarrow> bool"
  te_loadfile :: "bytes \<Rightarrow> int"

datatype thread_action =
    Do_preload "bytes \<Rightarrow> luaopen option"
  | Do_chunk bytes
  | Do_dealer bytes
  | Do_loadfile bytes
  | Do_call bytes
  | Do_log_error bytes
  | Do_close_dealer
  | Do_close_lua

definition init_node ::
    "thread_env \<Rightarrow> addr \<Rightarrow> node_context \<Rightarrow> (int \<times> thread_action list \<times> node_context) option" where
  "init_node e s c = do {
     n \<leftarrow> ctx_nodes c s;
     if \<not> te_newstate e then Some (1, [], c)
     else do {
       chunks \<leftarrow> load_node_path (te_dostring e) (te_lua_path e) (te_lua_cpath e);
       name \<leftarrow> buf_cstr (n_name n);
       c_assert (te_dealer e name);
       let n = n\<lparr>n_L := True, n_dealer := True, n_tag := QSF_NODE_TAG_VALUE_GOOD\<rparr>;
       Some (0, Do_preload (open_preload_libs Map.empty) # map Do_chunk chunks @ [Do_dealer name],
             c\<lparr>ctx_nodes := (ctx_nodes c)(s := Some n)\<rparr>) }
   }"

definition cleanup_node :: "addr \<Rightarrow> node_context \<Rightarrow> (thread_action list \<times> node_context) option" where
  "cleanup_node s c = do {
     n \<leftarrow> ctx_nodes c s;
     let acts = (if n_dealer n then [Do_close_dealer] else []) @ (if n_L n then [Do_close_lua] else []);
     _ \<leftarrow> buf_cstr (n_name n);
     let c = c\<lparr>ctx_nodes := (ctx_nodes c)(s := Some (n\<lparr>n_tag := QSF_NODE_TAG_VALUE_BAD\<rparr>))\<rparr>;
     c \<leftarrow> uv_mutex_lock c;
     c \<leftarrow> remove_from_node_list c s;
     c \<leftarrow> uv_mutex_unlock c;
     Some (acts, c)
   }"

text \<open>The thread function; \<open>run\<close> is what the node's script does to the registry while it runs.\<close>

definition node_thread_callback ::
    "thread_env \<Rightarrow> (bytes \<Rightarrow> node_context \<Rightarrow> node_context option) \<Rightarrow> addr \<Rightarrow> node_context
     \<Rightarrow> (thread_action list \<times> node_context) option" where
  "node_thread_callback e run s c = do {
     (r, acts, c) \<leftarrow> init_node e s c;
     (acts, c) \<leftarrow>
       (if r = 0
        then do {
          n \<leftarrow> ctx_nodes c s;
          path \<leftarrow> buf_cstr (n_path n);
          if te_loadfile e path = 0
          then do {
            args \<leftarrow> buf_cstr (n_args n);
            c \<leftarrow> run args c;
            Some (acts @ [Do_loadfile path, Do_call args], c) }
          else do {
            name \<leftarrow> buf_cstr (n_name n);
            Some (acts @ [Do_loadfile path, Do_log_error name], c) } }
        else Some (acts, c));
     (acts', c) \<leftarrow> cleanup_node s c;
     Some (acts @ acts', c)
   }"

section \<open>The other operations\<close>

definition qsf_node_check_tag :: "node_context \<Rightarrow> addr option \<Rightarrow> bool option" where
  "qsf_node_check_tag c s =
    (case s of
       None \<Rightarrow> Some False
     | Some a \<Rightarrow> do { n \<leftarrow> ctx_nodes c a; Some (n_tag n = QSF_NODE_TAG_VALUE_GOOD) })"

definition qsf_node_name :: "node_context \<Rightarrow> addr \<Rightarrow> bytes option" where
  "qsf_node_name = node_cname"

definition qsf_node_init :: "int \<Rightarrow> node_context \<Rightarrow> int \<times> node_context" where
  "qsf_node_init r c =
    (if r < 0 then (r, c) else (0, c\<lparr>ctx_locked := False, ctx_count := 0, ctx_list := None\<rparr>))"

partial_function (option) exit_loop :: "addr option \<Rightarrow> node_context \<Rightarrow> node_context option" where
  "exit_loop ctx c =
    (case ctx of
       None \<Rightarrow> Some c
     | Some p \<Rightarrow>
         Option.bind (ctx_nodes c p) (\<lambda>n.
         Option.bind (cleanup_node p c) (\<lambda>(_, c). exit_loop (n_next n) c)))"

definition qsf_node_exit :: "node_context \<Rightarrow> node_context option" where
  "qsf_node_exit c = do {
     c \<leftarrow> exit_loop (ctx_list c) c;
     Some (c\<lparr>ctx_count := 0\<rparr>)
   }"

section \<open>Sending and receiving\<close>

text \<open>
  The dealer socket: \<open>zmq_send\<close> takes the frame and the \<open>ZMQ_SNDMORE\<close> flag and returns the
  number of bytes accepted or a negative number; \<open>zmq_msg_recv\<close> returns the next frame or the
  negative error. Both are arguments, over a state \<open>'z\<close> of the message system.
\<close>

type_synonym 'z zsend = "bytes \<Rightarrow> bool \<Rightarrow> 'z \<Rightarrow> int \<times> 'z"
type_synonym 'z zrecv = "bool \<Rightarrow> 'z \<Rightarrow> (int + bytes) \<times> 'z"

definition qsf_node_send :: "'z zsend \<Rightarrow> bytes \<Rightarrow> bytes \<Rightarrow> 'z \<Rightarrow> 'z option" where
  "qsf_node_send zmq_send name data z = do {
     c_assert (name \<noteq> []);
     c_assert (data \<noteq> []);
     let (r, z) = zmq_send name True z;
     c_assert (r = int (length name));
     let (r, z) = zmq_send data False z;
     c_assert (r = int (length data));
     Some z
   }"

text \<open>The handler gets both frames and returns an \<open>int\<close>; its other effects are in \<open>'h\<close>.\<close>

definition qsf_node_recv ::
    "'z zrecv \<Rightarrow> (bytes \<Rightarrow> bytes \<Rightarrow> 'h \<Rightarrow> (int \<times> 'h) option) \<Rightarrow> bool \<Rightarrow> 'h \<Rightarrow> 'z
     \<Rightarrow> (int \<times> 'h \<times> 'z) option" where
  "qsf_node_recv zmq_msg_recv func nowait h z =
    (let (r, z) = zmq_msg_recv nowait z in
     case r of
       Inl err \<Rightarrow> Some (0, h, z)
     | Inr name \<Rightarrow>
         if name = [] then Some (0, h, z)
         else do {
           c_assert (length name < MAX_ID_LENGTH);
           let (r, z) = zmq_msg_recv nowait z;
           case r of
             Inl err \<Rightarrow> Some (0, h, z)
           | Inr data \<Rightarrow>
               if data = [] then Some (0, h, z)
               else do {
                 (r, h) \<leftarrow> func name data h;
                 Some (if 0 < r then r else 0, h, z) } })"

section \<open>Errors in scripts\<close>

text \<open>
  The message handler of \<open>qsf_trace_pcall\<close>: from the error value to what is reported. \<open>callmeta\<close> is
  the result of the value's \<open>__tostring\<close>, if it has one, and \<open>traceback\<close> Lua's text of the message
  and the call stack.
\<close>

definition qsf_traceback ::
    "lua_conv \<Rightarrow> (lua_value \<Rightarrow> lua_value option) \<Rightarrow> (bytes \<Rightarrow> bytes) \<Rightarrow> lua_value \<Rightarrow> lua_value" where
  "qsf_traceback cv callmeta traceback err =
    (if lua_isstring (Some err) then L_str (traceback (the (lua_tostring cv (Some err))))
     else if lua_isnoneornil (Some err) then err
     else case callmeta err of
         None \<Rightarrow> err
       | Some r \<Rightarrow> if lua_isstring (Some r) then L_str (traceback (the (lua_tostring cv (Some r)))) else r)"

text \<open>A \<open>__tostring\<close> that gives no string replaces the error value.\<close>

lemma qsf_traceback_no_string:
  "\<not> lua_isstring (Some err) \<Longrightarrow> err \<noteq> L_nil \<Longrightarrow> callmeta err = Some r \<Longrightarrow> \<not> lua_isstring (Some r) \<Longrightarrow>
   qsf_traceback cv callmeta traceback err = r"
  by (simp add: qsf_traceback_def lua_isnoneornil_def)

end
