(* ===== verification/Node_Correct.thy ===== *)
theory Node_Correct
  imports Node
begin

text \<open>
  The node registry refines a list of nodes with pairwise different names. \<open>node_inv c xs\<close> is
  the invariant: \<open>xs\<close> are exactly the allocated nodes, in list order, the count is their number,
  every name is a terminated C string of fewer than 32 bytes and not the reserved \<open>sys\<close>.
\<close>

definition nxt :: "node_context \<Rightarrow> addr \<Rightarrow> addr option" where
  "nxt c a = n_next (the (ctx_nodes c a))"

definition name_ok :: "bytes \<Rightarrow> bool" where
  "name_ok nm \<longleftrightarrow> is_cstr nm \<and> length nm < MAX_ID_LENGTH \<and> nm \<noteq> str ''sys''"

definition node_inv :: "node_context \<Rightarrow> addr list \<Rightarrow> bool" where
  "node_inv c xs \<longleftrightarrow>
     ctx_list c = hd_or xs None \<and> sll (nxt c) xs None \<and> distinct xs \<and>
     dom (ctx_nodes c) = set xs \<and> ctx_count c = int (length xs) \<and>
     (\<forall>a \<in> set xs. \<exists>nm. node_cname c a = Some nm \<and> name_ok nm) \<and>
     distinct (map (node_cname c) xs)"

lemma node_invD:
  assumes "node_inv c xs"
  shows "ctx_list c = hd_or xs None" "sll (nxt c) xs None" "distinct xs"
    "ctx_nodes c a \<noteq> None \<longleftrightarrow> a \<in> set xs" "ctx_count c = int (length xs)"
    "distinct (map (node_cname c) xs)"
  using assms by (auto simp: node_inv_def)

lemma node_inv_dom: "node_inv c xs \<Longrightarrow> dom (ctx_nodes c) = set xs"
  by (simp add: node_inv_def)

lemma node_inv_cname:
  assumes "node_inv c xs" and "a \<in> set xs"
  obtains nm where "node_cname c a = Some nm" and "name_ok nm"
  using assms by (auto simp: node_inv_def)

lemma node_inv_alloc:
  assumes "node_inv c xs" and "a \<in> set xs"
  obtains n where "ctx_nodes c a = Some n"
  using assms node_invD(4) by blast

lemma node_cname_inj:
  "node_inv c xs \<Longrightarrow> a \<in> set xs \<Longrightarrow> b \<in> set xs \<Longrightarrow> node_cname c a = node_cname c b \<Longrightarrow> a = b"
  by (meson distinct_map inj_onD node_invD(6))

section \<open>Find\<close>

lemma find_loop_list:
  assumes "sll (nxt c) xs None" and "\<forall>a \<in> set xs. ctx_nodes c a \<noteq> None \<and> node_cname c a \<noteq> None"
  shows "find_loop c name (hd_or xs None) = Some (List.find (\<lambda>a. node_cname c a = Some name) xs)"
  using assms
proof (induction xs)
  case Nil
  show ?case by (subst find_loop.simps) simp
next
  case (Cons a xs)
  then obtain n nm where "ctx_nodes c a = Some n" "node_cname c a = Some nm" by auto
  moreover have "n_next n = hd_or xs None" using Cons.prems(1) calculation by (simp add: nxt_def)
  ultimately show ?case using Cons by (subst find_loop.simps) simp
qed

lemma find_from_node_list_inv:
  assumes "node_inv c xs"
  shows "find_from_node_list c name = Some (List.find (\<lambda>a. node_cname c a = Some name) xs)"
proof -
  have "\<forall>a \<in> set xs. ctx_nodes c a \<noteq> None \<and> node_cname c a \<noteq> None"
    using node_inv_cname [OF assms] node_invD(4) [OF assms] by (metis option.distinct(1))
  then show ?thesis
    using find_loop_list [OF node_invD(2) [OF assms]] node_invD(1) [OF assms]
    by (simp add: find_from_node_list_def)
qed

section \<open>Slots\<close>

definition end_slot :: "slot \<Rightarrow> addr list \<Rightarrow> slot" where
  "end_slot pph us = (if us = [] then pph else Next (last us))"

lemma end_slot_simps [simp]:
  "end_slot pph [] = pph" "end_slot pph (us @ [a]) = Next a" "end_slot pph (a # us) = end_slot (Next a) us"
  by (simp_all add: end_slot_def)

lemma last_slot_list:
  assumes "read_slot c pph = Some (hd_or xs None)" and "sll (nxt c) xs None"
    and "\<forall>a \<in> set xs. ctx_nodes c a \<noteq> None"
  shows "last_slot c pph = Some (end_slot pph xs)"
  using assms
proof (induction xs arbitrary: pph)
  case Nil
  then show ?case by (subst last_slot.simps) simp
next
  case (Cons a xs)
  have "read_slot c (Next a) = Some (hd_or xs None)" using Cons.prems by (auto simp: nxt_def)
  then show ?case using Cons by (subst last_slot.simps) simp
qed

text \<open>The slot after a prefix holds the rest of the list.\<close>

lemma read_end_slot:
  assumes "node_inv c (us @ vs)"
  shows "read_slot c (end_slot Head us) = Some (hd_or vs None)"
proof (cases us rule: rev_cases)
  case Nil
  then show ?thesis using node_invD(1) [OF assms] by simp
next
  case (snoc ws w)
  obtain n where "ctx_nodes c w = Some n"
    using node_inv_alloc [OF assms, of w] snoc by auto
  then show ?thesis using node_invD(2) [OF assms] snoc by (auto simp: nxt_def)
qed

text \<open>Writing a slot changes one link only.\<close>

lemma write_end_slot:
  assumes "node_inv c (us @ vs)"
  shows "\<exists>c'. write_slot c (end_slot Head us) v = Some c' \<and>
    ctx_list c' = (if us = [] then v else ctx_list c) \<and>
    nxt c' = (if us = [] then nxt c else (nxt c)(last us := v)) \<and>
    node_cname c' = node_cname c \<and> dom (ctx_nodes c') = dom (ctx_nodes c) \<and>
    (\<forall>a n. a \<notin> set us \<longrightarrow> ctx_nodes c' a = ctx_nodes c a) \<and>
    ctx_count c' = ctx_count c \<and> ctx_locked c' = ctx_locked c"
proof (cases us rule: rev_cases)
  case Nil
  have "nxt (c\<lparr>ctx_list := v\<rparr>) = nxt c" "node_cname (c\<lparr>ctx_list := v\<rparr>) = node_cname c"
    by (simp_all add: nxt_def node_cname_def fun_eq_iff)
  then show ?thesis using Nil by simp
next
  case (snoc ws w)
  obtain n where n: "ctx_nodes c w = Some n"
    using node_inv_alloc [OF assms, of w] snoc by auto
  let ?c = "c\<lparr>ctx_nodes := (ctx_nodes c)(w := Some (n\<lparr>n_next := v\<rparr>))\<rparr>"
  have "nxt ?c = (nxt c)(w := v)" "node_cname ?c = node_cname c"
    using n by (auto simp: nxt_def node_cname_def fun_eq_iff)
  moreover have "w \<in> dom (ctx_nodes c)" using n by auto
  ultimately show ?thesis using snoc n by (simp add: insert_absorb)
qed

section \<open>Remove\<close>

lemma remove_loop_list:
  assumes inv: "node_inv c (us @ vs)" and un: "\<forall>a \<in> set us. node_cname c a \<noteq> Some name"
  shows "\<exists>c'. remove_loop c name (end_slot Head us) = Some c' \<and>
    node_inv c' (us @ filter (\<lambda>a. node_cname c a \<noteq> Some name) vs) \<and>
    ctx_locked c' = ctx_locked c \<and>
    (\<forall>a \<in> set us \<union> set vs. node_cname c a \<noteq> Some name \<longrightarrow> node_cname c' a = node_cname c a)"
  using assms
proof (induction vs arbitrary: us)
  case Nil
  then show ?case using read_end_slot [OF Nil.prems(1)] by (subst remove_loop.simps) simp
next
  case (Cons a vs)
  have read: "read_slot c (end_slot Head us) = Some (Some a)"
    using read_end_slot [OF Cons.prems(1)] by simp
  obtain nm where nm: "node_cname c a = Some nm"
    using node_inv_cname [OF Cons.prems(1), of a] by auto
  show ?case
  proof (cases "nm = name")
    case False
    have "node_inv c ((us @ [a]) @ vs)" using Cons.prems(1) by simp
    from Cons.IH [OF this] nm False Cons.prems(2) obtain c' where
      c': "remove_loop c name (end_slot Head (us @ [a])) = Some c'" "ctx_locked c' = ctx_locked c"
      "node_inv c' ((us @ [a]) @ filter (\<lambda>a. node_cname c a \<noteq> Some name) vs)"
      "\<forall>b \<in> set (us @ [a]) \<union> set vs. node_cname c b \<noteq> Some name \<longrightarrow> node_cname c' b = node_cname c b"
      by auto
    then show ?thesis using read nm False by (subst remove_loop.simps) auto
  next
    case True
    obtain n where n: "ctx_nodes c a = Some n" using node_inv_alloc [OF Cons.prems(1), of a] by auto
    have nx: "n_next n = hd_or vs None" using node_invD(2) [OF Cons.prems(1)] n by (simp add: nxt_def)
    obtain c1 where c1: "write_slot c (end_slot Head us) (n_next n) = Some c1"
        "ctx_list c1 = (if us = [] then n_next n else ctx_list c)"
        "nxt c1 = (if us = [] then nxt c else (nxt c)(last us := n_next n))"
        "node_cname c1 = node_cname c" "dom (ctx_nodes c1) = dom (ctx_nodes c)"
        "ctx_count c1 = ctx_count c" "ctx_locked c1 = ctx_locked c"
      using write_end_slot [OF Cons.prems(1), of "n_next n"]
      by (elim exE conjE) (rule that, assumption+)
    define c2 where "c2 = c1\<lparr>ctx_nodes := (ctx_nodes c1)(a := None), ctx_count := ctx_count c1 - 1\<rparr>"
    have run: "remove_loop c name (end_slot Head us) = Some c2"
      using read nm n c1(1) True by (subst remove_loop.simps) (simp add: c2_def)
    have dist: "distinct (us @ a # vs)" by (rule node_invD(3) [OF Cons.prems(1)])
    have nxt2: "\<forall>x. x \<noteq> a \<longrightarrow> nxt c2 x = nxt c1 x" by (simp add: nxt_def c2_def)
    have cn2: "\<forall>x. x \<noteq> a \<longrightarrow> node_cname c2 x = node_cname c x"
      unfolding c1(4) [symmetric] by (simp add: node_cname_def c2_def)
    have "filter (\<lambda>b. node_cname c b \<noteq> Some name) vs = vs"
    proof (rule filter_True, rule ballI)
      fix b assume b: "b \<in> set vs"
      then have "b \<noteq> a" using dist by auto
      then show "node_cname c b \<noteq> Some name"
        using node_cname_inj [OF Cons.prems(1), of a b] b nm True by auto
    qed
    then have flt: "filter (\<lambda>b. node_cname c b \<noteq> Some name) (a # vs) = vs" using nm True by simp
    have "sll (nxt c2) (us @ vs) None"
    proof -
      have s: "sll (nxt c) us (Some a)" "sll (nxt c) vs None" using node_invD(2) [OF Cons.prems(1)] by simp_all
      have "sll (nxt c1) us (hd_or vs None)"
      proof (cases "us = []")
        case False
        then show ?thesis using sll_last_upd [OF s(1) _ False] dist c1(3) nx by simp
      qed simp
      moreover have "sll (nxt c1) vs None"
      proof (cases "us = []")
        case False
        then have "last us \<in> set us" by simp
        then have "last us \<notin> set vs" using dist by auto
        then show ?thesis using s(2) c1(3) False by simp
      qed (use s(2) c1(3) in simp)
      ultimately have "sll (nxt c1) (us @ vs) None" by simp
      moreover have "\<forall>x \<in> set (us @ vs). nxt c2 x = nxt c1 x" using nxt2 dist by auto
      ultimately show ?thesis using sll_cong by blast
    qed
    moreover have "ctx_list c2 = hd_or (us @ vs) None"
      using c1(2) node_invD(1) [OF Cons.prems(1)] nx by (cases us) (simp_all add: c2_def)
    moreover have "dom (ctx_nodes c2) = set (us @ vs)"
    proof -
      have "dom (ctx_nodes c2) = dom (ctx_nodes c) - {a}" using c1(5) by (auto simp: c2_def)
      then show ?thesis using node_inv_dom [OF Cons.prems(1)] dist by auto
    qed
    moreover have "distinct (map (node_cname c2) (us @ vs))"
    proof -
      have "map (node_cname c2) (us @ vs) = map (node_cname c) (us @ vs)" using cn2 dist by auto
      moreover have "distinct (map (node_cname c) (us @ vs))"
        using node_invD(6) [OF Cons.prems(1)] by auto
      ultimately show ?thesis by (simp only:)
    qed
    moreover have "distinct (us @ vs)" using dist by simp
    moreover have "ctx_count c2 = int (length (us @ vs))"
      using node_invD(5) [OF Cons.prems(1)] c1(6) by (simp add: c2_def)
    moreover have "\<forall>x \<in> set (us @ vs). \<exists>nm. node_cname c2 x = Some nm \<and> name_ok nm"
    proof
      fix x assume "x \<in> set (us @ vs)"
      then have "x \<noteq> a" "x \<in> set (us @ a # vs)" using dist by auto
      then show "\<exists>nm. node_cname c2 x = Some nm \<and> name_ok nm"
        using cn2 node_inv_cname [OF Cons.prems(1)] by metis
    qed
    ultimately have "node_inv c2 (us @ vs)"
      unfolding node_inv_def by blast
    then show ?thesis using run flt cn2 nm True c1(7) by (intro exI [of _ c2]) (auto simp: c2_def)
  qed
qed

lemma remove_from_node_list_inv:
  assumes inv: "node_inv c xs" and a: "a \<in> set xs"
  shows "\<exists>c'. remove_from_node_list c a = Some c' \<and> node_inv c' (remove1 a xs) \<and>
    ctx_locked c' = ctx_locked c \<and> (\<forall>b \<in> set xs - {a}. node_cname c' b = node_cname c b)"
proof -
  obtain nm where nm: "node_cname c a = Some nm" by (rule node_inv_cname [OF inv a])
  obtain c' where lock: "ctx_locked c' = ctx_locked c" and c': "remove_loop c nm Head = Some c'"
      "node_inv c' (filter (\<lambda>b. node_cname c b \<noteq> Some nm) xs)"
      "\<forall>b \<in> set xs. node_cname c b \<noteq> Some nm \<longrightarrow> node_cname c' b = node_cname c b"
    using remove_loop_list [of c "[]" xs nm] inv by auto
  have other: "node_cname c b \<noteq> Some nm \<longleftrightarrow> b \<noteq> a" if "b \<in> set xs" for b
    using node_cname_inj [OF inv that a] nm by auto
  then have "filter (\<lambda>b. node_cname c b \<noteq> Some nm) xs = filter (\<lambda>b. b \<noteq> a) xs"
    by (intro filter_cong) auto
  also have "\<dots> = remove1 a xs"
    by (rule filter_neq_remove1 [OF node_invD(3) [OF inv]])
  finally have "node_inv c' (remove1 a xs)" using c'(2) by simp
  then show ?thesis
    using c'(1,3) lock nm other by (auto simp: remove_from_node_list_def)
qed

section \<open>Create\<close>

lemma node_inv_lock [simp]: "node_inv (c\<lparr>ctx_locked := b\<rparr>) xs = node_inv c xs"
proof -
  have "nxt (c\<lparr>ctx_locked := b\<rparr>) = nxt c" "node_cname (c\<lparr>ctx_locked := b\<rparr>) = node_cname c"
    by (simp_all add: nxt_def node_cname_def fun_eq_iff)
  then show ?thesis by (simp add: node_inv_def)
qed

definition new_node :: "bytes \<Rightarrow> bytes \<Rightarrow> bytes \<Rightarrow> qsf_node" where
  "new_node name path args = \<lparr>n_next = None, n_L = False, n_dealer = False,
     n_name = strncpy name MAX_ID_LENGTH, n_path = strncpy path MAX_PATH,
     n_args = strncpy args MAX_ARG_LENGTH, n_tag = 0\<rparr>"

lemma create_from_node_list_inv:
  assumes inv: "node_inv c xs" and name: "name_ok name" "\<forall>a \<in> set xs. node_cname c a \<noteq> Some name"
    and s: "ctx_nodes c s = None"
  shows "\<exists>c'. create_from_node_list (Some s) name path args c = Some (s, c') \<and> node_inv c' (xs @ [s]) \<and>
    ctx_nodes c' s = Some (new_node name path args) \<and> node_cname c' s = Some name \<and>
    ctx_locked c' = ctx_locked c \<and> (\<forall>a \<in> set xs. node_cname c' a = node_cname c a)"
proof -
  define c1 where "c1 = c\<lparr>ctx_nodes := (ctx_nodes c)(s := Some (new_node name path args))\<rparr>"
  have sx: "s \<notin> set xs" using s node_invD(4) [OF inv, of s] by simp
  have alloc: "\<forall>a \<in> set xs. ctx_nodes c1 a \<noteq> None"
    using node_inv_dom [OF inv] by (auto simp: c1_def)
  have old: "\<forall>a \<in> set xs. nxt c1 a = nxt c a \<and> node_cname c1 a = node_cname c a"
    using sx by (auto simp: nxt_def node_cname_def c1_def)
  have sll1: "sll (nxt c1) xs None" using node_invD(2) [OF inv] old sll_cong [of xs "nxt c1" "nxt c"] by simp
  have nm1: "node_cname c1 s = Some name"
    using name(1) by (simp add: node_cname_def c1_def new_node_def buf_cstr_strncpy name_ok_def)
  have list1: "ctx_list c1 = hd_or xs None" using node_invD(1) [OF inv] by (simp add: c1_def)
  have last: "last_slot c1 Head = Some (end_slot Head xs)"
    by (rule last_slot_list [OF _ sll1 alloc]) (simp add: list1)
  have w: "\<exists>c2. write_slot c1 (end_slot Head xs) (Some s) = Some c2 \<and>
      ctx_list c2 = hd_or (xs @ [s]) None \<and> sll (nxt c2) (xs @ [s]) None \<and> node_cname c2 = node_cname c1 \<and>
      dom (ctx_nodes c2) = dom (ctx_nodes c1) \<and> ctx_nodes c2 s = ctx_nodes c1 s \<and>
      ctx_count c2 = ctx_count c1 \<and> ctx_locked c2 = ctx_locked c1"
  proof (cases xs rule: rev_cases)
    case Nil
    have "node_cname (c1\<lparr>ctx_list := Some s\<rparr>) = node_cname c1" by (simp add: node_cname_def fun_eq_iff)
    then show ?thesis using Nil by (simp add: nxt_def c1_def new_node_def)
  next
    case (snoc ws z)
    obtain n where n: "ctx_nodes c1 z = Some n" using alloc snoc by auto
    let ?c = "c1\<lparr>ctx_nodes := (ctx_nodes c1)(z := Some (n\<lparr>n_next := Some s\<rparr>))\<rparr>"
    have zs: "z \<noteq> s" using sx snoc by auto
    have "node_cname ?c = node_cname c1" using n by (auto simp: node_cname_def fun_eq_iff)
    moreover have nx: "nxt ?c = (nxt c1)(z := Some s)" using n by (auto simp: nxt_def fun_eq_iff)
    moreover have "sll ((nxt c1)(z := Some s)) xs (Some s)"
      using sll_last_upd [OF sll1 node_invD(3) [OF inv]] snoc by simp
    moreover have "nxt c1 s = None" by (simp add: nxt_def c1_def new_node_def)
    moreover have "hd_or (xs @ [s]) None = ctx_list c1" using list1 snoc by (cases ws) simp_all
    moreover have "z \<in> dom (ctx_nodes c1)" using n by auto
    ultimately show ?thesis using n snoc zs by (simp add: insert_absorb)
  qed
  then obtain c2 where c2: "write_slot c1 (end_slot Head xs) (Some s) = Some c2"
      "ctx_list c2 = hd_or (xs @ [s]) None" "sll (nxt c2) (xs @ [s]) None" "node_cname c2 = node_cname c1"
      "dom (ctx_nodes c2) = dom (ctx_nodes c1)" "ctx_nodes c2 s = ctx_nodes c1 s"
      "ctx_count c2 = ctx_count c1" "ctx_locked c2 = ctx_locked c1"
    by (elim exE conjE) (rule that, assumption+)
  define c3 where "c3 = c2\<lparr>ctx_count := ctx_count c2 + 1\<rparr>"
  have c3: "nxt c3 = nxt c2" "node_cname c3 = node_cname c2"
    by (simp_all add: nxt_def node_cname_def c3_def fun_eq_iff)
  have run: "create_from_node_list (Some s) name path args c = Some (s, c3)"
    using s last c2(1)
    by (simp add: create_from_node_list_def c1_def new_node_def c3_def Let_def)
  have names: "map (node_cname c1) xs = map (node_cname c) xs" using old by simp
  have "Some name \<notin> node_cname c ` set xs" using name(2) by auto
  then have dn: "distinct (map (node_cname c1) (xs @ [s]))"
    using node_invD(6) [OF inv] nm1 old unfolding map_append names by auto
  have "dom (ctx_nodes c3) = set (xs @ [s])"
    using c2(5) node_inv_dom [OF inv] by (simp add: c3_def c1_def)
  moreover have "\<forall>a \<in> set (xs @ [s]). \<exists>nm. node_cname c1 a = Some nm \<and> name_ok nm"
  proof
    fix a assume "a \<in> set (xs @ [s])"
    then consider "a = s" | "a \<in> set xs" by auto
    then show "\<exists>nm. node_cname c1 a = Some nm \<and> name_ok nm"
    proof cases
      case 1
      then show ?thesis using nm1 name(1) by simp
    next
      case 2
      then show ?thesis using old node_inv_cname [OF inv 2] by metis
    qed
  qed
  moreover have "distinct (xs @ [s])" using node_invD(3) [OF inv] sx by simp
  moreover have "ctx_count c3 = int (length (xs @ [s]))"
    using node_invD(5) [OF inv] c2(7) by (simp add: c3_def c1_def)
  moreover have "ctx_list c3 = hd_or (xs @ [s]) None" using c2(2) by (simp add: c3_def)
  ultimately have "node_inv c3 (xs @ [s])"
    unfolding node_inv_def c3 c2(4) using dn c2(3) by blast
  then show ?thesis
    using run c2(6,8) c3(2) c2(4) nm1 old by (intro exI [of _ c3]) (simp add: c3_def c1_def)
qed

end
