(* ===== verification/Node_Run.thy ===== *)
theory Node_Run
  imports Node_Correct
begin

text \<open>
  The operations on the registry as a whole: creation with its return codes, the life of a
  node's thread from \<open>init_node\<close> to \<open>cleanup_node\<close>, and the shutdown of all nodes.
\<close>

section \<open>Creation\<close>

lemma find_absent:
  assumes "node_inv c xs"
  shows "find_from_node_list c name = Some None \<longleftrightarrow> (\<forall>a \<in> set xs. node_cname c a \<noteq> Some name)"
  using find_from_node_list_inv [OF assms] by (auto simp: find_None_iff)

lemma find_present:
  assumes "node_inv c xs" and "a \<in> set xs" and "node_cname c a = Some name"
  shows "find_from_node_list c name = Some (Some a)"
proof -
  have "find_from_node_list c name \<noteq> Some None" using find_absent [OF assms(1)] assms(2,3) by auto
  then obtain b where b: "find_from_node_list c name = Some (Some b)"
    using find_from_node_list_inv [OF assms(1)] by auto
  then have "b \<in> set xs" "node_cname c b = Some name"
    using find_from_node_list_inv [OF assms(1)] list_find_SomeD by fastforce+
  then show ?thesis using b node_cname_inj [OF assms(1), of a b] assms(2,3) by simp
qed

text \<open>The registry after a successful creation, and the return code on every path.\<close>

lemma qsf_create_node_codes:
  assumes inv: "node_inv c xs" and lock: "\<not> ctx_locked c" and str: "is_cstr name"
    and blk: "block = Some s" "ctx_nodes c s = None"
  shows "length name \<ge> MAX_ID_LENGTH \<Longrightarrow> qsf_create_node block r name path args c = Some (1, c)"
    and "name = str ''sys'' \<Longrightarrow> qsf_create_node block r name path args c = Some (2, c)"
    and "name_ok name \<Longrightarrow> a \<in> set xs \<Longrightarrow> node_cname c a = Some name \<Longrightarrow>
      qsf_create_node block r name path args c = Some (3, c)"
    and "name_ok name \<Longrightarrow> \<forall>a \<in> set xs. node_cname c a \<noteq> Some name \<Longrightarrow>
      \<exists>c'. qsf_create_node block r name path args c = Some (r, c') \<and> \<not> ctx_locked c' \<and>
        (if r < 0 then node_inv c' xs \<and> (\<forall>a \<in> set xs. node_cname c' a = node_cname c a)
         else node_inv c' (xs @ [s]) \<and> ctx_nodes c' s = Some (new_node name path args) \<and>
           (\<forall>a \<in> set xs. node_cname c' a = node_cname c a))"
proof -
  have unlock: "c\<lparr>ctx_locked := False\<rparr> = c" using lock by simp
  show "length name \<ge> MAX_ID_LENGTH \<Longrightarrow> qsf_create_node block r name path args c = Some (1, c)"
    by (simp add: qsf_create_node_def)
  show "name = str ''sys'' \<Longrightarrow> qsf_create_node block r name path args c = Some (2, c)"
    by (simp add: qsf_create_node_def MAX_ID_LENGTH_def str_def)
  let ?c = "c\<lparr>ctx_locked := True\<rparr>"
  have inv1: "node_inv ?c xs" using inv by simp
  have nm: "node_cname ?c = node_cname c" by (simp add: node_cname_def fun_eq_iff)
  show "qsf_create_node block r name path args c = Some (3, c)"
    if "name_ok name" "a \<in> set xs" "node_cname c a = Some name"
    using that find_present [OF inv1 that(2)] nm lock unlock
    by (simp add: qsf_create_node_def name_ok_def uv_mutex_lock_def uv_mutex_unlock_def not_le)
  assume ok: "name_ok name" and new: "\<forall>a \<in> set xs. node_cname c a \<noteq> Some name"
  have absent: "find_from_node_list ?c name = Some None" using find_absent [OF inv1] new nm by simp
  obtain c1 where c1: "create_from_node_list (Some s) name path args ?c = Some (s, c1)"
      "node_inv c1 (xs @ [s])" "ctx_nodes c1 s = Some (new_node name path args)"
      "ctx_locked c1" "\<forall>a \<in> set xs. node_cname c1 a = node_cname c a"
    using create_from_node_list_inv [OF inv1 ok, of s path args] new blk(2) nm by auto
  have sx: "s \<notin> set xs" using node_invD(4) [OF inv, of s] blk(2) by simp
  show "\<exists>c'. qsf_create_node block r name path args c = Some (r, c') \<and> \<not> ctx_locked c' \<and>
        (if r < 0 then node_inv c' xs \<and> (\<forall>a \<in> set xs. node_cname c' a = node_cname c a)
         else node_inv c' (xs @ [s]) \<and> ctx_nodes c' s = Some (new_node name path args) \<and>
           (\<forall>a \<in> set xs. node_cname c' a = node_cname c a))"
  proof (cases "r < 0")
    case False
    let ?d = "c1\<lparr>ctx_locked := False\<rparr>"
    have "node_cname ?d = node_cname c1" by (simp add: node_cname_def fun_eq_iff)
    moreover have "qsf_create_node block r name path args c = Some (r, ?d)"
      using False ok lock absent c1(1,4) blk(1)
      by (simp add: qsf_create_node_def name_ok_def uv_mutex_lock_def uv_mutex_unlock_def not_le)
    ultimately show ?thesis using False c1(2,3,5) by (intro exI [of _ ?d]) simp
  next
    case True
    obtain c2 where c2: "remove_from_node_list c1 s = Some c2" "node_inv c2 (remove1 s (xs @ [s]))"
        "ctx_locked c2 = ctx_locked c1" "\<forall>b \<in> set (xs @ [s]) - {s}. node_cname c2 b = node_cname c1 b"
      using remove_from_node_list_inv [OF c1(2), of s] by auto
    let ?d = "c2\<lparr>ctx_locked := False\<rparr>"
    have "node_cname ?d = node_cname c2" by (simp add: node_cname_def fun_eq_iff)
    moreover have "qsf_create_node block r name path args c = Some (r, ?d)"
      using True ok lock absent c1(1,4) c2(1,3) blk(1)
      by (simp add: qsf_create_node_def name_ok_def uv_mutex_lock_def uv_mutex_unlock_def not_le)
    moreover have "remove1 s (xs @ [s]) = xs" using sx by (simp add: remove1_append)
    moreover have "\<forall>b \<in> set xs. node_cname c2 b = node_cname c b"
      using c2(4) c1(5) sx by auto
    ultimately show ?thesis using True c2(2) by (intro exI [of _ ?d]) simp
  qed
qed

section \<open>The thread of a node\<close>

text \<open>Updating the fields of a node other than its link and its name.\<close>

lemma node_inv_upd:
  assumes inv: "node_inv c xs" and n: "ctx_nodes c a = Some n"
    and n': "n_next n' = n_next n" "n_name n' = n_name n"
  shows "node_inv (c\<lparr>ctx_nodes := (ctx_nodes c)(a := Some n')\<rparr>) xs"
    and "node_cname (c\<lparr>ctx_nodes := (ctx_nodes c)(a := Some n')\<rparr>) = node_cname c"
proof -
  let ?c = "c\<lparr>ctx_nodes := (ctx_nodes c)(a := Some n')\<rparr>"
  have nx: "nxt ?c = nxt c" using n n'(1) by (auto simp: nxt_def fun_eq_iff)
  show cn: "node_cname ?c = node_cname c" using n n'(2) by (auto simp: node_cname_def fun_eq_iff)
  have "a \<in> dom (ctx_nodes c)" using n by auto
  then show "node_inv ?c xs"
    using inv unfolding node_inv_def nx cn by (simp add: insert_absorb)
qed

lemma cleanup_node_inv:
  assumes inv: "node_inv c xs" and a: "a \<in> set xs" and lock: "\<not> ctx_locked c"
  shows "\<exists>acts c'. cleanup_node a c = Some (acts, c') \<and> node_inv c' (remove1 a xs) \<and> \<not> ctx_locked c' \<and>
    ctx_nodes c' a = None"
proof -
  obtain n where n: "ctx_nodes c a = Some n" by (rule node_inv_alloc [OF inv a])
  obtain nm where nm: "node_cname c a = Some nm" by (rule node_inv_cname [OF inv a])
  define c1 where "c1 = c\<lparr>ctx_nodes := (ctx_nodes c)(a := Some (n\<lparr>n_tag := QSF_NODE_TAG_VALUE_BAD\<rparr>))\<rparr>"
  have inv1: "node_inv (c1\<lparr>ctx_locked := True\<rparr>) xs"
    using node_inv_upd(1) [OF inv n] by (simp add: c1_def)
  obtain c2 where c2: "remove_from_node_list (c1\<lparr>ctx_locked := True\<rparr>) a = Some c2"
      "node_inv c2 (remove1 a xs)" "ctx_locked c2"
    using remove_from_node_list_inv [OF inv1 a] by auto
  have "a \<notin> set (remove1 a xs)" using node_invD(3) [OF inv] by simp
  then have "ctx_nodes c2 a = None" using node_invD(4) [OF c2(2), of a] by simp
  moreover have "\<not> ctx_locked c1" using lock by (simp add: c1_def)
  ultimately show ?thesis
    using n nm c2 by (auto simp: cleanup_node_def node_cname_def c1_def uv_mutex_lock_def
        uv_mutex_unlock_def Let_def)
qed

text \<open>What the settings must allow for a node to come up.\<close>

definition env_ok :: "thread_env \<Rightarrow> bytes \<Rightarrow> bool" where
  "env_ok e name \<longleftrightarrow> te_newstate e \<and> load_node_path (te_dostring e) (te_lua_path e) (te_lua_cpath e) \<noteq> None \<and>
     te_dealer e name"

lemma init_node_inv:
  assumes inv: "node_inv c xs" and n: "ctx_nodes c s = Some n" and nm: "node_cname c s = Some name"
    and e: "env_ok e name"
  shows "\<exists>acts c'. init_node e s c = Some (0, acts, c') \<and> node_inv c' xs \<and>
    ctx_nodes c' s = Some (n\<lparr>n_L := True, n_dealer := True, n_tag := QSF_NODE_TAG_VALUE_GOOD\<rparr>) \<and>
    ctx_locked c' = ctx_locked c \<and> (\<exists>chunks. acts = Do_preload (open_preload_libs Map.empty) #
      map Do_chunk chunks @ [Do_dealer name])"
proof -
  obtain chunks where ch: "load_node_path (te_dostring e) (te_lua_path e) (te_lua_cpath e) = Some chunks"
    using e by (auto simp: env_ok_def)
  show ?thesis
    using n nm e ch node_inv_upd(1) [OF inv n, of "n\<lparr>n_L := True, n_dealer := True, n_tag := QSF_NODE_TAG_VALUE_GOOD\<rparr>"]
    by (auto simp: init_node_def node_cname_def env_ok_def)
qed

text \<open>
  A script \<open>run\<close> that leaves the registry in order: other nodes may come and go meanwhile, but
  the node itself stays registered and the mutex is free afterwards.
\<close>

definition script_ok :: "(bytes \<Rightarrow> node_context \<Rightarrow> node_context option) \<Rightarrow> addr \<Rightarrow> bool" where
  "script_ok run s \<longleftrightarrow> (\<forall>args c xs. node_inv c xs \<longrightarrow> s \<in> set xs \<longrightarrow> \<not> ctx_locked c \<longrightarrow>
     (\<exists>c' ys. run args c = Some c' \<and> node_inv c' ys \<and> s \<in> set ys \<and> \<not> ctx_locked c'))"

lemma node_thread_runs:
  assumes inv: "node_inv c xs" and s: "s \<in> set xs" and lock: "\<not> ctx_locked c"
    and n: "ctx_nodes c s = Some (new_node name path args)" and nm: "node_cname c s = Some name"
    and e: "env_ok e name" and load: "te_loadfile e path = 0" and run: "script_ok run s"
    and path: "is_cstr path" "length path < MAX_PATH" and args: "is_cstr args" "length args < MAX_ARG_LENGTH"
  shows "\<exists>pre post c' ys. node_thread_callback e run s c =
      Some (pre @ [Do_loadfile path, Do_call args] @ post, c') \<and>
    node_inv c' ys \<and> ctx_nodes c' s = None \<and> \<not> ctx_locked c'"
proof -
  obtain acts c1 where c1: "init_node e s c = Some (0, acts, c1)" "node_inv c1 xs"
      "ctx_nodes c1 s = Some ((new_node name path args)\<lparr>n_L := True, n_dealer := True,
         n_tag := QSF_NODE_TAG_VALUE_GOOD\<rparr>)" "\<not> ctx_locked c1"
    using init_node_inv [OF inv n nm e] lock by auto
  obtain c2 ys where c2: "run args c1 = Some c2" "node_inv c2 ys" "s \<in> set ys" "\<not> ctx_locked c2"
    using run c1(2,4) s unfolding script_ok_def by blast
  obtain acts' c3 where c3: "cleanup_node s c2 = Some (acts', c3)" "node_inv c3 (remove1 s ys)"
      "\<not> ctx_locked c3" "ctx_nodes c3 s = None"
    using cleanup_node_inv [OF c2(2-4)] by blast
  have "node_thread_callback e run s c = Some (acts @ [Do_loadfile path, Do_call args] @ acts', c3)"
    using c1(1,3) c2(1) c3(1) load path args
    by (simp add: node_thread_callback_def new_node_def buf_cstr_strncpy)
  then show ?thesis using c3(2-4) by blast
qed

text \<open>With a path of 260 bytes or more there is no terminator to find.\<close>

lemma node_thread_long_path:
  assumes inv: "node_inv c xs" and n: "ctx_nodes c s = Some (new_node name path args)"
    and nm: "node_cname c s = Some name" and e: "env_ok e name"
    and path: "is_cstr path" "MAX_PATH \<le> length path"
  shows "node_thread_callback e run s c = None"
  using init_node_inv [OF inv n nm e] path
  by (auto simp: node_thread_callback_def new_node_def buf_cstr_strncpy)

section \<open>Shutdown\<close>

lemma exit_loop_inv:
  assumes "node_inv c xs" and "\<not> ctx_locked c"
  shows "\<exists>c'. exit_loop (hd_or xs None) c = Some c' \<and> node_inv c' [] \<and> \<not> ctx_locked c'"
  using assms
proof (induction xs arbitrary: c)
  case Nil
  then show ?case by (subst exit_loop.simps) simp
next
  case (Cons a xs)
  obtain n where n: "ctx_nodes c a = Some n" using node_inv_alloc [OF Cons.prems(1), of a] by auto
  have nx: "n_next n = hd_or xs None" using node_invD(2) [OF Cons.prems(1)] n by (simp add: nxt_def)
  obtain acts c1 where c1: "cleanup_node a c = Some (acts, c1)" "node_inv c1 xs" "\<not> ctx_locked c1"
    using cleanup_node_inv [OF Cons.prems(1) _ Cons.prems(2), of a] by auto
  obtain c' where "exit_loop (hd_or xs None) c1 = Some c'" "node_inv c' []" "\<not> ctx_locked c'"
    using Cons.IH [OF c1(2,3)] by blast
  then show ?case using n nx c1(1) by (subst exit_loop.simps) auto
qed

lemma qsf_node_exit_inv:
  assumes "node_inv c xs" and "\<not> ctx_locked c"
  shows "\<exists>c'. qsf_node_exit c = Some c' \<and> node_inv c' [] \<and> \<not> ctx_locked c'"
proof -
  obtain c' where c': "exit_loop (ctx_list c) c = Some c'" "node_inv c' []" "\<not> ctx_locked c'"
    using exit_loop_inv [OF assms] node_invD(1) [OF assms(1)] by auto
  have "node_inv (c'\<lparr>ctx_count := 0\<rparr>) []" using c'(2) by (simp add: node_inv_def)
  then show ?thesis using c' by (simp add: qsf_node_exit_def)
qed

text \<open>The thread of a node that was cleaned up by the shutdown finds its node freed.\<close>

lemma cleanup_freed: "ctx_nodes c s = None \<Longrightarrow> cleanup_node s c = None"
  by (simp add: cleanup_node_def)

section \<open>Search paths\<close>

lemma load_node_path_empty: "load_node_path ok [] cpath = Some []"
  by (simp add: load_node_path_def)

lemma load_node_path_set:
  assumes "path \<noteq> []" and "ok (take 511 (path_chunk path))" and "ok (take 511 (cpath_chunk cpath))"
  shows "load_node_path ok path cpath = Some [take 511 (path_chunk path), take 511 (cpath_chunk cpath)]"
proof -
  have "0 < length (path_chunk path)" "0 < length (cpath_chunk cpath)"
    by (simp_all add: path_chunk_def cpath_chunk_def)
  then show ?thesis using assms by (simp add: load_node_path_def snprintf_str_def)
qed

section \<open>Reachable registries\<close>

datatype node_op = Op_create addr int bytes bytes bytes | Op_cleanup addr | Op_exit

fun node_run :: "node_op \<Rightarrow> node_context \<Rightarrow> node_context option" where
  "node_run (Op_create s r name path args) c = map_option snd (qsf_create_node (Some s) r name path args c)"
| "node_run (Op_cleanup s) c = map_option snd (cleanup_node s c)"
| "node_run Op_exit c = qsf_node_exit c"

fun node_enabled :: "node_op \<Rightarrow> node_context \<Rightarrow> bool" where
  "node_enabled (Op_create s r name path args) c = (is_cstr name \<and> ctx_nodes c s = None)"
| "node_enabled (Op_cleanup s) c = (ctx_nodes c s \<noteq> None)"
| "node_enabled Op_exit c = True"

inductive node_reach :: "node_context \<Rightarrow> node_context \<Rightarrow> bool" for c0 where
  node_reach_init: "node_reach c0 c0"
| node_reach_step: "node_reach c0 c \<Longrightarrow> node_enabled op c \<Longrightarrow> node_run op c = Some c' \<Longrightarrow> node_reach c0 c'"

lemma node_step_inv:
  assumes inv: "node_inv c xs" and lock: "\<not> ctx_locked c" and en: "node_enabled op c"
  shows "\<exists>c' ys. node_run op c = Some c' \<and> node_inv c' ys \<and> \<not> ctx_locked c'"
proof (cases op)
  case (Op_create s r name path args)
  then have str: "is_cstr name" and s: "ctx_nodes c s = None" using en by simp_all
  note codes = qsf_create_node_codes [where r = r and path = path and args = args, OF inv lock str refl s]
  consider "MAX_ID_LENGTH \<le> length name" | "name = str ''sys''"
    | a where "name_ok name" "a \<in> set xs" "node_cname c a = Some name"
    | "name_ok name" "\<forall>a \<in> set xs. node_cname c a \<noteq> Some name"
    using str unfolding name_ok_def by (meson not_le)
  then show ?thesis
  proof cases
    case 4
    then show ?thesis using codes(4) Op_create by (cases "r < 0") auto
  qed (use codes(1-3) Op_create inv lock in auto)
next
  case (Op_cleanup s)
  then have "s \<in> set xs" using en node_invD(4) [OF inv, of s] by simp
  then show ?thesis using cleanup_node_inv [OF inv _ lock] Op_cleanup by fastforce
next
  case Op_exit
  then show ?thesis using qsf_node_exit_inv [OF inv lock] by auto
qed

lemma node_reach_inv:
  assumes "node_reach c0 c" and "node_inv c0 []" and "\<not> ctx_locked c0"
  shows "\<exists>xs. node_inv c xs \<and> \<not> ctx_locked c"
  using assms(1)
proof (induction rule: node_reach.induct)
  case node_reach_init
  then show ?case using assms(2,3) by blast
next
  case (node_reach_step c op c')
  then show ?case using node_step_inv [OF _ _ node_reach_step.hyps(2)] by (metis option.inject)
qed

end
