(* ===== verification/Node_Properties.thy ===== *)
theory Node_Properties
  imports Node_Run
begin

text \<open>
  The properties of the node registry and of the node threads (\<open>src/qsf_node.c\<close>), with
  witnesses on a registry that holds the node \<open>main\<close>.
\<close>

section \<open>A registry to try the theorems on\<close>

definition no_nodes :: node_context where
  "no_nodes = snd (qsf_node_init 0 \<lparr>ctx_count = 99, ctx_list = Some 99, ctx_locked = True, ctx_nodes = Map.empty\<rparr>)"

definition demo_name :: bytes where "demo_name = str ''main''"
definition demo_path :: bytes where "demo_path = str ''main.lua''"

definition demo_reg :: node_context where
  "demo_reg = snd (the (qsf_create_node (Some 4) 0 demo_name demo_path [49] no_nodes))"

lemma no_nodes: "node_inv no_nodes []" "\<not> ctx_locked no_nodes" "ctx_nodes no_nodes = Map.empty"
  by (simp_all add: no_nodes_def qsf_node_init_def node_inv_def)

lemma demo_str: "name_ok demo_name" "is_cstr demo_name" "is_cstr demo_path" "length demo_path < MAX_PATH"
  "is_cstr [49]" "length [49 :: byte] < MAX_ARG_LENGTH" "demo_name \<noteq> str ''sys''"
  by (simp_all add: demo_name_def demo_path_def name_ok_def is_cstr_def str_def MAX_ID_LENGTH_def
      MAX_PATH_def MAX_ARG_LENGTH_def)

lemma demo_reg: "node_inv demo_reg [4]" "\<not> ctx_locked demo_reg"
  "ctx_nodes demo_reg 4 = Some (new_node demo_name demo_path [49])" "node_cname demo_reg 4 = Some demo_name"
  "qsf_create_node (Some 4) 0 demo_name demo_path [49] no_nodes = Some (0, demo_reg)"
proof -
  have "ctx_nodes no_nodes 4 = None" by (simp add: no_nodes(3))
  from qsf_create_node_codes(4) [OF no_nodes(1,2) demo_str(2) refl this demo_str(1), of 0 demo_path "[49]"]
  obtain c where c: "qsf_create_node (Some 4) 0 demo_name demo_path [49] no_nodes = Some (0, c)"
    "\<not> ctx_locked c" "node_inv c [4]" "ctx_nodes c 4 = Some (new_node demo_name demo_path [49])"
    by auto
  have "length demo_name < MAX_ID_LENGTH" using demo_str(1) by (simp add: name_ok_def)
  then have "node_cname c 4 = Some demo_name"
    using c(4) demo_str(2) by (simp add: node_cname_def new_node_def buf_cstr_strncpy)
  then show "node_inv demo_reg [4]" "\<not> ctx_locked demo_reg"
    "ctx_nodes demo_reg 4 = Some (new_node demo_name demo_path [49])" "node_cname demo_reg 4 = Some demo_name"
    "qsf_create_node (Some 4) 0 demo_name demo_path [49] no_nodes = Some (0, demo_reg)"
    using c by (simp_all add: demo_reg_def)
qed

section \<open>The registry\<close>

text \<open>
  C37: What \<open>qsf_create_node\<close> returns, on every path: 1 for a name of 32 bytes or more, 2 for
  the reserved name, 3 for a name in use, each time without any effect; otherwise the result of
  the thread creation, and the new node is registered under its name exactly when that is not
  negative. The mutex is free again on every path.
\<close>

theorem node_create_result:
  assumes "node_inv c xs" and "\<not> ctx_locked c" and "is_cstr name" and "ctx_nodes c s = None"
  shows "(32 \<le> length name \<longrightarrow> qsf_create_node (Some s) r name path args c = Some (1, c)) \<and>
    (name = str ''sys'' \<longrightarrow> qsf_create_node (Some s) r name path args c = Some (2, c)) \<and>
    (name_ok name \<and> find_from_node_list c name \<noteq> Some None \<longrightarrow>
       qsf_create_node (Some s) r name path args c = Some (3, c)) \<and>
    (name_ok name \<and> find_from_node_list c name = Some None \<longrightarrow>
       (\<exists>c'. qsf_create_node (Some s) r name path args c = Some (r, c') \<and> \<not> ctx_locked c' \<and>
          node_inv c' (if r < 0 then xs else xs @ [s]) \<and>
          find_from_node_list c' name = Some (if r < 0 then None else Some s)))"
proof -
  note codes = qsf_create_node_codes [OF assms(1-3) refl assms(4), where r = r and path = path and args = args]
  have present: "\<exists>a \<in> set xs. node_cname c a = Some name" if "find_from_node_list c name \<noteq> Some None"
    using that find_absent [OF assms(1)] by blast
  have "\<exists>c'. qsf_create_node (Some s) r name path args c = Some (r, c') \<and> \<not> ctx_locked c' \<and>
      node_inv c' (if r < 0 then xs else xs @ [s]) \<and>
      find_from_node_list c' name = Some (if r < 0 then None else Some s)"
    if ok: "name_ok name" and new: "find_from_node_list c name = Some None"
  proof -
    have abs: "\<forall>a \<in> set xs. node_cname c a \<noteq> Some name" using new find_absent [OF assms(1)] by blast
    obtain c' where c': "qsf_create_node (Some s) r name path args c = Some (r, c')" "\<not> ctx_locked c'"
      and post: "if r < 0 then node_inv c' xs \<and> (\<forall>a \<in> set xs. node_cname c' a = node_cname c a)
         else node_inv c' (xs @ [s]) \<and> ctx_nodes c' s = Some (new_node name path args) \<and>
           (\<forall>a \<in> set xs. node_cname c' a = node_cname c a)"
      using codes(4) [OF ok abs] by blast
    show ?thesis
    proof (cases "r < 0")
      case True
      then have "find_from_node_list c' name = Some None" using post abs find_absent by auto
      then show ?thesis using True c' post by auto
    next
      case False
      then have "node_cname c' s = Some name"
        using post ok by (simp add: node_cname_def new_node_def buf_cstr_strncpy name_ok_def)
      then have "find_from_node_list c' name = Some (Some s)" using False post find_present by auto
      then show ?thesis using False c' post by auto
    qed
  qed
  then show ?thesis using codes(1-3) present by (auto simp: MAX_ID_LENGTH_def)
qed

theorem node_create_result_witness:
  "qsf_create_node (Some 8) 0 demo_name [] [] demo_reg = Some (3, demo_reg) \<and>
   qsf_create_node (Some 8) 0 (str ''sys'') [] [] demo_reg = Some (2, demo_reg) \<and>
   qsf_create_node (Some 8) 0 (replicate 32 65) [] [] demo_reg = Some (1, demo_reg)"
proof -
  have free: "ctx_nodes demo_reg 8 = None" using node_invD(4) [OF demo_reg(1), of 8] by simp
  have str: "is_cstr (str ''sys'')" "is_cstr (replicate 32 65)" by (simp_all add: is_cstr_def str_def)
  have "find_from_node_list demo_reg demo_name \<noteq> Some None"
    using find_present [OF demo_reg(1) _ demo_reg(4)] by simp
  then show ?thesis
    using node_create_result [OF demo_reg(1,2) demo_str(2) free] node_create_result [OF demo_reg(1,2) str(1) free]
      node_create_result [OF demo_reg(1,2) str(2) free] demo_str(1) by simp
qed

text \<open>
  In every registry that can be reached, the count is the number of nodes, all names are
  different and each of them finds its node, the mutex is free between the operations, and every
  operation that can come up runs to its end: creating under any name, a thread's cleanup of any
  registered node, and the shutdown.
\<close>

lemma node_reachable_sound:
  assumes "qsf_node_init 0 c00 = (0, c0)" and "ctx_nodes c00 = Map.empty" and "node_reach c0 c"
  shows "\<not> ctx_locked c \<and> (\<forall>op. node_enabled op c \<longrightarrow> node_run op c \<noteq> None) \<and>
    (\<exists>xs. ctx_count c = int (length xs) \<and> dom (ctx_nodes c) = set xs \<and> distinct xs \<and>
      (\<forall>a \<in> set xs. \<exists>nm. node_cname c a = Some nm \<and> length nm < 32 \<and>
         find_from_node_list c nm = Some (Some a)))"
proof -
  have c0: "node_inv c0 []" "\<not> ctx_locked c0"
    using assms(1,2) by (auto simp: qsf_node_init_def node_inv_def)
  obtain xs where inv: "node_inv c xs" "\<not> ctx_locked c" using node_reach_inv [OF assms(3) c0] by blast
  have "node_run op c \<noteq> None" if "node_enabled op c" for op
    using node_step_inv [OF inv that] by auto
  moreover have "\<exists>nm. node_cname c a = Some nm \<and> length nm < 32 \<and> find_from_node_list c nm = Some (Some a)"
    if "a \<in> set xs" for a
    using node_inv_cname [OF inv(1) that] find_present [OF inv(1) that] by (metis MAX_ID_LENGTH_def name_ok_def)
  ultimately show ?thesis
    using inv node_inv_dom [OF inv(1)] node_invD(3,5) [OF inv(1)] by blast
qed

lemma node_reachable_sound_witness:
  "node_reach no_nodes demo_reg \<and> \<not> ctx_locked demo_reg \<and> node_run (Op_cleanup 4) demo_reg \<noteq> None"
proof -
  let ?c = "\<lparr>ctx_count = 99, ctx_list = Some 99, ctx_locked = True, ctx_nodes = Map.empty\<rparr>"
  have "node_run (Op_create 4 0 demo_name demo_path [49]) no_nodes = Some demo_reg" by (simp add: demo_reg(5))
  then have r: "node_reach no_nodes demo_reg"
    by (rule node_reach_step [OF node_reach_init, rotated]) (simp add: demo_str(2) no_nodes(3))
  have "qsf_node_init 0 ?c = (0, no_nodes)" by (simp add: no_nodes_def qsf_node_init_def)
  note sound = node_reachable_sound [OF this _ r]
  have "node_enabled (Op_cleanup 4) demo_reg" by (simp add: demo_reg(3))
  then have "node_run (Op_cleanup 4) demo_reg \<noteq> None" using sound by (metis node_context.select_convs(4))
  then show ?thesis using r demo_reg(2) by blast
qed

section \<open>Threads\<close>

text \<open>
  The thread of a new node loads exactly the script path it was created with and calls it
  with exactly its arguments, provided both fit their arrays, and however the script uses the
  registry meanwhile, it ends by unregistering and freeing its node.
\<close>

lemma node_thread_exact:
  assumes "node_inv c xs" and "s \<in> set xs" and "\<not> ctx_locked c"
    and "ctx_nodes c s = Some (new_node name path args)" and "node_cname c s = Some name"
    and "env_ok e name" and "te_loadfile e path = 0" and "script_ok run s"
    and "is_cstr path" and "length path < 260" and "is_cstr args" and "length args < 256"
  shows "\<exists>pre post c' ys. node_thread_callback e run s c =
      Some (pre @ [Do_loadfile path, Do_call args] @ post, c') \<and>
    node_inv c' ys \<and> s \<notin> set ys \<and> ctx_nodes c' s = None \<and> \<not> ctx_locked c'"
proof -
  have len: "length path < MAX_PATH" "length args < MAX_ARG_LENGTH"
    using assms(10,12) by (simp_all add: MAX_PATH_def MAX_ARG_LENGTH_def)
  show ?thesis
    using node_thread_runs [OF assms(1-9) len(1) assms(11) len(2)] node_invD(4) [of _ _ s] by metis
qed

definition demo_thread :: thread_env where
  "demo_thread = \<lparr>te_newstate = True, te_lua_path = [], te_lua_cpath = [], te_dostring = (\<lambda>_. True),
     te_dealer = (\<lambda>_. True), te_loadfile = (\<lambda>_. 0)\<rparr>"

lemma demo_thread: "env_ok demo_thread name" "te_loadfile demo_thread path = 0"
  by (simp_all add: env_ok_def demo_thread_def load_node_path_empty)

lemma node_thread_exact_witness:
  "\<exists>pre post c'. node_thread_callback demo_thread (\<lambda>_. Some) 4 demo_reg =
     Some (pre @ [Do_loadfile demo_path, Do_call [49]] @ post, c') \<and> ctx_nodes c' 4 = None"
proof -
  have run: "script_ok (\<lambda>_. Some) 4" by (auto simp: script_ok_def)
  have len: "length demo_path < 260" "length [49 :: byte] < 256"
    using demo_str(4) by (simp_all add: MAX_PATH_def)
  from node_thread_exact [OF demo_reg(1) _ demo_reg(2-4) demo_thread run demo_str(3) len(1) demo_str(5) len(2)]
  show ?thesis by auto
qed

text \<open>
  C38: A script path of 260 bytes or more is copied without its terminator, and the thread that
  reads it as a C string runs out of the array.
\<close>

theorem node_long_path_faults:
  assumes "node_inv c xs" and "ctx_nodes c s = Some (new_node name path args)"
    and "node_cname c s = Some name" and "env_ok e name" and "is_cstr path" and "260 \<le> length path"
  shows "node_thread_callback e run s c = None"
proof (rule node_thread_long_path [OF assms(1-5)])
  show "MAX_PATH \<le> length path" using assms(6) by (simp add: MAX_PATH_def)
qed

theorem node_long_path_faults_witness:
  "\<exists>c. qsf_create_node (Some 4) 0 demo_name (replicate 300 65) [] no_nodes = Some (0, c) \<and>
     node_thread_callback demo_thread (\<lambda>_. Some) 4 c = None"
proof -
  have "ctx_nodes no_nodes 4 = None" by (simp add: no_nodes(3))
  from qsf_create_node_codes(4) [OF no_nodes(1,2) demo_str(2) refl this demo_str(1), of 0 "replicate 300 65" "[]"]
  obtain c where c: "qsf_create_node (Some 4) 0 demo_name (replicate 300 65) [] no_nodes = Some (0, c)"
    "node_inv c [4]" "ctx_nodes c 4 = Some (new_node demo_name (replicate 300 65) [])" by auto
  have "node_cname c 4 = Some demo_name"
    using c(3) demo_str(1) by (simp add: node_cname_def new_node_def buf_cstr_strncpy name_ok_def)
  from node_long_path_faults [OF c(2,3) this demo_thread(1)] c(1) show ?thesis by (simp add: is_cstr_def)
qed

section \<open>Shutdown\<close>

text \<open>
  \<open>qsf_node_exit\<close> frees every node and leaves the registry empty, without waiting for the
  nodes' threads: a thread that ends afterwards runs \<open>cleanup_node\<close> on memory that is freed.
\<close>

lemma node_exit_frees_all:
  assumes "node_inv c xs" and "\<not> ctx_locked c"
  shows "\<exists>c'. qsf_node_exit c = Some c' \<and> ctx_count c' = 0 \<and> ctx_list c' = None \<and>
    ctx_nodes c' = Map.empty \<and> (\<forall>s \<in> set xs. cleanup_node s c' = None)"
proof -
  obtain c' where c': "qsf_node_exit c = Some c'" "node_inv c' []"
    using qsf_node_exit_inv [OF assms] by blast
  have "ctx_nodes c' = Map.empty" using node_inv_dom [OF c'(2)] by simp
  then show ?thesis using c' node_invD(1,5) [OF c'(2)] cleanup_freed by simp
qed

lemma node_exit_frees_all_witness:
  "\<exists>c'. qsf_node_exit demo_reg = Some c' \<and> ctx_nodes c' = Map.empty \<and> cleanup_node 4 c' = None"
  using node_exit_frees_all [OF demo_reg(1,2)] by auto

text \<open>
  The search paths of a node. Both are set by the test of \<open>lua_path\<close> alone, so a setting
  \<open>lua_cpath\<close> without \<open>lua_path\<close> is ignored; and a path that does not fit the 512-byte chunk is
  not reported as too long, but the cut chunk is run, an unfinished string literal.
\<close>

lemma node_search_paths:
  "load_node_path ok [] cpath = Some [] \<and>
   (500 \<le> length path \<longrightarrow> path_chunk path \<noteq> take 511 (path_chunk path) \<and>
      (ok (take 511 (path_chunk path)) \<and> ok (take 511 (cpath_chunk cpath)) \<longrightarrow>
         load_node_path ok path cpath = Some [take 511 (path_chunk path), take 511 (cpath_chunk cpath)]))"
proof -
  have "take 511 (path_chunk path) \<noteq> path_chunk path" if "500 \<le> length path"
  proof
    assume "take 511 (path_chunk path) = path_chunk path"
    then have "length (path_chunk path) \<le> 511" by (metis length_take min.cobounded2)
    then show False using that by (simp add: path_chunk_def str_def)
  qed
  moreover have "path \<noteq> []" if "500 \<le> length path" using that by auto
  ultimately show ?thesis using load_node_path_set [of path ok cpath] load_node_path_empty by metis
qed

lemma node_search_paths_witness:
  "load_node_path (\<lambda>_. True) (replicate 500 65) (str ''x'') =
     Some [take 511 (path_chunk (replicate 500 65)), take 511 (cpath_chunk (str ''x''))] \<and>
   path_chunk (replicate 500 65) \<noteq> take 511 (path_chunk (replicate 500 65))"
  using node_search_paths [of "\<lambda>_. True" "str ''x''" "replicate 500 65"] by simp

end
