(* ===== verification/Env.thy ===== *)
theory Env
  imports Lua_Api
begin

text \<open>
  The process-wide settings of \<open>src/qsf_env.c\<close>: the global variables of a Lua state that ran
  the configuration file. \<open>env_globals\<close> is that state's global table, \<open>None\<close> when the state is
  closed. Each access takes the environment's mutex for its whole length and is one step.
\<close>

section \<open>Numbers\<close>

definition isspace :: "byte \<Rightarrow> bool" where
  "isspace c \<longleftrightarrow> c = 32 \<or> (9 \<le> c \<and> c \<le> 13)"

definition isdigit :: "byte \<Rightarrow> bool" where
  "isdigit c \<longleftrightarrow> 48 \<le> c \<and> c \<le> 57"

definition digits_val :: "bytes \<Rightarrow> int" where
  "digits_val ds = foldl (\<lambda>n c. 10 * n + (uint c - 48)) 0 ds"

text \<open>\<open>atoll\<close>: undefined, hence a fault, when the value does not fit a \<open>long long\<close>.\<close>

definition atoll :: "bytes \<Rightarrow> int option" where
  "atoll s =
    (let s = dropWhile isspace s;
         neg = (s \<noteq> [] \<and> s ! 0 = 45);
         s = (if s \<noteq> [] \<and> (s ! 0 = 45 \<or> s ! 0 = 43) then drop 1 s else s);
         n = digits_val (takeWhile isdigit s);
         n = (if neg then - n else n)
     in if - (2 ^ 63) \<le> n \<and> n < 2 ^ 63 then Some n else None)"

section \<open>The environment\<close>

record qsf_env =
  env_globals :: "(bytes \<Rightarrow> lua_value option) option"

definition qsf_getenv :: "lua_conv \<Rightarrow> qsf_env \<Rightarrow> bytes \<Rightarrow> bytes option \<Rightarrow> bytes option option" where
  "qsf_getenv cv env key value = do {
     g \<leftarrow> env_globals env;
     Some (case lua_tostring cv (g key) of None \<Rightarrow> value | Some s \<Rightarrow> Some (cstr s))
   }"

definition qsf_getenv_int :: "lua_conv \<Rightarrow> qsf_env \<Rightarrow> bytes \<Rightarrow> int \<Rightarrow> int option" where
  "qsf_getenv_int cv env key value = do {
     s \<leftarrow> qsf_getenv cv env key None;
     case s of Some s \<Rightarrow> atoll s | None \<Rightarrow> Some value
   }"

definition qsf_setenv :: "qsf_env \<Rightarrow> bytes \<Rightarrow> bytes \<Rightarrow> qsf_env option" where
  "qsf_setenv env key value = do {
     g \<leftarrow> env_globals env;
     Some (if lua_isnoneornil (g key)
           then env\<lparr>env_globals := Some (g(key := Some (L_str value)))\<rparr>
           else env)
   }"

text \<open>
  \<open>mutex\<close> is the result of \<open>uv_mutex_init\<close>, \<open>newstate\<close> whether \<open>luaL_newstate\<close> gave a state (a
  null state faults in the first push), \<open>dofile\<close> what running the file does to the globals.
\<close>

definition PLATFORM_STRING :: bytes where "PLATFORM_STRING = str ''linux''"

definition qsf_env_init ::
    "int \<Rightarrow> bool \<Rightarrow> (bytes \<Rightarrow> (bytes \<Rightarrow> lua_value option) \<Rightarrow> int \<times> (bytes \<Rightarrow> lua_value option))
     \<Rightarrow> bytes \<Rightarrow> qsf_env \<Rightarrow> (int \<times> qsf_env) option" where
  "qsf_env_init mutex newstate dofile file env =
    (if mutex \<noteq> 0 then Some (mutex, env)
     else do {
       c_assert newstate;
       let g = Map.empty(str ''OS'' := Some (L_str PLATFORM_STRING));
       let (r, g) = dofile file g;
       Some (if r \<noteq> 0 then (r, env) else (0, env\<lparr>env_globals := Some g\<rparr>)) })"

text \<open>\<open>lua_close\<close> of a null state faults.\<close>

definition qsf_env_exit :: "qsf_env \<Rightarrow> qsf_env option" where
  "qsf_env_exit env = do {
     _ \<leftarrow> env_globals env;
     Some (env\<lparr>env_globals := None\<rparr>)
   }"

section \<open>Properties of the settings\<close>

lemma getenv_after_setenv:
  assumes "qsf_setenv env key value = Some env'" and "is_cstr value"
  shows "qsf_getenv cv env' key d =
      (case env_globals env of Some g \<Rightarrow>
         if lua_isnoneornil (g key) then Some (Some value) else qsf_getenv cv env key d)"
    and "k \<noteq> key \<Longrightarrow> qsf_getenv cv env' k d = qsf_getenv cv env k d"
proof -
  obtain g where g: "env_globals env = Some g"
    and e: "env' = (if lua_isnoneornil (g key)
        then env\<lparr>env_globals := Some (g(key := Some (L_str value)))\<rparr> else env)"
    using assms(1) by (auto simp: qsf_setenv_def bind_eq_Some_conv)
  show "qsf_getenv cv env' key d =
      (case env_globals env of Some g \<Rightarrow>
         if lua_isnoneornil (g key) then Some (Some value) else qsf_getenv cv env key d)"
    using g assms(2) by (simp add: e qsf_getenv_def lua_tostring_def cstr_id)
  show "qsf_getenv cv env' k d = qsf_getenv cv env k d" if "k \<noteq> key"
    using g that by (simp add: e qsf_getenv_def)
qed

lemma setenv_twice:
  assumes "qsf_setenv env key v = Some env'"
  shows "qsf_setenv env' key w = Some env'"
proof -
  obtain g where g: "env_globals env = Some g"
    and e: "env' = (if lua_isnoneornil (g key)
        then env\<lparr>env_globals := Some (g(key := Some (L_str v)))\<rparr> else env)"
    using assms(1) by (auto simp: qsf_setenv_def bind_eq_Some_conv)
  show ?thesis using g by (simp add: e qsf_setenv_def lua_isnoneornil_def)
qed

lemma digit_byte:
  assumes "d < 10"
  shows "isdigit (of_nat (d + 48))" "uint (of_nat (d + 48) :: byte) - 48 = int d"
proof -
  have u: "unat (of_nat (d + 48) :: byte) = d + 48"
    using assms by (simp only: unat_of_nat) simp
  show "isdigit (of_nat (d + 48))"
    unfolding isdigit_def word_le_nat_alt u using assms by simp
  show "uint (of_nat (d + 48) :: byte) - 48 = int d"
    using u by (metis add_diff_cancel_right' of_nat_add of_nat_numeral uint_nat)
qed

lemma digits_val_snoc: "digits_val (ds @ [c]) = 10 * digits_val ds + (uint c - 48)"
  by (simp add: digits_val_def)

lemma dec_nat_digits: "list_all isdigit (dec_nat n) \<and> digits_val (dec_nat n) = int n \<and> dec_nat n \<noteq> []"
proof (induction n rule: dec_nat.induct)
  case (1 n)
  show ?case
  proof (cases "n < 10")
    case True
    then show ?thesis
      using digit_byte [OF True] by (simp add: dec_nat.simps digits_val_def)
  next
    case False
    have "n mod 10 < 10" by simp
    note d = digit_byte [OF this]
    have "int (n mod 10) + 10 * int (n div 10) = int n" by presburger
    then show ?thesis
      using 1 False d by (subst (1 2 3) dec_nat.simps) (simp add: digits_val_snoc)
  qed
qed

lemma atoll_digits:
  assumes "list_all isdigit ds" and "ds \<noteq> []" and "digits_val ds < 2 ^ 63" and "0 \<le> digits_val ds"
  shows "atoll ds = Some (digits_val ds)" and "atoll (45 # ds) = Some (- digits_val ds)"
proof -
  have sp: "\<not> isspace c" "c \<noteq> 45" "c \<noteq> 43" if "isdigit c" for c
    using that by (auto simp: isdigit_def isspace_def word_le_nat_alt word_unat_eq_iff)
  obtain c cs where ds: "ds = c # cs" using assms(2) by (cases ds) auto
  have all: "takeWhile isdigit ds = ds"
    using assms(1) by (simp add: takeWhile_eq_all_conv list_all_iff)
  have c: "isdigit c" using assms(1) ds by simp
  show "atoll ds = Some (digits_val ds)"
    using sp [OF c] all assms(3,4) unfolding atoll_def ds by (simp add: Let_def)
  show "atoll (45 # ds) = Some (- digits_val ds)"
    using assms(3,4) unfolding atoll_def by (simp add: all isspace_def Let_def)
qed

lemma atoll_dec_int:
  assumes "- (2 ^ 63) < i" and "i < 2 ^ 63"
  shows "atoll (dec_int i) = Some i"
proof (cases "i < 0")
  case True
  note d = dec_nat_digits [of "nat (- i)"]
  show ?thesis
    using atoll_digits(2) [of "dec_nat (nat (- i))"] d True assms by (simp add: dec_int_def)
next
  case False
  note d = dec_nat_digits [of "nat i"]
  show ?thesis
    using atoll_digits(1) [of "dec_nat (nat i)"] d False assms by (simp add: dec_int_def)
qed

lemma is_cstr_dec_int: "is_cstr (dec_int i)"
proof -
  have "0 \<notin> set (dec_nat n)" for n
    using dec_nat_digits [of n] by (auto simp: list_all_iff isdigit_def)
  then show ?thesis by (simp add: dec_int_def is_cstr_def)
qed

end
