(* ===== verification/Log.thy ===== *)
theory Log
  imports Lua_Api
begin

text \<open>
  The log of \<open>src/qsf_log.c\<close>. A line is assembled in a buffer of 2048 bytes: the prefix
  \<open>file[line]: \<close>, the formatted message, a newline and the final NUL. \<open>printf\<close> formatting is the
  library's; the model takes the two formatted texts.
\<close>

record log_state =
  log_stderr :: bytes
  log_file :: bytes
  qsf_enable_log_to_file :: int

definition sizeof_log_buffer :: int where "sizeof_log_buffer = 2048"

text \<open>\<open>stamp\<close> is what \<open>strftime\<close> produced, \<open>opened\<close> whether \<open>fopen\<close> gave a file.\<close>

definition write_log_to_file :: "bool \<Rightarrow> bytes \<Rightarrow> bytes \<Rightarrow> log_state \<Rightarrow> log_state option" where
  "write_log_to_file opened stamp msg st =
    (if opened
     then do {
       c_assert (0 < length stamp);
       Some (st\<lparr>log_file := log_file st @ stamp @ msg\<rparr>) }
     else Some st)"

definition qsf_log_to_file :: "int \<Rightarrow> log_state \<Rightarrow> int \<times> log_state" where
  "qsf_log_to_file enable st = (qsf_enable_log_to_file st, st\<lparr>qsf_enable_log_to_file := enable\<rparr>)"

definition qsf_abort :: "bytes \<Rightarrow> 'a option" where
  "qsf_abort msg = None"

text \<open>
  \<open>left_bytes\<close> is an \<open>int\<close>. When the prefix alone is longer than the buffer it is negative, and
  as a \<open>size_t\<close> it allows \<open>vsnprintf\<close> to write far outside: a fault.
\<close>

definition qsf_vlog :: "bool \<Rightarrow> bytes \<Rightarrow> bytes \<Rightarrow> bytes \<Rightarrow> log_state \<Rightarrow> log_state option" where
  "qsf_vlog opened stamp prefix msg st = do {
     let bytes = int (length prefix);
     c_assert (0 < bytes);
     let left_bytes = sizeof_log_buffer - bytes;
     c_assert (0 \<le> left_bytes);
     let bytes = int (length msg);
     let left_bytes = left_bytes - bytes;
     if bytes \<le> 0 then Some st
     else if 2 \<le> left_bytes
     then do {
       let buffer = prefix @ msg @ [10];
       let st = st\<lparr>log_stderr := log_stderr st @ buffer\<rparr>;
       if qsf_enable_log_to_file st \<noteq> 0 then write_log_to_file opened stamp buffer st else Some st }
     else Some st
   }"

lemma qsf_vlog_fits:
  assumes "0 < length prefix" and "0 < length msg" and "length prefix + length msg + 2 \<le> 2048"
    and "qsf_enable_log_to_file st = 0"
  shows "qsf_vlog opened stamp prefix msg st = Some (st\<lparr>log_stderr := log_stderr st @ prefix @ msg @ [10]\<rparr>)"
  using assms by (simp add: qsf_vlog_def sizeof_log_buffer_def Let_def)

lemma qsf_vlog_dropped:
  assumes "0 < length prefix" and "length prefix \<le> 2048" and "2046 < length prefix + length msg"
  shows "qsf_vlog opened stamp prefix msg st = Some st"
  using assms by (simp add: qsf_vlog_def sizeof_log_buffer_def Let_def)

end
