(* ===== verification/Router.thy ===== *)
theory Router
  imports Node Env Log
begin

text \<open>
  The framework of \<open>src/qsf_start.c\<close>: the settings of the sockets, the dispatcher that copies
  every message from its sender to its receiver, and the start-up sequence.

  ZeroMQ is a parameter. \<open>send\<close> and \<open>recv\<close> are the frame operations of the ROUTER socket over
  a state \<open>'z\<close>; what they are documented to do is the contract \<open>router_contract\<close> of theory
  Router_Correct. Socket options are collected as a list, in the order they are set.
\<close>

definition QSF_MAX_IPC_MSG_SIZE :: int where "QSF_MAX_IPC_MSG_SIZE = 32 * 1024 * 1024"
definition QSF_DEFAULT_HWM :: int where "QSF_DEFAULT_HWM = 2048"
definition QSF_ROUTER_ADDRESS :: bytes where "QSF_ROUTER_ADDRESS = str ''inproc://qsf.router''"

datatype sockopt =
    ZMQ_IDENTITY bytes
  | ZMQ_LINGER int
  | ZMQ_RCVTIMEO int
  | ZMQ_MAXMSGSIZE int
  | ZMQ_RCVHWM int
  | ZMQ_SNDHWM int
  | ZMQ_ROUTER_MANDATORY int
  | Connect bytes
  | Bind bytes

text \<open>\<open>ok\<close> says which of the socket calls succeed; a failing one aborts.\<close>

definition set_opts :: "(sockopt \<Rightarrow> bool) \<Rightarrow> sockopt list \<Rightarrow> sockopt list option" where
  "set_opts ok os = (if list_all ok os then Some os else None)"

definition qsf_create_dealer ::
    "lua_conv \<Rightarrow> qsf_env \<Rightarrow> bool \<Rightarrow> (sockopt \<Rightarrow> bool) \<Rightarrow> bytes \<Rightarrow> sockopt list option" where
  "qsf_create_dealer cv env got ok identity = do {
     c_assert got;
     o1 \<leftarrow> set_opts ok [ZMQ_IDENTITY identity, ZMQ_LINGER 0];
     max_recv_timeout \<leftarrow> qsf_getenv_int cv env (str ''max_recv_timeout'') (-1);
     o2 \<leftarrow> set_opts ok [ZMQ_RCVTIMEO (to_int32 max_recv_timeout)];
     max_msg_size \<leftarrow> qsf_getenv_int cv env (str ''max_ipc_msg_size'') QSF_MAX_IPC_MSG_SIZE;
     o3 \<leftarrow> set_opts ok [ZMQ_MAXMSGSIZE max_msg_size];
     recv_hwm \<leftarrow> qsf_getenv_int cv env (str ''recv_hwm'') QSF_DEFAULT_HWM;
     o4 \<leftarrow> set_opts ok [ZMQ_RCVHWM (to_int32 recv_hwm)];
     send_hwm \<leftarrow> qsf_getenv_int cv env (str ''send_hwm'') QSF_DEFAULT_HWM;
     o5 \<leftarrow> set_opts ok [ZMQ_SNDHWM (to_int32 send_hwm), Connect QSF_ROUTER_ADDRESS];
     Some (o1 @ o2 @ o3 @ o4 @ o5)
   }"

text \<open>The options of the router socket and the log setting.\<close>

definition qsf_init ::
    "lua_conv \<Rightarrow> qsf_env \<Rightarrow> bool \<Rightarrow> bool \<Rightarrow> (sockopt \<Rightarrow> bool) \<Rightarrow> log_state
     \<Rightarrow> (sockopt list \<times> log_state) option" where
  "qsf_init cv env got_ctx got_router ok lg = do {
     c_assert got_ctx;
     c_assert got_router;
     o1 \<leftarrow> set_opts ok [ZMQ_LINGER 0];
     mandatory \<leftarrow> qsf_getenv_int cv env (str ''router_mandatory'') 0;
     o2 \<leftarrow> set_opts ok [ZMQ_ROUTER_MANDATORY (to_int32 mandatory)];
     max_msg_size \<leftarrow> qsf_getenv_int cv env (str ''max_ipc_msg_size'') QSF_MAX_IPC_MSG_SIZE;
     o3 \<leftarrow> set_opts ok [ZMQ_MAXMSGSIZE max_msg_size, Bind QSF_ROUTER_ADDRESS];
     enable \<leftarrow> qsf_getenv_int cv env (str ''log_to_file'') 0;
     let lg = snd (qsf_log_to_file (to_int32 enable) lg);
     Some (o1 @ o2 @ o3, lg)
   }"

section \<open>Dispatch\<close>

type_synonym 'z router_recv = "'z \<Rightarrow> (int + bytes) \<times> 'z"

text \<open>
  \<open>bytes\<close> is the result of the last socket call made: the frame's length, or a negative number
  at which the function leaves through \<open>cleanup\<close>.
\<close>

definition dispatch_message :: "'z router_recv \<Rightarrow> 'z zsend \<Rightarrow> 'z \<Rightarrow> int \<times> 'z" where
  "dispatch_message recv send z =
    (let (src, z) = recv z in case src of Inl bytes \<Rightarrow> (bytes, z) | Inr src \<Rightarrow>
     let (dst, z) = recv z in case dst of Inl bytes \<Rightarrow> (bytes, z) | Inr dst \<Rightarrow>
     let (msg, z) = recv z in case msg of Inl bytes \<Rightarrow> (bytes, z) | Inr msg \<Rightarrow>
     let (bytes, z) = send dst True z in if bytes < 0 then (bytes, z) else
     let (bytes, z) = send src True z in if bytes < 0 then (bytes, z) else
     send msg False z)"

text \<open>The loop of \<open>qsf_start\<close>: it ends, with the state at that point, at the first failure.\<close>

partial_function (option) dispatch_loop :: "'z router_recv \<Rightarrow> 'z zsend \<Rightarrow> 'z \<Rightarrow> (int \<times> 'z) option" where
  "dispatch_loop recv send z =
    (let (r, z) = dispatch_message recv send z
     in if r < 0 then Some (r, z) else dispatch_loop recv send z)"

section \<open>Start and exit\<close>

record qsf_world =
  w_env :: qsf_env
  w_log :: log_state
  w_nodes :: node_context
  w_router :: "sockopt list option"

definition qsf_exit :: "qsf_world \<Rightarrow> qsf_world option" where
  "qsf_exit w = do {
     env \<leftarrow> qsf_env_exit (w_env w);
     nodes \<leftarrow> qsf_node_exit (w_nodes w);
     Some (w\<lparr>w_env := env, w_nodes := nodes, w_router := None\<rparr>)
   }"

text \<open>What the start-up meets outside the program.\<close>

record start_world =
  sw_version_ok :: bool
  sw_mutex :: int
  sw_newstate :: bool
  sw_dofile :: "bytes \<Rightarrow> (bytes \<Rightarrow> lua_value option) \<Rightarrow> int \<times> (bytes \<Rightarrow> lua_value option)"
  sw_ctx :: bool
  sw_router :: bool
  sw_sockopt :: "sockopt \<Rightarrow> bool"
  sw_node_mutex :: int
  sw_block :: "addr option"
  sw_thread :: int

text \<open>Everything up to the dispatch loop.\<close>

definition start_up :: "lua_conv \<Rightarrow> start_world \<Rightarrow> bytes \<Rightarrow> qsf_world \<Rightarrow> qsf_world option" where
  "start_up cv e file w = do {
     c_assert (sw_version_ok e);
     (r, env) \<leftarrow> qsf_env_init (sw_mutex e) (sw_newstate e) (sw_dofile e) file (w_env w);
     c_assert (r = 0);
     (opts, lg) \<leftarrow> qsf_init cv env (sw_ctx e) (sw_router e) (sw_sockopt e) (w_log w);
     let (r, nodes) = qsf_node_init (sw_node_mutex e) (w_nodes w);
     c_assert (r = 0);
     name \<leftarrow> qsf_getenv cv env (str ''start_name'') (Some (str ''main''));
     path \<leftarrow> qsf_getenv cv env (str ''start_file'') (Some (str ''main.lua''));
     name \<leftarrow> name;
     path \<leftarrow> path;
     (r, nodes) \<leftarrow> qsf_create_node (sw_block e) (sw_thread e) name path (str ''sys'') nodes;
     c_assert (r = 0);
     Some (w\<lparr>w_env := env, w_log := lg, w_nodes := nodes, w_router := Some opts\<rparr>)
   }"

definition qsf_start ::
    "lua_conv \<Rightarrow> start_world \<Rightarrow> 'z router_recv \<Rightarrow> 'z zsend \<Rightarrow> bytes \<Rightarrow> 'z \<Rightarrow> qsf_world
     \<Rightarrow> (int \<times> 'z \<times> qsf_world) option" where
  "qsf_start cv e recv send file z w = do {
     w \<leftarrow> start_up cv e file w;
     (r, z) \<leftarrow> dispatch_loop recv send z;
     w \<leftarrow> qsf_exit w;
     Some (0, z, w)
   }"

text \<open>\<open>main\<close>: the configuration file is the first command line argument, or \<open>config\<close>.\<close>

definition main_file :: "bytes list \<Rightarrow> bytes" where
  "main_file argv = (if 2 \<le> length argv then argv ! 1 else str ''config'')"

end
