(* ===== verification/Router_Correct.thy ===== *)
theory Router_Correct
  imports Router Node_Run
begin

text \<open>
  Message delivery. The contract states the documented behaviour of the two ZeroMQ sockets in
  terms of views of their state: \<open>queue\<close>, the frames waiting at the router (a message
  from a dealer arrives with the dealer's identity in front); \<open>inbox z p\<close>, the frames waiting
  at the dealer \<open>p\<close>; \<open>target\<close>, whether the router is inside an outgoing message, for whom and with
  which frames; and \<open>outbuf z p\<close>, the frames of the message that the dealer \<open>p\<close> has not yet ended. A
  message of several frames is handed over as a whole, with its last frame.
\<close>

section \<open>The contract\<close>

datatype route = Idle | To bytes "bytes list" | Discard

record 'z zmq_view =
  queue :: "'z \<Rightarrow> bytes list"
  inbox :: "'z \<Rightarrow> bytes \<Rightarrow> bytes list"
  target :: "'z \<Rightarrow> route"
  outbuf :: "'z \<Rightarrow> bytes \<Rightarrow> bytes list"
  peers :: "'z \<Rightarrow> bytes set"
  mandatory :: "'z \<Rightarrow> bool"

definition view_eq ::
    "'z zmq_view \<Rightarrow> 'z \<Rightarrow> bytes list \<Rightarrow> (bytes \<Rightarrow> bytes list) \<Rightarrow> route \<Rightarrow> 'z \<Rightarrow> bool" where
  "view_eq v z q i t z' \<longleftrightarrow> queue v z' = q \<and> inbox v z' = i \<and> target v z' = t \<and>
     outbuf v z' = outbuf v z \<and> peers v z' = peers v z \<and> mandatory v z' = mandatory v z"

text \<open>The views after a dealer's send, which touches its buffer and the queue.\<close>

definition sent_eq :: "'z zmq_view \<Rightarrow> 'z \<Rightarrow> bytes list \<Rightarrow> (bytes \<Rightarrow> bytes list) \<Rightarrow> 'z \<Rightarrow> bool" where
  "sent_eq v z q ob z' \<longleftrightarrow> queue v z' = q \<and> outbuf v z' = ob \<and> inbox v z' = inbox v z \<and> target v z' = target v z \<and>
     peers v z' = peers v z \<and> mandatory v z' = mandatory v z"

definition router_contract :: "'z zmq_view \<Rightarrow> 'z router_recv \<Rightarrow> 'z zsend \<Rightarrow> bool" where
  "router_contract v recv send \<longleftrightarrow>
     (\<forall>z f fs. queue v z = f # fs \<longrightarrow>
        (\<exists>z'. recv z = (Inr f, z') \<and> view_eq v z fs (inbox v z) (target v z) z')) \<and>
     (\<forall>z p. target v z = Idle \<longrightarrow> p \<in> peers v z \<longrightarrow>
        (\<exists>z'. send p True z = (int (length p), z') \<and> view_eq v z (queue v z) (inbox v z) (To p []) z')) \<and>
     (\<forall>z p. target v z = Idle \<longrightarrow> p \<notin> peers v z \<longrightarrow>
        (\<exists>r z'. send p True z = (r, z') \<and>
          (if mandatory v z then r < 0 \<and> view_eq v z (queue v z) (inbox v z) Idle z'
           else r = int (length p) \<and> view_eq v z (queue v z) (inbox v z) Discard z'))) \<and>
     (\<forall>z p fs f. target v z = To p fs \<longrightarrow>
        (\<exists>z'. send f True z = (int (length f), z') \<and>
          view_eq v z (queue v z) (inbox v z) (To p (fs @ [f])) z')) \<and>
     (\<forall>z p fs f. target v z = To p fs \<longrightarrow>
        (\<exists>z'. send f False z = (int (length f), z') \<and>
          view_eq v z (queue v z) ((inbox v z)(p := inbox v z p @ fs @ [f])) Idle z')) \<and>
     (\<forall>z f sndmore. target v z = Discard \<longrightarrow>
        (\<exists>z'. send f sndmore z = (int (length f), z') \<and>
          view_eq v z (queue v z) (inbox v z) (if sndmore then Discard else Idle) z'))"

lemma contract_recv:
  assumes "router_contract v recv send" and "queue v z = f # fs"
  obtains z' where "recv z = (Inr f, z')" and "view_eq v z fs (inbox v z) (target v z) z'"
  using assms unfolding router_contract_def by blast

lemma contract_known:
  assumes "router_contract v recv send" and "target v z = Idle" and "p \<in> peers v z"
  obtains z' where "send p True z = (int (length p), z')"
    and "view_eq v z (queue v z) (inbox v z) (To p []) z'"
  using assms unfolding router_contract_def by blast

lemma contract_unknown:
  assumes "router_contract v recv send" and "target v z = Idle" and "p \<notin> peers v z"
  obtains r z' where "send p True z = (r, z')"
    and "if mandatory v z then r < 0 \<and> view_eq v z (queue v z) (inbox v z) Idle z'
      else r = int (length p) \<and> view_eq v z (queue v z) (inbox v z) Discard z'"
  using assms unfolding router_contract_def by blast

lemma contract_to:
  assumes "router_contract v recv send" and "target v z = To p fs"
  obtains z' where "send f True z = (int (length f), z')"
    and "view_eq v z (queue v z) (inbox v z) (To p (fs @ [f])) z'"
  using assms unfolding router_contract_def by blast

lemma contract_last:
  assumes "router_contract v recv send" and "target v z = To p fs"
  obtains z' where "send f False z = (int (length f), z')"
    and "view_eq v z (queue v z) ((inbox v z)(p := inbox v z p @ fs @ [f])) Idle z'"
  using assms unfolding router_contract_def by blast

lemma contract_discard:
  assumes "router_contract v recv send" and "target v z = Discard"
  obtains z' where "send f sndmore z = (int (length f), z')"
    and "view_eq v z (queue v z) (inbox v z) (if sndmore then Discard else Idle) z'"
  using assms unfolding router_contract_def by blast

section \<open>One message\<close>

lemma dispatch_three:
  assumes c: "router_contract v recv send" and q: "queue v z = src # dst # msg # rest"
  obtains z3 where "view_eq v z rest (inbox v z) (target v z) z3"
    and "dispatch_message recv send z =
      (let (bytes, z) = send dst True z3 in if bytes < 0 then (bytes, z) else
       let (bytes, z) = send src True z in if bytes < 0 then (bytes, z) else send msg False z)"
proof -
  obtain z1 where 1: "recv z = (Inr src, z1)" "view_eq v z (dst # msg # rest) (inbox v z) (target v z) z1"
    by (rule contract_recv [OF c q])
  have q1: "queue v z1 = dst # msg # rest" using 1(2) by (simp add: view_eq_def)
  obtain z2 where 2: "recv z1 = (Inr dst, z2)" "view_eq v z1 (msg # rest) (inbox v z1) (target v z1) z2"
    by (rule contract_recv [OF c q1])
  have q2: "queue v z2 = msg # rest" using 2(2) by (simp add: view_eq_def)
  obtain z3 where 3: "recv z2 = (Inr msg, z3)" "view_eq v z2 rest (inbox v z2) (target v z2) z3"
    by (rule contract_recv [OF c q2])
  have "view_eq v z rest (inbox v z) (target v z) z3"
    using 1(2) 2(2) 3(2) by (simp add: view_eq_def)
  then show ?thesis using that 1(1) 2(1) 3(1) by (simp add: dispatch_message_def)
qed

lemma dispatch_known:
  assumes c: "router_contract v recv send" and q: "queue v z = src # dst # msg # rest"
    and idle: "target v z = Idle" and p: "dst \<in> peers v z"
  shows "\<exists>z'. dispatch_message recv send z = (int (length msg), z') \<and>
    view_eq v z rest ((inbox v z)(dst := inbox v z dst @ [src, msg])) Idle z'"
proof -
  obtain z3 where 3: "view_eq v z rest (inbox v z) (target v z) z3"
    and d: "dispatch_message recv send z =
      (let (bytes, z) = send dst True z3 in if bytes < 0 then (bytes, z) else
       let (bytes, z) = send src True z in if bytes < 0 then (bytes, z) else send msg False z)"
    by (rule dispatch_three [OF c q])
  have t3: "target v z3 = Idle" "dst \<in> peers v z3" using 3 idle p by (simp_all add: view_eq_def)
  obtain z4 where 4: "send dst True z3 = (int (length dst), z4)"
      "view_eq v z3 (queue v z3) (inbox v z3) (To dst []) z4"
    by (rule contract_known [OF c t3])
  have t4: "target v z4 = To dst []" using 4(2) by (simp add: view_eq_def)
  obtain z5 where 5: "send src True z4 = (int (length src), z5)"
      "view_eq v z4 (queue v z4) (inbox v z4) (To dst [src]) z5"
    using contract_to [OF c t4] by (metis append_Nil)
  have t5: "target v z5 = To dst [src]" using 5(2) by (simp add: view_eq_def)
  obtain z6 where 6: "send msg False z5 = (int (length msg), z6)"
      "view_eq v z5 (queue v z5) ((inbox v z5)(dst := inbox v z5 dst @ [src] @ [msg])) Idle z6"
    by (rule contract_last [OF c t5])
  have "dispatch_message recv send z = (int (length msg), z6)"
    unfolding d using 4(1) 5(1) 6(1) by simp
  moreover have "view_eq v z rest ((inbox v z)(dst := inbox v z dst @ [src, msg])) Idle z6"
    using 3 4(2) 5(2) 6(2) by (simp add: view_eq_def)
  ultimately show ?thesis by blast
qed

lemma dispatch_unknown:
  assumes c: "router_contract v recv send" and q: "queue v z = src # dst # msg # rest"
    and idle: "target v z = Idle" and p: "dst \<notin> peers v z"
  shows "\<exists>r z'. dispatch_message recv send z = (r, z') \<and> view_eq v z rest (inbox v z) Idle z' \<and>
    (if mandatory v z then r < 0 else r = int (length msg))"
proof -
  obtain z3 where 3: "view_eq v z rest (inbox v z) (target v z) z3"
    and d: "dispatch_message recv send z =
      (let (bytes, z) = send dst True z3 in if bytes < 0 then (bytes, z) else
       let (bytes, z) = send src True z in if bytes < 0 then (bytes, z) else send msg False z)"
    by (rule dispatch_three [OF c q])
  have t3: "target v z3 = Idle" "dst \<notin> peers v z3" using 3 idle p by (simp_all add: view_eq_def)
  obtain r z4 where 4: "send dst True z3 = (r, z4)"
      "if mandatory v z3 then r < 0 \<and> view_eq v z3 (queue v z3) (inbox v z3) Idle z4
       else r = int (length dst) \<and> view_eq v z3 (queue v z3) (inbox v z3) Discard z4"
    by (rule contract_unknown [OF c t3])
  show ?thesis
  proof (cases "mandatory v z")
    case True
    then have "mandatory v z3" using 3 by (simp add: view_eq_def)
    then have r: "r < 0" "view_eq v z3 (queue v z3) (inbox v z3) Idle z4" using 4(2) by simp_all
    have "view_eq v z rest (inbox v z) Idle z4" using 3 r(2) by (simp add: view_eq_def)
    then show ?thesis unfolding d using True 4(1) r(1) by simp
  next
    case False
    then have "\<not> mandatory v z3" using 3 by (simp add: view_eq_def)
    then have r: "r = int (length dst)" "view_eq v z3 (queue v z3) (inbox v z3) Discard z4"
      using 4(2) by simp_all
    have t4: "target v z4 = Discard" using r(2) by (simp add: view_eq_def)
    obtain z5 where 5: "send src True z4 = (int (length src), z5)"
        "view_eq v z4 (queue v z4) (inbox v z4) (if True then Discard else Idle) z5"
      by (rule contract_discard [OF c t4])
    have t5: "target v z5 = Discard" using 5(2) by (simp add: view_eq_def)
    obtain z6 where 6: "send msg False z5 = (int (length msg), z6)"
        "view_eq v z5 (queue v z5) (inbox v z5) (if False then Discard else Idle) z6"
      by (rule contract_discard [OF c t5])
    have "view_eq v z rest (inbox v z) Idle z6"
      using 3 r(2) 5(2) 6(2) by (simp add: view_eq_def)
    then show ?thesis unfolding d using False 4(1) r(1) 5(1) 6(1) by simp
  qed
qed

section \<open>The loop\<close>

text \<open>Messages \<open>(from, to, content)\<close>, the frames they are queued as, and what reaches an inbox.\<close>

definition msg_frames :: "(bytes \<times> bytes \<times> bytes) list \<Rightarrow> bytes list" where
  "msg_frames ms = concat (map (\<lambda>(f, t, m). [f, t, m]) ms)"

definition msgs_for :: "bytes \<Rightarrow> (bytes \<times> bytes \<times> bytes) list \<Rightarrow> bytes list" where
  "msgs_for p ms = concat (map (\<lambda>(f, t, m). if t = p then [f, m] else []) ms)"

lemma msg_lists_simps [simp]:
  "msg_frames [] = []" "msg_frames ((f, t, m) # ms) = f # t # m # msg_frames ms"
  "msgs_for p [] = []" "msgs_for p ((f, t, m) # ms) = (if t = p then [f, m] else []) @ msgs_for p ms"
  by (simp_all add: msg_frames_def msgs_for_def)

text \<open>
  While every receiver exists (or unknown ones are dropped silently), the loop delivers all the
  queued messages in order; it ends when the socket reports an error on the empty queue.
\<close>

lemma dispatch_loop_delivers:
  assumes c: "router_contract v recv send" and q: "queue v z = msg_frames ms"
    and idle: "target v z = Idle" and ok: "(\<forall>(f, t, m) \<in> set ms. t \<in> peers v z) \<or> \<not> mandatory v z"
    and err: "\<forall>z. queue v z = [] \<longrightarrow> (\<exists>e. recv z = (Inl e, z) \<and> e < 0)"
  shows "\<exists>r z'. dispatch_loop recv send z = Some (r, z') \<and> r < 0 \<and> queue v z' = [] \<and>
    (\<forall>p \<in> peers v z. inbox v z' p = inbox v z p @ msgs_for p ms)"
  using q idle ok
proof (induction ms arbitrary: z)
  case Nil
  then obtain e where e: "recv z = (Inl e, z)" "e < 0" using err by auto
  then have "dispatch_loop recv send z = Some (e, z)"
    by (subst dispatch_loop.simps) (simp add: dispatch_message_def)
  then show ?case using e(2) Nil by auto
next
  case (Cons fm ms)
  obtain f t m where fm: "fm = (f, t, m)" by (cases fm) auto
  have q: "queue v z = f # t # m # msg_frames ms" using Cons.prems(1) fm by simp
  have "\<exists>r z1. dispatch_message recv send z = (r, z1) \<and> 0 \<le> r \<and> queue v z1 = msg_frames ms \<and>
      target v z1 = Idle \<and> peers v z1 = peers v z \<and> mandatory v z1 = mandatory v z \<and>
      (\<forall>p \<in> peers v z. inbox v z1 p = inbox v z p @ (if t = p then [f, m] else []))"
  proof (cases "t \<in> peers v z")
    case True
    then show ?thesis using dispatch_known [OF c q Cons.prems(2)] by (fastforce simp: view_eq_def)
  next
    case False
    then have "\<not> mandatory v z" using Cons.prems(3) fm by auto
    then show ?thesis using dispatch_unknown [OF c q Cons.prems(2) False] False
      by (fastforce simp: view_eq_def)
  qed
  then obtain r z1 where z1: "dispatch_message recv send z = (r, z1)" "0 \<le> r" "queue v z1 = msg_frames ms"
      "target v z1 = Idle" "peers v z1 = peers v z" "mandatory v z1 = mandatory v z"
      "\<forall>p \<in> peers v z. inbox v z1 p = inbox v z p @ (if t = p then [f, m] else [])"
    by blast
  have "(\<forall>(f, t, m) \<in> set ms. t \<in> peers v z1) \<or> \<not> mandatory v z1"
    using Cons.prems(3) z1(5,6) by auto
  from Cons.IH [OF z1(3,4) this] obtain e z' where z':
    "dispatch_loop recv send z1 = Some (e, z')" "e < 0" "queue v z' = []"
    "\<forall>p \<in> peers v z. inbox v z' p = inbox v z1 p @ msgs_for p ms"
    unfolding z1(5) by blast
  have "dispatch_loop recv send z = dispatch_loop recv send z1"
    using z1(1,2) by (subst dispatch_loop.simps) simp
  then show ?case using z' z1(7) fm by (intro exI [of _ e] exI [of _ z']) simp
qed

text \<open>With \<open>router_mandatory\<close> set, one message to an unknown name ends the loop.\<close>

lemma dispatch_loop_stops:
  assumes c: "router_contract v recv send" and q: "queue v z = f # t # m # rest"
    and idle: "target v z = Idle" and bad: "t \<notin> peers v z" "mandatory v z"
  shows "\<exists>r z'. dispatch_loop recv send z = Some (r, z') \<and> r < 0 \<and> queue v z' = rest \<and> inbox v z' = inbox v z"
proof -
  obtain r z' where "dispatch_message recv send z = (r, z')" "r < 0" "view_eq v z rest (inbox v z) Idle z'"
    using dispatch_unknown [OF c q idle bad(1)] bad(2) by auto
  then show ?thesis by (subst dispatch_loop.simps) (simp add: view_eq_def)
qed

section \<open>From node to node\<close>

text \<open>
  The dealer of the node \<open>me\<close>: a message of two frames goes to the router's queue behind the
  dealer's identity when its last frame is sent, and frames are received from the inbox.
\<close>

definition dealer_contract :: "'z zmq_view \<Rightarrow> bytes \<Rightarrow> 'z zsend \<Rightarrow> 'z zrecv \<Rightarrow> bool" where
  "dealer_contract v me dsend drecv \<longleftrightarrow>
     (\<forall>z a. outbuf v z me = [] \<longrightarrow> (\<exists>z'. dsend a True z = (int (length a), z') \<and>
        sent_eq v z (queue v z) ((outbuf v z)(me := [a])) z')) \<and>
     (\<forall>z a b. outbuf v z me = [a] \<longrightarrow> (\<exists>z'. dsend b False z = (int (length b), z') \<and>
        sent_eq v z (queue v z @ [me, a, b]) ((outbuf v z)(me := [])) z')) \<and>
     (\<forall>z f fs w. inbox v z me = f # fs \<longrightarrow> (\<exists>z'. drecv w z = (Inr f, z') \<and>
        view_eq v z (queue v z) ((inbox v z)(me := fs)) (target v z) z'))"

text \<open>\<open>qsf_node_send\<close> and \<open>qsf_node_recv\<close> on such a dealer.\<close>

lemma dealer_first:
  assumes "dealer_contract v me dsend drecv" and "outbuf v z me = []"
  obtains z' where "dsend a True z = (int (length a), z')" and "sent_eq v z (queue v z) ((outbuf v z)(me := [a])) z'"
  using assms unfolding dealer_contract_def by blast

lemma dealer_last:
  assumes "dealer_contract v me dsend drecv" and "outbuf v z me = [a]"
  obtains z' where "dsend b False z = (int (length b), z')"
    and "sent_eq v z (queue v z @ [me, a, b]) ((outbuf v z)(me := [])) z'"
  using assms unfolding dealer_contract_def by blast

lemma dealer_frame:
  assumes "dealer_contract v me dsend drecv" and "inbox v z me = f # fs"
  obtains z' where "drecv w z = (Inr f, z')"
    and "view_eq v z (queue v z) ((inbox v z)(me := fs)) (target v z) z'"
  using assms unfolding dealer_contract_def by blast

lemma dealer_sends:
  assumes dc: "dealer_contract v a dsend drecv" and ob: "outbuf v z a = []" and nm: "b \<noteq> []" "d \<noteq> []"
  shows "\<exists>z'. qsf_node_send dsend b d z = Some z' \<and>
    view_eq v z (queue v z @ [a, b, d]) (inbox v z) (target v z) z'"
proof -
  obtain z0 where 0: "dsend b True z = (int (length b), z0)" "sent_eq v z (queue v z) ((outbuf v z)(a := [b])) z0"
    by (rule dealer_first [OF dc ob])
  then have "outbuf v z0 a = [b]" by (simp add: sent_eq_def)
  then obtain z1 where 1: "dsend d False z0 = (int (length d), z1)"
      "sent_eq v z0 (queue v z0 @ [a, b, d]) ((outbuf v z0)(a := [])) z1"
    by (rule dealer_last [OF dc])
  have "view_eq v z (queue v z @ [a, b, d]) (inbox v z) (target v z) z1"
    using 0(2) 1(2) ob by (auto simp: sent_eq_def view_eq_def fun_upd_idem)
  then show ?thesis using 0(1) 1(1) nm by (simp add: qsf_node_send_def)
qed

lemma dealer_takes:
  assumes "dealer_contract v p dsend drecv" and i: "inbox v z p = f # d # fs"
    and nm: "f \<noteq> []" "length f < MAX_ID_LENGTH" "d \<noteq> []"
  shows "\<exists>z'. qsf_node_recv drecv func nowait h z =
      map_option (\<lambda>(r, h). (if 0 < r then r else 0, h, z')) (func f d h) \<and>
    view_eq v z (queue v z) ((inbox v z)(p := fs)) (target v z) z'"
proof -
  obtain z1 where 1: "drecv nowait z = (Inr f, z1)"
      "view_eq v z (queue v z) ((inbox v z)(p := d # fs)) (target v z) z1"
    by (rule dealer_frame [OF assms(1) i])
  then have i1: "inbox v z1 p = d # fs" by (simp add: view_eq_def)
  obtain z2 where 2: "drecv nowait z1 = (Inr d, z2)"
      "view_eq v z1 (queue v z1) ((inbox v z1)(p := fs)) (target v z1) z2"
    by (rule dealer_frame [OF assms(1) i1])
  have "qsf_node_recv drecv func nowait h z =
      map_option (\<lambda>(r, h). (if 0 < r then r else 0, h, z2)) (func f d h)"
    using 1(1) 2(1) nm by (cases "func f d h") (auto simp: qsf_node_recv_def)
  then show ?thesis using 1(2) 2(2) by (auto simp: view_eq_def)
qed

lemma node_to_node:
  assumes c: "router_contract v recv send"
    and da: "dealer_contract v a asend arecv" and db: "dealer_contract v b bsend brecv"
    and z: "queue v z = []" "target v z = Idle" "b \<in> peers v z" "inbox v z b = []" and ob: "outbuf v z a = []"
    and nm: "a \<noteq> []" "length a < MAX_ID_LENGTH" "b \<noteq> []" "data \<noteq> []"
  shows "\<exists>z1 z2 z3. qsf_node_send asend b data z = Some z1 \<and>
    dispatch_message recv send z1 = (int (length data), z2) \<and>
    qsf_node_recv brecv func nowait h z2 =
      map_option (\<lambda>(r, h). (if 0 < r then r else 0, h, z3)) (func a data h) \<and>
    queue v z3 = [] \<and> inbox v z3 = inbox v z"
proof -
  obtain z1 where 1: "qsf_node_send asend b data z = Some z1"
      "view_eq v z (queue v z @ [a, b, data]) (inbox v z) (target v z) z1"
    using dealer_sends [OF da ob nm(3,4)] by blast
  have z1: "queue v z1 = [a, b, data]" "target v z1 = Idle" "b \<in> peers v z1" "inbox v z1 = inbox v z"
    using 1(2) z by (simp_all add: view_eq_def)
  obtain z2 where 2: "dispatch_message recv send z1 = (int (length data), z2)"
      "view_eq v z1 [] ((inbox v z1)(b := inbox v z1 b @ [a, data])) Idle z2"
    using dispatch_known [OF c z1(1-3)] by blast
  have i2: "inbox v z2 b = [a, data]" using 2(2) z1(4) z(4) by (simp add: view_eq_def)
  obtain z3 where 3: "qsf_node_recv brecv func nowait h z2 =
        map_option (\<lambda>(r, h). (if 0 < r then r else 0, h, z3)) (func a data h)"
      "view_eq v z2 (queue v z2) ((inbox v z2)(b := [])) (target v z2) z3"
    using dealer_takes [OF db i2 nm(1,2,4), of func nowait h] by blast
  have "queue v z3 = []" using 2(2) 3(2) by (simp add: view_eq_def)
  moreover have "inbox v z3 = inbox v z"
    using 2(2) 3(2) z1(4) z(4) by (auto simp: view_eq_def fun_eq_iff)
  ultimately show ?thesis using 1(1) 2(1) 3(1) by blast
qed

end
