(* ===== verification/Router_Properties.thy ===== *)
theory Router_Properties
  imports Router_Correct
begin

text \<open>
  The properties of the dispatcher (\<open>src/qsf_start.c\<close>), of the settings (\<open>src/qsf_env.c\<close>) and of
  the log (\<open>src/qsf_log.c\<close>). Their witnesses use a small message system that has the documented
  behaviour of the ZeroMQ sockets.
\<close>

section \<open>A message system to try the theorems on\<close>

record zmq_demo =
  zd_queue :: "bytes list"
  zd_inbox :: "bytes \<Rightarrow> bytes list"
  zd_target :: route
  zd_out :: "bytes \<Rightarrow> bytes list"
  zd_peers :: "bytes set"
  zd_mandatory :: bool

definition zd_view :: "zmq_demo zmq_view" where
  "zd_view = \<lparr>queue = zd_queue, inbox = zd_inbox, target = zd_target, outbuf = zd_out,
     peers = zd_peers, mandatory = zd_mandatory\<rparr>"

definition zd_recv :: "zmq_demo router_recv" where
  "zd_recv z = (case zd_queue z of [] \<Rightarrow> (Inl (- 1), z) | f # fs \<Rightarrow> (Inr f, z\<lparr>zd_queue := fs\<rparr>))"

definition zd_send :: "zmq_demo zsend" where
  "zd_send f sndmore z =
    (case zd_target z of
       Idle \<Rightarrow> if f \<in> zd_peers z then (int (length f), z\<lparr>zd_target := To f []\<rparr>)
               else if zd_mandatory z then (- 1, z) else (int (length f), z\<lparr>zd_target := Discard\<rparr>)
     | To p fs \<Rightarrow> (int (length f),
         if sndmore then z\<lparr>zd_target := To p (fs @ [f])\<rparr>
         else z\<lparr>zd_inbox := (zd_inbox z)(p := zd_inbox z p @ fs @ [f]), zd_target := Idle\<rparr>)
     | Discard \<Rightarrow> (int (length f), z\<lparr>zd_target := if sndmore then Discard else Idle\<rparr>))"

definition zd_dealer_send :: "bytes \<Rightarrow> zmq_demo zsend" where
  "zd_dealer_send me f sndmore z =
    (int (length f),
     if sndmore then z\<lparr>zd_out := (zd_out z)(me := zd_out z me @ [f])\<rparr>
     else z\<lparr>zd_queue := zd_queue z @ [me] @ zd_out z me @ [f], zd_out := (zd_out z)(me := [])\<rparr>)"

definition zd_dealer_recv :: "bytes \<Rightarrow> zmq_demo zrecv" where
  "zd_dealer_recv me nowait z =
    (case zd_inbox z me of [] \<Rightarrow> (Inl (- 1), z) | f # fs \<Rightarrow> (Inr f, z\<lparr>zd_inbox := (zd_inbox z)(me := fs)\<rparr>))"

lemma zd_router: "router_contract zd_view zd_recv zd_send"
  by (auto simp: router_contract_def zd_view_def zd_recv_def zd_send_def view_eq_def)

lemma zd_dealer: "dealer_contract zd_view me (zd_dealer_send me) (zd_dealer_recv me)"
  by (auto simp: dealer_contract_def zd_view_def zd_dealer_send_def zd_dealer_recv_def view_eq_def sent_eq_def)

definition zd_state :: "bytes list \<Rightarrow> bool \<Rightarrow> zmq_demo" where
  "zd_state q m = \<lparr>zd_queue = q, zd_inbox = (\<lambda>_. []), zd_target = Idle, zd_out = (\<lambda>_. []), zd_peers = {[1], [2]}, zd_mandatory = m\<rparr>"

lemma zd_state [simp]: "queue zd_view (zd_state q m) = q" "inbox zd_view (zd_state q m) = (\<lambda>_. [])"
  "target zd_view (zd_state q m) = Idle" "outbuf zd_view (zd_state q m) = (\<lambda>_. [])" "peers zd_view (zd_state q m) = {[1], [2]}"
  "mandatory zd_view (zd_state q m) = m"
  by (simp_all add: zd_state_def zd_view_def)


section \<open>Dispatch\<close>



text \<open>
  With \<open>router_mandatory\<close> on, as the shipped configuration sets it, one message to a name no
  node has ends the dispatch loop, and with it the whole process; the messages behind it stay
  undelivered.
\<close>

lemma router_stops_on_unknown:
  assumes "router_contract v recv send" and "queue v z = f # t # m # rest"
    and "target v z = Idle" and "t \<notin> peers v z" and "mandatory v z"
  shows "\<exists>r z'. dispatch_loop recv send z = Some (r, z') \<and> r < 0 \<and> queue v z' = rest \<and> inbox v z' = inbox v z"
  by (rule dispatch_loop_stops [OF assms])

lemma router_stops_on_unknown_witness:
  "\<exists>r z'. dispatch_loop zd_recv zd_send (zd_state [[1], [9], [65], [1], [2], [66]] True) = Some (r, z') \<and>
     r < 0 \<and> zd_queue z' = [[1], [2], [66]] \<and> zd_inbox z' [2] = []"
proof -
  have q: "queue zd_view (zd_state [[1], [9], [65], [1], [2], [66]] True) = [1] # [9] # [65] # [[1], [2], [66]]"
    by simp
  from router_stops_on_unknown [OF zd_router q] show ?thesis by (auto simp: zd_view_def zd_state_def)
qed

text \<open>
  From node to node. What one node sends to another with \<open>qsf_node_send\<close>, one step of the
  dispatcher moves to the receiver, whose handler gets the sender's name and the same data from
  \<open>qsf_node_recv\<close>; afterwards nothing is left in any queue.
\<close>

lemma node_message_arrives:
  assumes "router_contract v recv send"
    and "dealer_contract v a asend arecv" and "dealer_contract v b bsend brecv"
    and "queue v z = []" and "target v z = Idle" and "b \<in> peers v z" and "inbox v z b = []"
    and "outbuf v z a = []" and "a \<noteq> []" and "length a < 32" and "b \<noteq> []" and "data \<noteq> []"
  shows "\<exists>z1 z2 z3. qsf_node_send asend b data z = Some z1 \<and>
    dispatch_message recv send z1 = (int (length data), z2) \<and>
    qsf_node_recv brecv func nowait h z2 =
      map_option (\<lambda>(r, h). (if 0 < r then r else 0, h, z3)) (func a data h) \<and>
    queue v z3 = [] \<and> inbox v z3 = inbox v z"
proof -
  have "length a < MAX_ID_LENGTH" using assms(10) by (simp add: MAX_ID_LENGTH_def)
  from node_to_node [OF assms(1-9) this assms(11,12)] show ?thesis .
qed

lemma node_message_arrives_witness:
  "\<exists>z1 z2 z3. qsf_node_send (zd_dealer_send [1]) [2] [65, 66] (zd_state [] True) = Some z1 \<and>
     dispatch_message zd_recv zd_send z1 = (2, z2) \<and>
     qsf_node_recv (zd_dealer_recv [2]) (\<lambda>nm d h. Some (7, h @ [(nm, d)])) False [] z2 = Some (7, [([1], [65, 66])], z3)"
  using node_message_arrives [OF zd_router zd_dealer [of "[1]"] zd_dealer [of "[2]"],
      of "zd_state [] True" "[65, 66]" "\<lambda>nm d h. Some (7, h @ [(nm, d)])" False "[]"]
  by auto

section \<open>Settings and log\<close>

text \<open>
  A setting is written once. \<open>qsf_setenv\<close> defines a name that has no value, a later
  \<open>qsf_getenv\<close> of it returns exactly that string whatever its default, every other name keeps
  its value, and a second \<open>qsf_setenv\<close> of the same name changes nothing.
\<close>

lemma env_set_get:
  assumes "qsf_setenv env key v = Some env'" and "is_cstr v" and "env_globals env = Some g"
    and "lua_isnoneornil (g key)"
  shows "qsf_getenv cv env' key d = Some (Some v) \<and>
    (k \<noteq> key \<longrightarrow> qsf_getenv cv env' k d = qsf_getenv cv env k d) \<and>
    qsf_setenv env' key w = Some env'"
  using getenv_after_setenv [OF assms(1,2)] setenv_twice [OF assms(1)] assms(3,4) by simp

lemma env_set_get_witness:
  "\<exists>env'. qsf_setenv \<lparr>env_globals = Some Map.empty\<rparr> [97] [49] = Some env' \<and>
     qsf_getenv no_conv env' [97] None = Some (Some [49]) \<and> qsf_setenv env' [97] [50] = Some env'"
proof -
  let ?e = "\<lparr>env_globals = Some Map.empty\<rparr>"
  obtain env' where e: "qsf_setenv ?e [97] [49] = Some env'" by (simp add: qsf_setenv_def)
  have "is_cstr [49]" "lua_isnoneornil (Map.empty [97])" by (simp_all add: is_cstr_def lua_isnoneornil_def)
  with env_set_get [OF e] e show ?thesis by auto
qed



text \<open>
  A log line whose prefix and text fit the 2048-byte buffer with the newline and the final
  NUL is written in full; a longer one is not cut but dropped without a trace.
\<close>

lemma log_line_fits_or_dropped:
  assumes "0 < length prefix" and "0 < length msg" and "length prefix \<le> 2048"
    and "qsf_enable_log_to_file st = 0"
  shows "qsf_vlog opened stamp prefix msg st =
    Some (if length prefix + length msg \<le> 2046
          then st\<lparr>log_stderr := log_stderr st @ prefix @ msg @ [10]\<rparr> else st)"
  using qsf_vlog_fits [OF assms(1,2) _ assms(4)] qsf_vlog_dropped [OF assms(1,3)] by simp

lemma log_line_fits_or_dropped_witness:
  "qsf_vlog False [] [65] (replicate 2045 66) \<lparr>log_stderr = [], log_file = [], qsf_enable_log_to_file = 0\<rparr>
     = Some \<lparr>log_stderr = [65] @ replicate 2045 66 @ [10], log_file = [], qsf_enable_log_to_file = 0\<rparr> \<and>
   qsf_vlog False [] [65] (replicate 2046 66) \<lparr>log_stderr = [], log_file = [], qsf_enable_log_to_file = 0\<rparr>
     = Some \<lparr>log_stderr = [], log_file = [], qsf_enable_log_to_file = 0\<rparr>"
  by (simp add: log_line_fits_or_dropped)

end
