(* ===== verification/Lua_Node.thy ===== *)
theory Lua_Node
  imports Router
begin

text \<open>
  The Lua module \<open>node\<close> of \<open>src/lualib/lua_node.c\<close>. The functions are closures over the node's
  pointer \<open>self\<close>. Each is a function of the argument list and of the state it touches; the outer
  option is a fault, the inner sum a Lua error.
\<close>

definition with_good_node ::
    "node_context \<Rightarrow> addr option \<Rightarrow> (addr \<Rightarrow> ('a lua_res \<times> 's) option) \<Rightarrow> 's \<Rightarrow> ('a lua_res \<times> 's) option"
where
  "with_good_node c self f st = do {
     good \<leftarrow> qsf_node_check_tag c self;
     if \<not> good then Some (luaL_error ''invalid node object'', st)
     else do { a \<leftarrow> self; f a }
   }"

definition node_send ::
    "lua_conv \<Rightarrow> node_context \<Rightarrow> addr option \<Rightarrow> 'z zsend \<Rightarrow> lua_value list \<Rightarrow> 'z
     \<Rightarrow> (lua_value list lua_res \<times> 'z) option" where
  "node_send cv c self zmq_send args z = with_good_node c self (\<lambda>_.
     case luaL_checklstring cv args 1 of Inl e \<Rightarrow> Some (Inl e, z) | Inr name \<Rightarrow>
     case luaL_checklstring cv args 2 of Inl e \<Rightarrow> Some (Inl e, z) | Inr data \<Rightarrow> do {
       z \<leftarrow> qsf_node_send zmq_send name data z;
       Some (Inr [], z) }) z"

text \<open>The handler pushes the two strings on the Lua stack \<open>st\<close> and returns their number.\<close>

definition handle_recv :: "bytes \<Rightarrow> bytes \<Rightarrow> lua_value list \<Rightarrow> (int \<times> lua_value list) option" where
  "handle_recv name data st = do {
     c_assert (name \<noteq> []);
     c_assert (data \<noteq> []);
     if 0 < length name \<and> 0 < length data
     then Some (2, st @ [L_str name, L_str data])
     else Some (0, st)
   }"

definition node_recv ::
    "lua_conv \<Rightarrow> node_context \<Rightarrow> addr option \<Rightarrow> 'z zrecv \<Rightarrow> lua_value list \<Rightarrow> 'z
     \<Rightarrow> (lua_value list lua_res \<times> 'z) option" where
  "node_recv cv c self zmq_msg_recv args z = with_good_node c self (\<lambda>_.
     let option = lua_tostring cv (lua_arg args (length args));
         nowait = (case option of None \<Rightarrow> False | Some s \<Rightarrow> strcmp_eq s (str ''nowait''))
     in do {
       (r, st, z) \<leftarrow> qsf_node_recv zmq_msg_recv handle_recv nowait args z;
       Some (Inr (drop (length st - nat r) st), z) }) z"

definition node_name :: "node_context \<Rightarrow> addr option \<Rightarrow> lua_value list \<Rightarrow> (lua_value list lua_res \<times> unit) option"
where
  "node_name c self args = with_good_node c self (\<lambda>a. do {
     name \<leftarrow> qsf_node_name c a;
     Some (Inr [L_str name], ()) }) ()"

text \<open>The scratch text \<open>"father args"\<close> the code formats is not passed on: \<open>args\<close> is.\<close>

definition node_launch ::
    "lua_conv \<Rightarrow> addr option \<Rightarrow> int \<Rightarrow> addr option \<Rightarrow> lua_value list \<Rightarrow> node_context
     \<Rightarrow> (lua_value list lua_res \<times> node_context) option" where
  "node_launch cv block thread self args c = with_good_node c self (\<lambda>a.
     case luaL_checkstring cv args 1 of Inl e \<Rightarrow> Some (Inl e, c) | Inr ident \<Rightarrow>
     case luaL_checkstring cv args 2 of Inl e \<Rightarrow> Some (Inl e, c) | Inr path \<Rightarrow> do {
       father \<leftarrow> qsf_node_name c a;
       case (if 2 < length args then luaL_checklstring cv args 3 else Inr [])
       of Inl e \<Rightarrow> Some (Inl e, c) | Inr arg \<Rightarrow> do {
         (r, c) \<leftarrow> qsf_create_node block thread ident path (cstr arg) c;
         Some (Inr [L_bool (r = 0)], c) } }) c"

text \<open>\<open>uv_run\<close> is the effect \<open>run\<close> on the world of the node's event loop.\<close>

definition node_run_loop ::
    "node_context \<Rightarrow> addr option \<Rightarrow> ('w \<Rightarrow> (int \<times> 'w) option) \<Rightarrow> 'w \<Rightarrow> (lua_value list lua_res \<times> 'w) option" where
  "node_run_loop c self run w = with_good_node c self (\<lambda>_. do {
     (r, w) \<leftarrow> run w;
     Some (Inr [], w) }) w"

definition node_lib :: "(bytes \<times> bytes) list" where
  "node_lib =
    [(str ''send'', str ''node_send''), (str ''recv'', str ''node_recv''), (str ''name'', str ''node_name''),
     (str ''run'', str ''node_run''), (str ''launch'', str ''node_launch'')]"

definition luaopen_node_lib :: "lua_value option \<Rightarrow> (bytes \<times> bytes) list lua_res" where
  "luaopen_node_lib qsf_ctx =
    (case qsf_ctx of
       Some (L_light p) \<Rightarrow> Inr node_lib
     | Some (L_userdata p) \<Rightarrow> Inr node_lib
     | _ \<Rightarrow> Inl (Arg_error 1))"

section \<open>The module against the node functions\<close>

lemma node_send_ok:
  assumes "qsf_node_check_tag c self = Some True"
    and "lua_arg args 1 = Some (L_str name)" and "lua_arg args 2 = Some (L_str data)"
  shows "node_send cv c self zsend args z = map_option (Pair (Inr [])) (qsf_node_send zsend name data z)"
proof -
  obtain a where "self = Some a"
    using assms(1) by (cases self) (auto simp: qsf_node_check_tag_def)
  then show ?thesis
    using assms by (cases "qsf_node_send zsend name data z") (simp_all add: node_send_def with_good_node_def)
qed

lemma node_recv_pair:
  assumes "qsf_node_check_tag c self = Some True"
    and "qsf_node_recv zrecv handle_recv (case lua_tostring cv (lua_arg args (length args)) of
        None \<Rightarrow> False | Some s \<Rightarrow> strcmp_eq s (str ''nowait'')) args z = Some (2, args @ [L_str name, L_str data], z')"
  shows "node_recv cv c self zrecv args z = Some (Inr [L_str name, L_str data], z')"
proof -
  obtain a where "self = Some a"
    using assms(1) by (cases self) (auto simp: qsf_node_check_tag_def)
  then show ?thesis using assms by (simp add: node_recv_def with_good_node_def)
qed

lemma handle_recv_pair: "name \<noteq> [] \<Longrightarrow> data \<noteq> [] \<Longrightarrow>
    handle_recv name data st = Some (2, st @ [L_str name, L_str data])"
  by (simp add: handle_recv_def)

end
