(* ===== verification/Lua_Net.thy ===== *)
theory Lua_Net
  imports Net_Stream Lua_Node
begin

text \<open>
  The Lua module \<open>net\<close> of \<open>src/lualib/lua_net.c\<close>: a net server as a Lua object. The user data
  of the server is the structure \<open>net_server_t\<close> with the reference of its read callback. The
  part of the Lua state it reaches is kept beside it: the registry slots and the values left on
  the stack of the state \<open>L\<close> that is stored in the object.

  \<open>lua_call f args s\<close> stands for the call of the Lua function \<open>f\<close>: it may use the server again,
  and either returns (\<open>None\<close>) or raises an error whose message stays on the stack.
\<close>

record net_server_t =
  read_ref :: int
  L_registry :: "int \<Rightarrow> lua_value"
  L_stack :: "lua_value list"

definition LUA_NOREF :: int where "LUA_NOREF = -2"

datatype read_handler = On_server_read

type_synonym lua_server = "(read_handler, net_server_t) net_server"
type_synonym lua_calls = "nat \<Rightarrow> lua_value list \<Rightarrow> lua_server \<Rightarrow> (lua_value option \<times> lua_server) option"

definition upd_ud :: "(net_server_t \<Rightarrow> net_server_t) \<Rightarrow> lua_server \<Rightarrow> lua_server" where
  "upd_ud f s = s\<lparr>udata := f (udata s)\<rparr>"

definition push_value :: "lua_value \<Rightarrow> lua_server \<Rightarrow> lua_server" where
  "push_value v = upd_ud (\<lambda>u. u\<lparr>L_stack := L_stack u @ [v]\<rparr>)"

section \<open>The read callback\<close>

text \<open>\<open>qsf_trace_pcall\<close>: the function and its arguments are popped, an error message stays.\<close>

definition qsf_trace_pcall :: "lua_calls \<Rightarrow> nat \<Rightarrow> lua_value list \<Rightarrow> lua_server \<Rightarrow> (int \<times> lua_server) option" where
  "qsf_trace_pcall lua_call f args s = do {
     (err, s) \<leftarrow> lua_call f args s;
     case err of
       None \<Rightarrow> Some (0, s)
     | Some msg \<Rightarrow> Some (2, push_value msg s)
   }"

fun on_server_read :: "lua_calls \<Rightarrow> (read_handler, net_server_t) handler" where
  "on_server_read lua_call On_server_read err serial data n s = do {
     c_assert (n \<noteq> 0);
     let f = L_registry (udata s) (read_ref (udata s));
     case f of
       L_fun i \<Rightarrow> do {
         (r, s) \<leftarrow> qsf_trace_pcall lua_call i
           [if err = 0 then L_nil else L_int (of_int err), L_int (ucast serial),
            L_str (take (unat n) data)] s;
         Some s }
     | _ \<Rightarrow> Some (push_value f s)
   }"

section \<open>The functions\<close>

definition get_loop :: "node_context \<Rightarrow> addr option \<Rightarrow> unit lua_res option" where
  "get_loop c self = do {
     good \<leftarrow> qsf_node_check_tag c self;
     Some (if good then Inr () else luaL_error ''invalid node object'')
   }"

definition create_server ::
    "lua_conv \<Rightarrow> node_context \<Rightarrow> addr option \<Rightarrow> bool \<Rightarrow> int \<Rightarrow> int \<Rightarrow> net_server_t \<Rightarrow> lua_value list
     \<Rightarrow> lua_server lua_res option" where
  "create_server cv c self got_block tcp_init timer_init ud args = do {
     loop \<leftarrow> get_loop c self;
     case loop of Inl e \<Rightarrow> Some (Inl e) | Inr _ \<Rightarrow>
     case luaL_optinteger cv args 1 (of_int NET_DEFAULT_MAX_CONN) of Inl e \<Rightarrow> Some (Inl e) | Inr maxc \<Rightarrow>
     case luaL_optinteger cv args 2 (of_int NET_DEFAULT_HEARTBEAT) of Inl e \<Rightarrow> Some (Inl e) | Inr beat \<Rightarrow>
     case luaL_optinteger cv args 3 (of_int NET_DEFAULT_HEARTBEAT_CHECK) of Inl e \<Rightarrow> Some (Inl e) | Inr check \<Rightarrow> do {
       s \<leftarrow> qsf_create_net_server got_block tcp_init timer_init ud (ucast maxc) (ucast beat) (ucast check);
       let ud = ud\<lparr>read_ref := LUA_NOREF\<rparr>;
       Some (Inr (qsf_net_set_server_udata ud s)) }
   }"

definition luaL_unref :: "int \<Rightarrow> net_server_t \<Rightarrow> net_server_t" where
  "luaL_unref ref u = (if 0 \<le> ref then u\<lparr>L_registry := (L_registry u)(ref := L_nil)\<rparr> else u)"

definition server_gc :: "lua_server \<Rightarrow> lua_server option" where
  "server_gc s = do {
     s \<leftarrow> qsf_net_server_destroy s;
     Some (upd_ud (\<lambda>u. luaL_unref (read_ref u) u) s)
   }"

text \<open>
  Argument 1 is the object itself. The old callback is released before the arguments are
  checked; \<open>luaL_ref\<close> takes the value on top of the stack, which is the last argument, into the
  free slot \<open>slot\<close>.
\<close>

definition server_start ::
    "lua_conv \<Rightarrow> start_env \<Rightarrow> int \<Rightarrow> lua_value list \<Rightarrow> lua_server \<Rightarrow> (unit lua_res \<times> lua_server) option" where
  "server_start cv e slot args s =
    (let s = upd_ud (\<lambda>u. luaL_unref (read_ref u) u) s in
     case luaL_checkstring cv args 2 of Inl er \<Rightarrow> Some (Inl er, s) | Inr host \<Rightarrow>
     case luaL_checkinteger cv args 3 of Inl er \<Rightarrow> Some (Inl er, s) | Inr port \<Rightarrow>
     if \<not> lua_isfunction (lua_arg args 4) then Some (Inl (Arg_error 4), s)
     else do {
       c_assert (slot \<noteq> LUA_NOREF);
       let s = upd_ud (\<lambda>u. u\<lparr>L_registry := (L_registry u)(slot := last args), read_ref := slot\<rparr>) s;
       let (r, s) = qsf_net_server_start e On_server_read s;
       Some (if r < 0 then luaL_error ''net.server start failed'' else Inr (), s) })"

definition server_stop :: "lua_server \<Rightarrow> (unit lua_res \<times> lua_server) option" where
  "server_stop s = do { s \<leftarrow> qsf_net_server_stop s; Some (Inr (), s) }"

definition UINT16_MAX :: nat where "UINT16_MAX = 65535"

definition server_write ::
    "lua_conv \<Rightarrow> write_env \<Rightarrow> lua_value list \<Rightarrow> lua_server \<Rightarrow> (unit lua_res \<times> lua_server) option" where
  "server_write cv e args s =
    (case luaL_checkinteger cv args 2 of Inl er \<Rightarrow> Some (Inl er, s) | Inr serial \<Rightarrow>
     case luaL_checklstring cv args 3 of Inl er \<Rightarrow> Some (Inl er, s) | Inr data \<Rightarrow>
     if length data \<le> UINT16_MAX
     then do {
       (r, s) \<leftarrow> qsf_net_server_write e (ucast serial) data (of_nat (length data)) s;
       Some (Inr (), s) }
     else Some (luaL_error ''too big packet to write'', s))"

definition server_broadcast ::
    "lua_conv \<Rightarrow> write_env \<Rightarrow> lua_value list \<Rightarrow> lua_server \<Rightarrow> (unit lua_res \<times> lua_server) option" where
  "server_broadcast cv e args s =
    (case luaL_checklstring cv args 2 of Inl er \<Rightarrow> Some (Inl er, s) | Inr data \<Rightarrow>
     if length data \<le> UINT16_MAX
     then do {
       (r, s) \<leftarrow> qsf_net_server_write_all e data (of_nat (length data)) s;
       Some (Inr (), s) }
     else Some (luaL_error ''too big packet to write'', s))"

definition server_shutdown ::
    "lua_conv \<Rightarrow> bool \<Rightarrow> int \<Rightarrow> lua_value list \<Rightarrow> lua_server \<Rightarrow> (unit lua_res \<times> lua_server) option" where
  "server_shutdown cv got r args s =
    (case luaL_checkinteger cv args 2 of Inl er \<Rightarrow> Some (Inl er, s) | Inr serial \<Rightarrow> do {
       s \<leftarrow> qsf_net_server_shutdown got r (ucast serial) s;
       Some (Inr (), s) })"

definition server_close ::
    "lua_conv \<Rightarrow> lua_value list \<Rightarrow> lua_server \<Rightarrow> (unit lua_res \<times> lua_server) option" where
  "server_close cv args s =
    (case luaL_checkinteger cv args 2 of Inl er \<Rightarrow> Some (Inl er, s) | Inr serial \<Rightarrow> do {
       s \<leftarrow> qsf_net_server_close (ucast serial) s;
       Some (Inr (), s) })"

definition server_address_of ::
    "lua_conv \<Rightarrow> (bytes \<Rightarrow> int \<Rightarrow> int \<times> bytes) \<Rightarrow> lua_value list \<Rightarrow> lua_server
     \<Rightarrow> (lua_value list lua_res \<times> lua_server) option" where
  "server_address_of cv uv_ip4_name args s =
    (case luaL_checkinteger cv args 2 of Inl er \<Rightarrow> Some (Inl er, s) | Inr serial \<Rightarrow> do {
       (r, name) \<leftarrow> qsf_net_server_session_address uv_ip4_name (ucast serial) 20 s;
       let address = (case name of None \<Rightarrow> replicate 20 0 | Some b \<Rightarrow> b);
       Some (Inr [L_str (cstr address)], s) })"

definition server_size :: "lua_server \<Rightarrow> (lua_value list lua_res \<times> lua_server) option" where
  "server_size s = do {
     n \<leftarrow> qsf_net_server_size s;
     Some (Inr [L_int (of_int n)], s)
   }"

definition server_methods :: "(bytes \<times> bytes) list" where
  "server_methods =
    [(str ''__gc'', str ''server_gc''), (str ''start'', str ''server_start''), (str ''stop'', str ''server_stop''),
     (str ''write'', str ''server_write''), (str ''broadcast'', str ''server_broadcast''),
     (str ''shutdown'', str ''server_shutdown''), (str ''kick'', str ''server_close''),
     (str ''addressOf'', str ''server_address_of''), (str ''size'', str ''server_size'')]"

definition luaopen_net_lib :: "lua_value option \<Rightarrow> (bytes \<times> bytes) list lua_res" where
  "luaopen_net_lib qsf_ctx =
    (case qsf_ctx of
       Some (L_light p) \<Rightarrow> Inr [(str ''createServer'', str ''create_server'')]
     | Some (L_userdata p) \<Rightarrow> Inr [(str ''createServer'', str ''create_server'')]
     | _ \<Rightarrow> Inl (Arg_error 1))"

section \<open>Properties of the binding\<close>

text \<open>A Lua callback whose calls return, keep the server and leave no error behind.\<close>

definition calls_tame :: "lua_calls \<Rightarrow> bool" where
  "calls_tame lua_call \<longleftrightarrow> (\<forall>f args s. \<exists>err s'. lua_call f args s = Some (err, s') \<and> keeps s s')"

lemma keeps_push [simp]: "keeps s (push_value v s)"
  by (simp add: keeps_def push_value_def upd_ud_def)

text \<open>
  The assertion on the size never fails: the server calls with messages of at least one byte
  and with its own error texts. So the callback returns and keeps the server.
\<close>

lemma on_server_read_keeps:
  assumes "calls_tame lua_call" and "n \<noteq> 0"
  shows "\<exists>s'. on_server_read lua_call c err k d n s = Some s' \<and> keeps s s'"
proof (cases "L_registry (udata s) (read_ref (udata s))")
  case (L_fun i)
  define args where "args = [if err = 0 then L_nil else L_int (of_int err), L_int (ucast k), L_str (take (unat n) d)]"
  obtain er s1 where s1: "lua_call i args s = Some (er, s1)" "keeps s s1"
    using assms(1) unfolding calls_tame_def by blast
  have k: "keeps s (push_value v s1)" for v by (rule keeps_trans [OF s1(2)]) simp
  show ?thesis
    using L_fun s1 k assms(2) unfolding args_def
    by (cases c; cases er) (simp_all add: qsf_trace_pcall_def)
qed (cases c; use assms(2) in simp)+

text \<open>What a message looks like in Lua.\<close>

lemma on_server_read_calls:
  assumes "wire_ok m" and "L_registry (udata s) (read_ref (udata s)) = L_fun i"
  shows "on_server_read lua_call On_server_read 0 k m (of_nat (length m)) s =
    map_option snd (qsf_trace_pcall lua_call i [L_nil, L_int (ucast k), L_str m] s)"
proof -
  have n: "unat (of_nat (length m) :: u16) = length m"
    using assms(1) by (intro unat_of_nat_u16) (simp add: wire_ok_def)
  then have "(of_nat (length m) :: u16) \<noteq> 0"
    using assms(1) by (metis unsigned_0 wire_ok_def less_numeral_extra(3))
  then show ?thesis
    using n assms(2) by (cases "qsf_trace_pcall lua_call i [L_nil, L_int (ucast k), L_str m] s") auto
qed

text \<open>Writing from Lua: the size check, the empty string, and the packet that leaves.\<close>

lemma server_write_empty:
  assumes "lua_arg args 2 = Some (L_int k)" and "lua_arg args 3 = Some (L_str [])"
  shows "server_write cv e args s = None"
  using assms by (simp add: server_write_def qsf_net_server_write_def)

lemma server_write_too_big:
  assumes "lua_arg args 2 = Some (L_int k)" and "lua_arg args 3 = Some (L_str d)" and "65535 < length d"
  shows "server_write cv e args s = Some (luaL_error ''too big packet to write'', s)"
  using assms by (simp add: server_write_def UINT16_MAX_def)

text \<open>After a rejected restart the released reference is still the object's callback reference.\<close>

lemma server_start_stale:
  assumes "lua_arg args 2 = Some (L_str h)" and "lua_arg args 3 = Some (L_int p)"
    and "\<not> lua_isfunction (lua_arg args 4)" and "0 \<le> read_ref (udata s)"
  shows "\<exists>s'. server_start cv e slot args s = Some (Inl (Arg_error 4), s') \<and>
    read_ref (udata s') = read_ref (udata s) \<and> L_registry (udata s') (read_ref (udata s')) = L_nil"
  using assms by (simp add: server_start_def upd_ud_def luaL_unref_def Let_def)

end
