(* ===== verification/Lua_Stream.thy ===== *)
theory Lua_Stream
  imports Lua_Net
begin

text \<open>
  Two scripts that talk to each other over the net: what one writes with \<open>server:write\<close>
  (\<open>src/lualib/lua_net.c\<close>) and what the callback of the other is called with. A script is a
  function of the callback's arguments and of the part of its Lua state that the module reaches;
  it may raise an error, whose message then stays on the stack. Scripts that call the server again
  from inside the callback are left to the general theorems on handlers.
\<close>

type_synonym script = "nat \<Rightarrow> lua_value list \<Rightarrow> net_server_t \<Rightarrow> lua_value option \<times> net_server_t"

definition runs_script :: "lua_calls \<Rightarrow> script \<Rightarrow> bool" where
  "runs_script lua_call script \<longleftrightarrow> (\<forall>i args s. lua_call i args s =
     Some (fst (script i args (udata s)), s\<lparr>udata := snd (script i args (udata s))\<rparr>))"

text \<open>The Lua state after one call of the callback, and the arguments a message is handed over with.\<close>

definition after_call :: "script \<Rightarrow> nat \<Rightarrow> lua_value list \<Rightarrow> net_server_t \<Rightarrow> net_server_t" where
  "after_call script i args u =
    (case script i args u of (None, u) \<Rightarrow> u | (Some msg, u) \<Rightarrow> u\<lparr>L_stack := L_stack u @ [msg]\<rparr>)"

definition msg_args :: "u32 \<Rightarrow> bytes \<Rightarrow> lua_value list" where
  "msg_args k m = [L_nil, L_int (ucast k), L_str m]"

definition lua_told :: "script \<Rightarrow> u32 \<Rightarrow> bytes \<Rightarrow> net_server_t \<Rightarrow> net_server_t" where
  "lua_told script k m u = (case L_registry u (read_ref u) of
     L_fun i \<Rightarrow> after_call script i (msg_args k m) u | v \<Rightarrow> u\<lparr>L_stack := L_stack u @ [v]\<rparr>)"

lemma script_tame:
  assumes "runs_script lua_call script"
  shows "tame_msgs (on_server_read lua_call) (lua_told script)"
  unfolding tame_msgs_def
proof (intro allI impI)
  fix c :: read_handler and k :: u32 and m :: bytes and s :: lua_server
  assume m: "wire_ok m"
  have c: "c = On_server_read" by (cases c) simp
  show "\<exists>s'. on_server_read lua_call c 0 k m (of_nat (length m)) s = Some s' \<and> keeps s s' \<and>
      udata s' = lua_told script k m (udata s)"
  proof (cases "L_registry (udata s) (read_ref (udata s))")
    case (L_fun i)
    obtain er u where r: "script i (msg_args k m) (udata s) = (er, u)" by fastforce
    have "lua_call i [L_nil, L_int (ucast k), L_str m] s = Some (er, s\<lparr>udata := u\<rparr>)"
      using assms r by (simp add: runs_script_def msg_args_def)
    then show ?thesis
      unfolding c on_server_read_calls [OF m L_fun] using L_fun r
      by (cases er) (simp_all add: qsf_trace_pcall_def lua_told_def after_call_def keeps_def push_value_def upd_ud_def)
  qed (use write_ok_wire(1) [OF m, of "\<lparr>we_malloc = \<lambda>_. True, we_write = \<lambda>_. 0\<rparr>"] in
      \<open>simp_all add: c lua_told_def keeps_def push_value_def upd_ud_def write_ok_def\<close>)
qed

text \<open>A script whose calls leave its own callback registered is called for every message.\<close>

definition keeps_callback :: "script \<Rightarrow> nat \<Rightarrow> int \<Rightarrow> bool" where
  "keeps_callback script i r \<longleftrightarrow> (\<forall>args u. read_ref u = r \<longrightarrow> L_registry u r = L_fun i \<longrightarrow>
     read_ref (snd (script i args u)) = r \<and> L_registry (snd (script i args u)) r = L_fun i)"

lemma lua_told_fold:
  assumes "keeps_callback script i r" and "read_ref u = r" and "L_registry u r = L_fun i"
  shows "fold (\<lambda>(k, m). lua_told script k m) log u = fold (after_call script i) (map (\<lambda>(k, m). msg_args k m) log) u"
  using assms(2,3)
proof (induction log arbitrary: u)
  case (Cons e log)
  obtain k m where e: "e = (k, m)" by (cases e)
  let ?u = "after_call script i (msg_args k m) u"
  have "read_ref ?u = r \<and> L_registry ?u r = L_fun i"
    using assms(1) Cons.prems by (auto simp: keeps_callback_def after_call_def split: prod.splits option.splits dest!: spec [of _ "msg_args k m"])
  then have "fold (\<lambda>(k, m). lua_told script k m) log ?u = fold (after_call script i) (map (\<lambda>(k, m). msg_args k m) log) ?u"
    using Cons.IH by blast
  moreover have "lua_told script k m u = ?u" using Cons.prems by (simp add: lua_told_def)
  ultimately show ?case by (simp add: e)
qed simp

text \<open>The arguments carry the serial number, so the calls of one session can be lua_told apart.\<close>

lemma msg_args_serial: "msg_args k m ! Suc 0 = L_int (ucast j) \<longleftrightarrow> k = j"
proof -
  have "ucast (ucast x :: lua_Integer) = x" for x :: u32 by (simp add: ucast_up_ucast_id is_up)
  then have "(ucast k :: lua_Integer) = ucast j \<longleftrightarrow> k = j" by metis
  then show ?thesis by (simp add: msg_args_def)
qed

lemma calls_of_session:
  "filter (\<lambda>args. args ! 1 = L_int (ucast j)) (map (\<lambda>(k, m). msg_args k m) log) = map (msg_args j) (msgs_of j log)"
proof -
  have "filter (\<lambda>args. args ! 1 = L_int (ucast j)) (map (\<lambda>(k, m). msg_args k m) log) =
      map (\<lambda>(k, m). msg_args k m) (filter (\<lambda>e. fst e = j) log)"
    by (simp add: filter_map o_def split_beta msg_args_serial)
  then show ?thesis by (auto simp: msgs_of_def)
qed

section \<open>Writing\<close>

text \<open>A script that writes one message after the other, none of them rejected.\<close>

fun server_writes ::
    "lua_conv \<Rightarrow> write_env \<Rightarrow> lua_value \<Rightarrow> lua_Integer \<Rightarrow> bytes list \<Rightarrow> lua_server \<Rightarrow> lua_server option" where
  "server_writes cv e self k [] s = Some s"
| "server_writes cv e self k (m # ms) s = do {
     (r, s) \<leftarrow> server_write cv e [self, L_int k, L_str m] s;
     c_assert (r = Inr ());
     server_writes cv e self k ms s }"

lemma server_writes_msgs:
  assumes "write_msgs e (ucast k) ms s = Some s'" and "\<forall>m \<in> set ms. wire_ok m"
  shows "server_writes cv e self k ms s = Some s'"
  using assms
proof (induction ms arbitrary: s)
  case (Cons m ms)
  obtain s1 where w: "qsf_net_server_write e (ucast k) m (of_nat (length m)) s = Some (0, s1)"
      "write_msgs e (ucast k) ms s1 = Some s'"
    using Cons.prems(1) by (auto simp: bind_Some_conv c_assert_def split: if_splits)
  have "server_write cv e [self, L_int k, L_str m] s = Some (Inr (), s1)"
    using Cons.prems(2) w(1) by (simp add: server_write_def lua_arg_def UINT16_MAX_def wire_ok_def)
  then show ?case using Cons.IH [OF w(2)] Cons.prems(2) by (simp add: c_assert_def)
qed simp

end
