(* ===== verification/Base64.thy ===== *)
theory Base64
  imports Lua_Api
begin

text \<open>
  The module \<open>base64\<close> of \<open>src/lualib/lua_b64.c\<close>: the two conversion routines with the state and
  the bounds checks of the code, and the two Lua functions with the buffer sizes they compute.

  A target buffer is a list of bytes in which \<open>None\<close> has not been written; the null pointer is
  \<open>None\<close>. A routine that returns \<open>-1\<close> gives that number; a write through a null pointer, a
  write or read outside the buffer, and a failed \<open>Assert\<close> are faults.
\<close>

section \<open>The alphabet\<close>

definition Base64 :: bytes where
  "Base64 = str ''ABCDEFGHIJKLMNOPQRSTUVWXYZabcdefghijklmnopqrstuvwxyz0123456789+/''"

definition Pad64 :: byte where "Pad64 = 61"

definition b64_isspace :: "byte \<Rightarrow> bool" where
  "b64_isspace c \<longleftrightarrow> c = 32 \<or> (9 \<le> c \<and> c \<le> 13)"

text \<open>\<open>strchr(Base64, ch) - Base64\<close>, for \<open>ch\<close> that is not NUL.\<close>

fun index_of :: "byte \<Rightarrow> bytes \<Rightarrow> nat option" where
  "index_of c [] = None"
| "index_of c (x # xs) = (if x = c then Some 0 else map_option Suc (index_of c xs))"

definition b64_pos :: "byte \<Rightarrow> byte option" where
  "b64_pos c = map_option of_nat (index_of c Base64)"

section \<open>Encoding\<close>

definition b64_out0 :: "byte \<Rightarrow> byte" where
  "b64_out0 a = drop_bit 2 a"
definition b64_out1 :: "byte \<Rightarrow> byte \<Rightarrow> byte" where
  "b64_out1 a b = push_bit 4 (a AND 0x03) + drop_bit 4 b"
definition b64_out2 :: "byte \<Rightarrow> byte \<Rightarrow> byte" where
  "b64_out2 b c = push_bit 2 (b AND 0x0f) + drop_bit 6 c"
definition b64_out3 :: "byte \<Rightarrow> byte" where
  "b64_out3 c = c AND 0x3f"

definition b64_char :: "byte \<Rightarrow> byte" where
  "b64_char v = Base64 ! unat v"

text \<open>The loop over whole groups; \<open>Inl\<close> is the return of \<open>-1\<close>, \<open>Inr\<close> the rest and the output.\<close>

fun ntop_loop :: "bool \<Rightarrow> bytes \<Rightarrow> bytes \<Rightarrow> nat \<Rightarrow> (unit + bytes \<times> bytes) option" where
  "ntop_loop target (a # b # c # src) out targsize = do {
     let o0 = b64_out0 a; let o1 = b64_out1 a b; let o2 = b64_out2 b c; let o3 = b64_out3 c;
     c_assert (o0 < 64); c_assert (o1 < 64); c_assert (o2 < 64); c_assert (o3 < 64);
     if targsize < length out + 4 then Some (Inl ())
     else do {
       c_assert target;
       ntop_loop target src (out @ [b64_char o0, b64_char o1, b64_char o2, b64_char o3]) targsize } }"
| "ntop_loop target src out targsize = Some (Inr (src, out))"

definition b64_ntop :: "bool \<Rightarrow> bytes \<Rightarrow> nat \<Rightarrow> (int \<times> bytes) option" where
  "b64_ntop target src targsize = do {
     r \<leftarrow> ntop_loop target src [] targsize;
     case r of
       Inl _ \<Rightarrow> Some (-1, [])
     | Inr (src, out) \<Rightarrow> do {
         r \<leftarrow> (if src \<noteq> []
              then do {
                let i0 = src ! 0;
                let i1 = (if 2 \<le> length src then src ! 1 else 0);
                let o0 = b64_out0 i0; let o1 = b64_out1 i0 i1; let o2 = b64_out2 i1 0;
                c_assert (o0 < 64); c_assert (o1 < 64); c_assert (o2 < 64);
                if targsize < length out + 4 then Some None
                else do {
                  c_assert target;
                  Some (Some (out @ [b64_char o0, b64_char o1,
                    if length src = 1 then Pad64 else b64_char o2, Pad64])) } }
              else Some (Some out));
         case r of
           None \<Rightarrow> Some (-1, [])
         | Some out \<Rightarrow>
             if targsize \<le> length out then Some (-1, [])
             else do { c_assert target; Some (int (length out), out) } }
   }"

section \<open>Decoding\<close>

type_synonym b64_target = "byte option list option"

definition t_put :: "b64_target \<Rightarrow> nat \<Rightarrow> byte \<Rightarrow> b64_target" where
  "t_put t i v = map_option (\<lambda>b. b[i := Some v]) t"

definition t_get :: "b64_target \<Rightarrow> nat \<Rightarrow> byte option" where
  "t_get t i = (case t of Some b \<Rightarrow> if i < length b then b ! i else None | None \<Rightarrow> None)"

text \<open>\<open>target[i] |= v\<close>: reads the byte, which must have been written.\<close>

definition t_or :: "b64_target \<Rightarrow> nat \<Rightarrow> byte \<Rightarrow> b64_target option" where
  "t_or t i v = do { x \<leftarrow> t_get t i; Some (t_put t i (x OR v)) }"

text \<open>
  The \<open>switch (state)\<close> of the decoding loop on the value \<open>v\<close> of a character: \<open>None\<close> inside is
  the return of \<open>-1\<close>.
\<close>

definition pton_step ::
    "nat \<Rightarrow> byte \<Rightarrow> nat \<Rightarrow> nat \<Rightarrow> b64_target \<Rightarrow> (nat \<times> nat \<times> b64_target) option option" where
  "pton_step targsize v state tarindex target =
    (if state = 0 then
       (if target = None then Some (Some (1, tarindex, target))
        else if targsize \<le> tarindex then Some None
        else Some (Some (1, tarindex, t_put target tarindex (push_bit 2 v))))
     else if state = 1 then
       (if target = None then Some (Some (2, tarindex + 1, target))
        else if targsize \<le> tarindex + 1 then Some None
        else do {
          t \<leftarrow> t_or target tarindex (drop_bit 4 v);
          Some (Some (2, tarindex + 1, t_put t (tarindex + 1) (push_bit 4 (v AND 0x0f)))) })
     else if state = 2 then
       (if target = None then Some (Some (3, tarindex + 1, target))
        else if targsize \<le> tarindex + 1 then Some None
        else do {
          t \<leftarrow> t_or target tarindex (drop_bit 2 v);
          Some (Some (3, tarindex + 1, t_put t (tarindex + 1) (push_bit 6 (v AND 0x03)))) })
     else if state = 3 then
       (if target = None then Some (Some (0, tarindex + 1, target))
        else if targsize \<le> tarindex then Some None
        else do {
          t \<leftarrow> t_or target tarindex v;
          Some (Some (0, tarindex + 1, t)) })
     else None)"

text \<open>How the loop is left: with \<open>-1\<close>, at the NUL, or behind the first pad character.\<close>

datatype pton_exit =
    P_bad
  | P_end nat nat b64_target
  | P_pad bytes nat nat b64_target

text \<open>The source is a C string: the end of the list is its NUL.\<close>

fun pton_loop :: "nat \<Rightarrow> bytes \<Rightarrow> nat \<Rightarrow> nat \<Rightarrow> b64_target \<Rightarrow> pton_exit option" where
  "pton_loop targsize [] state tarindex target = Some (P_end state tarindex target)"
| "pton_loop targsize (ch # src) state tarindex target =
    (if b64_isspace ch then pton_loop targsize src state tarindex target
     else if ch = Pad64 then Some (P_pad src state tarindex target)
     else case b64_pos ch of
       None \<Rightarrow> Some P_bad
     | Some v \<Rightarrow>
         (case pton_step targsize v state tarindex target of
            None \<Rightarrow> None
          | Some None \<Rightarrow> Some P_bad
          | Some (Some (state, tarindex, target)) \<Rightarrow> pton_loop targsize src state tarindex target))"

text \<open>The checks behind a pad character in state 3, on the characters that follow.\<close>

definition pton_tail :: "bytes \<Rightarrow> nat \<Rightarrow> b64_target \<Rightarrow> (int \<times> b64_target) option" where
  "pton_tail src tarindex target =
    (if \<not> list_all b64_isspace src then Some (-1, target)
     else if target = None then Some (int tarindex, target)
     else do {
       x \<leftarrow> t_get target tarindex;
       Some (if x \<noteq> 0 then -1 else int tarindex, target) })"

definition b64_pton :: "bytes \<Rightarrow> b64_target \<Rightarrow> nat \<Rightarrow> (int \<times> b64_target) option" where
  "b64_pton src target targsize = do {
     r \<leftarrow> pton_loop targsize src 0 0 target;
     case r of
       P_bad \<Rightarrow> Some (-1, target)
     | P_end state tarindex target \<Rightarrow> Some (if state \<noteq> 0 then -1 else int tarindex, target)
     | P_pad src state tarindex target \<Rightarrow>
         if state = 0 \<or> state = 1 then Some (-1, target)
         else if state = 2
         then (case dropWhile b64_isspace src of
                 [] \<Rightarrow> Some (-1, target)
               | ch # src \<Rightarrow> if ch \<noteq> Pad64 then Some (-1, target) else pton_tail src tarindex target)
         else pton_tail src tarindex target
   }"

section \<open>The Lua functions\<close>

text \<open>The sizes are computed in \<open>size_t\<close>; the decode size is exact for lengths below \<open>2 ^ 31\<close>.\<close>

definition B64_CHARS :: "u64 \<Rightarrow> u64" where
  "B64_CHARS x = (x + 2) div 3 * 4"

definition B64_ENCODE_LEN :: "u64 \<Rightarrow> u64" where
  "B64_ENCODE_LEN x = B64_CHARS x + (B64_CHARS x - 1) div 76 + 1"

definition B64_DECODE_LEN :: "nat \<Rightarrow> nat" where
  "B64_DECODE_LEN x = (x * 3 + 3) div 4"

text \<open>\<open>lua_pushlstring(L, buf, len)\<close> with \<open>len\<close> converted from \<open>int\<close> to \<open>size_t\<close>.\<close>

definition push_buf :: "bytes \<Rightarrow> int \<Rightarrow> lua_value option" where
  "push_buf b len = (if 0 \<le> len \<and> nat len \<le> length b then Some (L_str (take (nat len) b)) else None)"

definition base64_encode :: "lua_conv \<Rightarrow> (nat \<Rightarrow> bool) \<Rightarrow> lua_value list \<Rightarrow> lua_value lua_res option" where
  "base64_encode cv avail args =
    (case luaL_checklstring cv args 1 of Inl e \<Rightarrow> Some (Inl e) | Inr data \<Rightarrow> do {
       let needlen = unat (B64_ENCODE_LEN (of_nat (length data)));
       (len, outbuf) \<leftarrow> b64_ntop (avail needlen) data needlen;
       v \<leftarrow> push_buf outbuf len;
       Some (Inr v) })"

definition base64_decode :: "lua_conv \<Rightarrow> (nat \<Rightarrow> bool) \<Rightarrow> lua_value list \<Rightarrow> lua_value lua_res option" where
  "base64_decode cv avail args =
    (case luaL_checklstring cv args 1 of Inl e \<Rightarrow> Some (Inl e) | Inr data \<Rightarrow> do {
       let needlen = B64_DECODE_LEN (length data);
       let outbuf = (if avail needlen then Some (replicate needlen None) else None);
       (len, outbuf) \<leftarrow> b64_pton (cstr data) outbuf needlen;
       let b = (case outbuf of None \<Rightarrow> [] | Some b \<Rightarrow> b);
       c_assert (0 \<le> len \<and> nat len \<le> length b \<and> None \<notin> set (take (nat len) b));
       Some (Inr (L_str (map the (take (nat len) b)))) })"

end
