(* ===== verification/Base64_Correct.thy ===== *)
theory Base64_Correct
  imports Base64
begin

text \<open>
  Correctness of the base64 conversions: \<open>b64_enc\<close> is the encoding as a recursion over groups,
  \<open>b64_ntop\<close> computes it whenever the target has room for it and its NUL, \<open>b64_pton\<close> inverts it,
  and the two Lua functions compose to the identity on non-empty strings.
\<close>

section \<open>Bits\<close>

lemma byte_bit_high [simp]: "8 \<le> n \<Longrightarrow> \<not> bit (x :: byte) n"
  using bit_imp_le_length [of x n] by auto

lemma byte_eqI:
  fixes x y :: byte
  assumes "bit x 0 = bit y 0" "bit x 1 = bit y 1" "bit x 2 = bit y 2" "bit x 3 = bit y 3"
    "bit x 4 = bit y 4" "bit x 5 = bit y 5" "bit x 6 = bit y 6" "bit x 7 = bit y 7"
  shows "x = y"
proof (rule bit_word_eqI)
  fix n assume "n < LENGTH(8)"
  then have "n = 0 \<or> n = 1 \<or> n = 2 \<or> n = 3 \<or> n = 4 \<or> n = 5 \<or> n = 6 \<or> n = 7" by auto
  then show "bit x n = bit y n" using assms by (elim disjE) simp_all
qed

lemma byte_less_64:
  fixes x :: byte
  assumes "\<not> bit x 6" "\<not> bit x 7"
  shows "x < 64"
proof -
  have "x = take_bit 6 x" using assms by (intro byte_eqI) (simp_all add: bit_simps)
  then have "unat x < 2 ^ 6"
    by (metis take_bit_nat_less_exp unsigned_take_bit_eq)
  then show ?thesis by (simp add: word_less_nat_alt)
qed

lemma b64_out1_or: "b64_out1 a b = push_bit 4 (a AND 0x03) OR drop_bit 4 b"
  unfolding b64_out1_def
  by (rule disjunctive_add) (auto simp: bit_simps dest: bit_imp_le_length)

lemma b64_out2_or: "b64_out2 b c = push_bit 2 (b AND 0x0f) OR drop_bit 6 c"
  unfolding b64_out2_def
  by (rule disjunctive_add) (auto simp: bit_simps dest: bit_imp_le_length)

lemma mask_3: "(0x03 :: byte) = mask 2" and mask_f: "(0x0f :: byte) = mask 4"
  and mask_3f: "(0x3f :: byte) = mask 6"
  by (simp_all add: mask_eq_exp_minus_1)

lemmas b64_unfold = b64_out1_or b64_out2_or b64_out0_def b64_out3_def mask_3 mask_f mask_3f

lemma b64_group0: "push_bit 2 (b64_out0 a) OR drop_bit 4 (b64_out1 a b) = a"
  unfolding b64_unfold by (rule byte_eqI) (simp_all add: bit_simps)

lemma b64_group1: "push_bit 4 (b64_out1 a b AND 0x0f) OR drop_bit 2 (b64_out2 b c) = b"
  unfolding b64_unfold by (rule byte_eqI) (simp_all add: bit_simps)

lemma b64_group2: "push_bit 6 (b64_out2 b c AND 0x03) OR b64_out3 c = c"
  unfolding b64_unfold by (rule byte_eqI) (simp_all add: bit_simps)

lemma b64_last1: "push_bit 4 (b64_out1 a 0 AND 0x0f) = 0"
  unfolding b64_unfold by (rule byte_eqI) (simp_all add: bit_simps)

lemma b64_last2: "push_bit 6 (b64_out2 b 0 AND 0x03) = 0"
  unfolding b64_unfold by (rule byte_eqI) (simp_all add: bit_simps)

lemmas b64_group = b64_group0 b64_group1 b64_group2

lemma b64_out0_less: "b64_out0 a < 64"
  unfolding b64_unfold by (rule byte_less_64) (simp_all add: bit_simps)

lemma b64_out1_less: "b64_out1 a b < 64"
  unfolding b64_unfold by (rule byte_less_64) (simp_all add: bit_simps)

lemma b64_out2_less: "b64_out2 b c < 64"
  unfolding b64_unfold by (rule byte_less_64) (simp_all add: bit_simps)

lemma b64_out3_less: "b64_out3 c < 64"
  unfolding b64_unfold by (rule byte_less_64) (simp_all add: bit_simps)

lemmas b64_out_less = b64_out0_less b64_out1_less b64_out2_less b64_out3_less

section \<open>The alphabet\<close>

lemma alphabet_codes: "map unat Base64 = [65..<91] @ [97..<123] @ [48..<58] @ [43, 47]"
  unfolding Base64_def str_def by (simp add: upt_rec of_char_def)

lemma alphabet_length: "length Base64 = 64"
proof -
  have "length Base64 = length (map unat Base64)" by simp
  then show ?thesis unfolding alphabet_codes by simp
qed

lemma alphabet_distinct: "distinct Base64"
proof -
  have "distinct (map unat Base64)" unfolding alphabet_codes by auto
  then show ?thesis by (simp add: distinct_map)
qed

lemma alphabet_chars:
  assumes "c \<in> set Base64"
  shows "\<not> b64_isspace c" "c \<noteq> Pad64" "c \<noteq> 0"
proof -
  have "unat c \<in> set (map unat Base64)" using assms by simp
  then have u: "unat c \<in> set ([65..<91] @ [97..<123] @ [48..<58] @ [43, 47])"
    unfolding alphabet_codes .
  then show "c \<noteq> 0" by auto
  have "unat c \<noteq> 61" using u by auto
  then show "c \<noteq> Pad64" by (auto simp: Pad64_def)
  have "unat c \<noteq> 32" "13 < unat c" using u by auto
  then show "\<not> b64_isspace c" by (auto simp: b64_isspace_def word_le_nat_alt)
qed

lemma index_of_None: "c \<notin> set xs \<Longrightarrow> index_of c xs = None"
  by (induction xs) auto

lemma index_of_nth: "distinct xs \<Longrightarrow> n < length xs \<Longrightarrow> index_of (xs ! n) xs = Some n"
proof (induction xs arbitrary: n)
  case (Cons x xs)
  then show ?case by (cases n) auto
qed simp

lemma b64_char_pos:
  assumes "v < 64"
  shows "b64_pos (b64_char v) = Some v" "\<not> b64_isspace (b64_char v)" "b64_char v \<noteq> Pad64" "b64_char v \<noteq> 0"
proof -
  have v: "unat v < length Base64" using assms by (simp add: alphabet_length word_less_nat_alt)
  then show "b64_pos (b64_char v) = Some v"
    using index_of_nth [OF alphabet_distinct v] by (simp add: b64_pos_def b64_char_def)
  show "\<not> b64_isspace (b64_char v)" "b64_char v \<noteq> Pad64" "b64_char v \<noteq> 0"
    using alphabet_chars [OF nth_mem [OF v]] by (simp_all add: b64_char_def)
qed

section \<open>Encoding\<close>

fun b64_enc :: "bytes \<Rightarrow> bytes" where
  "b64_enc (a # b # c # r) = [b64_char (b64_out0 a), b64_char (b64_out1 a b), b64_char (b64_out2 b c),
     b64_char (b64_out3 c)] @ b64_enc r"
| "b64_enc [a, b] = [b64_char (b64_out0 a), b64_char (b64_out1 a b), b64_char (b64_out2 b 0), Pad64]"
| "b64_enc [a] = [b64_char (b64_out0 a), b64_char (b64_out1 a 0), Pad64, Pad64]"
| "b64_enc [] = []"

lemma length_b64_enc: "length (b64_enc src) = (length src + 2) div 3 * 4"
proof (induction src rule: b64_enc.induct)
  case (1 a b c r)
  have "(length (a # b # c # r) + 2) div 3 = (length r + 2) div 3 + 1" by simp
  then show ?case using 1 by simp
qed simp_all

lemma b64_enc_cstr: "0 \<notin> set (b64_enc src)"
  by (induction src rule: b64_enc.induct)
     (use b64_char_pos(4) b64_out_less in \<open>auto simp: Pad64_def dest: sym\<close>)

lemma ntop_loop_enc:
  assumes "length out + length (b64_enc src) < targsize"
  shows "\<exists>rest out'. ntop_loop True src out targsize = Some (Inr (rest, out')) \<and> length rest < 3 \<and>
    out @ b64_enc src = out' @ b64_enc rest"
  using assms
proof (induction src arbitrary: out rule: b64_enc.induct)
  case (1 a b c r)
  define out1 where "out1 = out @ [b64_char (b64_out0 a), b64_char (b64_out1 a b), b64_char (b64_out2 b c),
     b64_char (b64_out3 c)]"
  have "length out1 + length (b64_enc r) < targsize" using 1(2) by (simp add: out1_def)
  from 1(1) [OF this] obtain rest out' where
    "ntop_loop True r out1 targsize = Some (Inr (rest, out'))" "length rest < 3"
    "out1 @ b64_enc r = out' @ b64_enc rest" by blast
  then show ?case using 1(2) b64_out_less by (simp add: out1_def)
qed simp_all

lemma b64_ntop_enc:
  assumes "length (b64_enc src) < targsize"
  shows "b64_ntop True src targsize = Some (int (length (b64_enc src)), b64_enc src)"
proof -
  obtain rest out where r: "ntop_loop True src [] targsize = Some (Inr (rest, out))" "length rest < 3"
      "b64_enc src = out @ b64_enc rest"
    using ntop_loop_enc [of "[]" src targsize] assms by auto
  have len: "length out + length (b64_enc rest) < targsize" using assms r(3) by simp
  consider "rest = []" | a where "rest = [a]" | a b where "rest = [a, b]"
    using r(2) by (cases rest; cases "List.tl rest"; cases "List.tl (List.tl rest)") auto
  then show ?thesis
    by cases (use r(1,3) len b64_out_less in \<open>simp_all add: b64_ntop_def Let_def\<close>)
qed

section \<open>Decoding\<close>

text \<open>One character of the alphabet.\<close>

lemma pton_loop_char:
  assumes "v < 64"
  shows "pton_loop ts (b64_char v # src) st i t =
    (case pton_step ts v st i t of
       None \<Rightarrow> None
     | Some None \<Rightarrow> Some P_bad
     | Some (Some (st, i, t)) \<Rightarrow> pton_loop ts src st i t)"
  using b64_char_pos [OF assms] by simp

lemma pton_first:
  assumes "length buf = ts" and "i + 1 < ts"
  shows "pton_loop ts (b64_char (b64_out0 a) # b64_char (b64_out1 a b) # src) 0 i (Some buf) =
    pton_loop ts src 2 (i + 1) (Some (buf[i := Some a, i + 1 := Some (push_bit 4 (b64_out1 a b AND 0x0f))]))"
  using assms b64_out_less b64_group(1) [of a b]
  by (simp add: pton_loop_char pton_step_def t_put_def t_or_def t_get_def del: pton_loop.simps(2))

lemma pton_second:
  assumes "length buf = ts" and "i + 2 < ts"
    and "buf ! (i + 1) = Some (push_bit 4 (b64_out1 a b AND 0x0f))"
  shows "pton_loop ts (b64_char (b64_out2 b c) # src) 2 (i + 1) (Some buf) =
    pton_loop ts src 3 (i + 2) (Some (buf[i + 1 := Some b, i + 2 := Some (push_bit 6 (b64_out2 b c AND 0x03))]))"
  using assms b64_out_less b64_group(2) [of a b c]
  by (simp add: pton_loop_char pton_step_def t_put_def t_or_def t_get_def del: pton_loop.simps(2))

lemma pton_third:
  assumes "length buf = ts" and "i + 2 < ts"
    and "buf ! (i + 2) = Some (push_bit 6 (b64_out2 b c AND 0x03))"
  shows "pton_loop ts (b64_char (b64_out3 c) # src) 3 (i + 2) (Some buf) =
    pton_loop ts src 0 (i + 3) (Some (buf[i + 2 := Some c]))"
  using assms b64_out_less b64_group(3) [of b c]
  by (simp add: numeral_3_eq_3 pton_loop_char pton_step_def t_put_def t_or_def t_get_def del: pton_loop.simps(2))

lemma pton_group:
  assumes "length buf = ts" and "i + 2 < ts"
  shows "\<exists>buf'. pton_loop ts (b64_char (b64_out0 a) # b64_char (b64_out1 a b) # b64_char (b64_out2 b c) #
      b64_char (b64_out3 c) # src) 0 i (Some buf) = pton_loop ts src 0 (i + 3) (Some buf') \<and>
    length buf' = ts \<and> take (i + 3) buf' = take i buf @ [Some a, Some b, Some c]"
proof -
  define b1 where "b1 = buf[i := Some a, i + 1 := Some (push_bit 4 (b64_out1 a b AND 0x0f))]"
  define b2 where "b2 = b1[i + 1 := Some b, i + 2 := Some (push_bit 6 (b64_out2 b c AND 0x03))]"
  define b3 where "b3 = b2[i + 2 := Some c]"
  have l: "length b1 = ts" "length b2 = ts" "length b3 = ts" using assms(1) by (simp_all add: b1_def b2_def b3_def)
  have "pton_loop ts (b64_char (b64_out0 a) # b64_char (b64_out1 a b) # b64_char (b64_out2 b c) #
      b64_char (b64_out3 c) # src) 0 i (Some buf) = pton_loop ts src 0 (i + 3) (Some b3)"
    using assms pton_first [of buf ts i a b] pton_second [of b1 ts i a b c] pton_third [of b2 ts i b c] l
    by (simp add: b1_def b2_def b3_def del: pton_loop.simps(2))
  moreover have "take (i + 3) b3 = take i buf @ [Some a, Some b, Some c]"
  proof (rule nth_equalityI)
    show "length (take (i + 3) b3) = length (take i buf @ [Some a, Some b, Some c])"
      using assms l by simp
    fix j assume "j < length (take (i + 3) b3)"
    then have j: "j < i \<or> j = i \<or> j = i + 1 \<or> j = i + 2" "j < ts" using l by auto
    then show "take (i + 3) b3 ! j = (take i buf @ [Some a, Some b, Some c]) ! j"
      using assms by (auto simp: b3_def b2_def b1_def nth_append)
  qed
  ultimately show ?thesis using l by blast
qed

lemma pton_loop_pad: "pton_loop ts (Pad64 # src) st i t = Some (P_pad src st i t)"
  by (simp add: b64_isspace_def Pad64_def word_le_nat_alt)

lemma pad_not_space: "\<not> b64_isspace Pad64"
  by (simp add: b64_isspace_def Pad64_def word_le_nat_alt)

text \<open>The decoder from the middle of a buffer, over the rest of an encoding.\<close>

definition pton_finish :: "pton_exit option \<Rightarrow> (int \<times> b64_target) option" where
  "pton_finish e = Option.bind e (\<lambda>r. case r of
       P_bad \<Rightarrow> None
     | P_end state tarindex target \<Rightarrow> Some (if state \<noteq> 0 then -1 else int tarindex, target)
     | P_pad src state tarindex target \<Rightarrow>
         if state = 0 \<or> state = 1 then Some (-1, target)
         else if state = 2
         then (case dropWhile b64_isspace src of
                 [] \<Rightarrow> Some (-1, target)
               | ch # src \<Rightarrow> if ch \<noteq> Pad64 then Some (-1, target) else pton_tail src tarindex target)
         else pton_tail src tarindex target)"

lemma b64_pton_finish: "pton_finish (pton_loop ts src 0 0 t) = Some r \<Longrightarrow> b64_pton src t ts = Some r"
  by (cases "pton_loop ts src 0 0 t")
     (auto simp: pton_finish_def b64_pton_def split: pton_exit.splits)

lemma pton_enc:
  assumes "length buf = ts" and "i + (length src + 2) div 3 * 3 \<le> ts" and "take i buf = map Some done"
    and "length done = i"
  shows "\<exists>buf'. pton_finish (pton_loop ts (b64_enc src) 0 i (Some buf)) = Some (int (i + length src), Some buf') \<and>
    length buf' = ts \<and> take (i + length src) buf' = map Some (done @ src)"
  using assms
proof (induction src arbitrary: buf i "done" rule: b64_enc.induct)
  case (1 a b c r)
  have groups: "(length (a # b # c # r) + 2) div 3 = (length r + 2) div 3 + 1" by simp
  have room: "i + 3 + (length r + 2) div 3 * 3 \<le> ts" using 1(3) unfolding groups by simp
  then have "i + 2 < ts" by simp
  from pton_group [OF 1(2) this, of a b c "b64_enc r"] obtain b1 where
    b1: "pton_loop ts (b64_enc (a # b # c # r)) 0 i (Some buf) = pton_loop ts (b64_enc r) 0 (i + 3) (Some b1)"
      "length b1 = ts" "take (i + 3) b1 = map Some (done @ [a, b, c])"
    using 1(4) by (auto simp del: pton_loop.simps(2))
  obtain buf' where "pton_finish (pton_loop ts (b64_enc r) 0 (i + 3) (Some b1)) =
      Some (int (i + 3 + length r), Some buf')" "length buf' = ts"
      "take (i + 3 + length r) buf' = map Some ((done @ [a, b, c]) @ r)"
    using 1(1) [OF b1(2) room b1(3)] 1(5) by auto
  then show ?case unfolding b1(1) by (intro exI [of _ buf']) (simp add: numeral_3_eq_3)
next
  case (2 a b)
  have i: "i + 2 < ts" using 2(2) by simp
  define b1 where "b1 = buf[i := Some a, i + 1 := Some (push_bit 4 (b64_out1 a b AND 0x0f))]"
  define b2 where "b2 = b1[i + 1 := Some b, i + 2 := Some (push_bit 6 (b64_out2 b 0 AND 0x03))]"
  have l: "length b1 = ts" "length b2 = ts" using 2(1) by (simp_all add: b1_def b2_def)
  have "pton_loop ts (b64_enc [a, b]) 0 i (Some buf) = Some (P_pad [] 3 (i + 2) (Some b2))"
    using 2(1) i pton_first [of buf ts i a b] pton_second [of b1 ts i a b 0] l
    by (simp add: b1_def b2_def pton_loop_pad del: pton_loop.simps(2))
  moreover have "b2 ! (i + 2) = Some 0" using i l b64_last2 [of b] by (simp add: b2_def)
  moreover have "take (i + 2) b2 = map Some done @ [Some a, Some b]"
  proof (rule nth_equalityI)
    show "length (take (i + 2) b2) = length (map Some done @ [Some a, Some b])"
      using 2(4) i l by simp
    fix j assume "j < length (take (i + 2) b2)"
    then have j: "j < i \<or> j = i \<or> j = i + 1" "j < ts" using l by auto
    have "j < i \<Longrightarrow> buf ! j = Some (done ! j)" using 2(3,4) by (metis nth_map nth_take)
    then show "take (i + 2) b2 ! j = (map Some done @ [Some a, Some b]) ! j"
      using 2(1,4) j i by (auto simp: b2_def b1_def nth_append)
  qed
  ultimately show ?case
    using i l by (intro exI [of _ b2]) (simp add: pton_finish_def pton_tail_def t_get_def)
next
  case (3 a)
  have i: "i + 2 < ts" using 3(2) by simp
  define b1 where "b1 = buf[i := Some a, i + 1 := Some (push_bit 4 (b64_out1 a 0 AND 0x0f))]"
  have l: "length b1 = ts" using 3(1) by (simp add: b1_def)
  have "pton_loop ts (b64_enc [a]) 0 i (Some buf) = Some (P_pad [Pad64] 2 (i + 1) (Some b1))"
    using 3(1) i pton_first [of buf ts i a 0]
    by (simp add: b1_def pton_loop_pad del: pton_loop.simps(2))
  moreover have "b1 ! (i + 1) = Some 0" using i 3(1) b64_last1 [of a] by (simp add: b1_def)
  moreover have "take (i + 1) b1 = map Some done @ [Some a]"
  proof (rule nth_equalityI)
    show "length (take (i + 1) b1) = length (map Some done @ [Some a])"
      using 3(4) i l by simp
    fix j assume "j < length (take (i + 1) b1)"
    then have j: "j < i \<or> j = i" "j < ts" using l by auto
    have "j < i \<Longrightarrow> buf ! j = Some (done ! j)" using 3(3,4) by (metis nth_map nth_take)
    then show "take (i + 1) b1 ! j = (map Some done @ [Some a]) ! j"
      using 3(1,4) j i by (auto simp: b1_def nth_append)
  qed
  ultimately show ?case
    using i l pad_not_space
    by (intro exI [of _ b1]) (simp add: pton_finish_def pton_tail_def t_get_def)
next
  case 4
  then show ?case by (simp add: pton_finish_def)
qed

lemma b64_pton_enc:
  assumes "(length src + 2) div 3 * 3 \<le> ts"
  shows "\<exists>buf'. b64_pton (b64_enc src) (Some (replicate ts None)) ts = Some (int (length src), Some buf') \<and>
    length buf' = ts \<and> take (length src) buf' = map Some src"
  using pton_enc [of "replicate ts None" ts 0 src "[]"] assms b64_pton_finish by fastforce

section \<open>The Lua functions\<close>

lemma encode_len:
  assumes "0 < n" and "n < 2 ^ 31"
  shows "(n + 2) div 3 * 4 < unat (B64_ENCODE_LEN (of_nat n))"
proof -
  define k where "k = (n + 2) div 3 * 4"
  have k: "4 \<le> k" "k < 2 ^ 33" using assms by (simp_all add: k_def)
  define w where "w = B64_CHARS (of_nat n)"
  have "unat (of_nat n + 2 :: u64) = n + 2" using assms(2) by (simp add: unat_word_ariths unat_of_nat)
  then have w: "unat w = k"
    using assms(2) k(2) by (simp add: w_def B64_CHARS_def unat_word_ariths unat_div k_def)
  then have "w \<noteq> 0" using k(1) by auto
  then have "unat (w - 1) = k - 1" using w by (simp add: unat_minus_one)
  then have d: "unat ((w - 1) div 76) = (k - 1) div 76" by (simp add: unat_div)
  have small: "k + (k - 1) div 76 + 1 < 2 ^ 64" using k(2) by simp
  have "unat (w + (w - 1) div 76 + 1) = k + (k - 1) div 76 + 1"
    using small w d by (simp add: unat_word_ariths)
  then show ?thesis
    unfolding B64_ENCODE_LEN_def w_def [symmetric] k_def [symmetric] by simp
qed

lemma base64_encode_enc:
  assumes "lua_arg args 1 = Some (L_str d)" and "d \<noteq> []" and "length d < 2 ^ 31" and "\<forall>n. avail n"
  shows "base64_encode cv avail args = Some (Inr (L_str (b64_enc d)))"
proof -
  define t where "t = unat (B64_ENCODE_LEN (of_nat (length d)))"
  have "length (b64_enc d) < t"
    unfolding length_b64_enc t_def by (rule encode_len) (use assms(2,3) in simp_all)
  then have "b64_ntop True d t = Some (int (length (b64_enc d)), b64_enc d)" by (rule b64_ntop_enc)
  then show ?thesis
    using assms(1,4) by (simp add: base64_encode_def t_def [symmetric] push_buf_def)
qed

lemma base64_decode_enc:
  assumes "lua_arg args 1 = Some (L_str (b64_enc d))" and "\<forall>n. avail n"
  shows "base64_decode cv avail args = Some (Inr (L_str d))"
proof -
  define t where "t = B64_DECODE_LEN (length (b64_enc d))"
  have t: "(length d + 2) div 3 * 3 \<le> t"
    by (simp add: t_def B64_DECODE_LEN_def length_b64_enc)
  obtain buf where b: "b64_pton (b64_enc d) (Some (replicate t None)) t = Some (int (length d), Some buf)"
      "length buf = t" "take (length d) buf = map Some d"
    using b64_pton_enc [OF t] by blast
  have "is_cstr (b64_enc d)" using b64_enc_cstr by (simp add: is_cstr_def)
  moreover have "length d \<le> t" 
  proof -
    have "length (take (length d) buf) = length d" unfolding b(3) by simp
    then show ?thesis using b(2) by simp
  qed
  ultimately show ?thesis
    using assms b by (simp add: base64_decode_def t_def [symmetric] cstr_id)
qed

text \<open>The empty string: the requested size wraps around, no allocator grants it.\<close>

lemma base64_encode_empty:
  assumes "lua_arg args 1 = Some (L_str [])" and "\<forall>n. avail n \<longrightarrow> n < 2 ^ 40"
  shows "base64_encode cv avail args = None"
proof -
  have "B64_ENCODE_LEN 0 = 242720316759336206" by (simp add: B64_ENCODE_LEN_def B64_CHARS_def)
  moreover have "\<not> avail 242720316759336206" using assms(2) by fastforce
  ultimately show ?thesis
    using assms(1) by (simp add: base64_encode_def b64_ntop_def Let_def)
qed

text \<open>Malformed input: the error code is used as a length.\<close>

lemma base64_decode_bad:
  assumes "lua_arg args 1 = Some (L_str d)"
    and "\<forall>t n r. b64_pton (cstr d) t n = Some r \<longrightarrow> fst r = -1"
  shows "base64_decode cv avail args = None"
proof -
  define n where "n = B64_DECODE_LEN (length d)"
  define t where "t = (if avail n then Some (replicate n (None :: byte option)) else None)"
  have "base64_decode cv avail args = Option.bind (b64_pton (cstr d) t n) (\<lambda>(len, outbuf).
      let b = (case outbuf of None \<Rightarrow> [] | Some b \<Rightarrow> b) in
      Option.bind (c_assert (0 \<le> len \<and> nat len \<le> length b \<and> None \<notin> set (take (nat len) b)))
        (\<lambda>_. Some (Inr (L_str (map the (take (nat len) b))))))"
    using assms(1) by (simp add: base64_decode_def n_def [symmetric] t_def [symmetric] Let_def)
  also have "\<dots> = None"
  proof (cases "b64_pton (cstr d) t n")
    case (Some r)
    then have "fst r = -1" using assms(2) by blast
    then show ?thesis using Some by (cases r) (simp add: Let_def)
  qed simp
  finally show ?thesis .
qed

end
