(* ===== verification/Lua_Properties.thy ===== *)
theory Lua_Properties
  imports Lua_Stream Base64_Correct Net_Demo
begin

text \<open>
  The properties of the Lua modules \<open>net\<close> (\<open>src/lualib/lua_net.c\<close>) and \<open>base64\<close>
  (\<open>src/lualib/lua_b64.c\<close>), with witnesses.
\<close>

section \<open>The net module\<close>

definition demo_ud :: net_server_t where
  "demo_ud = \<lparr>read_ref = 5, L_registry = (\<lambda>_. L_nil)(5 := L_fun 3), L_stack = []\<rparr>"

definition lua_demo :: lua_server where
  "lua_demo = snd (qsf_net_server_start \<lparr>se_addr = 0, se_bind = 0, se_listen = 0, se_timer = 0\<rparr> On_server_read
     (the (qsf_create_net_server True 0 0 demo_ud 2 60 10)))"

lemma lua_demo: "udata lua_demo = demo_ud" "server_inv lua_demo []" "on_read lua_demo = Some On_server_read"
  using ut_rep_empty
  by (simp_all add: lua_demo_def qsf_create_net_server_def qsf_net_server_start_def server_inv_def empty_uthash_def)

text \<open>
  From the wire to Lua. The read that completes a message on a session calls the Lua
  function that was given to \<open>start\<close> once, with \<open>nil\<close>, the session's serial number and exactly
  the bytes of the message.
\<close>

lemma lua_read_calls_function:
  assumes "sess_ok ss" and "sessions s a = Some ss" and "on_read s = Some On_server_read"
    and "0 < length d" and "length d \<le> sess_window ss" and "\<forall>n < 2 ^ 16. avail n"
    and "fst (wire_parse (sess_pending ss @ d)) = [m]"
    and "L_registry (udata s) (read_ref (udata s)) = L_fun i"
  shows "\<exists>ss'. uv_session_recv avail (on_server_read lua_call) uv_strerror now a d s =
      map_option snd (qsf_trace_pcall lua_call i [L_nil, L_int (ucast (serial_of s a)), L_str m] (set_session s a ss')) \<and>
    sess_pending ss' = snd (wire_parse (sess_pending ss @ d))"
proof -
  have cb: "on_read s \<noteq> None" using assms(3) by simp
  obtain ss' where ss': "uv_session_recv avail (on_server_read lua_call) uv_strerror now a d s =
      deliver (on_server_read lua_call) (serial_of s a) [m] (set_session s a ss')"
    "sess_pending ss' = snd (wire_parse (sess_pending ss @ d))"
    using uv_session_recv_step [OF assms(1,2) cb assms(4-6), of "on_server_read lua_call"] assms(7) by auto
  have m: "wire_ok m" by (rule wire_parse_msg_ok [of _ "sess_pending ss @ d"]) (simp add: assms(7))
  have reg: "L_registry (udata (set_session s a ss')) (read_ref (udata (set_session s a ss'))) = L_fun i"
    using assms(8) by simp
  have "deliver (on_server_read lua_call) (serial_of s a) [m] (set_session s a ss') =
      on_server_read lua_call On_server_read 0 (serial_of s a) m (of_nat (length m)) (set_session s a ss')"
    unfolding deliver_one invoke_read_def using assms(3) by (simp del: on_server_read.simps)
  then show ?thesis using ss' on_server_read_calls [OF m reg] by auto
qed

definition lua_session :: net_session where
  "lua_session = \<lparr>last_recv_time = 0, peer_addr = [], buf_size = 2, recv_bytes = 1, body_size = 2,
     recv_buf = [Some 65, None], h_reading = True, h_shutdown = False, h_closing = False, h_written = []\<rparr>"

lemma lua_read_calls_function_witness:
  "\<exists>ss'. uv_session_recv (\<lambda>_. True) (on_server_read (\<lambda>f args s. Some (None, push_value (last args) s))) (\<lambda>_. []) 5 4 [66]
      (set_session lua_demo 4 lua_session) = Some (push_value (L_str [65, 66]) (set_session lua_demo 4 ss')) \<and>
    sess_pending ss' = []"
proof -
  let ?s = "set_session lua_demo 4 lua_session"
  have ok: "sess_ok lua_session" "length [66 :: byte] \<le> sess_window lua_session"
    "sess_pending lua_session = be16 2 @ [65]"
    by (simp_all add: lua_session_def sess_ok_def sess_window_def sess_pending_def)
  have "wire_parse (be16 2 @ [65, 66]) = ([[65, 66]], [])" by code_simp
  then have p: "fst (wire_parse (sess_pending lua_session @ [66])) = [[65, 66]]"
    "snd (wire_parse (sess_pending lua_session @ [66])) = []" by (simp_all add: ok(3))
  have reg: "L_registry (udata ?s) (read_ref (udata ?s)) = L_fun 3" by (simp add: lua_demo(1) demo_ud_def)
  have all: "\<forall>n < 2 ^ 16. (\<lambda>_. True) (n :: nat)" by simp
  show ?thesis
    using lua_read_calls_function [OF ok(1) _ _ _ ok(2) all p(1) reg,
        of 4 "\<lambda>f args s. Some (None, push_value (last args) s)" "\<lambda>_. []" 5]
    by (auto simp: lua_demo(3) p(2) qsf_trace_pcall_def)
qed

text \<open>
  What \<open>server:write\<close> does with the size of its data: more than 65535 bytes raise a Lua
  error, and the server is untouched; data of 1 to 65535 bytes for a connected session become
  one packet; the empty string runs into the server's assertion and ends the process.
\<close>

lemma lua_write_sizes:
  assumes "server_inv s xs" and "a \<in> set xs" and "sessions s a = Some ss"
    and "\<forall>a. we_malloc e a" and "we_write e a \<ge> 0" and "ucast k = serial_of s a"
    and "lua_arg args 2 = Some (L_int k)" and "lua_arg args 3 = Some (L_str d)"
  shows "server_write cv e args s =
    (if d = [] then None
     else if 65535 < length d then Some (luaL_error ''too big packet to write'', s)
     else Some (Inr (), set_session s a (ss\<lparr>h_written := h_written ss @ [wire_frame d]\<rparr>)))"
proof -
  consider "d = []" | "65535 < length d" "d \<noteq> []" | "wire_ok d"
    unfolding wire_ok_def by (cases d; cases "65535 < length d") auto
  then show ?thesis
  proof cases
    case 3
    note w = write_ok_wire [OF 3 assms(4)]
    have "server_write cv e args s = Some (Inr (), set_session s a (sent e d (of_nat (length d)) a ss))"
      using qsf_net_server_write_sent [OF assms(1) w(1) assms(2,3)] assms(6-8) 3
      by (simp add: server_write_def UINT16_MAX_def wire_ok_def)
    then show ?thesis using 3 w(2) assms(5) by (simp add: sent_def wire_ok_def)
  qed (use assms(7,8) server_write_empty server_write_too_big in auto)
qed

definition lua_one :: lua_server where
  "lua_one = the (on_connection (on_server_read (\<lambda>_ _ s. Some (None, s))) (demo_accept 3) 10 0 lua_demo)"

lemma lua_one: "server_inv lua_one [3]" "sessions lua_one 3 = Some (new_session (demo_accept 3) 10)"
  "udata lua_one = demo_ud"
proof -
  have "accept_ok (demo_accept 3) lua_demo 3"
    by (simp add: accept_ok_def demo_accept_def ut_room_def sizeof_UT_hash_table_def sizeof_UT_hash_bucket_def
        lua_demo_def qsf_create_net_server_def qsf_net_server_start_def)
  moreover have "\<not> stopped lua_demo" "max_connection lua_demo = 2"
    by (simp_all add: lua_demo_def qsf_create_net_server_def qsf_net_server_start_def)
  ultimately show "server_inv lua_one [3]" "sessions lua_one 3 = Some (new_session (demo_accept 3) 10)"
    "udata lua_one = demo_ud"
    using on_connection_accepts [OF lua_demo(2), of "demo_accept 3" 3 "on_server_read (\<lambda>_ _ s. Some (None, s))" 10]
    by (auto simp: lua_one_def lua_demo(1,3) demo_accept_def)
qed

lemma lua_write_sizes_witness:
  "server_write no_conv \<lparr>we_malloc = \<lambda>_. True, we_write = \<lambda>_. 0\<rparr>
     [L_nil, L_int (ucast (serial_of lua_one 3)), L_str []] lua_one = None"
proof -
  have k: "ucast (ucast (serial_of lua_one 3) :: 64 word) = serial_of lua_one 3"
    by (simp add: ucast_up_ucast_id is_up)
  from lua_write_sizes [OF lua_one(1) _ lua_one(2) _ _ k] show ?thesis by (simp add: lua_arg_def)
qed

text \<open>
  C3: From script to script. What one script writes with \<open>server:write\<close>, message by message, is
  what the callback of the script on the other side is called with: \<open>nil\<close>, the serial number of its
  session and the message, once for each message and in order, however the bytes are cut on the
  way and mixed with other sessions, and also when some of these calls raise errors.
\<close>

theorem lua_end_to_end:
  assumes s: "server_inv s xs" "a \<in> set xs" "ucast k = serial_of s a" and ms: "\<forall>m \<in> set ms. wire_ok m"
    and e: "\<forall>a. we_malloc e a" "\<forall>a. we_write e a \<ge> 0"
    and script: "runs_script lua_call script" "keeps_callback script i r"
    and t: "server_inv t ys" "b \<in> set ys" "pending_of t b = []"
      "read_ref (udata t) = r" "L_registry (udata t) r = L_fun i"
    and run: "net_recvs (on_server_read lua_call) uv_strerror avail t evs t'"
    and wire: "stream_of b evs = concat (drop (length (h_written (the (sessions s a))))
       (h_written (the (sessions (the (server_writes cv e self k ms s)) a))))"
  shows "server_writes cv e self k ms s \<noteq> None \<and>
    (\<exists>calls. udata t' = fold (after_call script i) calls (udata t) \<and>
       filter (\<lambda>args. args ! 1 = L_int (ucast (serial_of t b))) calls = map (msg_args (serial_of t b)) ms) \<and>
    pending_of t' b = []"
proof -
  obtain s' where s': "write_msgs e (serial_of s a) ms s = Some s'"
      "h_written (the (sessions s' a)) = h_written (the (sessions s a)) @ map wire_frame ms"
    using write_msgs_frames [OF s(1,2) ms e] by blast
  have w: "server_writes cv e self k ms s = Some s'"
    by (rule server_writes_msgs [OF _ ms]) (use s(3) s'(1) in simp)
  have p: "wire_parse (stream_of b evs) = (ms, [])"
    unfolding wire using w s'(2) wire_parse_frames [OF ms] by simp
  obtain log where log: "udata t' = fold (\<lambda>(k, m). lua_told script k m) log (udata t)"
      "msgs_of (serial_of t b) log = ms" "pending_of t' b = []"
    using net_recvs_parse [OF run script_tame [OF script(1)] t(1)] t(2,3) p by auto
  have "udata t' = fold (after_call script i) (map (\<lambda>(k, m). msg_args k m) log) (udata t)"
    unfolding log(1) by (rule lua_told_fold [OF script(2) t(4,5)])
  moreover have "filter (\<lambda>args. args ! 1 = L_int (ucast (serial_of t b))) (map (\<lambda>(k, m). msg_args k m) log) =
      map (msg_args (serial_of t b)) ms"
    unfolding calls_of_session log(2) ..
  ultimately show ?thesis using w log(3) by blast
qed

text \<open>A script that keeps the last message it was told on its stack, and a server with one session.\<close>

definition demo_script :: script where
  "demo_script i args u = (None, u\<lparr>L_stack := L_stack u @ [last args]\<rparr>)"

definition demo_lua_call :: lua_calls where
  "demo_lua_call i args s = Some (None, s\<lparr>udata := (udata s)\<lparr>L_stack := L_stack (udata s) @ [last args]\<rparr>\<rparr>)"

lemma demo_script: "runs_script demo_lua_call demo_script" "keeps_callback demo_script i r"
  by (simp_all add: runs_script_def keeps_callback_def demo_lua_call_def demo_script_def)

definition demo_bytes :: "(u64 \<times> addr \<times> bytes) list" where
  "demo_bytes = [(30, 3, [0, 1]), (31, 3, [65]), (32, 3, [0]), (33, 3, [2]), (34, 3, [7]), (35, 3, [8])]"

lemma demo_bytes: "(fst \<circ> snd) ` set demo_bytes \<subseteq> set [3]" "wire_fits (pending_of lua_one) demo_bytes"
  "stream_of 3 demo_bytes = concat (map wire_frame [[65], [7, 8]])"
proof -
  show dom: "(fst \<circ> snd) ` set demo_bytes \<subseteq> set [3]" by (simp add: demo_bytes_def)
  have "wire_fits (\<lambda>_. []) demo_bytes" by code_simp
  then show "wire_fits (pending_of lua_one) demo_bytes"
    by (rule wire_fits_cong [OF _ dom]) (simp add: pending_of_def lua_one(2) new_session_ok(2))
  show "stream_of 3 demo_bytes = concat (map wire_frame [[65], [7, 8]])" by code_simp
qed

theorem lua_end_to_end_witness:
  "\<exists>t' calls. net_recvs (on_server_read demo_lua_call) (\<lambda>_. []) (\<lambda>_. True) lua_one demo_bytes t' \<and>
     udata t' = fold (after_call demo_script 3) calls (udata lua_one) \<and>
     filter (\<lambda>args. args ! 1 = L_int (ucast (serial_of lua_one 3))) calls =
       [msg_args (serial_of lua_one 3) [65], msg_args (serial_of lua_one 3) [7, 8]]"
proof -
  let ?e = "\<lparr>we_malloc = \<lambda>_. True, we_write = \<lambda>_. 0\<rparr>" and ?k = "ucast (serial_of lua_one 3) :: lua_Integer"
  have k: "ucast ?k = serial_of lua_one 3" by (simp add: ucast_up_ucast_id is_up)
  have ms: "\<forall>m \<in> set [[65], [7, 8]]. wire_ok m" by (simp add: wire_ok_def)
  have e: "\<forall>a. we_malloc ?e a" "\<forall>a. we_write ?e a \<ge> 0" and mem: "3 \<in> set [3 :: addr]" by simp_all
  have all: "\<forall>n < 2 ^ 16. (\<lambda>_. True) (n :: nat)" by simp
  obtain t' where run: "net_recvs (on_server_read demo_lua_call) (\<lambda>_. []) (\<lambda>_. True) lua_one demo_bytes t'"
    using net_recvs_total [OF script_tame [OF demo_script(1)] lua_one(1) all demo_bytes(1,2)] by blast
  obtain s' where w: "write_msgs ?e (serial_of lua_one 3) [[65], [7, 8]] lua_one = Some s'"
      "h_written (the (sessions s' 3)) = h_written (the (sessions lua_one 3)) @ map wire_frame [[65], [7, 8]]"
    using write_msgs_frames [OF lua_one(1) mem ms e] by blast
  have "server_writes no_conv ?e L_nil ?k [[65], [7, 8]] lua_one = Some s'"
    by (rule server_writes_msgs [OF _ ms]) (use k w(1) in simp)
  then have wire: "stream_of 3 demo_bytes = concat (drop (length (h_written (the (sessions lua_one 3))))
      (h_written (the (sessions (the (server_writes no_conv ?e L_nil ?k [[65], [7, 8]] lua_one)) 3))))"
    using w(2) demo_bytes(3) by simp
  have t: "pending_of lua_one 3 = []" "read_ref (udata lua_one) = 5" "L_registry (udata lua_one) 5 = L_fun 3"
    by (simp_all add: pending_of_def lua_one(2,3) new_session_ok(2) demo_ud_def)
  show ?thesis
    using lua_end_to_end [OF lua_one(1) mem k ms e demo_script(1) demo_script(2) lua_one(1) mem t run wire] run by auto
qed

text \<open>
  A rejected \<open>server:start\<close> leaves the object broken: the old callback is released before
  the arguments are checked, and its reference stays in the object, so the next message finds
  no function there and only piles up a value on the Lua stack.
\<close>

lemma lua_start_stale_callback:
  assumes "lua_arg args 2 = Some (L_str h)" and "lua_arg args 3 = Some (L_int p)"
    and "\<not> lua_isfunction (lua_arg args 4)" and "0 \<le> read_ref (udata s)" and "n \<noteq> 0"
  shows "\<exists>s'. server_start cv e slot args s = Some (Inl (Arg_error 4), s') \<and>
    on_server_read lua_call On_server_read err k d n s' = Some (push_value L_nil s')"
proof -
  obtain s' where "server_start cv e slot args s = Some (Inl (Arg_error 4), s')"
    "L_registry (udata s') (read_ref (udata s')) = L_nil"
    using server_start_stale [OF assms(1-4)] by metis
  then show ?thesis using assms(5) by simp
qed

lemma lua_start_stale_callback_witness:
  "\<exists>s'. server_start no_conv \<lparr>se_addr = 0, se_bind = 0, se_listen = 0, se_timer = 0\<rparr> 6
       [L_nil, L_str [], L_int 80, L_nil] lua_demo = Some (Inl (Arg_error 4), s') \<and>
     on_server_read (\<lambda>_ _ s. Some (None, s)) On_server_read 0 1000 [65] 1 s' = Some (push_value L_nil s')"
  by (rule lua_start_stale_callback) (simp_all add: lua_arg_def lua_isfunction_def lua_demo(1) demo_ud_def)

section \<open>The base64 module\<close>

text \<open>
  C40: Decoding an encoded string gives the string back, for every string that is not empty:
  neither routine runs out of the buffer its caller computes for it.
\<close>

theorem base64_roundtrip:
  assumes "d \<noteq> []" and "length d < 2 ^ 29" and "\<forall>n. avail n"
  shows "\<exists>e. base64_encode cv avail [L_str d] = Some (Inr (L_str e)) \<and>
    base64_decode cv avail [L_str e] = Some (Inr (L_str d))"
proof -
  have "base64_encode cv avail [L_str d] = Some (Inr (L_str (b64_enc d)))"
    by (rule base64_encode_enc) (use assms in \<open>simp_all add: lua_arg_def\<close>)
  moreover have "base64_decode cv avail [L_str (b64_enc d)] = Some (Inr (L_str d))"
    by (rule base64_decode_enc) (use assms in \<open>simp_all add: lua_arg_def\<close>)
  ultimately show ?thesis by blast
qed

theorem base64_roundtrip_witness:
  "\<exists>e. base64_encode no_conv (\<lambda>_. True) [L_str [1, 2, 3, 255]] = Some (Inr (L_str e)) \<and>
     base64_decode no_conv (\<lambda>_. True) [L_str e] = Some (Inr (L_str [1, 2, 3, 255]))"
  by (rule base64_roundtrip) simp_all

text \<open>
  Encoding the empty string ends the process: the length computed for the output wraps
  around to about 2 to the 58, no allocation of that size succeeds, and the terminating NUL is
  written through the null pointer.
\<close>

lemma base64_encode_empty_faults:
  assumes "\<forall>n. avail n \<longrightarrow> n < 2 ^ 40"
  shows "base64_encode cv avail [L_str []] = None"
  by (rule base64_encode_empty) (use assms in \<open>simp_all add: lua_arg_def\<close>)

lemma base64_encode_empty_faults_witness: "base64_encode no_conv (\<lambda>n. n < 2 ^ 40) [L_str []] = None"
  by (rule base64_encode_empty_faults) simp

text \<open>
  Decoding malformed input is not reported as an error: when the first character that is not
  white space is no character of the alphabet, the error code \<open>- 1\<close> of the conversion is used as
  the length of the result.
\<close>

lemma base64_decode_bad_faults:
  assumes "list_all b64_isspace ws" and "c \<noteq> 0" and "\<not> b64_isspace c" and "c \<noteq> Pad64" and "c \<notin> set Base64"
  shows "base64_decode cv avail [L_str (ws @ c # rest)] = None"
proof (rule base64_decode_bad)
  have pos: "b64_pos c = None" using assms(5) index_of_None [of c Base64] by (simp add: b64_pos_def)
  have loop: "pton_loop n (ws @ c # r) st i t = Some P_bad" for n r st i t
    using assms(1) by (induction ws) (simp_all add: assms(3,4) pos)
  have "\<forall>x \<in> set ws. x \<noteq> 0" using assms(1) by (auto simp: list_all_iff b64_isspace_def)
  then have "cstr (ws @ c # rest) = ws @ c # cstr rest"
    using assms(2) by (simp add: cstr_def takeWhile_append2)
  then show "\<forall>t n r. b64_pton (cstr (ws @ c # rest)) t n = Some r \<longrightarrow> fst r = -1"
    using loop by (auto simp: b64_pton_def)
qed (simp add: lua_arg_def)

lemma base64_decode_bad_faults_witness: "base64_decode no_conv (\<lambda>_. True) [L_str [32, 33, 65, 65]] = None"
  using base64_decode_bad_faults [of "[32]" 33 no_conv "\<lambda>_. True" "[65, 65]"]
  by (simp add: b64_isspace_def Pad64_def Base64_def str_def word_le_nat_alt)

end
