(* ===== verification/Crypto.thy ===== *)
theory Crypto
  imports Lua_Api
begin

text \<open>
  The Lua module \<open>crypto\<close> of \<open>src/lualib/lua_crypto.c\<close>: AES in OFB mode, RSA over strings of
  any length by blocks, message digests, and their hexadecimal form.

  OpenSSL is a parameter, the record \<open>openssl\<close>: the OFB transformation of a string for a key and
  an initial vector; what the four RSA functions give for one block, an error number that is not
  positive or the bytes they put at the destination; the PEM readers and the key generator; and
  the three steps of a digest over a state \<open>'m\<close>. \<open>'k\<close> is the contents of an \<open>RSA\<close> structure.
  The objects of the module are records; the type check of the first argument is Lua's.
\<close>

definition AES_BLOCK_SIZE :: nat where "AES_BLOCK_SIZE = 16"
definition MAX_RSA_BUF :: int where "MAX_RSA_BUF = 16384"
definition EVP_MAX_MD_SIZE :: nat where "EVP_MAX_MD_SIZE = 64"

datatype evp_md = EVP_md5 | EVP_sha1 | EVP_sha256 | EVP_sha512

type_synonym 'k rsa_func = "bytes \<Rightarrow> 'k \<Rightarrow> int + bytes"

record ('k, 'm) openssl =
  AES_ofb128_encrypt :: "bytes \<Rightarrow> bytes \<Rightarrow> bytes \<Rightarrow> bytes"
  RSA_zero :: 'k
  RSA_size :: "'k \<Rightarrow> int option"
  RSA_public_encrypt :: "'k rsa_func"
  RSA_private_encrypt :: "'k rsa_func"
  RSA_public_decrypt :: "'k rsa_func"
  RSA_private_decrypt :: "'k rsa_func"
  PEM_read_bio_RSAPublicKey :: "bytes \<Rightarrow> 'k option"
  PEM_read_bio_RSAPrivateKey :: "bytes \<Rightarrow> 'k option"
  RSA_generate_key_ex :: "(bytes \<times> bytes) option"
  EVP_DigestInit_ex :: "evp_md \<Rightarrow> 'm"
  EVP_DigestUpdate :: "'m \<Rightarrow> bytes \<Rightarrow> 'm"
  EVP_DigestFinal_ex :: "'m \<Rightarrow> bytes \<times> 'm"
  EVP_MD_CTX_cleanup :: "'m \<Rightarrow> 'm"

record qsfAES =
  aes_key :: bytes
  aes_iv :: bytes

record 'k qsfRSA =
  rsa_ctx :: 'k
  rsa_buf :: bytes

section \<open>Hexadecimal form\<close>

definition hex_dict :: bytes where "hex_dict = str ''0123456789abcdef''"

fun hex_loop :: "bytes \<Rightarrow> bytes" where
  "hex_loop [] = []"
| "hex_loop (ch # src) =
     hex_dict ! unat (drop_bit 4 (ch AND 0xF0)) # hex_dict ! unat (ch AND 0x0F) # hex_loop src"

text \<open>The bytes written at \<open>out\<close>, which has room for \<open>outlen\<close>.\<close>

definition hex_dump :: "bytes \<Rightarrow> nat \<Rightarrow> bytes option" where
  "hex_dump data outlen = do {
     c_assert (0 < length data \<and> length data * 2 \<le> outlen);
     Some (hex_loop data)
   }"

section \<open>AES\<close>

text \<open>
  \<open>lua_tolstring\<close> sets the length to 0 for an argument that is not a string. The second message
  prints the length of the key.
\<close>

definition crypto_aes_new :: "lua_conv \<Rightarrow> lua_value list \<Rightarrow> qsfAES lua_res" where
  "crypto_aes_new cv args =
    (case luaL_checklstring cv args 1 of Inl e \<Rightarrow> Inl e | Inr key \<Rightarrow>
     if length key \<noteq> AES_BLOCK_SIZE
     then Inl (Lua_error (str ''invalid AES key size: '' @ dec_int (int (length key))))
     else
       (let iv = lua_tostring cv (lua_arg args 2);
            iv_len = (case iv of None \<Rightarrow> 0 | Some b \<Rightarrow> length b)
        in if iv_len \<noteq> AES_BLOCK_SIZE
           then Inl (Lua_error (str ''invalid AES init vector size: '' @ dec_int (int (length key))))
           else Inr \<lparr>aes_key = key, aes_iv = the iv\<rparr>))"

text \<open>\<open>avail n\<close>: an allocation of \<open>n\<close> bytes succeeds; strings up to 512 bytes use the stack.\<close>

definition aes_encrypt :: "('k, 'm) openssl \<Rightarrow> (nat \<Rightarrow> bool) \<Rightarrow> qsfAES \<Rightarrow> bytes \<Rightarrow> bytes option" where
  "aes_encrypt ssl avail aes data = do {
     c_assert (512 < length data \<longrightarrow> avail (length data));
     let iv = aes_iv aes;
     let out = AES_ofb128_encrypt ssl (aes_key aes) iv data;
     c_assert (length out = length data);
     Some out
   }"

definition crypto_aes_encrypt ::
    "lua_conv \<Rightarrow> ('k, 'm) openssl \<Rightarrow> (nat \<Rightarrow> bool) \<Rightarrow> qsfAES \<Rightarrow> lua_value list \<Rightarrow> lua_value list lua_res option"
where
  "crypto_aes_encrypt cv ssl avail aes args =
    (case luaL_checklstring cv args 2 of Inl e \<Rightarrow> Some (Inl e) | Inr data \<Rightarrow> do {
       out \<leftarrow> aes_encrypt ssl avail aes data;
       Some (Inr [L_str out]) })"

definition crypto_aes_decrypt ::
    "lua_conv \<Rightarrow> ('k, 'm) openssl \<Rightarrow> (nat \<Rightarrow> bool) \<Rightarrow> qsfAES \<Rightarrow> lua_value list \<Rightarrow> lua_value list lua_res option"
where
  "crypto_aes_decrypt cv ssl avail aes args =
    (case luaL_checklstring cv args 2 of Inl e \<Rightarrow> Some (Inl e) | Inr data \<Rightarrow> do {
       out \<leftarrow> aes_encrypt ssl avail aes data;
       Some (Inr [L_str out]) })"

section \<open>RSA\<close>

definition crypto_rsa_new :: "('k, 'm) openssl \<Rightarrow> 'k qsfRSA" where
  "crypto_rsa_new ssl = \<lparr>rsa_ctx = RSA_zero ssl, rsa_buf = replicate (nat MAX_RSA_BUF) 0\<rparr>"

definition crypto_rsa_gen_keypair :: "('k, 'm) openssl \<Rightarrow> lua_value list lua_res option" where
  "crypto_rsa_gen_keypair ssl =
    (case RSA_generate_key_ex ssl of
       None \<Rightarrow> Some (luaL_error ''generate key failed.'')
     | Some (pubkey, prikey) \<Rightarrow> do {
         c_assert (length pubkey < 1024);
         c_assert (length prikey < 1024);
         Some (Inr [L_str pubkey, L_str prikey]) })"

text \<open>\<open>BIO_write\<close> takes an \<open>int\<close>; of a negative number of bytes it writes none.\<close>

definition bio_of :: "bytes \<Rightarrow> bytes" where
  "bio_of key = take (nat (to_int32 (int (length key)))) key"

definition crypto_rsa_set_pubkey ::
    "lua_conv \<Rightarrow> ('k, 'm) openssl \<Rightarrow> lua_value list \<Rightarrow> 'k qsfRSA \<Rightarrow> unit lua_res \<times> 'k qsfRSA" where
  "crypto_rsa_set_pubkey cv ssl args rsa =
    (case luaL_checklstring cv args 2 of Inl e \<Rightarrow> (Inl e, rsa) | Inr key \<Rightarrow>
     (case PEM_read_bio_RSAPublicKey ssl (bio_of key) of
        Some ctx \<Rightarrow> (Inr (), rsa\<lparr>rsa_ctx := ctx\<rparr>)
      | None \<Rightarrow> (luaL_error ''set public key failed.'', rsa)))"

definition crypto_rsa_set_key ::
    "lua_conv \<Rightarrow> ('k, 'm) openssl \<Rightarrow> lua_value list \<Rightarrow> 'k qsfRSA \<Rightarrow> unit lua_res \<times> 'k qsfRSA" where
  "crypto_rsa_set_key cv ssl args rsa =
    (case luaL_checklstring cv args 2 of Inl e \<Rightarrow> (Inl e, rsa) | Inr key \<Rightarrow>
     (case PEM_read_bio_RSAPrivateKey ssl (bio_of key) of
        Some ctx \<Rightarrow> (Inr (), rsa\<lparr>rsa_ctx := ctx\<rparr>)
      | None \<Rightarrow> (luaL_error ''set private key failed.'', rsa)))"

text \<open>
  The loop both directions share: pieces of at most \<open>n\<close> bytes of the source are transformed and
  their results written one after the other into the 16384-byte buffer. It gives the number of
  bytes written, or \<open>-1\<close> at the first failure, and what is in the buffer. A piece that is not
  positive (a key of fewer than 12 bytes) and a write behind the end of the buffer are faults.
\<close>

function rsa_loop :: "(bytes \<Rightarrow> int + bytes) \<Rightarrow> int \<Rightarrow> bytes \<Rightarrow> bytes \<Rightarrow> (int \<times> bytes) option" where
  "rsa_loop func n src dst =
    (if src = [] then Some (int (length dst), dst)
     else if n \<le> 0 then None
     else (case func (take (nat n) src) of
             Inl r \<Rightarrow> Some (-1, dst)
           | Inr d \<Rightarrow> if d = [] then Some (-1, dst)
                      else if MAX_RSA_BUF < int (length dst + length d) then None
                      else rsa_loop func n (drop (nat n) src) (dst @ d)))"
  by pat_completeness auto
termination by (relation "measure (\<lambda>(_, _, src, _). length src)") auto

declare rsa_loop.simps [simp del]

text \<open>Division as in C, and a product that has to fit an \<open>int\<close>.\<close>

definition rsa_store :: "'k qsfRSA \<Rightarrow> bytes \<Rightarrow> 'k qsfRSA" where
  "rsa_store rsa dst = rsa\<lparr>rsa_buf := dst @ drop (length dst) (rsa_buf rsa)\<rparr>"

definition c_int :: "int \<Rightarrow> unit option" where
  "c_int i = c_assert (- (2 ^ 31) \<le> i \<and> i < 2 ^ 31)"

definition c_div :: "int \<Rightarrow> int \<Rightarrow> int" where
  "c_div a b = (if (a < 0) = (b < 0) then \<bar>a\<bar> div \<bar>b\<bar> else - (\<bar>a\<bar> div \<bar>b\<bar>))"

definition do_rsa_encrypt ::
    "('k, 'm) openssl \<Rightarrow> 'k qsfRSA \<Rightarrow> 'k rsa_func \<Rightarrow> bytes \<Rightarrow> int \<Rightarrow> (int \<times> 'k qsfRSA) option" where
  "do_rsa_encrypt ssl rsa func src sz = do {
     c_assert (0 < sz);
     modulus_size \<leftarrow> RSA_size ssl (rsa_ctx rsa);
     let block_size = modulus_size - 11;
     c_assert (block_size \<noteq> 0);
     let q = c_div sz block_size;
     let need_size = modulus_size * (q + (if sz - q * block_size > 0 then 1 else 0));
     c_int need_size;
     if MAX_RSA_BUF < need_size then Some (-2, rsa)
     else do {
       (r, dst) \<leftarrow> rsa_loop (\<lambda>b. func b (rsa_ctx rsa)) block_size (take (nat sz) src) [];
       Some (r, rsa_store rsa dst) }
   }"

definition do_rsa_decrypt ::
    "('k, 'm) openssl \<Rightarrow> 'k qsfRSA \<Rightarrow> 'k rsa_func \<Rightarrow> bytes \<Rightarrow> int \<Rightarrow> (int \<times> 'k qsfRSA) option" where
  "do_rsa_decrypt ssl rsa func src sz = do {
     c_assert (0 < sz);
     modulus_size \<leftarrow> RSA_size ssl (rsa_ctx rsa);
     c_assert (modulus_size \<noteq> 0);
     let q = c_div sz modulus_size;
     if sz - q * modulus_size \<noteq> 0 then Some (-3, rsa)
     else do {
       let need_size = (modulus_size - 11) * q;
       c_int need_size;
       if MAX_RSA_BUF < need_size then Some (-2, rsa)
       else do {
         (r, dst) \<leftarrow> rsa_loop (\<lambda>b. func b (rsa_ctx rsa)) modulus_size (take (nat sz) src) [];
         Some (r, rsa_store rsa dst) } }
   }"

text \<open>The four functions: nothing is returned when the result is not positive.\<close>

definition rsa_result :: "int \<times> 'k qsfRSA \<Rightarrow> lua_value list lua_res \<times> 'k qsfRSA" where
  "rsa_result r =
    (if 0 < fst r then (Inr [L_str (take (nat (fst r)) (rsa_buf (snd r)))], snd r) else (Inr [], snd r))"

definition crypto_rsa_pub_encrypt ::
    "lua_conv \<Rightarrow> ('k, 'm) openssl \<Rightarrow> lua_value list \<Rightarrow> 'k qsfRSA \<Rightarrow> (lua_value list lua_res \<times> 'k qsfRSA) option"
where
  "crypto_rsa_pub_encrypt cv ssl args rsa =
    (case luaL_checklstring cv args 2 of Inl e \<Rightarrow> Some (Inl e, rsa) | Inr data \<Rightarrow>
     map_option rsa_result
       (do_rsa_encrypt ssl rsa (RSA_public_encrypt ssl) data (to_int32 (int (length data)))))"

definition crypto_rsa_encrypt ::
    "lua_conv \<Rightarrow> ('k, 'm) openssl \<Rightarrow> lua_value list \<Rightarrow> 'k qsfRSA \<Rightarrow> (lua_value list lua_res \<times> 'k qsfRSA) option"
where
  "crypto_rsa_encrypt cv ssl args rsa =
    (case luaL_checklstring cv args 2 of Inl e \<Rightarrow> Some (Inl e, rsa) | Inr data \<Rightarrow>
     map_option rsa_result
       (do_rsa_encrypt ssl rsa (RSA_private_encrypt ssl) data (to_int32 (int (length data)))))"

definition crypto_rsa_pub_decrypt ::
    "lua_conv \<Rightarrow> ('k, 'm) openssl \<Rightarrow> lua_value list \<Rightarrow> 'k qsfRSA \<Rightarrow> (lua_value list lua_res \<times> 'k qsfRSA) option"
where
  "crypto_rsa_pub_decrypt cv ssl args rsa =
    (case luaL_checklstring cv args 2 of Inl e \<Rightarrow> Some (Inl e, rsa) | Inr data \<Rightarrow>
     map_option rsa_result
       (do_rsa_decrypt ssl rsa (RSA_public_decrypt ssl) data (to_int32 (int (length data)))))"

definition crypto_rsa_decrypt ::
    "lua_conv \<Rightarrow> ('k, 'm) openssl \<Rightarrow> lua_value list \<Rightarrow> 'k qsfRSA \<Rightarrow> (lua_value list lua_res \<times> 'k qsfRSA) option"
where
  "crypto_rsa_decrypt cv ssl args rsa =
    (case luaL_checklstring cv args 2 of Inl e \<Rightarrow> Some (Inl e, rsa) | Inr data \<Rightarrow>
     map_option rsa_result
       (do_rsa_decrypt ssl rsa (RSA_private_decrypt ssl) data (to_int32 (int (length data)))))"

section \<open>Digests\<close>

definition crypto_hash_new :: "lua_conv \<Rightarrow> ('k, 'm) openssl \<Rightarrow> lua_value list \<Rightarrow> 'm lua_res" where
  "crypto_hash_new cv ssl args =
    (case luaL_checkstring cv args 1 of Inl e \<Rightarrow> Inl e | Inr type \<Rightarrow>
     (let md = (if strcmp_eq type (str ''md5'') then Some EVP_md5
                else if strcmp_eq type (str ''sha1'') then Some EVP_sha1
                else if strcmp_eq type (str ''sha256'') then Some EVP_sha256
                else if strcmp_eq type (str ''sha512'') then Some EVP_sha512
                else None)
      in case md of
           None \<Rightarrow> luaL_error ''invalid hash type''
         | Some md \<Rightarrow> Inr (EVP_DigestInit_ex ssl md)))"

definition crypto_hash_gc :: "('k, 'm) openssl \<Rightarrow> 'm \<Rightarrow> 'm" where
  "crypto_hash_gc ssl ctx = EVP_MD_CTX_cleanup ssl ctx"

definition crypto_hash_update :: "lua_conv \<Rightarrow> ('k, 'm) openssl \<Rightarrow> lua_value list \<Rightarrow> 'm \<Rightarrow> unit lua_res \<times> 'm" where
  "crypto_hash_update cv ssl args ctx =
    (case luaL_checklstring cv args 2 of Inl e \<Rightarrow> (Inl e, ctx)
     | Inr data \<Rightarrow> (Inr (), EVP_DigestUpdate ssl ctx data))"

definition crypto_hash_digest ::
    "lua_conv \<Rightarrow> ('k, 'm) openssl \<Rightarrow> lua_value list \<Rightarrow> 'm \<Rightarrow> (lua_value list lua_res \<times> 'm) option" where
  "crypto_hash_digest cv ssl args ctx =
    (case luaL_optlstring cv args 2 (str ''hex'') of Inl e \<Rightarrow> Some (Inl e, ctx) | Inr option \<Rightarrow> do {
       let ishex = \<not> strcmp_eq option (str ''bin'');
       let (data, ctx) = EVP_DigestFinal_ex ssl ctx;
       c_assert (length data \<le> EVP_MAX_MD_SIZE);
       if ishex
       then do {
         hex \<leftarrow> hex_dump data (EVP_MAX_MD_SIZE * 2);
         Some (Inr [L_str hex], ctx) }
       else Some (Inr [L_str data], ctx) })"

section \<open>The module\<close>

text \<open>The tables of methods, by the name of the C function, and the functions of the module.\<close>

definition crypto_make_meta :: "(bytes \<times> (bytes \<times> bytes) list) list" where
  "crypto_make_meta =
    [(str ''qsfAES*'', [(str ''encrypt'', str ''crypto_aes_encrypt''), (str ''decrypt'', str ''crypto_aes_decrypt'')]),
     (str ''qsfRSA*'', [(str ''setPubKey'', str ''crypto_rsa_set_pubkey''), (str ''setPriKey'', str ''crypto_rsa_set_key''),
        (str ''pubEncrypt'', str ''crypto_rsa_pub_encrypt''), (str ''pubDecrypt'', str ''crypto_rsa_pub_decrypt''),
        (str ''priEncrypt'', str ''crypto_rsa_encrypt''), (str ''priDecrypt'', str ''crypto_rsa_decrypt'')]),
     (str ''qsfHash*'', [(str ''__gc'', str ''crypto_hash_gc''), (str ''clear'', str ''crypto_hash_gc''),
        (str ''update'', str ''crypto_hash_update''), (str ''digest'', str ''crypto_hash_digest'')])]"

definition luaopen_crypto_lib :: "(bytes \<times> bytes) list" where
  "luaopen_crypto_lib =
    [(str ''createAES'', str ''crypto_aes_new''), (str ''createRSA'', str ''crypto_rsa_new''),
     (str ''createHash'', str ''crypto_hash_new''), (str ''genRSAKeypair'', str ''crypto_rsa_gen_keypair'')]"

end
