(* ===== verification/Crypto_Correct.thy ===== *)
theory Crypto_Correct
  imports Crypto
begin

text \<open>
  The crypto module against what OpenSSL promises: the OFB transformation is the exclusive or
  with a key stream, and a block of at most \<open>modulus - 11\<close> bytes that one RSA key encrypts to
  \<open>modulus\<close> bytes is decrypted by the other. Strings longer than a block are cut into blocks;
  the lemmas show that the results stay inside the buffer and that decryption glues the blocks
  together again.
\<close>

section \<open>Streams of blocks\<close>

definition rsa_inverse :: "'k rsa_func \<Rightarrow> 'k rsa_func \<Rightarrow> 'k \<Rightarrow> 'k \<Rightarrow> int \<Rightarrow> bool" where
  "rsa_inverse enc dec ke kd m \<longleftrightarrow>
     (\<forall>b. b \<noteq> [] \<longrightarrow> int (length b) \<le> m - 11 \<longrightarrow>
        (\<exists>c. enc b ke = Inr c \<and> int (length c) = m \<and> dec c kd = Inr b))"

text \<open>The number of blocks of a string of \<open>len\<close> bytes.\<close>

definition rsa_blocks :: "int \<Rightarrow> nat \<Rightarrow> int" where
  "rsa_blocks n len = (int len + n - 1) div n"

lemma rsa_blocks_0 [simp]: "0 < n \<Longrightarrow> rsa_blocks n 0 = 0"
  by (simp add: rsa_blocks_def)

lemma rsa_blocks_step:
  assumes "0 < n" and "0 < len"
  shows "rsa_blocks n len = 1 + rsa_blocks n (len - nat n)"
proof (cases "int len \<le> n")
  case True
  then have "(int len + n - 1) div n = 1"
    using assms by (simp add: div_pos_geq div_pos_pos_trivial)
  then show ?thesis using True assms by (simp add: rsa_blocks_def)
next
  case False
  then have "int (len - nat n) = int len - n" using assms by simp
  then show ?thesis using assms by (simp add: rsa_blocks_def div_pos_geq)
qed

lemma rsa_blocks_bounds:
  assumes "0 < n"
  shows "int len \<le> n * rsa_blocks n len" and "0 \<le> rsa_blocks n len"
proof -
  have "n * ((int len + n - 1) div n) = int len + n - 1 - (int len + n - 1) mod n"
    by (simp add: minus_mod_eq_mult_div)
  moreover have "(int len + n - 1) mod n \<le> n - 1" using assms pos_mod_bound [of n] by (simp add: zle_diff1_eq)
  ultimately show "int len \<le> n * rsa_blocks n len" by (simp add: rsa_blocks_def)
  show "0 \<le> rsa_blocks n len" using assms by (simp add: rsa_blocks_def pos_imp_zdiv_nonneg_iff)
qed

lemma rsa_blocks_c:
  assumes "0 < n"
  shows "int len div n + (if 0 < int len - int len div n * n then 1 else 0) = rsa_blocks n len"
proof -
  have mod: "int len - int len div n * n = int len mod n" by (simp add: minus_div_mult_eq_mod)
  have split: "int len + n - 1 = (int len mod n + n - 1) + int len div n * n"
    by (metis add.commute add.left_commute add_diff_eq div_mult_mod_eq)
  have "rsa_blocks n len = int len div n + (int len mod n + n - 1) div n"
    unfolding rsa_blocks_def split using assms by simp
  moreover have "(int len mod n + n - 1) div n = (if 0 < int len mod n then 1 else 0)"
  proof (cases "0 < int len mod n")
    case True
    moreover have "int len mod n < n" using assms by simp
    ultimately have "(int len mod n + n - 1 - n) div n = 0" by (simp add: div_pos_pos_trivial)
    then show ?thesis using True assms by (simp add: div_pos_geq)
  next
    case False
    then have "int len mod n = 0" using assms pos_mod_sign [of n "int len"] by linarith
    then show ?thesis using assms by (simp add: div_pos_pos_trivial)
  qed
  ultimately show ?thesis by (simp add: mod)
qed

lemma rsa_loop_inverse:
  assumes inv: "rsa_inverse enc dec ke kd m" and m: "11 < m"
    and "int (length dst) + m * rsa_blocks (m - 11) (length src) \<le> MAX_RSA_BUF"
  shows "\<exists>c. rsa_loop (\<lambda>b. enc b ke) (m - 11) src dst = Some (int (length (dst @ c)), dst @ c) \<and>
    int (length c) = m * rsa_blocks (m - 11) (length src) \<and>
    (\<forall>out. int (length out + length src) \<le> MAX_RSA_BUF \<longrightarrow>
       rsa_loop (\<lambda>b. dec b kd) m c out = Some (int (length (out @ src)), out @ src))"
  using assms(3)
proof (induction "length src" arbitrary: src dst rule: less_induct)
  case less
  show ?case
  proof (cases "src = []")
    case True
    then show ?thesis using m by (intro exI [of _ "[]"]) (simp add: rsa_loop.simps)
  next
    case False
    define b where "b = take (nat (m - 11)) src"
    define rest where "rest = drop (nat (m - 11)) src"
    have b: "b \<noteq> []" "int (length b) \<le> m - 11" using False m by (auto simp: b_def)
    obtain c where c: "enc b ke = Inr c" "int (length c) = m" "dec c kd = Inr b"
      using inv b unfolding rsa_inverse_def by blast
    have cne: "c \<noteq> []" using c(2) m by auto
    have blk: "rsa_blocks (m - 11) (length src) = 1 + rsa_blocks (m - 11) (length rest)"
      using rsa_blocks_step [of "m - 11" "length src"] False m by (simp add: rest_def)
    have fit: "int (length (dst @ c)) + m * rsa_blocks (m - 11) (length rest) \<le> MAX_RSA_BUF"
      using less.prems c(2) by (simp add: blk algebra_simps)
    have "0 \<le> m * rsa_blocks (m - 11) (length rest)"
      using rsa_blocks_bounds(2) [of "m - 11" "length rest"] m by simp
    then have room: "\<not> MAX_RSA_BUF < int (length dst + length c)" using fit by simp
    have "length rest < length src" using False m by (simp add: rest_def)
    from less.hyps [OF this fit] obtain cs where cs:
        "rsa_loop (\<lambda>b. enc b ke) (m - 11) rest (dst @ c) = Some (int (length ((dst @ c) @ cs)), (dst @ c) @ cs)"
        "int (length cs) = m * rsa_blocks (m - 11) (length rest)"
        "\<forall>out. int (length out + length rest) \<le> MAX_RSA_BUF \<longrightarrow>
           rsa_loop (\<lambda>b. dec b kd) m cs out = Some (int (length (out @ rest)), out @ rest)"
      by blast
    have "rsa_loop (\<lambda>b. enc b ke) (m - 11) src dst = Some (int (length (dst @ c @ cs)), dst @ c @ cs)"
      using False m c(1) cne room cs(1) by (subst rsa_loop.simps) (simp add: b_def [symmetric] rest_def [symmetric])
    moreover have "int (length (c @ cs)) = m * rsa_blocks (m - 11) (length src)"
      using c(2) cs(2) by (simp add: blk algebra_simps)
    moreover have "rsa_loop (\<lambda>b. dec b kd) m (c @ cs) out = Some (int (length (out @ src)), out @ src)"
      if out: "int (length out + length src) \<le> MAX_RSA_BUF" for out
    proof -
      have src: "src = b @ rest" by (simp add: b_def rest_def)
      have len: "length b + length rest = length src" by (simp add: src)
      have mc: "nat m = length c" using c(2) by simp
      have "rsa_loop (\<lambda>b. dec b kd) m (c @ cs) out = rsa_loop (\<lambda>b. dec b kd) m cs (out @ b)"
        using cne m c(3) b(1) out len by (subst rsa_loop.simps) (simp add: mc)
      also have "\<dots> = Some (int (length ((out @ b) @ rest)), (out @ b) @ rest)"
        using cs(3) out len by simp
      finally show ?thesis by (simp add: src)
    qed
    ultimately show ?thesis by (intro exI [of _ "c @ cs"]) simp
  qed
qed

section \<open>Encryption and decryption\<close>

lemma c_div_pos: "0 < a \<Longrightarrow> 0 < b \<Longrightarrow> c_div a b = a div b"
  by (simp add: c_div_def)

lemma to_int32_small: "0 \<le> i \<Longrightarrow> i < 2 ^ 31 \<Longrightarrow> to_int32 i = i"
  by (simp add: to_int32_id)

text \<open>The size of the encrypted string and what limits it.\<close>

definition rsa_out_size :: "int \<Rightarrow> nat \<Rightarrow> int" where
  "rsa_out_size m len = m * rsa_blocks (m - 11) len"

lemma take_rsa_store: "take (length dst) (rsa_buf (rsa_store rsa dst)) = dst"
  by (simp add: rsa_store_def)

lemma do_rsa_encrypt_decrypt:
  assumes inv: "rsa_inverse enc dec (rsa_ctx rsa) (rsa_ctx rsa') m" and m: "11 < m"
    and sz: "RSA_size ssl (rsa_ctx rsa) = Some m" "RSA_size ssl (rsa_ctx rsa') = Some m"
    and d: "d \<noteq> []" and fit: "rsa_out_size m (length d) \<le> MAX_RSA_BUF"
  shows "\<exists>c. int (length c) = rsa_out_size m (length d) \<and>
    do_rsa_encrypt ssl rsa enc d (int (length d)) = Some (int (length c), rsa_store rsa c) \<and>
    do_rsa_decrypt ssl rsa' dec c (int (length c)) = Some (int (length d), rsa_store rsa' d)"
proof -
  let ?k = "rsa_blocks (m - 11) (length d)"
  have n: "0 < m - 11" using m by simp
  have pos: "0 < int (length d)" using d by simp
  have k: "0 \<le> ?k" "int (length d) \<le> (m - 11) * ?k"
    using rsa_blocks_bounds [OF n, of "length d"] by auto
  have kpos: "0 < ?k" using k pos n by (metis less_le mult_zero_right not_less)
  have "(m - 11) * ?k \<le> m * ?k" using k(1) by (intro mult_right_mono) simp_all
  then have small: "int (length d) \<le> MAX_RSA_BUF" "(m - 11) * ?k \<le> MAX_RSA_BUF" "0 \<le> (m - 11) * ?k"
    using fit k n by (simp_all add: rsa_out_size_def)
  obtain c where c: "rsa_loop (\<lambda>b. enc b (rsa_ctx rsa)) (m - 11) d [] = Some (int (length c), c)"
      "int (length c) = m * ?k" "rsa_loop (\<lambda>b. dec b (rsa_ctx rsa')) m c [] = Some (int (length d), d)"
    using rsa_loop_inverse [OF inv m, of "[]" d] fit small(1) by (auto simp: rsa_out_size_def)
  have need: "m * (c_div (int (length d)) (m - 11) +
      (if 0 < int (length d) - c_div (int (length d)) (m - 11) * (m - 11) then 1 else 0)) = m * ?k"
    using rsa_blocks_c [OF n, of "length d"] pos n by (simp add: c_div_pos)
  have mk: "0 < m * ?k" using m kpos by simp
  have enc: "do_rsa_encrypt ssl rsa enc d (int (length d)) = Some (int (length c), rsa_store rsa c)"
    using pos sz(1) n need fit mk c(1)
    unfolding do_rsa_encrypt_def by (simp add: rsa_out_size_def c_int_def MAX_RSA_BUF_def Let_def)
  have "c_div (int (length c)) m = ?k" using c(2) mk m by (simp add: c_div_pos)
  then have dec: "do_rsa_decrypt ssl rsa' dec c (int (length c)) = Some (int (length d), rsa_store rsa' d)"
    using sz(2) m c(2,3) mk small
    unfolding do_rsa_decrypt_def by (simp add: c_int_def MAX_RSA_BUF_def Let_def mult.commute)
  show ?thesis using c(2) enc dec by (auto simp: rsa_out_size_def)
qed

lemma rsa_functions_inverse:
  assumes "rsa_inverse enc dec (rsa_ctx rsa) (rsa_ctx rsa') m" and "11 < m"
    and "RSA_size ssl (rsa_ctx rsa) = Some m" and "RSA_size ssl (rsa_ctx rsa') = Some m"
    and "d \<noteq> []" and "rsa_out_size m (length d) \<le> MAX_RSA_BUF"
  shows "\<exists>c r r'. int (length c) = rsa_out_size m (length d) \<and>
    map_option rsa_result (do_rsa_encrypt ssl rsa enc d (to_int32 (int (length d)))) = Some (Inr [L_str c], r) \<and>
    map_option rsa_result (do_rsa_decrypt ssl rsa' dec c (to_int32 (int (length c)))) = Some (Inr [L_str d], r')"
proof -
  obtain c where c: "int (length c) = rsa_out_size m (length d)"
    "do_rsa_encrypt ssl rsa enc d (int (length d)) = Some (int (length c), rsa_store rsa c)"
    "do_rsa_decrypt ssl rsa' dec c (int (length c)) = Some (int (length d), rsa_store rsa' d)"
    using do_rsa_encrypt_decrypt [OF assms] by blast
  have k: "int (length d) \<le> (m - 11) * rsa_blocks (m - 11) (length d)" "0 \<le> rsa_blocks (m - 11) (length d)"
    using rsa_blocks_bounds [of "m - 11" "length d"] assms(2) by auto
  have "(m - 11) * rsa_blocks (m - 11) (length d) \<le> rsa_out_size m (length d)"
    unfolding rsa_out_size_def using k(2) by (intro mult_right_mono) simp_all
  moreover have "0 < int (length d)" using assms(5) by simp
  ultimately have len: "int (length d) \<le> int (length c)" "int (length c) \<le> MAX_RSA_BUF" "0 < int (length c)"
    using k(1) c(1) assms(6) by linarith+
  have conv: "to_int32 (int (length d)) = int (length d)" "to_int32 (int (length c)) = int (length c)"
    using len by (auto intro!: to_int32_small simp: MAX_RSA_BUF_def)
  have res: "rsa_result (int (length x), rsa_store y x) = (Inr [L_str x], rsa_store y x)" if "x \<noteq> []" for x y
    using that by (simp add: rsa_result_def take_rsa_store)
  have "c \<noteq> []" using len(3) by auto
  then have "rsa_result (int (length c), rsa_store rsa c) = (Inr [L_str c], rsa_store rsa c)" by (rule res)
  then have "map_option rsa_result (do_rsa_encrypt ssl rsa enc d (to_int32 (int (length d)))) = Some (Inr [L_str c], rsa_store rsa c)"
    by (simp only: conv c(2) option.map)
  moreover have "map_option rsa_result (do_rsa_decrypt ssl rsa' dec c (to_int32 (int (length c)))) = Some (Inr [L_str d], rsa_store rsa' d)"
    by (simp only: conv c(3) option.map res [OF assms(5)])
  ultimately show ?thesis using c(1) by blast
qed

text \<open>A string whose encrypted form does not fit is refused before anything is written.\<close>

lemma do_rsa_encrypt_too_big:
  assumes "11 < m" and "RSA_size ssl (rsa_ctx rsa) = Some m" and "d \<noteq> []"
    and "16384 < rsa_out_size m (length d)" and "rsa_out_size m (length d) < 2 ^ 31"
  shows "do_rsa_encrypt ssl rsa func d (to_int32 (int (length d))) = Some (-2, rsa)"
proof -
  have n: "0 < m - 11" using assms(1) by simp
  have pos: "0 < int (length d)" using assms(3) by simp
  note k = rsa_blocks_bounds [OF n, of "length d"]
  have "(m - 11) * rsa_blocks (m - 11) (length d) \<le> rsa_out_size m (length d)"
    unfolding rsa_out_size_def using k(2) by (intro mult_right_mono) simp_all
  then have conv: "to_int32 (int (length d)) = int (length d)"
    using k(1) assms(5) pos by (intro to_int32_small) linarith+
  have need: "m * (c_div (int (length d)) (m - 11) +
      (if 0 < int (length d) - c_div (int (length d)) (m - 11) * (m - 11) then 1 else 0)) = rsa_out_size m (length d)"
    using rsa_blocks_c [OF n, of "length d"] pos n by (simp add: c_div_pos rsa_out_size_def)
  show ?thesis
    unfolding do_rsa_encrypt_def conv Let_def assms(2) Option.bind.bind_lunit need
    using pos n assms(4,5) need by (simp add: c_int_def MAX_RSA_BUF_def)
qed

section \<open>AES\<close>

text \<open>What OFB is: the key stream depends on the key and the vector only.\<close>

definition ofb_stream :: "('k, 'm) openssl \<Rightarrow> (bytes \<Rightarrow> bytes \<Rightarrow> nat \<Rightarrow> byte) \<Rightarrow> bool" where
  "ofb_stream ssl stream \<longleftrightarrow>
     (\<forall>key iv d. AES_ofb128_encrypt ssl key iv d = map2 (XOR) d (map (stream key iv) [0..<length d]))"

lemma xor_stream_twice: "map2 (XOR) (map2 (XOR) d s) s = take (length s) (d :: bytes)"
  by (induction d arbitrary: s) (auto simp: xor.assoc split: list.splits, case_tac s, auto simp: xor.assoc)

lemma aes_encrypt_twice:
  assumes "ofb_stream ssl stream" and "\<forall>n. avail n"
  shows "\<exists>c. aes_encrypt ssl avail aes d = Some c \<and> length c = length d \<and> aes_encrypt ssl avail aes c = Some d"
proof -
  let ?s = "map (stream (aes_key aes) (aes_iv aes)) [0..<length d]"
  have enc: "AES_ofb128_encrypt ssl (aes_key aes) (aes_iv aes) x =
      map2 (XOR) x (map (stream (aes_key aes) (aes_iv aes)) [0..<length x])" for x
    using assms(1) by (simp add: ofb_stream_def)
  have "map2 (XOR) (map2 (XOR) d ?s) ?s = d" unfolding xor_stream_twice by simp
  then show ?thesis using assms(2) by (simp add: aes_encrypt_def enc Let_def)
qed

section \<open>Hexadecimal form\<close>

lemma hex_loop_length [simp]: "length (hex_loop d) = 2 * length d"
  by (induction d) simp_all

text \<open>Reading the digits back.\<close>

definition hex_val :: "byte \<Rightarrow> nat" where
  "hex_val c = (if 97 \<le> c then unat c - 87 else unat c - 48)"

fun unhex :: "bytes \<Rightarrow> bytes" where
  "unhex (h # l # cs) = of_nat (16 * hex_val h + hex_val l) # unhex cs"
| "unhex cs = []"

lemma hex_val_dict:
  assumes "n < 16"
  shows "hex_val (hex_dict ! n) = n"
proof -
  have "\<forall>n \<in> set [0..<16]. hex_val (hex_dict ! n) = n" by code_simp
  then show ?thesis using assms by simp
qed

lemma nibbles:
  "unat (drop_bit 4 (c AND 0xF0)) = unat c div 16" "unat (c AND 0x0F) = unat c mod 16" for c :: byte
proof -
  have "c AND 0x0F = take_bit 4 c" by (simp add: take_bit_eq_mask mask_eq_exp_minus_1)
  then show "unat (c AND 0x0F) = unat c mod 16" by (simp only: unsigned_take_bit_eq) (simp add: take_bit_eq_mod)
  have "bit (0xF0 :: byte) (4 + n)" if "4 + n < 8" for n
  proof -
    have "n = 0 \<or> n = 1 \<or> n = 2 \<or> n = 3" using that by linarith
    then show ?thesis by (elim disjE) (simp_all add: bit_simps)
  qed
  moreover have "bit c (4 + n) \<Longrightarrow> 4 + n < 8" for n using bit_imp_le_length [of c "4 + n"] by simp
  ultimately have "bit (drop_bit 4 (c AND 0xF0)) n = bit (drop_bit 4 c) n" for n
    unfolding bit_drop_bit_eq bit_and_iff o_def by blast
  then have "drop_bit 4 (c AND 0xF0) = drop_bit 4 c" by (intro bit_word_eqI) blast
  then show "unat (drop_bit 4 (c AND 0xF0)) = unat c div 16"
    by (simp only:) (simp add: drop_bit_eq_div unat_div)
qed

lemma unhex_hex_loop: "unhex (hex_loop d) = d"
proof (induction d)
  case (Cons c d)
  have "unat c < 256" using unsigned_less [of c] by simp
  then have "hex_val (hex_dict ! (unat c div 16)) = unat c div 16"
    "hex_val (hex_dict ! (unat c mod 16)) = unat c mod 16"
    by (simp_all add: hex_val_dict less_mult_imp_div_less)
  moreover have "16 * (unat c div 16) + unat c mod 16 = unat c" by simp
  ultimately show ?case
    unfolding hex_loop.simps unhex.simps nibbles Cons by (simp only: of_nat_unat) simp
qed simp

end
