(* ===== verification/Crypto_Properties.thy ===== *)
theory Crypto_Properties
  imports Crypto_Correct
begin

text \<open>
  The properties of the Lua module \<open>crypto\<close> (\<open>src/lualib/lua_crypto.c\<close>), with witnesses on a
  small replacement of OpenSSL that meets the contracts.
\<close>

section \<open>A library to try the theorems on\<close>

definition demo_enc :: "nat rsa_func" where
  "demo_enc b k = (if length b \<le> 117 then Inr (of_nat (length b) # b @ replicate (127 - length b) 0) else Inl (- 1))"

definition demo_dec :: "nat rsa_func" where
  "demo_dec c k = (case c of [] \<Rightarrow> Inl (- 1) | n # b \<Rightarrow> Inr (take (unat n) b))"

definition demo_ssl :: "(nat, bytes) openssl" where
  "demo_ssl = \<lparr>AES_ofb128_encrypt = (\<lambda>key iv d. map2 (XOR) d (map (\<lambda>n. of_nat n + key ! 0) [0..<length d])),
     RSA_zero = 0, RSA_size = (\<lambda>k. if k = 0 then None else Some 128),
     RSA_public_encrypt = demo_enc, RSA_private_encrypt = demo_enc,
     RSA_public_decrypt = demo_dec, RSA_private_decrypt = demo_dec,
     PEM_read_bio_RSAPublicKey = (\<lambda>_. Some 1), PEM_read_bio_RSAPrivateKey = (\<lambda>_. Some 2),
     RSA_generate_key_ex = None, EVP_DigestInit_ex = (\<lambda>_. []), EVP_DigestUpdate = (@),
     EVP_DigestFinal_ex = (\<lambda>ctx. (take 16 (ctx @ replicate 16 0), ctx)), EVP_MD_CTX_cleanup = (\<lambda>_. [])\<rparr>"


section \<open>Properties\<close>



text \<open>
  An AES object decrypts what it encrypted, whatever the length of the string and as often
  as it is used: each call starts from a copy of the initial vector, so the object's state never
  changes. Keys and vectors of other lengths than 16 bytes are rejected.
\<close>

lemma aes_roundtrip:
  assumes "ofb_stream ssl stream" and "\<forall>n. avail n"
  shows "(case crypto_aes_new cv [L_str key, L_str iv] of
      Inl e \<Rightarrow> length key \<noteq> 16 \<or> length iv \<noteq> 16
    | Inr aes \<Rightarrow> length key = 16 \<and> length iv = 16 \<and>
        (\<exists>c. crypto_aes_encrypt cv ssl avail aes [self, L_str d] = Some (Inr [L_str c]) \<and> length c = length d \<and>
           crypto_aes_decrypt cv ssl avail aes [self, L_str c] = Some (Inr [L_str d])))"
proof -
  have arg: "luaL_checklstring cv [self, L_str x] 2 = Inr x" for x by (simp add: lua_arg_def)
  have "\<exists>c. crypto_aes_encrypt cv ssl avail aes [self, L_str d] = Some (Inr [L_str c]) \<and> length c = length d \<and>
      crypto_aes_decrypt cv ssl avail aes [self, L_str c] = Some (Inr [L_str d])" for aes
    using aes_encrypt_twice [OF assms, of aes d] by (auto simp: crypto_aes_encrypt_def crypto_aes_decrypt_def arg)
  then show ?thesis
    by (auto simp: crypto_aes_new_def lua_arg_def luaL_checklstring_def lua_tostring_def AES_BLOCK_SIZE_def)
qed

lemma aes_roundtrip_witness:
  "\<exists>c. crypto_aes_encrypt no_conv demo_ssl (\<lambda>_. True) \<lparr>aes_key = replicate 16 1, aes_iv = replicate 16 2\<rparr>
       [L_nil, L_str (replicate 600 65)] = Some (Inr [L_str c]) \<and>
     crypto_aes_decrypt no_conv demo_ssl (\<lambda>_. True) \<lparr>aes_key = replicate 16 1, aes_iv = replicate 16 2\<rparr>
       [L_nil, L_str c] = Some (Inr [L_str (replicate 600 65)])"
proof -
  have "ofb_stream demo_ssl (\<lambda>key iv n. of_nat n + key ! 0)" by (simp add: ofb_stream_def demo_ssl_def)
  moreover have "crypto_aes_new no_conv [L_str (replicate 16 1), L_str (replicate 16 2)] =
      Inr \<lparr>aes_key = replicate 16 1, aes_iv = replicate 16 2\<rparr>"
    by (simp add: crypto_aes_new_def lua_arg_def lua_tostring_def AES_BLOCK_SIZE_def)
  ultimately show ?thesis
    using aes_roundtrip [where cv = no_conv and key = "replicate 16 1" and iv = "replicate 16 2" and self = L_nil
        and avail = "\<lambda>_. True" and d = "replicate 600 65" and ssl = demo_ssl]
    by force
qed

text \<open>
  A digest of 1 to 64 bytes is returned as its bytes with the option \<open>bin\<close>, and as its
  hexadecimal form otherwise: twice as long, two digits for each byte, from which the bytes can
  be read back, and always within the 128-byte buffer.
\<close>

lemma digest_hex:
  assumes "EVP_DigestFinal_ex ssl ctx = (dg, ctx')" and "0 < length dg" and "length dg \<le> 64"
  shows "crypto_hash_digest cv ssl [self, L_str (str ''bin'')] ctx = Some (Inr [L_str dg], ctx') \<and>
    (\<exists>h. crypto_hash_digest cv ssl [self] ctx = Some (Inr [L_str h], ctx') \<and>
       length h = 2 * length dg \<and> unhex h = dg)"
proof -
  have "crypto_hash_digest cv ssl [self] ctx = Some (Inr [L_str (hex_loop dg)], ctx')"
    using assms by (simp add: crypto_hash_digest_def luaL_optlstring_def lua_arg_def lua_isnoneornil_def
        strcmp_eq_def cstr_def str_def hex_dump_def EVP_MAX_MD_SIZE_def)
  moreover have "crypto_hash_digest cv ssl [self, L_str (str ''bin'')] ctx = Some (Inr [L_str dg], ctx')"
    using assms by (simp add: crypto_hash_digest_def luaL_optlstring_def lua_arg_def lua_isnoneornil_def
        strcmp_eq_def EVP_MAX_MD_SIZE_def)
  ultimately show ?thesis using unhex_hex_loop [of dg] by simp
qed

lemma digest_hex_witness:
  "\<exists>h. crypto_hash_digest no_conv demo_ssl [L_nil] [171, 1] = Some (Inr [L_str h], [171, 1]) \<and>
     unhex h = 171 # 1 # replicate 14 0"
proof -
  have "EVP_DigestFinal_ex demo_ssl [171, 1] = (171 # 1 # replicate 14 0, [171, 1])" by (simp add: demo_ssl_def)
  from digest_hex [OF this] show ?thesis by simp blast
qed

end
