(* ===== verification/Zlib.thy ===== *)
theory Zlib
  imports Env
begin

text \<open>
  The Lua module \<open>zlib\<close> of \<open>src/lualib/lua_zlib.c\<close>: compression and decompression streams as
  closures over a \<open>z_stream\<close> and the input left over from the previous call, and running
  checksums.

  The zlib library is a parameter, the record \<open>zlib\<close>, over the state \<open>'z\<close> of a stream. A call of
  the filter takes the flush mode, the input and the room for output, and gives the result code,
  the output it wrote, the input it left, and the new state.
\<close>

definition Z_OK :: int where "Z_OK = 0"
definition Z_STREAM_END :: int where "Z_STREAM_END = 1"
definition Z_NEED_DICT :: int where "Z_NEED_DICT = 2"
definition Z_STREAM_ERROR :: int where "Z_STREAM_ERROR = - 2"
definition Z_DATA_ERROR :: int where "Z_DATA_ERROR = - 3"
definition Z_MEM_ERROR :: int where "Z_MEM_ERROR = - 4"
definition Z_BUF_ERROR :: int where "Z_BUF_ERROR = - 5"
definition Z_VERSION_ERROR :: int where "Z_VERSION_ERROR = - 6"
definition Z_FINISH :: int where "Z_FINISH = 4"
definition Z_DEFAULT_COMPRESSION :: int where "Z_DEFAULT_COMPRESSION = - 1"
definition MAX_WBITS :: int where "MAX_WBITS = 15"

type_synonym 'z z_filter = "int \<Rightarrow> 'z \<Rightarrow> bytes \<Rightarrow> nat \<Rightarrow> int \<times> bytes \<times> bytes \<times> 'z"

record 'z zlib =
  zlibVersion :: bytes
  ZLIB_VERSION :: bytes
  z_msg :: "'z \<Rightarrow> bytes"
  total_in :: "'z \<Rightarrow> u64"
  total_out :: "'z \<Rightarrow> u64"
  deflate :: "'z z_filter"
  inflate :: "'z z_filter"
  deflateEnd :: "'z \<Rightarrow> int \<times> 'z"
  inflateEnd :: "'z \<Rightarrow> int \<times> 'z"
  deflateInit2 :: "int \<Rightarrow> int \<Rightarrow> int \<times> 'z"
  inflateInit2 :: "int \<Rightarrow> int \<times> 'z"

text \<open>The closure's two upvalues: the stream, unless it was closed, and the remainder.\<close>

record 'z lz_state =
  lz_stream :: "'z option"
  lz_rest :: lua_value

section \<open>Version\<close>

function lz_version_loop :: "bytes \<Rightarrow> lua_value list" where
  "lz_version_loop cur =
    (if cur = [] then []
     else
       (let ds = takeWhile isdigit cur; rest = dropWhile isdigit cur
        in if ds \<noteq> []
           then L_int (of_int (digits_val ds)) #
             (if rest = [] then [] else lz_version_loop (dropWhile (\<lambda>c. \<not> isdigit c) (tl rest)))
           else lz_version_loop (dropWhile (\<lambda>c. \<not> isdigit c) cur)))"
  by pat_completeness auto
termination
proof (relation "measure length", goal_cases)
  case (2 cur ds rest)
  have "length (dropWhile (\<lambda>c. \<not> isdigit c) (tl rest)) \<le> length (tl rest)" by (rule length_dropWhile_le)
  also have "length (tl rest) < length cur"
    using 2 length_dropWhile_le [of isdigit cur] by (cases cur) auto
  finally show ?case by simp
next
  case (3 cur ds rest)
  then obtain c cs where cur: "cur = c # cs" "\<not> isdigit c" by (cases cur) (auto split: if_splits)
  then show ?case using length_dropWhile_le [of "\<lambda>c. \<not> isdigit c" cs] by simp
qed simp

declare lz_version_loop.simps [simp del]

definition lz_version :: "'z zlib \<Rightarrow> lua_value list" where
  "lz_version lib = lz_version_loop (cstr (zlibVersion lib))"

section \<open>Result codes\<close>

text \<open>\<open>pos\<close> is the text \<open>file line n\<close> of the macros at the place of the call.\<close>

definition lz_assert :: "'z zlib \<Rightarrow> bytes \<Rightarrow> int \<Rightarrow> 'z \<Rightarrow> int lua_res" where
  "lz_assert lib pos result stream =
    (let msg = z_msg lib stream; par = (\<lambda>t. str t @ str '' ('' @ msg @ str '') at '' @ pos)
     in if result = Z_OK \<or> result = Z_STREAM_END then Inr result
        else if result = Z_NEED_DICT
        then Inl (Lua_error (par ''RequiresDictionary: input stream requires a dictionary to be deflated''))
        else if result = Z_STREAM_ERROR
        then Inl (Lua_error (par ''InternalError: inconsistent internal zlib stream''))
        else if result = Z_DATA_ERROR
        then Inl (Lua_error
          (str ''InvalidInput: input string does not conform to zlib format or checksum failed at '' @ pos))
        else if result = Z_MEM_ERROR then Inl (Lua_error (par ''OutOfMemory: not enough memory''))
        else if result = Z_BUF_ERROR then Inl (Lua_error (par ''InternalError: no progress possible''))
        else if result = Z_VERSION_ERROR
        then Inl (Lua_error (str ''IncompatibleLibrary: built with version '' @ ZLIB_VERSION lib
          @ str '', but dynamically linked with version '' @ zlibVersion lib @ par ''''))
        else Inl (Lua_error (str ''ZLibError: unknown code '' @ dec_int result @ par '''')))"

section \<open>The filter\<close>

text \<open>
  The loop: \<open>bufsz\<close> is \<open>LUAL_BUFFERSIZE\<close>. It ends when a call leaves room in the buffer, or
  with the Lua error of a bad result; it need not end for a library that always fills the buffer.
\<close>

partial_function (option) filter_loop ::
    "'z zlib \<Rightarrow> 'z z_filter \<Rightarrow> nat \<Rightarrow> bytes \<Rightarrow> int \<Rightarrow> 'z \<Rightarrow> bytes \<Rightarrow> bytes
     \<Rightarrow> ((int \<times> bytes \<times> bytes) lua_res \<times> 'z) option" where
  "filter_loop lib flt bufsz pos flush z inp buff =
    (let (result, out, inp, z) = flt flush z inp bufsz
     in if bufsz < length out then None
        else case (if result \<noteq> Z_BUF_ERROR then lz_assert lib pos result z else Inr result) of
          Inl e \<Rightarrow> Some (Inl e, z)
        | Inr _ \<Rightarrow>
            if length out = bufsz then filter_loop lib flt bufsz pos flush z inp (buff @ out)
            else Some (Inr (result, inp, buff @ out), z))"

text \<open>
  The value on top of the stack when the input is read: the first argument, with the remainder
  appended when there is one. \<open>uInt\<close> has 32 bits.
\<close>

definition filter_input :: "lua_conv \<Rightarrow> lua_value list \<Rightarrow> lua_value \<Rightarrow> bytes option" where
  "filter_input cv args rest =
    (let v = lua_arg args 1
     in if lua_isstring (Some rest)
        then if lua_isstring v
             then Some (the (lua_tostring cv v) @ the (lua_tostring cv (Some rest)))
             else lua_tostring cv (Some rest)
        else lua_tostring cv v)"

definition uInt :: "bytes \<Rightarrow> bytes" where
  "uInt b = take (length b mod 2 ^ 32) b"

text \<open>The flush mode; \<open>is_deflate\<close> is the test \<open>filter == deflate\<close>.\<close>

definition filter_flush :: "lua_conv \<Rightarrow> bool \<Rightarrow> lua_value list \<Rightarrow> int lua_res" where
  "filter_flush cv is_deflate args =
    (if \<not> is_deflate then Inr 0
     else case luaL_checkoption cv args 2 (Some (str ''none''))
                 (map str [''none'', ''sync'', ''full'', ''finish'']) of
            Inl e \<Rightarrow> Inl e
          | Inr flush \<Rightarrow>
              if args = [] \<or> lua_arg args 1 = Some L_nil then Inr Z_FINISH
              else Inr (if flush = 0 then 0 else int flush + 1))"

definition lz_filter_impl ::
    "lua_conv \<Rightarrow> 'z zlib \<Rightarrow> nat \<Rightarrow> bytes \<Rightarrow> bool \<Rightarrow> 'z z_filter \<Rightarrow> ('z \<Rightarrow> int \<times> 'z) \<Rightarrow> bytes
     \<Rightarrow> lua_value list \<Rightarrow> 'z lz_state \<Rightarrow> (lua_value list lua_res \<times> 'z lz_state) option" where
  "lz_filter_impl cv lib bufsz pos is_deflate flt end_stream name args st =
    (case filter_flush cv is_deflate args of Inl e \<Rightarrow> Some (Inl e, st) | Inr flush \<Rightarrow>
     case lz_stream st of
       None \<Rightarrow>
         if 1 \<le> length args \<and> lua_isstring (lua_arg args 1)
         then Some (Inl (Lua_error (str ''IllegalState: calling '' @ name
                      @ str '' function when stream was previously closed'')), st)
         else Some (Inr [L_str [], L_bool True], st)
     | Some z \<Rightarrow>
         (let inp = filter_input cv args (lz_rest st);
              next_in = uInt (case inp of None \<Rightarrow> [] | Some b \<Rightarrow> b)
          in if next_in = [] \<and> flush = 0
             then Some (Inr [L_str [], L_bool False, L_int (total_in lib z), L_int (total_out lib z)], st)
             else do {
               (r, z) \<leftarrow> filter_loop lib flt bufsz pos flush z next_in [];
               case r of
                 Inl e \<Rightarrow> Some (Inl e, st\<lparr>lz_stream := Some z\<rparr>)
               | Inr (result, left, out) \<Rightarrow>
                   (let st = (if inp = None then st else st\<lparr>lz_rest := L_str left\<rparr>)
                    in if result = Z_STREAM_END
                       then (let (r, z) = end_stream z; st = st\<lparr>lz_stream := None\<rparr>
                             in case lz_assert lib pos r z of
                                  Inl e \<Rightarrow> Some (Inl e, st)
                                | Inr _ \<Rightarrow> Some (Inr [L_str out, L_bool True, L_int (total_in lib z),
                                                   L_int (total_out lib z)], st))
                       else Some (Inr [L_str out, L_bool False, L_int (total_in lib z),
                                       L_int (total_out lib z)], st\<lparr>lz_stream := Some z\<rparr>)) }))"

definition lz_deflate ::
    "lua_conv \<Rightarrow> 'z zlib \<Rightarrow> nat \<Rightarrow> bytes \<Rightarrow> lua_value list \<Rightarrow> 'z lz_state
     \<Rightarrow> (lua_value list lua_res \<times> 'z lz_state) option" where
  "lz_deflate cv lib bufsz pos args st =
     lz_filter_impl cv lib bufsz pos True (deflate lib) (deflateEnd lib) (str ''deflate'') args st"

definition lz_inflate ::
    "lua_conv \<Rightarrow> 'z zlib \<Rightarrow> nat \<Rightarrow> bytes \<Rightarrow> lua_value list \<Rightarrow> 'z lz_state
     \<Rightarrow> (lua_value list lua_res \<times> 'z lz_state) option" where
  "lz_inflate cv lib bufsz pos args st =
     lz_filter_impl cv lib bufsz pos False (inflate lib) (inflateEnd lib) (str ''inflate'') args st"

section \<open>Streams\<close>

definition lz_deflate_new :: "lua_conv \<Rightarrow> 'z zlib \<Rightarrow> bytes \<Rightarrow> lua_value list \<Rightarrow> 'z lz_state lua_res" where
  "lz_deflate_new cv lib pos args =
    (case luaL_optinteger cv args 1 (of_int Z_DEFAULT_COMPRESSION) of Inl e \<Rightarrow> Inl e | Inr level \<Rightarrow>
     case luaL_optinteger cv args 2 (of_int MAX_WBITS) of Inl e \<Rightarrow> Inl e | Inr window_size \<Rightarrow>
     (let (result, z) = deflateInit2 lib (to_int32 (uint level)) (to_int32 (uint window_size))
      in case lz_assert lib pos result z of Inl e \<Rightarrow> Inl e
         | Inr _ \<Rightarrow> Inr \<lparr>lz_stream = Some z, lz_rest = L_nil\<rparr>))"

definition lz_inflate_new :: "lua_conv \<Rightarrow> 'z zlib \<Rightarrow> bytes \<Rightarrow> lua_value list \<Rightarrow> 'z lz_state lua_res" where
  "lz_inflate_new cv lib pos args =
    (let window_size = (if lua_isnumber cv (lua_arg args 1)
                        then to_int32 (uint (lua_tointeger0 cv (lua_arg args 1))) else MAX_WBITS + 32);
         (result, z) = inflateInit2 lib window_size
     in case lz_assert lib pos result z of Inl e \<Rightarrow> Inl e
        | Inr _ \<Rightarrow> Inr \<lparr>lz_stream = Some z, lz_rest = L_nil\<rparr>)"

text \<open>The finalizers: the stream is ended and the result ignored.\<close>

definition lz_deflate_delete :: "'z zlib \<Rightarrow> 'z \<Rightarrow> 'z" where
  "lz_deflate_delete lib z = snd (deflateEnd lib z)"

definition lz_inflate_delete :: "'z zlib \<Rightarrow> 'z \<Rightarrow> 'z" where
  "lz_inflate_delete lib z = snd (inflateEnd lib z)"

section \<open>Checksums\<close>

text \<open>
  A checksum function takes the sum so far and more bytes; \<open>None\<close> stands for the null pointer of
  the first call. The closure holds the sum and the length so far.
\<close>

record lz_checksums =
  checksum :: "u64 \<Rightarrow> bytes option \<Rightarrow> u64"
  combine :: "u64 \<Rightarrow> u64 \<Rightarrow> u64 \<Rightarrow> u64"

definition lz_checksum_new :: "lz_checksums \<Rightarrow> lua_Integer \<times> lua_Integer" where
  "lz_checksum_new f = (checksum f 0 None, 0)"

text \<open>\<open>call\<close> runs a Lua function and gives its first two results, or the error it raises.\<close>

definition lz_checksum ::
    "lua_conv \<Rightarrow> lz_checksums \<Rightarrow> (nat \<Rightarrow> (lua_value \<times> lua_value) lua_res) \<Rightarrow> lua_value list
     \<Rightarrow> lua_Integer \<times> lua_Integer \<Rightarrow> lua_value list lua_res \<times> (lua_Integer \<times> lua_Integer)" where
  "lz_checksum cv f call args st =
    (let (sum, len) = st
     in case args of
          [] \<Rightarrow> (Inr [L_int sum, L_int len], st)
        | L_fun i # _ \<Rightarrow>
            (case call i of
               Inl e \<Rightarrow> (Inl e, st)
             | Inr (L_int s, L_int n) \<Rightarrow>
                 (let sum = combine f sum s n; len = len + n
                  in (Inr [L_int sum, L_int len], (sum, len)))
             | Inr _ \<Rightarrow> (Inl (Arg_error 1), st))
        | _ \<Rightarrow>
            (case luaL_checklstring cv args 1 of
               Inl e \<Rightarrow> (Inl e, st)
             | Inr b \<Rightarrow>
                 (let sum = checksum f sum (Some (uInt b)); len = len + of_nat (length b)
                  in (Inr [L_int sum, L_int len], (sum, len)))))"

definition lz_adler32 :: "lz_checksums \<Rightarrow> lua_Integer \<times> lua_Integer" where
  "lz_adler32 adler = lz_checksum_new adler"

definition lz_crc32 :: "lz_checksums \<Rightarrow> lua_Integer \<times> lua_Integer" where
  "lz_crc32 crc = lz_checksum_new crc"

section \<open>The module\<close>

definition zlib_functions :: "(bytes \<times> bytes) list" where
  "zlib_functions =
    [(str ''deflate'', str ''lz_deflate_new''), (str ''inflate'', str ''lz_inflate_new''),
     (str ''adler32'', str ''lz_adler32''), (str ''crc32'', str ''lz_crc32''), (str ''version'', str ''lz_version'')]"

text \<open>The fields beside the functions; \<open>bufsz\<close> is \<open>LUAL_BUFFERSIZE\<close>.\<close>

definition luaopen_zlib_lib :: "nat \<Rightarrow> (bytes \<times> lua_value) list" where
  "luaopen_zlib_lib bufsz =
    [(str ''BEST_SPEED'', L_int 1), (str ''BEST_COMPRESSION'', L_int 9),
     (str ''_COPYRIGHT'', L_str (str ''Copyright (c) 2009-2010 Brian Maher'')),
     (str ''_DESCRIPTION'', L_str (str ''Yet another binding to the zlib library'')),
     (str ''_VERSION'', L_str (str ''lua-zlib $Id: 9d1f4a541bfa8de087140a835943ca0c812bf2a5 $ $Format:%d$'')),
     (str ''_TEST_BUFSIZ'', L_int (of_nat bufsz))]"

end
