(* ===== verification/Resource.thy ===== *)
theory Resource
  imports Prelude
begin

text \<open>
  Two interfaces that several Lua modules share. A resource object has a close operation that a
  script may call and Lua's collector calls again as the finalizer: the locale \<open>resource\<close> states
  what such an operation promises, and proves that the resource is released exactly once. A stream
  of items (directory entries, rows of a result) is read one by one until it ends.
\<close>

section \<open>Objects that are closed once\<close>

text \<open>The object is closed again and again, and between the calls the world \<open>w\<close> changes in any way.\<close>

fun closes :: "('o \<Rightarrow> 'w \<Rightarrow> 'o \<times> 'w) \<Rightarrow> 'o \<Rightarrow> 'w \<Rightarrow> ('w \<Rightarrow> 'w) list \<Rightarrow> 'o \<times> 'w" where
  "closes close x w [] = (x, w)"
| "closes close x w (f # fs) = (let (x', w') = close x (f w) in closes close x' w' fs)"

text \<open>
  \<open>live x\<close>: the object holds its resource; \<open>dead x\<close>: the object without it; \<open>release x\<close>: what giving
  the resource back does to the world.
\<close>

locale resource =
  fixes close :: "'o \<Rightarrow> 'w \<Rightarrow> 'o \<times> 'w" and live :: "'o \<Rightarrow> bool" and dead :: "'o \<Rightarrow> 'o"
    and release :: "'o \<Rightarrow> 'w \<Rightarrow> 'w"
  assumes close_live: "live x \<Longrightarrow> close x w = (dead x, release x w)"
    and dead_not_live: "live x \<Longrightarrow> \<not> live (dead x)"
    and close_dead: "\<not> live x \<Longrightarrow> close x w = (x, w)"
begin

lemma closes_dead: "\<not> live x \<Longrightarrow> closes close x w fs = (x, fold (\<lambda>f. f) fs w)"
  by (induction fs arbitrary: w) (simp_all add: close_dead)

lemma closes_once: "live x \<Longrightarrow> closes close x w (f # fs) = (dead x, fold (\<lambda>f. f) fs (release x (f w)))"
  by (simp add: close_live closes_dead dead_not_live)

end

section \<open>Streams of items\<close>

text \<open>\<open>next\<close> gives the items \<open>xs\<close> from state \<open>w\<close> on, one per call, and then the end, in state \<open>w'\<close>.\<close>

fun yields :: "('w \<Rightarrow> 'a option \<times> 'w) \<Rightarrow> 'w \<Rightarrow> 'a list \<Rightarrow> 'w \<Rightarrow> bool" where
  "yields next_item w [] w' \<longleftrightarrow> next_item w = (None, w')"
| "yields next_item w (x # xs) w' \<longleftrightarrow> (\<exists>w1. next_item w = (Some x, w1) \<and> yields next_item w1 xs w')"

end
