(* ===== verification/Lua_Fs.thy ===== *)
theory Lua_Fs
  imports Lua_Api Resource
begin

text \<open>
  The Lua module \<open>lfs\<close> of \<open>src/lualib/lua_fs.c\<close>, on the branches that are compiled outside
  Windows; the branches for Windows are in theory Lua_Fs_Win.

  The operating system is a parameter, the record \<open>posix\<close>, over a state \<open>'w\<close>: every system call
  the module makes gives its result and the state after it, and \<open>errno\<close> is read from that state.
  \<open>files\<close> says which user data are Lua's file objects and which stream pointer they hold, null or
  not; \<open>fileno\<close> of a stream that was closed is undefined.
\<close>

record flock =
  l_type :: nat
  l_whence :: nat
  l_start :: lua_Integer
  l_len :: lua_Integer

definition F_RDLCK :: nat where "F_RDLCK = 0"
definition F_WRLCK :: nat where "F_WRLCK = 1"
definition F_UNLCK :: nat where "F_UNLCK = 2"
definition SEEK_SET :: nat where "SEEK_SET = 0"
definition LFS_MAXPATHLEN :: nat where "LFS_MAXPATHLEN = 4096"

record stat =
  st_mode :: u32
  st_dev :: u64
  st_ino :: u64
  st_nlink :: u64
  st_uid :: u32
  st_gid :: u32
  st_rdev :: u64
  st_atime :: u64
  st_mtime :: u64
  st_ctime :: u64
  st_size :: u64
  st_blocks :: u64
  st_blksize :: u64

record 'w posix =
  errno :: "'w \<Rightarrow> int"
  strerror :: "int \<Rightarrow> bytes"
  chdir :: "bytes \<Rightarrow> 'w \<Rightarrow> int \<times> 'w"
  getcwd :: "nat \<Rightarrow> 'w \<Rightarrow> bytes option \<times> 'w"
  fileno :: "addr \<Rightarrow> 'w \<Rightarrow> int option"
  fcntl_setlk :: "int \<Rightarrow> flock \<Rightarrow> 'w \<Rightarrow> int \<times> 'w"
  symlink :: "bytes \<Rightarrow> bytes \<Rightarrow> 'w \<Rightarrow> int \<times> 'w"
  link_sys :: "bytes \<Rightarrow> bytes \<Rightarrow> 'w \<Rightarrow> int \<times> 'w"
  unlink :: "bytes \<Rightarrow> 'w \<Rightarrow> int \<times> 'w"
  mkdir :: "bytes \<Rightarrow> u32 \<Rightarrow> 'w \<Rightarrow> int \<times> 'w"
  rmdir :: "bytes \<Rightarrow> 'w \<Rightarrow> int \<times> 'w"
  opendir :: "bytes \<Rightarrow> 'w \<Rightarrow> addr option \<times> 'w"
  readdir :: "addr \<Rightarrow> 'w \<Rightarrow> bytes option \<times> 'w"
  closedir :: "addr \<Rightarrow> 'w \<Rightarrow> int \<times> 'w"
  utime :: "bytes \<Rightarrow> (lua_Integer \<times> lua_Integer) option \<Rightarrow> 'w \<Rightarrow> int \<times> 'w"
  stat_sys :: "bytes \<Rightarrow> 'w \<Rightarrow> stat option \<times> 'w"
  lstat_sys :: "bytes \<Rightarrow> 'w \<Rightarrow> stat option \<times> 'w"
  malloc_ok :: "nat \<Rightarrow> 'w \<Rightarrow> bool"
  files :: "nat \<Rightarrow> addr option option"

text \<open>A directory iterator and a lock, as the user data hold them.\<close>

record dir_data =
  closed :: bool
  dir :: "addr option"

record lfs_Lock =
  ln :: "bytes option"

section \<open>Results\<close>

definition pusherror :: "'w posix \<Rightarrow> bytes option \<Rightarrow> 'w \<Rightarrow> lua_value list" where
  "pusherror os info w =
    [L_nil,
     L_str (case info of None \<Rightarrow> strerror os (errno os w) | Some i \<Rightarrow> i @ str '': '' @ strerror os (errno os w)),
     L_int (of_int (errno os w))]"

definition pushresult :: "'w posix \<Rightarrow> int \<Rightarrow> bytes option \<Rightarrow> 'w \<Rightarrow> lua_value list" where
  "pushresult os i info w = (if i = - 1 then pusherror os info w else [L_int (of_int i)])"

section \<open>Working directory\<close>

definition change_dir ::
    "lua_conv \<Rightarrow> 'w posix \<Rightarrow> lua_value list \<Rightarrow> 'w \<Rightarrow> lua_value list lua_res \<times> 'w" where
  "change_dir cv os args w =
    (case luaL_checkstring cv args 1 of Inl e \<Rightarrow> (Inl e, w) | Inr path \<Rightarrow>
     (let (r, w) = chdir os path w
      in if r \<noteq> 0
         then (Inr [L_nil, L_str (str ''Unable to change working directory to '' @ [39] @ path @ [39, 10]
                 @ strerror os (errno os w) @ [10])], w)
         else (Inr [L_bool True], w)))"

definition get_dir :: "'w posix \<Rightarrow> 'w \<Rightarrow> lua_value list \<times> 'w" where
  "get_dir os w =
    (let (path, w) = getcwd os LFS_MAXPATHLEN w
     in case path of
          None \<Rightarrow> ([L_nil, L_str (strerror os (errno os w))], w)
        | Some path \<Rightarrow> ([L_str path], w))"

section \<open>Locks on files\<close>

text \<open>\<open>luaL_checkudata\<close> raises an error unless the argument is one of Lua's file objects.\<close>

definition check_file ::
    "(nat \<Rightarrow> addr option option) \<Rightarrow> lua_value list \<Rightarrow> nat \<Rightarrow> bytes \<Rightarrow> addr lua_res" where
  "check_file fs args idx funcname =
    (case lua_arg args idx of
       Some (L_userdata u) \<Rightarrow>
         (case fs u of
            None \<Rightarrow> Inl (Arg_error idx)
          | Some None \<Rightarrow> Inl (Lua_error (funcname @ str '': closed file''))
          | Some (Some fh) \<Rightarrow> Inr fh)
     | _ \<Rightarrow> Inl (Arg_error idx))"

definition file_lock_impl ::
    "'w posix \<Rightarrow> addr \<Rightarrow> bytes \<Rightarrow> lua_Integer \<Rightarrow> lua_Integer \<Rightarrow> bytes \<Rightarrow> 'w \<Rightarrow> (bool lua_res \<times> 'w) option" where
  "file_lock_impl os fh mode start len funcname w =
    (let c = (mode @ [0]) ! 0;
         type = (if c = of_char CHR ''w'' then Some F_WRLCK
                 else if c = of_char CHR ''r'' then Some F_RDLCK
                 else if c = of_char CHR ''u'' then Some F_UNLCK
                 else None)
     in case type of
          None \<Rightarrow> Some (Inl (Lua_error (funcname @ str '': invalid mode'')), w)
        | Some t \<Rightarrow> do {
            fd \<leftarrow> fileno os fh w;
            let (code, w) = fcntl_setlk os fd \<lparr>l_type = t, l_whence = SEEK_SET, l_start = start, l_len = len\<rparr> w;
            Some (Inr (code \<noteq> - 1), w) })"

text \<open>How both functions turn the result into values.\<close>

definition lock_result :: "'w posix \<Rightarrow> bool lua_res \<times> 'w \<Rightarrow> lua_value list lua_res \<times> 'w" where
  "lock_result os r =
    (case r of
       (Inl e, w) \<Rightarrow> (Inl e, w)
     | (Inr True, w) \<Rightarrow> (Inr [L_bool True], w)
     | (Inr False, w) \<Rightarrow> (Inr [L_nil, L_str (strerror os (errno os w))], w))"

definition file_lock ::
    "lua_conv \<Rightarrow> 'w posix \<Rightarrow> lua_value list \<Rightarrow> 'w \<Rightarrow> (lua_value list lua_res \<times> 'w) option" where
  "file_lock cv os args w =
    (case check_file (files os) args 1 (str ''lock'') of Inl e \<Rightarrow> Some (Inl e, w) | Inr fh \<Rightarrow>
     case luaL_checkstring cv args 2 of Inl e \<Rightarrow> Some (Inl e, w) | Inr mode \<Rightarrow>
     case luaL_optinteger cv args 3 0 of Inl e \<Rightarrow> Some (Inl e, w) | Inr start \<Rightarrow>
     case luaL_optinteger cv args 4 0 of Inl e \<Rightarrow> Some (Inl e, w) | Inr len \<Rightarrow>
     map_option (lock_result os) (file_lock_impl os fh mode start len (str ''lock'') w))"

definition file_unlock ::
    "lua_conv \<Rightarrow> 'w posix \<Rightarrow> lua_value list \<Rightarrow> 'w \<Rightarrow> (lua_value list lua_res \<times> 'w) option" where
  "file_unlock cv os args w =
    (case check_file (files os) args 1 (str ''unlock'') of Inl e \<Rightarrow> Some (Inl e, w) | Inr fh \<Rightarrow>
     case luaL_optinteger cv args 2 0 of Inl e \<Rightarrow> Some (Inl e, w) | Inr start \<Rightarrow>
     case luaL_optinteger cv args 3 0 of Inl e \<Rightarrow> Some (Inl e, w) | Inr len \<Rightarrow>
     map_option (lock_result os) (file_lock_impl os fh (str ''u'') start len (str ''unlock'') w))"

section \<open>Locks on directories\<close>

definition lockfile :: bytes where "lockfile = str ''/lockfile.lfs''"

text \<open>The room for the name is computed from the length of the Lua string; \<open>strcpy\<close> stops at a NUL.\<close>

definition lfs_lock_dir ::
    "lua_conv \<Rightarrow> 'w posix \<Rightarrow> lua_value list \<Rightarrow> 'w \<Rightarrow> (lua_value list + lfs_Lock) lua_res \<times> 'w" where
  "lfs_lock_dir cv os args w =
    (case luaL_checklstring cv args 1 of Inl e \<Rightarrow> (Inl e, w) | Inr path \<Rightarrow>
     if \<not> malloc_ok os (length path + length lockfile + 1) w
     then (Inr (Inl [L_nil, L_str (strerror os (errno os w))]), w)
     else
       (let name = cstr path @ lockfile;
            (r, w) = symlink os (str ''lock'') name w
        in if r = - 1 then (Inr (Inl [L_nil, L_str (strerror os (errno os w))]), w)
           else (Inr (Inr \<lparr>ln = Some name\<rparr>), w)))"

definition lfs_unlock_dir :: "'w posix \<Rightarrow> lfs_Lock \<Rightarrow> 'w \<Rightarrow> lfs_Lock \<times> 'w" where
  "lfs_unlock_dir os lock w =
    (case ln lock of
       Some name \<Rightarrow> (let (r, w) = unlink os name w in (lock\<lparr>ln := None\<rparr>, w))
     | None \<Rightarrow> (lock, w))"

section \<open>Text and binary mode\<close>

text \<open>Outside Windows both modes are 0 and \<open>lfs_setmode\<close> gives 0.\<close>

definition setmode_modes :: "(bytes \<times> int) list" where
  "setmode_modes = [(str ''binary'', 0), (str ''text'', 0)]"

definition lfs_setmode :: "addr \<Rightarrow> int \<Rightarrow> int" where
  "lfs_setmode file m = 0"

definition lfs_g_setmode ::
    "lua_conv \<Rightarrow> 'w posix \<Rightarrow> lua_value list \<Rightarrow> addr \<Rightarrow> nat \<Rightarrow> 'w \<Rightarrow> lua_value list lua_res" where
  "lfs_g_setmode cv os args f arg w =
    (case luaL_checkoption cv args arg None (map fst setmode_modes) of Inl e \<Rightarrow> Inl e | Inr op \<Rightarrow>
     (let res = lfs_setmode f (snd (setmode_modes ! op))
      in if res \<noteq> - 1
         then Inr [L_bool True,
                case List.find (\<lambda>m. snd m = res) setmode_modes of Some m \<Rightarrow> L_str (fst m) | None \<Rightarrow> L_nil]
         else Inr [L_nil, L_str (strerror os (errno os w)), L_int (of_int (errno os w))]))"

definition lfs_f_setmode :: "lua_conv \<Rightarrow> 'w posix \<Rightarrow> lua_value list \<Rightarrow> 'w \<Rightarrow> lua_value list lua_res" where
  "lfs_f_setmode cv os args w =
    lua_bind (check_file (files os) args 1 (str ''setmode'')) (\<lambda>f. lfs_g_setmode cv os args f 2 w)"

section \<open>Links and directories\<close>

definition make_link ::
    "lua_conv \<Rightarrow> 'w posix \<Rightarrow> lua_value list \<Rightarrow> 'w \<Rightarrow> lua_value list lua_res \<times> 'w" where
  "make_link cv os args w =
    (case luaL_checkstring cv args 1 of Inl e \<Rightarrow> (Inl e, w) | Inr oldpath \<Rightarrow>
     case luaL_checkstring cv args 2 of Inl e \<Rightarrow> (Inl e, w) | Inr newpath \<Rightarrow>
     (let (r, w) = (if lua_toboolean (lua_arg args 3) then symlink os else link_sys os) oldpath newpath w
      in (Inr (pushresult os r None w), w)))"

text \<open>\<open>true\<close>, or \<open>nil\<close> and the error text.\<close>

definition fail_result :: "'w posix \<Rightarrow> int \<times> 'w \<Rightarrow> lua_value list lua_res \<times> 'w" where
  "fail_result os r =
    (if fst r \<noteq> 0 then (Inr [L_nil, L_str (strerror os (errno os (snd r)))], snd r)
     else (Inr [L_bool True], snd r))"

definition make_dir ::
    "lua_conv \<Rightarrow> 'w posix \<Rightarrow> lua_value list \<Rightarrow> 'w \<Rightarrow> lua_value list lua_res \<times> 'w" where
  "make_dir cv os args w =
    (case luaL_checkstring cv args 1 of Inl e \<Rightarrow> (Inl e, w) | Inr path \<Rightarrow>
     fail_result os (mkdir os path (0x100 OR 0x80 OR 0x40 OR 0x20 OR 0x10 OR 0x8 OR 0x4 OR 0x1) w))"

definition remove_dir ::
    "lua_conv \<Rightarrow> 'w posix \<Rightarrow> lua_value list \<Rightarrow> 'w \<Rightarrow> lua_value list lua_res \<times> 'w" where
  "remove_dir cv os args w =
    (case luaL_checkstring cv args 1 of Inl e \<Rightarrow> (Inl e, w) | Inr path \<Rightarrow>
     fail_result os (rmdir os path w))"

section \<open>Directory iterators\<close>

text \<open>\<open>readdir\<close> of a null stream is a fault.\<close>

definition dir_iter ::
    "'w posix \<Rightarrow> dir_data \<Rightarrow> 'w \<Rightarrow> (lua_value list lua_res \<times> dir_data \<times> 'w) option" where
  "dir_iter os d w =
    (if closed d then Some (Inl (Arg_error 1), d, w)
     else do {
       p \<leftarrow> dir d;
       let (entry, w) = readdir os p w;
       case entry of
         Some name \<Rightarrow> Some (Inr [L_str name], d, w)
       | None \<Rightarrow> (let (r, w) = closedir os p w in Some (Inr [], d\<lparr>closed := True\<rparr>, w))
     })"

definition dir_close :: "'w posix \<Rightarrow> dir_data \<Rightarrow> 'w \<Rightarrow> dir_data \<times> 'w" where
  "dir_close os d w =
    (let w = (case dir d of Some p \<Rightarrow> if closed d then w else snd (closedir os p w) | None \<Rightarrow> w)
     in (d\<lparr>closed := True\<rparr>, w))"

text \<open>Both kinds of objects are resources in the sense of theory Resource.\<close>

definition dir_release :: "'w posix \<Rightarrow> dir_data \<Rightarrow> 'w \<Rightarrow> 'w" where
  "dir_release os d w = (case dir d of Some p \<Rightarrow> snd (closedir os p w) | None \<Rightarrow> w)"

interpretation dir_res: resource "dir_close os" "\<lambda>d. \<not> closed d" "\<lambda>d. d\<lparr>closed := True\<rparr>" "dir_release os"
  for os
  by unfold_locales (auto simp: dir_close_def dir_release_def split: option.splits)

definition lock_release :: "'w posix \<Rightarrow> lfs_Lock \<Rightarrow> 'w \<Rightarrow> 'w" where
  "lock_release os lock w = (case ln lock of Some name \<Rightarrow> snd (unlink os name w) | None \<Rightarrow> w)"

interpretation lock_res: resource "lfs_unlock_dir os" "\<lambda>l. ln l \<noteq> None" "\<lambda>l. l\<lparr>ln := None\<rparr>" "lock_release os"
  for os
  by unfold_locales (auto simp: lfs_unlock_dir_def lock_release_def Let_def split_beta)

text \<open>
  The object exists and will be finalized also when the directory cannot be opened, so it is part
  of the result, beside the error.
\<close>

definition dir_iter_factory ::
    "lua_conv \<Rightarrow> 'w posix \<Rightarrow> lua_value list \<Rightarrow> 'w \<Rightarrow> unit lua_res \<times> dir_data option \<times> 'w" where
  "dir_iter_factory cv os args w =
    (case luaL_checkstring cv args 1 of Inl e \<Rightarrow> (Inl e, None, w) | Inr path \<Rightarrow>
     (let (p, w) = opendir os path w; d = \<lparr>closed = False, dir = p\<rparr>
      in case p of
           None \<Rightarrow> (Inl (Lua_error (str ''cannot open '' @ path @ str '': '' @ strerror os (errno os w))), Some d, w)
         | Some _ \<Rightarrow> (Inr (), Some d, w)))"

definition dir_create_meta :: "(bytes \<times> bytes) list \<times> (bytes \<times> bytes) list" where
  "dir_create_meta =
    ([(str ''next'', str ''dir_iter''), (str ''close'', str ''dir_close'')], [(str ''__gc'', str ''dir_close'')])"

definition lock_create_meta :: "(bytes \<times> bytes) list \<times> (bytes \<times> bytes) list" where
  "lock_create_meta = ([(str ''free'', str ''lfs_unlock_dir'')], [(str ''__gc'', str ''lfs_unlock_dir'')])"

section \<open>File attributes\<close>

text \<open>The type bits of a mode and the types, as on Linux.\<close>

definition S_IFMT :: u32 where "S_IFMT = 0xF000"
definition S_ISREG :: "u32 \<Rightarrow> bool" where "S_ISREG m \<longleftrightarrow> m AND S_IFMT = 0x8000"
definition S_ISDIR :: "u32 \<Rightarrow> bool" where "S_ISDIR m \<longleftrightarrow> m AND S_IFMT = 0x4000"
definition S_ISLNK :: "u32 \<Rightarrow> bool" where "S_ISLNK m \<longleftrightarrow> m AND S_IFMT = 0xA000"
definition S_ISSOCK :: "u32 \<Rightarrow> bool" where "S_ISSOCK m \<longleftrightarrow> m AND S_IFMT = 0xC000"
definition S_ISFIFO :: "u32 \<Rightarrow> bool" where "S_ISFIFO m \<longleftrightarrow> m AND S_IFMT = 0x1000"
definition S_ISCHR :: "u32 \<Rightarrow> bool" where "S_ISCHR m \<longleftrightarrow> m AND S_IFMT = 0x2000"
definition S_ISBLK :: "u32 \<Rightarrow> bool" where "S_ISBLK m \<longleftrightarrow> m AND S_IFMT = 0x6000"

definition mode2string :: "u32 \<Rightarrow> bytes" where
  "mode2string mode =
    (if S_ISREG mode then str ''file''
     else if S_ISDIR mode then str ''directory''
     else if S_ISLNK mode then str ''link''
     else if S_ISSOCK mode then str ''socket''
     else if S_ISFIFO mode then str ''named pipe''
     else if S_ISCHR mode then str ''char device''
     else if S_ISBLK mode then str ''block device''
     else str ''other'')"

text \<open>The static buffer is filled with dashes before the bits are looked at.\<close>

definition perm2string :: "u32 \<Rightarrow> bytes" where
  "perm2string mode =
    (let perms = replicate 9 (of_char CHR ''-'');
         perms = (if mode AND 0x100 \<noteq> 0 then perms[0 := of_char CHR ''r''] else perms);
         perms = (if mode AND 0x80 \<noteq> 0 then perms[1 := of_char CHR ''w''] else perms);
         perms = (if mode AND 0x40 \<noteq> 0 then perms[2 := of_char CHR ''x''] else perms);
         perms = (if mode AND 0x20 \<noteq> 0 then perms[3 := of_char CHR ''r''] else perms);
         perms = (if mode AND 0x10 \<noteq> 0 then perms[4 := of_char CHR ''w''] else perms);
         perms = (if mode AND 0x8 \<noteq> 0 then perms[5 := of_char CHR ''x''] else perms);
         perms = (if mode AND 0x4 \<noteq> 0 then perms[6 := of_char CHR ''r''] else perms);
         perms = (if mode AND 0x2 \<noteq> 0 then perms[7 := of_char CHR ''w''] else perms);
         perms = (if mode AND 0x1 \<noteq> 0 then perms[8 := of_char CHR ''x''] else perms)
     in perms)"

definition file_utime ::
    "lua_conv \<Rightarrow> (lua_value \<Rightarrow> lua_Integer option) \<Rightarrow> 'w posix \<Rightarrow> lua_value list \<Rightarrow> 'w
     \<Rightarrow> lua_value list lua_res \<times> 'w" where
  "file_utime cv num_time os args w =
    (case luaL_checkstring cv args 1 of Inl e \<Rightarrow> (Inl e, w) | Inr file \<Rightarrow>
     if length args = 1 then fail_result os (utime os file None w)
     else
       (case (if lua_isnoneornil (lua_arg args 2) then Some 0 else num_time (the (lua_arg args 2))) of
          None \<Rightarrow> (Inl (Arg_error 2), w)
        | Some actime \<Rightarrow>
            (case luaL_optinteger cv args 3 actime of Inl e \<Rightarrow> (Inl e, w) | Inr modtime \<Rightarrow>
             fail_result os (utime os file (Some (actime, modtime)) w))))"

text \<open>What each of the functions \<open>push_st_mode\<close> to \<open>push_st_blksize\<close> pushes.\<close>

definition push_st_mode :: "stat \<Rightarrow> lua_value" where "push_st_mode i = L_str (mode2string (st_mode i))"
definition push_st_dev :: "stat \<Rightarrow> lua_value" where "push_st_dev i = L_int (st_dev i)"
definition push_st_ino :: "stat \<Rightarrow> lua_value" where "push_st_ino i = L_int (st_ino i)"
definition push_st_nlink :: "stat \<Rightarrow> lua_value" where "push_st_nlink i = L_int (st_nlink i)"
definition push_st_uid :: "stat \<Rightarrow> lua_value" where "push_st_uid i = L_int (ucast (st_uid i))"
definition push_st_gid :: "stat \<Rightarrow> lua_value" where "push_st_gid i = L_int (ucast (st_gid i))"
definition push_st_rdev :: "stat \<Rightarrow> lua_value" where "push_st_rdev i = L_int (st_rdev i)"
definition push_st_atime :: "stat \<Rightarrow> lua_value" where "push_st_atime i = L_int (st_atime i)"
definition push_st_mtime :: "stat \<Rightarrow> lua_value" where "push_st_mtime i = L_int (st_mtime i)"
definition push_st_ctime :: "stat \<Rightarrow> lua_value" where "push_st_ctime i = L_int (st_ctime i)"
definition push_st_size :: "stat \<Rightarrow> lua_value" where "push_st_size i = L_int (st_size i)"
definition push_st_blocks :: "stat \<Rightarrow> lua_value" where "push_st_blocks i = L_int (st_blocks i)"
definition push_st_blksize :: "stat \<Rightarrow> lua_value" where "push_st_blksize i = L_int (st_blksize i)"
definition push_st_perm :: "stat \<Rightarrow> lua_value" where "push_st_perm i = L_str (perm2string (st_mode i))"

definition members :: "(bytes \<times> (stat \<Rightarrow> lua_value)) list" where
  "members =
    [(str ''mode'', push_st_mode), (str ''dev'', push_st_dev), (str ''ino'', push_st_ino),
     (str ''nlink'', push_st_nlink), (str ''uid'', push_st_uid), (str ''gid'', push_st_gid),
     (str ''rdev'', push_st_rdev), (str ''access'', push_st_atime), (str ''modification'', push_st_mtime),
     (str ''change'', push_st_ctime), (str ''size'', push_st_size), (str ''permissions'', push_st_perm),
     (str ''blocks'', push_st_blocks), (str ''blksize'', push_st_blksize)]"

text \<open>Lua tables by their reference; \<open>new\<close> is the reference \<open>lua_newtable\<close> gives.\<close>

type_synonym lua_tables = "nat \<Rightarrow> lua_value \<Rightarrow> lua_value"

definition rawset :: "nat \<Rightarrow> lua_value \<Rightarrow> lua_value \<Rightarrow> lua_tables \<Rightarrow> lua_tables" where
  "rawset t k v ts = ts(t := (ts t)(k := v))"

fun store_members :: "nat \<Rightarrow> 'i \<Rightarrow> (bytes \<times> ('i \<Rightarrow> lua_value)) list \<Rightarrow> lua_tables \<Rightarrow> lua_tables" where
  "store_members t info [] ts = ts"
| "store_members t info ((name, push) # ms) ts = store_members t info ms (rawset t (L_str name) (push info) ts)"

text \<open>
  The values go into the table on top of the stack: the second argument when it is a table and the
  last argument. \<open>lua_rawset\<close> into something that is no table is a fault. The type \<open>'i\<close> and the list
  \<open>mems\<close> are \<open>STAT_STRUCT\<close> and \<open>members\<close>, which depend on the platform.
\<close>

definition file_info_impl ::
    "lua_conv \<Rightarrow> (bytes \<times> ('i \<Rightarrow> lua_value)) list \<Rightarrow> (bytes \<Rightarrow> 'w \<Rightarrow> 'i option \<times> 'w) \<Rightarrow> nat \<Rightarrow> lua_value list
     \<Rightarrow> lua_tables \<Rightarrow> 'w \<Rightarrow> (lua_value list lua_res \<times> lua_tables \<times> 'w) option" where
  "file_info_impl cv mems st new args ts w =
    (case luaL_checkstring cv args 1 of Inl e \<Rightarrow> Some (Inl e, ts, w) | Inr file \<Rightarrow>
     (let (info, w) = st file w
      in case info of
           None \<Rightarrow> Some (Inr [L_nil, L_str (str ''cannot obtain information from file `'' @ file @ [39])], ts, w)
         | Some info \<Rightarrow>
             if lua_isstring (lua_arg args 2)
             then (case List.find (\<lambda>m. strcmp_eq (fst m) (the (lua_tostring cv (lua_arg args 2)))) mems of
                     Some m \<Rightarrow> Some (Inr [snd m info], ts, w)
                   | None \<Rightarrow> Some (luaL_error ''invalid attribute name'', ts, w))
             else if lua_istable (lua_arg args 2)
             then (case last args of
                     L_table t \<Rightarrow> Some (Inr [L_table t], store_members t info mems ts, w)
                   | _ \<Rightarrow> None)
             else Some (Inr [L_table new], store_members new info mems (ts(new := \<lambda>_. L_nil)), w)))"

definition file_info ::
    "lua_conv \<Rightarrow> 'w posix \<Rightarrow> nat \<Rightarrow> lua_value list \<Rightarrow> lua_tables \<Rightarrow> 'w
     \<Rightarrow> (lua_value list lua_res \<times> lua_tables \<times> 'w) option" where
  "file_info cv os new args ts w = file_info_impl cv members (stat_sys os) new args ts w"

definition link_info ::
    "lua_conv \<Rightarrow> 'w posix \<Rightarrow> nat \<Rightarrow> lua_value list \<Rightarrow> lua_tables \<Rightarrow> 'w
     \<Rightarrow> (lua_value list lua_res \<times> lua_tables \<times> 'w) option" where
  "link_info cv os new args ts w = file_info_impl cv members (lstat_sys os) new args ts w"

section \<open>The module\<close>

definition set_info :: "(bytes \<times> bytes) list" where
  "set_info =
    [(str ''_COPYRIGHT'', str ''Copyright (C) 2003-2012 Kepler Project''),
     (str ''_DESCRIPTION'', str ''LuaFileSystem is a Lua library developed to complement the set of functions''
        @ str '' related to file systems offered by the standard Lua distribution''),
     (str ''_VERSION'', str ''LuaFileSystem '' @ str ''1.6.2'')]"

definition fslib :: "(bytes \<times> bytes) list" where
  "fslib =
    [(str ''attributes'', str ''file_info''), (str ''chdir'', str ''change_dir''), (str ''currentdir'', str ''get_dir''),
     (str ''dir'', str ''dir_iter_factory''), (str ''link'', str ''make_link''), (str ''lock'', str ''file_lock''),
     (str ''mkdir'', str ''make_dir''), (str ''rmdir'', str ''remove_dir''), (str ''symlinkattributes'', str ''link_info''),
     (str ''setmode'', str ''lfs_f_setmode''), (str ''touch'', str ''file_utime''), (str ''unlock'', str ''file_unlock''),
     (str ''lock_dir'', str ''lfs_lock_dir'')]"

end
