(* ===== verification/Fs_Properties.thy ===== *)
theory Fs_Properties
  imports Lua_Fs
begin

text \<open>
  The properties of the Lua module \<open>lfs\<close> (\<open>src/lualib/lua_fs.c\<close>): the life of a directory
  iterator, the exclusion of directory locks, file attributes and permission strings. The witnesses
  run on a small file system.
\<close>

section \<open>Directory iterators\<close>

text \<open>\<open>n\<close> calls of the iterator, with the result of each.\<close>

fun dir_calls :: "'w posix \<Rightarrow> nat \<Rightarrow> dir_data \<Rightarrow> 'w \<Rightarrow> (lua_value list lua_res list \<times> dir_data \<times> 'w) option" where
  "dir_calls os 0 d w = Some ([], d, w)"
| "dir_calls os (Suc n) d w = do {
     (r, d, w) \<leftarrow> dir_iter os d w;
     (rs, d, w) \<leftarrow> dir_calls os n d w;
     Some (r # rs, d, w) }"

lemma dir_calls_closed: "closed d \<Longrightarrow> dir_calls os k d w = Some (replicate k (Inl (Arg_error 1)), d, w)"
  by (induction k) (simp_all add: dir_iter_def)

lemma dir_calls_entry:
  "readdir os p w = (Some e, w1) \<Longrightarrow> dir_calls os (Suc n) \<lparr>closed = False, dir = Some p\<rparr> w =
    do { (rs, d, w) \<leftarrow> dir_calls os n \<lparr>closed = False, dir = Some p\<rparr> w1; Some (Inr [L_str e] # rs, d, w) }"
  by (simp add: dir_iter_def)

lemma dir_calls_all:
  assumes "yields (readdir os p) w es w'"
  shows "dir_calls os (length es + 1 + k) \<lparr>closed = False, dir = Some p\<rparr> w =
    Some (map (\<lambda>e. Inr [L_str e]) es @ Inr [] # replicate k (Inl (Arg_error 1)),
          \<lparr>closed = True, dir = Some p\<rparr>, snd (closedir os p w'))"
  using assms
proof (induction es arbitrary: w)
  case Nil
  then show ?case by (simp add: dir_iter_def dir_calls_closed split_beta)
next
  case (Cons e es)
  then obtain w1 where rd: "readdir os p w = (Some e, w1)" and "yields (readdir os p) w1 es w'" by auto
  note ih = Cons.IH [OF this(2)]
  have "length (e # es) + 1 + k = Suc (length es + 1 + k)" by simp
  then show ?case by (simp only: dir_calls_entry [OF rd] ih) simp
qed

lemma dir_calls_some:
  assumes "yields (readdir os p) w es w'" and "n \<le> length es"
  shows "\<exists>w1. dir_calls os n \<lparr>closed = False, dir = Some p\<rparr> w =
    Some (map (\<lambda>e. Inr [L_str e]) (take n es), \<lparr>closed = False, dir = Some p\<rparr>, w1)"
  using assms
proof (induction n arbitrary: w es)
  case (Suc n)
  from Suc.prems obtain e es' w1 where es: "es = e # es'" and rd: "readdir os p w = (Some e, w1)"
    and rest: "yields (readdir os p) w1 es' w'" by (cases es) auto
  have "n \<le> length es'" using Suc.prems es by simp
  from Suc.IH [OF rest this] show ?case by (auto simp: es dir_calls_entry [OF rd] simp del: dir_calls.simps)
qed simp

section \<open>Directory locks\<close>

text \<open>
  What the locks need of \<open>symlink\<close> and \<open>unlink\<close>, over the set of the names that exist: a link is
  made only where there is none, and \<open>unlink\<close> takes the name away.
\<close>

definition links_spec :: "'w posix \<Rightarrow> ('w \<Rightarrow> bytes set) \<Rightarrow> bool" where
  "links_spec os links \<longleftrightarrow>
    (\<forall>t n w. case symlink os t n w of (r, w') \<Rightarrow>
       if r = - 1 then links w' = links w else n \<notin> links w \<and> links w' = insert n (links w)) \<and>
    (\<forall>n w. links (snd (unlink os n w)) = links w - {n})"

lemma lock_dir_cases:
  assumes "links_spec os links" and "malloc_ok os (length path + length lockfile + 1) w"
    and "cstr path @ lockfile = name"
  shows "(\<exists>e w'. lfs_lock_dir cv os [L_str path] w = (Inr (Inl [L_nil, L_str e]), w') \<and> links w' = links w) \<or>
    (\<exists>w'. lfs_lock_dir cv os [L_str path] w = (Inr (Inr \<lparr>ln = Some name\<rparr>), w') \<and>
       name \<notin> links w \<and> links w' = insert name (links w))"
proof -
  obtain r w' where sl: "symlink os (str ''lock'') name w = (r, w')" by (cases "symlink os (str ''lock'') name w")
  have spec: "if r = - 1 then links w' = links w else name \<notin> links w \<and> links w' = insert name (links w)"
    using conjunct1 [OF assms(1) [unfolded links_spec_def], THEN spec [of _ "str ''lock''"],
        THEN spec [of _ name], THEN spec [of _ w]] by (simp only: sl prod.case)
  have "lfs_lock_dir cv os [L_str path] w =
      (if r = - 1 then (Inr (Inl [L_nil, L_str (strerror os (errno os w'))]), w')
       else (Inr (Inr \<lparr>ln = Some name\<rparr>), w'))"
    using assms(2,3) sl by (simp add: lfs_lock_dir_def lua_arg_def)
  with spec show ?thesis by (cases "r = - 1") auto
qed

section \<open>File attributes\<close>

lemma store_members_other: "t' \<noteq> t \<Longrightarrow> store_members t info ms ts t' = ts t'"
  by (induction ms arbitrary: ts) (auto simp: rawset_def)

lemma store_members_get:
  "distinct (map fst ms) \<Longrightarrow> store_members t info ms ts t (L_str name) =
    (case map_of ms name of Some push \<Rightarrow> push info | None \<Rightarrow> ts t (L_str name))"
proof (induction ms arbitrary: ts)
  case (Cons m ms)
  obtain a push where m: "m = (a, push)" by (cases m)
  have notin: "map_of ms a = None" and "distinct (map fst ms)" using Cons.prems by (auto simp: m map_of_eq_None_iff)
  note ih = Cons.IH [OF this(2)]
  show ?case
  proof (cases "name = a")
    case True
    with ih notin show ?thesis by (simp add: m rawset_def)
  next
    case False
    then show ?thesis by (simp add: m ih) (simp add: rawset_def split: option.split)
  qed
qed simp

lemma find_map_of:
  "\<forall>m \<in> set ms. is_cstr (fst m) \<Longrightarrow> is_cstr name \<Longrightarrow>
   List.find (\<lambda>m. strcmp_eq (fst m) name) ms = map_option (\<lambda>p. (name, p)) (map_of ms name)"
  by (induction ms) (auto simp: strcmp_eq_def cstr_id)

lemma members_names: "distinct (map fst members)" "\<forall>m \<in> set members. is_cstr (fst m)"
  by (simp_all add: members_def str_def is_cstr_def)

section \<open>Permission strings\<close>

lemma bit_and_pow: "(m AND 2 ^ n \<noteq> 0) = bit m n" if "n < LENGTH('a)" for m :: "'a :: len word"
proof -
  have "m AND 2 ^ n = (if bit m n then 2 ^ n else 0)"
    using that by (intro bit_word_eqI) (auto simp: bit_and_iff bit_exp_iff)
  moreover have "(2 :: 'a word) ^ n \<noteq> 0" using that exp_eq_zero_iff [of n] by (simp add: not_le)
  ultimately show ?thesis by simp
qed

definition perm_step :: "bool \<Rightarrow> nat \<Rightarrow> byte \<Rightarrow> bytes \<Rightarrow> bytes" where
  "perm_step b i c xs = (if b then xs[i := c] else xs)"

lemma length_perm_step [simp]: "length (perm_step b i c xs) = length xs"
  by (simp add: perm_step_def)

lemma nth_perm_step: "i < length xs \<Longrightarrow> perm_step b i c xs ! j = (if j = i then (if b then c else xs ! i) else xs ! j)"
  by (simp add: perm_step_def)

lemma perm2string_bits:
  "perm2string m = map (\<lambda>i. if bit m (8 - i) then str ''rwx'' ! (i mod 3) else of_char CHR ''-'') [0..<9]"
proof -
  have b: "(m AND 0x100 \<noteq> 0) = bit m 8" "(m AND 0x80 \<noteq> 0) = bit m 7" "(m AND 0x40 \<noteq> 0) = bit m 6"
    "(m AND 0x20 \<noteq> 0) = bit m 5" "(m AND 0x10 \<noteq> 0) = bit m 4" "(m AND 0x8 \<noteq> 0) = bit m 3"
    "(m AND 0x4 \<noteq> 0) = bit m 2" "(m AND 0x2 \<noteq> 0) = bit m 1" "(m AND 0x1 \<noteq> 0) = bit m 0"
    using bit_and_pow [of 8 m] bit_and_pow [of 7 m] bit_and_pow [of 6 m] bit_and_pow [of 5 m] bit_and_pow [of 4 m]
      bit_and_pow [of 3 m] bit_and_pow [of 2 m] bit_and_pow [of 1 m] bit_and_pow [of 0 m] by simp_all
  have unfolded: "perm2string m = perm_step (bit m 0) 8 120 (perm_step (bit m 1) 7 119 (perm_step (bit m 2) 6 114
      (perm_step (bit m 3) 5 120 (perm_step (bit m 4) 4 119 (perm_step (bit m 5) 3 114
      (perm_step (bit m 6) 2 120 (perm_step (bit m 7) 1 119 (perm_step (bit m 8) 0 114 (replicate 9 45)))))))))"
    unfolding perm2string_def perm_step_def [symmetric] b unfolding Let_def by simp
  have "length (perm2string m) = 9" by (simp add: unfolded)
  moreover have "perm2string m ! i = (if bit m (8 - i) then str ''rwx'' ! (i mod 3) else of_char CHR ''-'')"
    if "i < 9" for i
  proof -
    have "i = 0 \<or> i = 1 \<or> i = 2 \<or> i = 3 \<or> i = 4 \<or> i = 5 \<or> i = 6 \<or> i = 7 \<or> i = 8" using that by arith
    then show ?thesis by (elim disjE) (simp_all add: unfolded nth_perm_step str_def)
  qed
  ultimately show ?thesis by (intro nth_equalityI) simp_all
qed

lemma perm2string_inj: "perm2string m = perm2string m' \<longleftrightarrow> (\<forall>i<9. bit m i = bit m' i)"
proof
  assume eq: "perm2string m = perm2string m'"
  show "\<forall>i<9. bit m i = bit m' i"
  proof (intro allI impI)
    fix i :: nat assume i: "i < 9"
    have c: "str ''rwx'' ! (j mod 3) \<noteq> (of_char CHR ''-'' :: byte)" for j
    proof -
      have "j mod 3 = 0 \<or> j mod 3 = 1 \<or> j mod 3 = 2" by arith
      then show ?thesis by (elim disjE) (simp_all add: str_def)
    qed
    have "perm2string m ! (8 - i) = perm2string m' ! (8 - i)" by (simp only: eq)
    with i c [of "8 - i"] show "bit m i = bit m' i" by (simp add: perm2string_bits split: if_splits)
  qed
next
  assume "\<forall>i<9. bit m i = bit m' i"
  then show "perm2string m = perm2string m'" by (simp add: perm2string_bits)
qed

section \<open>A file system to try the theorems on\<close>

text \<open>Its state: the names that exist, and the names the directory stream still has to give.\<close>

definition demo_stat :: stat where
  "demo_stat = \<lparr>st_mode = 0x81A4, st_dev = 1, st_ino = 2, st_nlink = 1, st_uid = 1000, st_gid = 1000,
     st_rdev = 0, st_atime = 5, st_mtime = 6, st_ctime = 7, st_size = 12, st_blocks = 1, st_blksize = 4096\<rparr>"

definition demo_os :: "(bytes list \<times> bytes list) posix" where
  "demo_os = \<lparr>errno = \<lambda>_. 17, strerror = \<lambda>_. str ''File exists'', chdir = \<lambda>_ w. (0, w),
     getcwd = \<lambda>_ w. (Some (str ''/''), w), fileno = \<lambda>_ _. None, fcntl_setlk = \<lambda>_ _ w. (0, w),
     symlink = \<lambda>_ n w. if n \<in> set (fst w) then (- 1, w) else (0, (n # fst w, snd w)),
     link_sys = \<lambda>_ _ w. (- 1, w), unlink = \<lambda>n w. (0, (filter (\<lambda>x. x \<noteq> n) (fst w), snd w)),
     mkdir = \<lambda>_ _ w. (0, w), rmdir = \<lambda>_ w. (0, w), opendir = \<lambda>_ w. (Some 3, w),
     readdir = \<lambda>_ w. (case snd w of [] \<Rightarrow> (None, w) | e # es \<Rightarrow> (Some e, (fst w, es))),
     closedir = \<lambda>_ w. (0, w), utime = \<lambda>_ _ w. (0, w), stat_sys = \<lambda>_ w. (Some demo_stat, w),
     lstat_sys = \<lambda>_ w. (Some demo_stat, w), malloc_ok = \<lambda>_ _. True, files = \<lambda>_. None\<rparr>"

lemma demo_links: "links_spec demo_os (\<lambda>w. set (fst w))"
  by (auto simp: links_spec_def demo_os_def)

section \<open>Properties\<close>

text \<open>
  C28: The life of a directory iterator. Iterating a directory gives every name of its stream in
  order, then ends and closes the stream once; every later step is an error, and closing or
  finalizing the iterator does nothing any more. An iteration that is left early is closed once
  by its finalizer.
\<close>

theorem fs_dir_iteration:
  assumes "opendir os (cstr path) w = (Some p, w0)" and "yields (readdir os p) w0 es w1"
  shows "\<exists>d d'. dir_iter_factory cv os [L_str path] w = (Inr (), Some d, w0) \<and>
    dir_calls os (length es + 1 + k) d w0 =
      Some (map (\<lambda>e. Inr [L_str e]) es @ Inr [] # replicate k (Inl (Arg_error 1)), d', snd (closedir os p w1)) \<and>
    (\<forall>w2. dir_close os d' w2 = (d', w2)) \<and>
    (\<forall>n\<le>length es. \<exists>w2. dir_calls os n d w0 = Some (map (\<lambda>e. Inr [L_str e]) (take n es), d, w2) \<and>
       dir_close os d w2 = (d', snd (closedir os p w2)))"
proof -
  let ?d = "\<lparr>closed = False, dir = Some p\<rparr>" and ?d' = "\<lparr>closed = True, dir = Some p\<rparr>"
  have "dir_iter_factory cv os [L_str path] w = (Inr (), Some ?d, w0)"
    using assms(1) by (simp add: dir_iter_factory_def lua_arg_def)
  moreover have "\<forall>w2. dir_close os ?d' w2 = (?d', w2)" by (simp add: dir_close_def)
  moreover have "\<forall>w2. dir_close os ?d w2 = (?d', snd (closedir os p w2))" by (simp add: dir_close_def)
  moreover note dir_calls_all [OF assms(2), of k] dir_calls_some [OF assms(2)]
  ultimately show ?thesis by blast
qed

theorem fs_dir_iteration_witness:
  "\<exists>d'. dir_calls demo_os 4 \<lparr>closed = False, dir = Some 3\<rparr> ([], [[46], [97]]) =
     Some ([Inr [L_str [46]], Inr [L_str [97]], Inr [], Inl (Arg_error 1)], d', ([], []))"
proof -
  have o: "opendir demo_os (cstr [46]) ([], [[46], [97]]) = (Some 3, ([], [[46], [97]]))" by (simp add: demo_os_def)
  have e: "yields (readdir demo_os 3) ([], [[46], [97]]) [[46], [97]] ([], [])" by (simp add: demo_os_def)
  have f: "dir_iter_factory cv demo_os [L_str [46]] ([], [[46], [97]]) =
      (Inr (), Some \<lparr>closed = False, dir = Some 3\<rparr>, ([], [[46], [97]]))" for cv
    by (simp add: dir_iter_factory_def lua_arg_def demo_os_def cstr_def)
  have c: "snd (closedir demo_os 3 w) = w" for w by (simp add: demo_os_def)
  have n: "length [[46], [97 :: byte]] + 1 + 1 = 4" by simp
  from fs_dir_iteration [OF o e, where cv = no_conv and k = 1, unfolded f c n] show ?thesis
    by (simp del: dir_calls.simps) blast
qed

text \<open>
  C30: Directory locks exclude each other. A lock is given only when the lock file was not there,
  and while it is there every other attempt, from any process, fails with the system's error text
  and changes nothing. Freeing the lock removes the file once: freed again, or finalized, it does
  not take away the lock somebody else got in between.
\<close>

theorem fs_lock_exclusive:
  assumes "links_spec os links" and "\<forall>n w. malloc_ok os n w"
    and "lfs_lock_dir cv os [L_str path] w = (Inr (Inr lock), w1)"
  shows "\<exists>name. name = cstr path @ str ''/lockfile.lfs'' \<and> name \<notin> links w \<and> links w1 = insert name (links w) \<and>
    (\<forall>w2. name \<in> links w2 \<longrightarrow>
       (\<exists>e w3. lfs_lock_dir cv os [L_str path] w2 = (Inr (Inl [L_nil, L_str e]), w3) \<and> links w3 = links w2)) \<and>
    (\<forall>w2. \<exists>lock' w3. lfs_unlock_dir os lock w2 = (lock', w3) \<and> links w3 = links w2 - {name} \<and>
       (\<forall>w4. lfs_unlock_dir os lock' w4 = (lock', w4)))"
proof -
  define name where "name = cstr path @ lockfile"
  note cases = lock_dir_cases [OF assms(1) _ name_def [symmetric], where cv = cv, OF assms(2) [THEN spec, THEN spec]]
  have lock: "lock = \<lparr>ln = Some name\<rparr>" and got: "name \<notin> links w" "links w1 = insert name (links w)"
    using cases [of w] assms(3) by auto
  moreover have "\<exists>e w3. lfs_lock_dir cv os [L_str path] w2 = (Inr (Inl [L_nil, L_str e]), w3) \<and> links w3 = links w2"
    if "name \<in> links w2" for w2
    using cases [of w2] that by blast
  moreover have "\<exists>lock' w3. lfs_unlock_dir os lock w2 = (lock', w3) \<and> links w3 = links w2 - {name} \<and>
      (\<forall>w4. lfs_unlock_dir os lock' w4 = (lock', w4))" for w2
  proof -
    have "links (snd (unlink os name w2)) = links w2 - {name}" using assms(1) by (simp add: links_spec_def)
    then show ?thesis by (simp add: lock lfs_unlock_dir_def split_beta Let_def)
  qed
  ultimately show ?thesis by (intro exI [of _ name]) (simp add: name_def lockfile_def)
qed

theorem fs_lock_exclusive_witness:
  "\<exists>e w3. lfs_lock_dir no_conv demo_os [L_str [97]] ([[97] @ str ''/lockfile.lfs''], []) =
     (Inr (Inl [L_nil, L_str e]), w3)"
proof -
  have "cstr [97] = [97]" by (simp add: cstr_def)
  then have "lfs_lock_dir no_conv demo_os [L_str [97]] ([], []) =
      (Inr (Inr \<lparr>ln = Some ([97] @ lockfile)\<rparr>), ([[97] @ lockfile], []))"
    by (simp add: lfs_lock_dir_def lua_arg_def demo_os_def Let_def)
  moreover have "\<forall>n w. malloc_ok demo_os n w" by (simp add: demo_os_def)
  moreover have n: "[97] @ str ''/lockfile.lfs'' = cstr [97] @ str ''/lockfile.lfs''" by (simp add: cstr_def)
  ultimately obtain name where nm: "name = cstr [97] @ str ''/lockfile.lfs''" and "\<forall>w2 :: bytes list \<times> bytes list.
      name \<in> set (fst w2) \<longrightarrow> (\<exists>e w3. lfs_lock_dir no_conv demo_os [L_str [97]] w2 =
        (Inr (Inl [L_nil, L_str e]), w3) \<and> set (fst w3) = set (fst w2))"
    using fs_lock_exclusive [OF demo_links] by meson
  from this(2) [THEN spec, of "([name], [])"] show ?thesis unfolding n nm by fastforce
qed

text \<open>
  File attributes. Asked for one attribute, \<open>lfs.attributes\<close> returns exactly what the table
  of all attributes holds under that name, and raises an error for any other name; only the new
  table is written to. The permission string tells two modes apart exactly when they differ in one
  of the nine permission bits.
\<close>

lemma fs_attributes_consistent:
  assumes "stat_sys os (cstr path) w = (Some info, w1)" and "is_cstr name"
  shows "\<exists>ts'. file_info cv os new [L_str path] ts w = Some (Inr [L_table new], ts', w1) \<and>
    (\<forall>t. t \<noteq> new \<longrightarrow> ts' t = ts t) \<and>
    file_info cv os new [L_str path, L_str name] ts w =
      Some (if name \<in> fst ` set members then Inr [ts' new (L_str name)] else luaL_error ''invalid attribute name'',
            ts, w1) \<and>
    ts' new (L_str (str ''permissions'')) = L_str (perm2string (st_mode info)) \<and>
    (perm2string (st_mode info) = perm2string m \<longleftrightarrow> (\<forall>i<9. bit (st_mode info) i = bit m i))"
proof -
  define ts' where "ts' = store_members new info members (ts(new := \<lambda>_. L_nil))"
  have "file_info cv os new [L_str path] ts w = Some (Inr [L_table new], ts', w1)"
    using assms(1) by (simp add: file_info_def file_info_impl_def lua_arg_def lua_isstring_def lua_istable_def ts'_def)
  moreover have "\<forall>t. t \<noteq> new \<longrightarrow> ts' t = ts t" by (simp add: ts'_def store_members_other)
  moreover have get: "ts' new (L_str n) = (case map_of members n of Some push \<Rightarrow> push info | None \<Rightarrow> L_nil)" for n
    using store_members_get [OF members_names(1)] by (simp add: ts'_def split: option.split)
  moreover have "file_info cv os new [L_str path, L_str name] ts w =
      Some (if name \<in> fst ` set members then Inr [ts' new (L_str name)] else luaL_error ''invalid attribute name'',
            ts, w1)"
    using assms find_map_of [OF members_names(2) assms(2)] map_of_eq_None_iff [of members name]
    by (auto simp: file_info_def file_info_impl_def lua_arg_def lua_isstring_def lua_tostring_def get split: option.splits)
  moreover have "map_of members (str ''permissions'') = Some push_st_perm"
    by (simp add: members_def str_def)
  then have "ts' new (L_str (str ''permissions'')) = L_str (perm2string (st_mode info))"
    by (simp add: get push_st_perm_def)
  ultimately show ?thesis using perm2string_inj by blast
qed

lemma fs_attributes_consistent_witness:
  "file_info no_conv demo_os 5 [L_str [97], L_str (str ''color'')] (\<lambda>_ _. L_nil) ([], []) =
     Some (luaL_error ''invalid attribute name'', (\<lambda>_ _. L_nil), ([], [])) \<and>
   (\<exists>ts'. file_info no_conv demo_os 5 [L_str [97]] (\<lambda>_ _. L_nil) ([], []) = Some (Inr [L_table 5], ts', ([], [])) \<and>
      ts' 5 (L_str (str ''permissions'')) = L_str (perm2string 0x81A4))"
proof -
  have s: "stat_sys demo_os (cstr [97]) ([], []) = (Some demo_stat, ([], []))" and m: "st_mode demo_stat = 0x81A4"
    by (simp_all add: demo_os_def demo_stat_def)
  have c: "is_cstr (str ''color'')" by (simp add: is_cstr_def str_def)
  have "str ''color'' \<notin> fst ` set members" by (simp add: members_def str_def)
  then show ?thesis
    using fs_attributes_consistent [OF s c, where cv = no_conv and new = 5 and ts = "\<lambda>_ _. L_nil" and m = 0, unfolded m]
    by (simp only: if_False) blast
qed

end
