(* ===== verification/Lua_Zmq.thy ===== *)
theory Lua_Zmq
  imports Lua_Api
begin

text \<open>
  The Lua module \<open>zmq\<close> of \<open>src/lualib/lua_zmq.c\<close>: sockets of the process-wide ZeroMQ context,
  their operations, and the module's functions. The socket options are in the theory \<open>Zmq_Options\<close>.

  libzmq is a parameter, the record \<open>zmq\<close>, over a state \<open>'w\<close>. A socket object holds the socket, or
  null after it was closed; the operations that assert a socket abort the process on a closed one.
\<close>

record 'w zmq =
  zmq_errno :: "'w \<Rightarrow> int"
  zmq_strerror :: "int \<Rightarrow> bytes"
  zmq_socket :: "int \<Rightarrow> 'w \<Rightarrow> addr option \<times> 'w"
  zmq_close :: "addr \<Rightarrow> 'w \<Rightarrow> int \<times> 'w"
  zmq_bind :: "addr \<Rightarrow> bytes \<Rightarrow> 'w \<Rightarrow> int \<times> 'w"
  zmq_unbind :: "addr \<Rightarrow> bytes \<Rightarrow> 'w \<Rightarrow> int \<times> 'w"
  zmq_connect :: "addr \<Rightarrow> bytes \<Rightarrow> 'w \<Rightarrow> int \<times> 'w"
  zmq_disconnect :: "addr \<Rightarrow> bytes \<Rightarrow> 'w \<Rightarrow> int \<times> 'w"
  zmq_send :: "addr option \<Rightarrow> bytes \<Rightarrow> int \<Rightarrow> 'w \<Rightarrow> int \<times> 'w"
  zmq_recvmsg :: "addr option \<Rightarrow> int \<Rightarrow> 'w \<Rightarrow> (int \<times> bytes) \<times> 'w"
  zmq_socket_monitor :: "addr \<Rightarrow> bytes \<Rightarrow> int \<Rightarrow> 'w \<Rightarrow> int \<times> 'w"
  zmq_getsockopt :: "addr \<Rightarrow> int \<Rightarrow> nat \<Rightarrow> 'w \<Rightarrow> (int \<times> bytes) \<times> 'w"
  zmq_setsockopt :: "addr \<Rightarrow> int \<Rightarrow> bytes \<Rightarrow> 'w \<Rightarrow> int \<times> 'w"
  zmq_version :: "int \<times> int \<times> int"
  zmq_z85_encode :: "bytes \<Rightarrow> bytes option"
  zmq_z85_decode :: "bytes \<Rightarrow> bytes option"
  zmq_curve_keypair :: "'w \<Rightarrow> (int \<times> bytes \<times> bytes) \<times> 'w"
  zmq_sleep :: "int \<Rightarrow> 'w \<Rightarrow> 'w"

type_synonym 'w zsock_res = "lua_value list lua_res \<times> 'w"

text \<open>The error every wrapper raises when a call does not return 0.\<close>

definition LZMQ_CHECK_THROW :: "'w zmq \<Rightarrow> int \<times> 'w \<Rightarrow> lua_value list \<Rightarrow> 'w zsock_res" where
  "LZMQ_CHECK_THROW z r ok =
    (if fst r \<noteq> 0
     then (let err = zmq_errno z (snd r)
           in (Inl (Lua_error (str ''zmq error '' @ dec_int err @ str '': '' @ zmq_strerror z err)), snd r))
     else (Inr ok, snd r))"

section \<open>Sockets\<close>

definition lzmq_create_socket :: "lua_conv \<Rightarrow> 'w zmq \<Rightarrow> lua_value list \<Rightarrow> 'w \<Rightarrow> addr lua_res \<times> 'w" where
  "lzmq_create_socket cv z args w =
    (case luaL_checkinteger cv args 1 of Inl e \<Rightarrow> (Inl e, w) | Inr type \<Rightarrow>
     (let (socket, w) = zmq_socket z (to_int32 (uint type)) w
      in case socket of
           None \<Rightarrow> (Inl (Lua_error (str ''create socket failed: '' @ dec_int (zmq_errno z w))), w)
         | Some s \<Rightarrow> (Inr s, w)))"

definition zsocket_close :: "'w zmq \<Rightarrow> addr option \<Rightarrow> 'w \<Rightarrow> (addr option \<times> 'w) option" where
  "zsocket_close z self w =
    (case self of
       Some socket \<Rightarrow> (let (rc, w) = zmq_close z socket w in do { c_assert (rc = 0); Some (None, w) })
     | None \<Rightarrow> Some (None, w))"

text \<open>\<open>ptr\<close> is how \<open>lua_pushfstring\<close> prints a pointer.\<close>

definition zsocket_tostring :: "(addr option \<Rightarrow> bytes) \<Rightarrow> addr option \<Rightarrow> lua_value list" where
  "zsocket_tostring ptr self = [L_str (str ''socket '' @ ptr self)]"

definition zsocket_bind ::
    "lua_conv \<Rightarrow> 'w zmq \<Rightarrow> addr option \<Rightarrow> lua_value list \<Rightarrow> 'w \<Rightarrow> 'w zsock_res option" where
  "zsocket_bind cv z self args w =
    (case luaL_checkstring cv args 2 of Inl e \<Rightarrow> Some (Inl e, w) | Inr addr \<Rightarrow> do {
       socket \<leftarrow> self;
       Some (LZMQ_CHECK_THROW z (zmq_bind z socket addr w) []) })"

definition zsocket_unbind ::
    "lua_conv \<Rightarrow> 'w zmq \<Rightarrow> addr option \<Rightarrow> lua_value list \<Rightarrow> 'w \<Rightarrow> 'w zsock_res option" where
  "zsocket_unbind cv z self args w =
    (case luaL_checkstring cv args 2 of Inl e \<Rightarrow> Some (Inl e, w) | Inr addr \<Rightarrow> do {
       socket \<leftarrow> self;
       Some (LZMQ_CHECK_THROW z (zmq_unbind z socket addr w) []) })"

definition zsocket_connect ::
    "lua_conv \<Rightarrow> 'w zmq \<Rightarrow> addr option \<Rightarrow> lua_value list \<Rightarrow> 'w \<Rightarrow> 'w zsock_res option" where
  "zsocket_connect cv z self args w =
    (case luaL_checkstring cv args 2 of Inl e \<Rightarrow> Some (Inl e, w) | Inr addr \<Rightarrow> do {
       socket \<leftarrow> self;
       Some (LZMQ_CHECK_THROW z (zmq_connect z socket addr w) []) })"

definition zsocket_disconnect ::
    "lua_conv \<Rightarrow> 'w zmq \<Rightarrow> addr option \<Rightarrow> lua_value list \<Rightarrow> 'w \<Rightarrow> 'w zsock_res option" where
  "zsocket_disconnect cv z self args w =
    (case luaL_checkstring cv args 2 of Inl e \<Rightarrow> Some (Inl e, w) | Inr addr \<Rightarrow> do {
       socket \<leftarrow> self;
       Some (LZMQ_CHECK_THROW z (zmq_disconnect z socket addr w) []) })"

text \<open>Sending and receiving give the socket to libzmq without a check.\<close>

definition zsocket_send ::
    "lua_conv \<Rightarrow> 'w zmq \<Rightarrow> addr option \<Rightarrow> lua_value list \<Rightarrow> 'w \<Rightarrow> 'w zsock_res" where
  "zsocket_send cv z self args w =
    (case luaL_checklstring cv args 2 of Inl e \<Rightarrow> (Inl e, w) | Inr data \<Rightarrow>
     case luaL_optinteger cv args 3 0 of Inl e \<Rightarrow> (Inl e, w) | Inr flag \<Rightarrow>
     (let (rc, w) = zmq_send z self data (to_int32 (uint flag)) w
      in if rc > 0 then (Inr [L_int (of_int rc)], w) else (Inr [L_nil, L_int (of_int (zmq_errno z w))], w)))"

definition zsocket_recv ::
    "lua_conv \<Rightarrow> 'w zmq \<Rightarrow> addr option \<Rightarrow> lua_value list \<Rightarrow> 'w \<Rightarrow> 'w zsock_res" where
  "zsocket_recv cv z self args w =
    (case luaL_optinteger cv args 2 0 of Inl e \<Rightarrow> (Inl e, w) | Inr flag \<Rightarrow>
     (let ((rc, msg), w) = zmq_recvmsg z self (to_int32 (uint flag)) w
      in if rc > 0 then (Inr [L_str msg], w) else (Inr [], w)))"

definition zsocket_monitor ::
    "lua_conv \<Rightarrow> 'w zmq \<Rightarrow> addr option \<Rightarrow> lua_value list \<Rightarrow> 'w \<Rightarrow> 'w zsock_res option" where
  "zsocket_monitor cv z self args w = do {
     socket \<leftarrow> self;
     case luaL_checkstring cv args 2 of Inl e \<Rightarrow> Some (Inl e, w) | Inr addr \<Rightarrow>
     case luaL_checkinteger cv args 3 of Inl e \<Rightarrow> Some (Inl e, w) | Inr events \<Rightarrow>
     Some (LZMQ_CHECK_THROW z (zmq_socket_monitor z socket addr (to_int32 (uint events)) w) [])
   }"

section \<open>Functions of the module\<close>

definition lzmq_version :: "lua_conv \<Rightarrow> 'w zmq \<Rightarrow> lua_value list \<Rightarrow> lua_value list" where
  "lzmq_version cv z args =
    (let (major, minor, patch) = zmq_version z
     in case lua_tostring cv (lua_arg args 1) of
          Some option \<Rightarrow>
            if strcmp_eq option (str ''n'') then [L_int (of_int major), L_int (of_int minor), L_int (of_int patch)]
            else [L_str (dec_int major @ [46] @ dec_int minor @ [46] @ dec_int patch)]
        | None \<Rightarrow> [L_str (dec_int major @ [46] @ dec_int minor @ [46] @ dec_int patch)])"

text \<open>
  Pushing more bytes than the buffer was given is a fault: the rest is uninitialized. \<open>zmq_z85_decode\<close>
  reads a C string, so a NUL in the argument shortens what it decodes.
\<close>

definition lzmq_z85_encode :: "lua_conv \<Rightarrow> 'w zmq \<Rightarrow> lua_value list \<Rightarrow> lua_value list lua_res option" where
  "lzmq_z85_encode cv z args =
    (case luaL_checklstring cv args 1 of Inl e \<Rightarrow> Some (Inl e) | Inr data \<Rightarrow>
     if length data \<noteq> 32 then Some (Inl (Arg_error 1))
     else (case zmq_z85_encode z data of
             None \<Rightarrow> Some (Inr [L_nil])
           | Some dest \<Rightarrow> do { c_assert (length dest = 40); Some (Inr [L_str dest]) }))"

definition lzmq_z85_decode :: "lua_conv \<Rightarrow> 'w zmq \<Rightarrow> lua_value list \<Rightarrow> lua_value list lua_res option" where
  "lzmq_z85_decode cv z args =
    (case luaL_checklstring cv args 1 of Inl e \<Rightarrow> Some (Inl e) | Inr data \<Rightarrow>
     if length data \<noteq> 40 then Some (Inl (Arg_error 1))
     else (case zmq_z85_decode z (cstr data) of
             None \<Rightarrow> Some (Inr [L_nil])
           | Some dest \<Rightarrow> do { c_assert (length dest = 32); Some (Inr [L_str dest]) }))"

text \<open>The two keys come as 40 characters of Z85; a failed decoding leaves the binary key undefined.\<close>

definition lzmq_curve_keypair :: "lua_conv \<Rightarrow> 'w zmq \<Rightarrow> lua_value list \<Rightarrow> 'w \<Rightarrow> 'w zsock_res option" where
  "lzmq_curve_keypair cv z args w =
    (let ((rc, public_key, secret_key), w) = zmq_curve_keypair z w;
         bin = (case lua_tostring cv (lua_arg args 1) of Some option \<Rightarrow> strcmp_eq option (str ''bin'') | None \<Rightarrow> False)
     in if rc \<noteq> 0 then Some (LZMQ_CHECK_THROW z (rc, w) [])
        else do {
          c_assert (length public_key = 40 \<and> length secret_key = 40);
          if bin
          then do {
            public_bin \<leftarrow> zmq_z85_decode z public_key;
            secret_bin \<leftarrow> zmq_z85_decode z secret_key;
            c_assert (length public_bin = 32 \<and> length secret_bin = 32);
            Some (Inr [L_str public_bin, L_str secret_bin], w) }
          else Some (Inr [L_str public_key, L_str secret_key], w) })"

definition lzmq_sleep :: "lua_conv \<Rightarrow> 'w zmq \<Rightarrow> lua_value list \<Rightarrow> 'w \<Rightarrow> 'w zsock_res" where
  "lzmq_sleep cv z args w =
    (case luaL_checkinteger cv args 1 of Inl e \<Rightarrow> (Inl e, w)
     | Inr sec \<Rightarrow> (Inr [], zmq_sleep z (to_int32 (uint sec)) w))"

section \<open>Constants\<close>

definition ZMQ_PAIR :: int where "ZMQ_PAIR = 0"
definition ZMQ_PUB :: int where "ZMQ_PUB = 1"
definition ZMQ_SUB :: int where "ZMQ_SUB = 2"
definition ZMQ_REQ :: int where "ZMQ_REQ = 3"
definition ZMQ_REP :: int where "ZMQ_REP = 4"
definition ZMQ_DEALER :: int where "ZMQ_DEALER = 5"
definition ZMQ_ROUTER :: int where "ZMQ_ROUTER = 6"
definition ZMQ_PULL :: int where "ZMQ_PULL = 7"
definition ZMQ_PUSH :: int where "ZMQ_PUSH = 8"
definition ZMQ_XPUB :: int where "ZMQ_XPUB = 9"
definition ZMQ_XSUB :: int where "ZMQ_XSUB = 10"
definition ZMQ_STREAM :: int where "ZMQ_STREAM = 11"
definition ZMQ_DONTWAIT :: int where "ZMQ_DONTWAIT = 1"
definition ZMQ_SNDMORE :: int where "ZMQ_SNDMORE = 2"
definition ZMQ_POLLIN :: int where "ZMQ_POLLIN = 1"
definition ZMQ_POLLOUT :: int where "ZMQ_POLLOUT = 2"
definition ZMQ_NULL :: int where "ZMQ_NULL = 0"
definition ZMQ_PLAIN :: int where "ZMQ_PLAIN = 1"
definition ZMQ_CURVE :: int where "ZMQ_CURVE = 2"
definition ZMQ_EVENT_CONNECTED :: int where "ZMQ_EVENT_CONNECTED = 1"
definition ZMQ_EVENT_CONNECT_DELAYED :: int where "ZMQ_EVENT_CONNECT_DELAYED = 2"
definition ZMQ_EVENT_CONNECT_RETRIED :: int where "ZMQ_EVENT_CONNECT_RETRIED = 4"
definition ZMQ_EVENT_LISTENING :: int where "ZMQ_EVENT_LISTENING = 8"
definition ZMQ_EVENT_BIND_FAILED :: int where "ZMQ_EVENT_BIND_FAILED = 16"
definition ZMQ_EVENT_ACCEPTED :: int where "ZMQ_EVENT_ACCEPTED = 32"
definition ZMQ_EVENT_ACCEPT_FAILED :: int where "ZMQ_EVENT_ACCEPT_FAILED = 64"
definition ZMQ_EVENT_CLOSED :: int where "ZMQ_EVENT_CLOSED = 128"
definition ZMQ_EVENT_CLOSE_FAILED :: int where "ZMQ_EVENT_CLOSE_FAILED = 256"
definition ZMQ_EVENT_DISCONNECTED :: int where "ZMQ_EVENT_DISCONNECTED = 512"
definition ZMQ_EVENT_MONITOR_STOPPED :: int where "ZMQ_EVENT_MONITOR_STOPPED = 1024"

definition ZMQ_EVENT_ALL :: int where
  "ZMQ_EVENT_ALL =
    ZMQ_EVENT_CONNECTED OR ZMQ_EVENT_CONNECT_DELAYED OR ZMQ_EVENT_CONNECT_RETRIED OR ZMQ_EVENT_LISTENING OR
    ZMQ_EVENT_BIND_FAILED OR ZMQ_EVENT_ACCEPTED OR ZMQ_EVENT_ACCEPT_FAILED OR ZMQ_EVENT_CLOSED OR
    ZMQ_EVENT_CLOSE_FAILED OR ZMQ_EVENT_DISCONNECTED OR ZMQ_EVENT_MONITOR_STOPPED"

definition push_socket_constant :: "(bytes \<times> int) list" where
  "push_socket_constant =
    [(str ''PAIR'', ZMQ_PAIR),
     (str ''PUB'', ZMQ_PUB),
     (str ''SUB'', ZMQ_SUB),
     (str ''REQ'', ZMQ_REQ),
     (str ''REP'', ZMQ_REP),
     (str ''SUB'', ZMQ_SUB),
     (str ''DEALER'', ZMQ_DEALER),
     (str ''ROUTER'', ZMQ_ROUTER),
     (str ''PULL'', ZMQ_PULL),
     (str ''PUSH'', ZMQ_PUSH),
     (str ''XPUB'', ZMQ_XPUB),
     (str ''XSUB'', ZMQ_XSUB),
     (str ''STREAM'', ZMQ_STREAM),
     (str ''DONTWAIT'', ZMQ_DONTWAIT),
     (str ''SNDMORE'', ZMQ_SNDMORE),
     (str ''POLLIN'', ZMQ_POLLIN),
     (str ''POLLOUT'', ZMQ_POLLOUT),
     (str ''NULL'', ZMQ_NULL),
     (str ''PLAIN'', ZMQ_PLAIN),
     (str ''CURVE'', ZMQ_CURVE),
     (str ''EVENT_CONNECTED'', ZMQ_EVENT_CONNECTED),
     (str ''EVENT_CONNECT_DELAYED'', ZMQ_EVENT_CONNECT_DELAYED),
     (str ''EVENT_CONNECT_RETRIED'', ZMQ_EVENT_CONNECT_RETRIED),
     (str ''EVENT_LISTENING'', ZMQ_EVENT_LISTENING),
     (str ''EVENT_BIND_FAILED'', ZMQ_EVENT_BIND_FAILED),
     (str ''EVENT_ACCEPTED'', ZMQ_EVENT_ACCEPTED),
     (str ''EVENT_ACCEPT_FAILED'', ZMQ_EVENT_ACCEPT_FAILED),
     (str ''EVENT_CLOSED'', ZMQ_EVENT_CLOSED),
     (str ''EVENT_CLOSE_FAILED'', ZMQ_EVENT_CLOSE_FAILED),
     (str ''EVENT_DISCONNECTED'', ZMQ_EVENT_DISCONNECTED),
     (str ''EVENT_MONITOR_STOPPED'', ZMQ_EVENT_MONITOR_STOPPED),
     (str ''EVENT_ALL'', ZMQ_EVENT_ALL)]"

definition luaopen_zmq_lib :: "(bytes \<times> bytes) list" where
  "luaopen_zmq_lib =
    [(str ''version'', str ''lzmq_version''),
     (str ''z85Encode'', str ''lzmq_z85_encode''),
     (str ''z85Decode'', str ''lzmq_z85_decode''),
     (str ''curveKeypair'', str ''lzmq_curve_keypair''),
     (str ''socket'', str ''lzmq_create_socket''),
     (str ''sleep'', str ''lzmq_sleep'')]"

end
