(* ===== verification/Zmq_Options.thy ===== *)
theory Zmq_Options
  imports Lua_Zmq
begin

text \<open>
  The socket options of the Lua module \<open>zmq\<close>: the functions \<open>zsocket_get_...\<close> and
  \<open>zsocket_set_...\<close> of \<open>src/lualib/lua_zmq.c\<close>, which differ in the option and in how its value is
  read from Lua or given to it. A value is the bytes at its address, little-endian for a number.
\<close>

section \<open>Values in memory\<close>

definition le_bytes :: "nat \<Rightarrow> int \<Rightarrow> bytes" where
  "le_bytes n i = map (\<lambda>k. of_int (i div 256 ^ k)) [0..<n]"

fun le_val :: "bytes \<Rightarrow> int" where
  "le_val [] = 0"
| "le_val (b # bs) = uint b + 256 * le_val bs"

text \<open>\<open>luaL_checknumber\<close> and its conversion to \<open>uint64_t\<close>, undefined out of range, and back.\<close>

record float_conv =
  check_uint64 :: "lua_value option \<Rightarrow> u64 option lua_res"
  push_uint64 :: "u64 \<Rightarrow> lua_value"

section \<open>Option numbers\<close>

definition ZMQ_TYPE :: int where "ZMQ_TYPE = 16"
definition ZMQ_RCVMORE :: int where "ZMQ_RCVMORE = 13"
definition ZMQ_RCVHWM :: int where "ZMQ_RCVHWM = 24"
definition ZMQ_SNDHWM :: int where "ZMQ_SNDHWM = 23"
definition ZMQ_AFFINITY :: int where "ZMQ_AFFINITY = 4"
definition ZMQ_IDENTITY :: int where "ZMQ_IDENTITY = 5"
definition ZMQ_RATE :: int where "ZMQ_RATE = 8"
definition ZMQ_RECOVERY_IVL :: int where "ZMQ_RECOVERY_IVL = 9"
definition ZMQ_SNDBUF :: int where "ZMQ_SNDBUF = 11"
definition ZMQ_RCVBUF :: int where "ZMQ_RCVBUF = 12"
definition ZMQ_LINGER :: int where "ZMQ_LINGER = 17"
definition ZMQ_RECONNECT_IVL :: int where "ZMQ_RECONNECT_IVL = 18"
definition ZMQ_RECONNECT_IVL_MAX :: int where "ZMQ_RECONNECT_IVL_MAX = 21"
definition ZMQ_BACKLOG :: int where "ZMQ_BACKLOG = 19"
definition ZMQ_MAXMSGSIZE :: int where "ZMQ_MAXMSGSIZE = 22"
definition ZMQ_MULTICAST_HOPS :: int where "ZMQ_MULTICAST_HOPS = 25"
definition ZMQ_RCVTIMEO :: int where "ZMQ_RCVTIMEO = 27"
definition ZMQ_SNDTIMEO :: int where "ZMQ_SNDTIMEO = 28"
definition ZMQ_IPV6 :: int where "ZMQ_IPV6 = 42"
definition ZMQ_IMMEDIATE :: int where "ZMQ_IMMEDIATE = 39"
definition ZMQ_FD :: int where "ZMQ_FD = 14"
definition ZMQ_EVENTS :: int where "ZMQ_EVENTS = 15"
definition ZMQ_LAST_ENDPOINT :: int where "ZMQ_LAST_ENDPOINT = 32"
definition ZMQ_TCP_KEEPALIVE :: int where "ZMQ_TCP_KEEPALIVE = 34"
definition ZMQ_TCP_KEEPALIVE_IDLE :: int where "ZMQ_TCP_KEEPALIVE_IDLE = 36"
definition ZMQ_TCP_KEEPALIVE_CNT :: int where "ZMQ_TCP_KEEPALIVE_CNT = 35"
definition ZMQ_TCP_KEEPALIVE_INTVL :: int where "ZMQ_TCP_KEEPALIVE_INTVL = 37"
definition ZMQ_MECHANISM :: int where "ZMQ_MECHANISM = 43"
definition ZMQ_PLAIN_USERNAME :: int where "ZMQ_PLAIN_USERNAME = 45"
definition ZMQ_PLAIN_PASSWORD :: int where "ZMQ_PLAIN_PASSWORD = 46"
definition ZMQ_CURVE_PUBLICKEY :: int where "ZMQ_CURVE_PUBLICKEY = 48"
definition ZMQ_CURVE_SECRETKEY :: int where "ZMQ_CURVE_SECRETKEY = 49"
definition ZMQ_CURVE_SERVERKEY :: int where "ZMQ_CURVE_SERVERKEY = 50"
definition ZMQ_ZAP_DOMAIN :: int where "ZMQ_ZAP_DOMAIN = 55"
definition ZMQ_SUBSCRIBE :: int where "ZMQ_SUBSCRIBE = 6"
definition ZMQ_UNSUBSCRIBE :: int where "ZMQ_UNSUBSCRIBE = 7"
definition ZMQ_TCP_ACCEPT_FILTER :: int where "ZMQ_TCP_ACCEPT_FILTER = 38"
definition ZMQ_ROUTER_MANDATORY :: int where "ZMQ_ROUTER_MANDATORY = 33"
definition ZMQ_PROBE_ROUTER :: int where "ZMQ_PROBE_ROUTER = 51"
definition ZMQ_XPUB_VERBOSE :: int where "ZMQ_XPUB_VERBOSE = 40"
definition ZMQ_REQ_RELAXED :: int where "ZMQ_REQ_RELAXED = 53"
definition ZMQ_REQ_CORRELATE :: int where "ZMQ_REQ_CORRELATE = 52"
definition ZMQ_CONFLATE :: int where "ZMQ_CONFLATE = 54"
definition ZMQ_PLAIN_SERVER :: int where "ZMQ_PLAIN_SERVER = 44"
definition ZMQ_CURVE_SERVER :: int where "ZMQ_CURVE_SERVER = 47"
definition ZMQ_IPV4ONLY :: int where "ZMQ_IPV4ONLY = 31"

section \<open>Getting an option\<close>

text \<open>An \<open>int\<close> on the stack, of which the library fills as many bytes as it has; less than four leave
  it undefined.\<close>

definition get_int :: "'w zmq \<Rightarrow> int \<Rightarrow> (int \<Rightarrow> lua_value) \<Rightarrow> addr option \<Rightarrow> 'w \<Rightarrow> 'w zsock_res option" where
  "get_int z opt push self w = do {
     socket \<leftarrow> self;
     let ((rc, value), w) = zmq_getsockopt z socket opt 4 w;
     if rc \<noteq> 0 then Some (LZMQ_CHECK_THROW z (rc, w) [])
     else do {
       c_assert (length value = 4);
       Some (LZMQ_CHECK_THROW z (rc, w) [push (to_int32 (le_val value))]) }
   }"

text \<open>
  A buffer of \<open>n\<close> bytes on the stack, which holds \<open>junk\<close> before the call and is read as a C string
  after it, whether the library ended the value with a NUL or not.
\<close>

definition get_string :: "'w zmq \<Rightarrow> int \<Rightarrow> nat \<Rightarrow> bytes \<Rightarrow> addr option \<Rightarrow> 'w \<Rightarrow> 'w zsock_res option" where
  "get_string z opt n junk self w = do {
     socket \<leftarrow> self;
     let ((rc, value), w) = zmq_getsockopt z socket opt n w;
     if rc \<noteq> 0 then Some (LZMQ_CHECK_THROW z (rc, w) [])
     else do {
       c_assert (length value \<le> n);
       s \<leftarrow> buf_cstr (take n (value @ drop (length value) junk));
       Some (LZMQ_CHECK_THROW z (rc, w) [L_str s]) }
   }"

definition zsocket_get_type :: "'w zmq \<Rightarrow> addr option \<Rightarrow> 'w \<Rightarrow> 'w zsock_res option" where
  "zsocket_get_type z self w = get_int z ZMQ_TYPE (\<lambda>i. L_int (of_int i)) self w"

definition zsocket_get_recv_more :: "'w zmq \<Rightarrow> addr option \<Rightarrow> 'w \<Rightarrow> 'w zsock_res option" where
  "zsocket_get_recv_more z self w = get_int z ZMQ_RCVMORE (\<lambda>i. L_int (of_int i)) self w"

definition zsocket_get_recv_hwm :: "'w zmq \<Rightarrow> addr option \<Rightarrow> 'w \<Rightarrow> 'w zsock_res option" where
  "zsocket_get_recv_hwm z self w = get_int z ZMQ_RCVHWM (\<lambda>i. L_int (of_int i)) self w"

definition zsocket_get_send_hwm :: "'w zmq \<Rightarrow> addr option \<Rightarrow> 'w \<Rightarrow> 'w zsock_res option" where
  "zsocket_get_send_hwm z self w = get_int z ZMQ_SNDHWM (\<lambda>i. L_int (of_int i)) self w"

definition zsocket_get_affinity :: "float_conv \<Rightarrow> 'w zmq \<Rightarrow> addr option \<Rightarrow> 'w \<Rightarrow> 'w zsock_res option" where
  "zsocket_get_affinity fc z self w = do {
     socket \<leftarrow> self;
     let ((rc, value), w) = zmq_getsockopt z socket ZMQ_AFFINITY 8 w;
     if rc \<noteq> 0 then Some (LZMQ_CHECK_THROW z (rc, w) [])
     else do {
       c_assert (length value = 8);
       Some (LZMQ_CHECK_THROW z (rc, w) [push_uint64 fc (of_int (le_val value))]) }
   }"

definition zsocket_get_identity :: "'w zmq \<Rightarrow> bytes \<Rightarrow> addr option \<Rightarrow> 'w \<Rightarrow> 'w zsock_res option" where
  "zsocket_get_identity z junk self w = get_string z ZMQ_IDENTITY 256 junk self w"

definition zsocket_get_rate :: "'w zmq \<Rightarrow> addr option \<Rightarrow> 'w \<Rightarrow> 'w zsock_res option" where
  "zsocket_get_rate z self w = get_int z ZMQ_RATE (\<lambda>i. L_int (of_int i)) self w"

definition zsocket_get_recovery_interval :: "'w zmq \<Rightarrow> addr option \<Rightarrow> 'w \<Rightarrow> 'w zsock_res option" where
  "zsocket_get_recovery_interval z self w = get_int z ZMQ_RECOVERY_IVL (\<lambda>i. L_int (of_int i)) self w"

definition zsocket_get_send_buf :: "'w zmq \<Rightarrow> addr option \<Rightarrow> 'w \<Rightarrow> 'w zsock_res option" where
  "zsocket_get_send_buf z self w = get_int z ZMQ_SNDBUF (\<lambda>i. L_int (of_int i)) self w"

definition zsocket_get_recv_buf :: "'w zmq \<Rightarrow> addr option \<Rightarrow> 'w \<Rightarrow> 'w zsock_res option" where
  "zsocket_get_recv_buf z self w = get_int z ZMQ_RCVBUF (\<lambda>i. L_int (of_int i)) self w"

definition zsocket_get_linger :: "'w zmq \<Rightarrow> addr option \<Rightarrow> 'w \<Rightarrow> 'w zsock_res option" where
  "zsocket_get_linger z self w = get_int z ZMQ_LINGER (\<lambda>i. L_int (of_int i)) self w"

definition zsocket_get_reconnect_interval :: "'w zmq \<Rightarrow> addr option \<Rightarrow> 'w \<Rightarrow> 'w zsock_res option" where
  "zsocket_get_reconnect_interval z self w = get_int z ZMQ_RECONNECT_IVL (\<lambda>i. L_int (of_int i)) self w"

definition zsocket_get_reconnect_interval_max :: "'w zmq \<Rightarrow> addr option \<Rightarrow> 'w \<Rightarrow> 'w zsock_res option" where
  "zsocket_get_reconnect_interval_max z self w = get_int z ZMQ_RECONNECT_IVL_MAX (\<lambda>i. L_int (of_int i)) self w"

definition zsocket_get_backlog :: "'w zmq \<Rightarrow> addr option \<Rightarrow> 'w \<Rightarrow> 'w zsock_res option" where
  "zsocket_get_backlog z self w = get_int z ZMQ_BACKLOG (\<lambda>i. L_int (of_int i)) self w"

definition zsocket_get_max_msg_size :: "'w zmq \<Rightarrow> addr option \<Rightarrow> 'w \<Rightarrow> 'w zsock_res option" where
  "zsocket_get_max_msg_size z self w = get_int z ZMQ_MAXMSGSIZE (\<lambda>i. L_int (of_int i)) self w"

definition zsocket_get_multicast_hops :: "'w zmq \<Rightarrow> addr option \<Rightarrow> 'w \<Rightarrow> 'w zsock_res option" where
  "zsocket_get_multicast_hops z self w = get_int z ZMQ_MULTICAST_HOPS (\<lambda>i. L_int (of_int i)) self w"

definition zsocket_get_recv_timeout :: "'w zmq \<Rightarrow> addr option \<Rightarrow> 'w \<Rightarrow> 'w zsock_res option" where
  "zsocket_get_recv_timeout z self w = get_int z ZMQ_RCVTIMEO (\<lambda>i. L_int (of_int i)) self w"

definition zsocket_get_send_timeout :: "'w zmq \<Rightarrow> addr option \<Rightarrow> 'w \<Rightarrow> 'w zsock_res option" where
  "zsocket_get_send_timeout z self w = get_int z ZMQ_SNDTIMEO (\<lambda>i. L_int (of_int i)) self w"

definition zsocket_get_ipv6 :: "'w zmq \<Rightarrow> addr option \<Rightarrow> 'w \<Rightarrow> 'w zsock_res option" where
  "zsocket_get_ipv6 z self w = get_int z ZMQ_IPV6 (\<lambda>i. L_bool (i \<noteq> 0)) self w"

definition zsocket_get_immediate :: "'w zmq \<Rightarrow> addr option \<Rightarrow> 'w \<Rightarrow> 'w zsock_res option" where
  "zsocket_get_immediate z self w = get_int z ZMQ_IMMEDIATE (\<lambda>i. L_int (of_int i)) self w"

definition zsocket_get_fd :: "'w zmq \<Rightarrow> addr option \<Rightarrow> 'w \<Rightarrow> 'w zsock_res option" where
  "zsocket_get_fd z self w = get_int z ZMQ_FD (\<lambda>i. L_int (of_int i)) self w"

definition zsocket_get_events :: "'w zmq \<Rightarrow> addr option \<Rightarrow> 'w \<Rightarrow> 'w zsock_res option" where
  "zsocket_get_events z self w = get_int z ZMQ_EVENTS (\<lambda>i. L_int (of_int i)) self w"

definition zsocket_get_last_endpoint :: "'w zmq \<Rightarrow> bytes \<Rightarrow> addr option \<Rightarrow> 'w \<Rightarrow> 'w zsock_res option" where
  "zsocket_get_last_endpoint z junk self w = get_string z ZMQ_LAST_ENDPOINT 256 junk self w"

definition zsocket_get_tcp_keepalive :: "'w zmq \<Rightarrow> addr option \<Rightarrow> 'w \<Rightarrow> 'w zsock_res option" where
  "zsocket_get_tcp_keepalive z self w = get_int z ZMQ_TCP_KEEPALIVE (\<lambda>i. L_int (of_int i)) self w"

definition zsocket_get_tcp_keepalive_idle :: "'w zmq \<Rightarrow> addr option \<Rightarrow> 'w \<Rightarrow> 'w zsock_res option" where
  "zsocket_get_tcp_keepalive_idle z self w = get_int z ZMQ_TCP_KEEPALIVE_IDLE (\<lambda>i. L_int (of_int i)) self w"

definition zsocket_get_tcp_keepalive_count :: "'w zmq \<Rightarrow> addr option \<Rightarrow> 'w \<Rightarrow> 'w zsock_res option" where
  "zsocket_get_tcp_keepalive_count z self w = get_int z ZMQ_TCP_KEEPALIVE_CNT (\<lambda>i. L_int (of_int i)) self w"

definition zsocket_get_tcp_keepalive_interval :: "'w zmq \<Rightarrow> addr option \<Rightarrow> 'w \<Rightarrow> 'w zsock_res option" where
  "zsocket_get_tcp_keepalive_interval z self w = get_int z ZMQ_TCP_KEEPALIVE_INTVL (\<lambda>i. L_int (of_int i)) self w"

definition zsocket_get_mechanism :: "'w zmq \<Rightarrow> addr option \<Rightarrow> 'w \<Rightarrow> 'w zsock_res option" where
  "zsocket_get_mechanism z self w = get_int z ZMQ_MECHANISM (\<lambda>i. L_int (of_int i)) self w"

definition zsocket_get_plain_username :: "'w zmq \<Rightarrow> bytes \<Rightarrow> addr option \<Rightarrow> 'w \<Rightarrow> 'w zsock_res option" where
  "zsocket_get_plain_username z junk self w = get_string z ZMQ_PLAIN_USERNAME 256 junk self w"

definition zsocket_get_plain_password :: "'w zmq \<Rightarrow> bytes \<Rightarrow> addr option \<Rightarrow> 'w \<Rightarrow> 'w zsock_res option" where
  "zsocket_get_plain_password z junk self w = get_string z ZMQ_PLAIN_PASSWORD 256 junk self w"

definition zsocket_get_curve_public_key :: "'w zmq \<Rightarrow> bytes \<Rightarrow> addr option \<Rightarrow> 'w \<Rightarrow> 'w zsock_res option" where
  "zsocket_get_curve_public_key z junk self w = get_string z ZMQ_CURVE_PUBLICKEY 48 junk self w"

definition zsocket_get_curve_secret_key :: "'w zmq \<Rightarrow> bytes \<Rightarrow> addr option \<Rightarrow> 'w \<Rightarrow> 'w zsock_res option" where
  "zsocket_get_curve_secret_key z junk self w = get_string z ZMQ_CURVE_SECRETKEY 48 junk self w"

definition zsocket_get_curve_server_key :: "'w zmq \<Rightarrow> bytes \<Rightarrow> addr option \<Rightarrow> 'w \<Rightarrow> 'w zsock_res option" where
  "zsocket_get_curve_server_key z junk self w = get_string z ZMQ_CURVE_SERVERKEY 48 junk self w"

definition zsocket_get_zap_domain :: "'w zmq \<Rightarrow> bytes \<Rightarrow> addr option \<Rightarrow> 'w \<Rightarrow> 'w zsock_res option" where
  "zsocket_get_zap_domain z junk self w = get_string z ZMQ_ZAP_DOMAIN 256 junk self w"

section \<open>Setting an option\<close>

definition set_bytes :: "'w zmq \<Rightarrow> int \<Rightarrow> bytes \<Rightarrow> addr \<Rightarrow> 'w \<Rightarrow> 'w zsock_res" where
  "set_bytes z opt value socket w = LZMQ_CHECK_THROW z (zmq_setsockopt z socket opt value w) []"

text \<open>
  The ways to get the value: an \<open>int\<close>, with the socket asserted before or after the argument is
  read; a truth value as an \<open>int\<close>; a \<open>uint64_t\<close>; a string; a string of a given length; and a string
  of which the address of the pointer is passed, so that the bytes come from the stack, where only
  the eight bytes \<open>ptr\<close> of the pointer are known.
\<close>

definition set_int :: "lua_conv \<Rightarrow> 'w zmq \<Rightarrow> int \<Rightarrow> addr option \<Rightarrow> lua_value list \<Rightarrow> 'w \<Rightarrow> 'w zsock_res option" where
  "set_int cv z opt self args w = do {
     socket \<leftarrow> self;
     case luaL_checkinteger cv args 2 of Inl e \<Rightarrow> Some (Inl e, w) | Inr n \<Rightarrow>
     Some (set_bytes z opt (le_bytes 4 (to_int32 (uint n))) socket w)
   }"

definition set_int_late :: "lua_conv \<Rightarrow> 'w zmq \<Rightarrow> int \<Rightarrow> addr option \<Rightarrow> lua_value list \<Rightarrow> 'w \<Rightarrow> 'w zsock_res option" where
  "set_int_late cv z opt self args w =
    (case luaL_checkinteger cv args 2 of Inl e \<Rightarrow> Some (Inl e, w) | Inr n \<Rightarrow> do {
       socket \<leftarrow> self;
       Some (set_bytes z opt (le_bytes 4 (to_int32 (uint n))) socket w) })"

definition set_bool :: "'w zmq \<Rightarrow> int \<Rightarrow> addr option \<Rightarrow> lua_value list \<Rightarrow> 'w \<Rightarrow> 'w zsock_res option" where
  "set_bool z opt self args w = do {
     socket \<leftarrow> self;
     Some (set_bytes z opt (le_bytes 4 (if lua_toboolean (lua_arg args 2) then 1 else 0)) socket w)
   }"

definition set_number :: "float_conv \<Rightarrow> 'w zmq \<Rightarrow> int \<Rightarrow> addr option \<Rightarrow> lua_value list \<Rightarrow> 'w \<Rightarrow> 'w zsock_res option" where
  "set_number fc z opt self args w = do {
     socket \<leftarrow> self;
     case check_uint64 fc (lua_arg args 2) of Inl e \<Rightarrow> Some (Inl e, w) | Inr v \<Rightarrow> do {
       v \<leftarrow> v;
       Some (set_bytes z opt (le_bytes 8 (uint v)) socket w) }
   }"

definition set_string :: "lua_conv \<Rightarrow> 'w zmq \<Rightarrow> int \<Rightarrow> addr option \<Rightarrow> lua_value list \<Rightarrow> 'w \<Rightarrow> 'w zsock_res option" where
  "set_string cv z opt self args w =
    (case luaL_checklstring cv args 2 of Inl e \<Rightarrow> Some (Inl e, w) | Inr value \<Rightarrow> do {
       socket \<leftarrow> self;
       Some (set_bytes z opt value socket w) })"

definition set_key :: "lua_conv \<Rightarrow> 'w zmq \<Rightarrow> int \<Rightarrow> nat \<Rightarrow> addr option \<Rightarrow> lua_value list \<Rightarrow> 'w \<Rightarrow> 'w zsock_res option" where
  "set_key cv z opt n self args w =
    (case luaL_checklstring cv args 2 of Inl e \<Rightarrow> Some (Inl e, w) | Inr value \<Rightarrow> do {
       socket \<leftarrow> self;
       Some (if length value \<noteq> n then (Inl (Arg_error 2), w) else set_bytes z opt value socket w) })"

definition set_pointer ::
    "lua_conv \<Rightarrow> 'w zmq \<Rightarrow> int \<Rightarrow> bytes \<Rightarrow> addr option \<Rightarrow> lua_value list \<Rightarrow> 'w \<Rightarrow> 'w zsock_res option" where
  "set_pointer cv z opt ptr self args w = do {
     socket \<leftarrow> self;
     case luaL_checklstring cv args 2 of Inl e \<Rightarrow> Some (Inl e, w) | Inr value \<Rightarrow> do {
       c_assert (length value \<le> length ptr);
       Some (set_bytes z opt (take (length value) ptr) socket w) }
   }"

definition zsocket_set_sendhwm ::
    "lua_conv \<Rightarrow> 'w zmq \<Rightarrow> addr option \<Rightarrow> lua_value list \<Rightarrow> 'w \<Rightarrow> 'w zsock_res option" where
  "zsocket_set_sendhwm cv z self args w = set_int cv z ZMQ_SNDHWM self args w"

definition zsocket_set_recvhwm ::
    "lua_conv \<Rightarrow> 'w zmq \<Rightarrow> addr option \<Rightarrow> lua_value list \<Rightarrow> 'w \<Rightarrow> 'w zsock_res option" where
  "zsocket_set_recvhwm cv z self args w = set_int cv z ZMQ_RCVHWM self args w"

definition zsocket_set_sendbuf ::
    "lua_conv \<Rightarrow> 'w zmq \<Rightarrow> addr option \<Rightarrow> lua_value list \<Rightarrow> 'w \<Rightarrow> 'w zsock_res option" where
  "zsocket_set_sendbuf cv z self args w = set_int cv z ZMQ_SNDBUF self args w"

definition zsocket_set_recvbuf ::
    "lua_conv \<Rightarrow> 'w zmq \<Rightarrow> addr option \<Rightarrow> lua_value list \<Rightarrow> 'w \<Rightarrow> 'w zsock_res option" where
  "zsocket_set_recvbuf cv z self args w = set_int cv z ZMQ_RCVBUF self args w"

definition zsocket_set_send_timeout ::
    "lua_conv \<Rightarrow> 'w zmq \<Rightarrow> addr option \<Rightarrow> lua_value list \<Rightarrow> 'w \<Rightarrow> 'w zsock_res option" where
  "zsocket_set_send_timeout cv z self args w = set_int cv z ZMQ_SNDTIMEO self args w"

definition zsocket_set_recv_timeout ::
    "lua_conv \<Rightarrow> 'w zmq \<Rightarrow> addr option \<Rightarrow> lua_value list \<Rightarrow> 'w \<Rightarrow> 'w zsock_res option" where
  "zsocket_set_recv_timeout cv z self args w = set_int cv z ZMQ_RCVTIMEO self args w"

definition zsocket_set_affinity ::
    "float_conv \<Rightarrow> 'w zmq \<Rightarrow> addr option \<Rightarrow> lua_value list \<Rightarrow> 'w \<Rightarrow> 'w zsock_res option" where
  "zsocket_set_affinity fc z self args w = set_number fc z ZMQ_AFFINITY self args w"

definition zsocket_set_subscribe ::
    "lua_conv \<Rightarrow> 'w zmq \<Rightarrow> addr option \<Rightarrow> lua_value list \<Rightarrow> 'w \<Rightarrow> 'w zsock_res option" where
  "zsocket_set_subscribe cv z self args w = set_string cv z ZMQ_SUBSCRIBE self args w"

definition zsocket_set_unsubscribe ::
    "lua_conv \<Rightarrow> 'w zmq \<Rightarrow> addr option \<Rightarrow> lua_value list \<Rightarrow> 'w \<Rightarrow> 'w zsock_res option" where
  "zsocket_set_unsubscribe cv z self args w = set_string cv z ZMQ_UNSUBSCRIBE self args w"

definition zsocket_set_identity ::
    "lua_conv \<Rightarrow> 'w zmq \<Rightarrow> addr option \<Rightarrow> lua_value list \<Rightarrow> 'w \<Rightarrow> 'w zsock_res option" where
  "zsocket_set_identity cv z self args w = set_string cv z ZMQ_IDENTITY self args w"

definition zsocket_set_rate ::
    "lua_conv \<Rightarrow> 'w zmq \<Rightarrow> addr option \<Rightarrow> lua_value list \<Rightarrow> 'w \<Rightarrow> 'w zsock_res option" where
  "zsocket_set_rate cv z self args w = set_int_late cv z ZMQ_RATE self args w"

definition zsocket_set_recovery_interval ::
    "lua_conv \<Rightarrow> 'w zmq \<Rightarrow> addr option \<Rightarrow> lua_value list \<Rightarrow> 'w \<Rightarrow> 'w zsock_res option" where
  "zsocket_set_recovery_interval cv z self args w = set_int_late cv z ZMQ_RECOVERY_IVL self args w"

definition zsocket_set_reconnect_interval ::
    "lua_conv \<Rightarrow> 'w zmq \<Rightarrow> addr option \<Rightarrow> lua_value list \<Rightarrow> 'w \<Rightarrow> 'w zsock_res option" where
  "zsocket_set_reconnect_interval cv z self args w = set_int_late cv z ZMQ_RECONNECT_IVL self args w"

definition zsocket_set_reconnect_interval_max ::
    "lua_conv \<Rightarrow> 'w zmq \<Rightarrow> addr option \<Rightarrow> lua_value list \<Rightarrow> 'w \<Rightarrow> 'w zsock_res option" where
  "zsocket_set_reconnect_interval_max cv z self args w = set_int_late cv z ZMQ_RECONNECT_IVL_MAX self args w"

definition zsocket_set_backlog ::
    "lua_conv \<Rightarrow> 'w zmq \<Rightarrow> addr option \<Rightarrow> lua_value list \<Rightarrow> 'w \<Rightarrow> 'w zsock_res option" where
  "zsocket_set_backlog cv z self args w = set_int_late cv z ZMQ_BACKLOG self args w"

definition zsocket_set_accept_filter ::
    "lua_conv \<Rightarrow> 'w zmq \<Rightarrow> addr option \<Rightarrow> lua_value list \<Rightarrow> 'w \<Rightarrow> 'w zsock_res option" where
  "zsocket_set_accept_filter cv z self args w = set_string cv z ZMQ_TCP_ACCEPT_FILTER self args w"

definition zsocket_set_linger ::
    "lua_conv \<Rightarrow> 'w zmq \<Rightarrow> addr option \<Rightarrow> lua_value list \<Rightarrow> 'w \<Rightarrow> 'w zsock_res option" where
  "zsocket_set_linger cv z self args w = set_int cv z ZMQ_LINGER self args w"

definition zsocket_set_immediate ::
    "'w zmq \<Rightarrow> addr option \<Rightarrow> lua_value list \<Rightarrow> 'w \<Rightarrow> 'w zsock_res option" where
  "zsocket_set_immediate z self args w = set_bool z ZMQ_IMMEDIATE self args w"

definition zsocket_set_mandatory ::
    "lua_conv \<Rightarrow> 'w zmq \<Rightarrow> addr option \<Rightarrow> lua_value list \<Rightarrow> 'w \<Rightarrow> 'w zsock_res option" where
  "zsocket_set_mandatory cv z self args w = set_int cv z ZMQ_ROUTER_MANDATORY self args w"

definition zsocket_set_probe_router ::
    "lua_conv \<Rightarrow> 'w zmq \<Rightarrow> addr option \<Rightarrow> lua_value list \<Rightarrow> 'w \<Rightarrow> 'w zsock_res option" where
  "zsocket_set_probe_router cv z self args w = set_int cv z ZMQ_PROBE_ROUTER self args w"

definition zsocket_set_xpub_verbose ::
    "lua_conv \<Rightarrow> 'w zmq \<Rightarrow> addr option \<Rightarrow> lua_value list \<Rightarrow> 'w \<Rightarrow> 'w zsock_res option" where
  "zsocket_set_xpub_verbose cv z self args w = set_int cv z ZMQ_XPUB_VERBOSE self args w"

definition zsocket_set_req_relaxed ::
    "lua_conv \<Rightarrow> 'w zmq \<Rightarrow> addr option \<Rightarrow> lua_value list \<Rightarrow> 'w \<Rightarrow> 'w zsock_res option" where
  "zsocket_set_req_relaxed cv z self args w = set_int cv z ZMQ_REQ_RELAXED self args w"

definition zsocket_set_tcp_keepalive ::
    "lua_conv \<Rightarrow> 'w zmq \<Rightarrow> addr option \<Rightarrow> lua_value list \<Rightarrow> 'w \<Rightarrow> 'w zsock_res option" where
  "zsocket_set_tcp_keepalive cv z self args w = set_int cv z ZMQ_TCP_KEEPALIVE self args w"

definition zsocket_set_tcp_keepalive_idle ::
    "lua_conv \<Rightarrow> 'w zmq \<Rightarrow> addr option \<Rightarrow> lua_value list \<Rightarrow> 'w \<Rightarrow> 'w zsock_res option" where
  "zsocket_set_tcp_keepalive_idle cv z self args w = set_int cv z ZMQ_TCP_KEEPALIVE_IDLE self args w"

definition zsocket_set_tcp_keepalive_count ::
    "lua_conv \<Rightarrow> 'w zmq \<Rightarrow> addr option \<Rightarrow> lua_value list \<Rightarrow> 'w \<Rightarrow> 'w zsock_res option" where
  "zsocket_set_tcp_keepalive_count cv z self args w = set_int cv z ZMQ_TCP_KEEPALIVE_CNT self args w"

definition zsocket_set_tcp_keepalive_interval ::
    "lua_conv \<Rightarrow> 'w zmq \<Rightarrow> addr option \<Rightarrow> lua_value list \<Rightarrow> 'w \<Rightarrow> 'w zsock_res option" where
  "zsocket_set_tcp_keepalive_interval cv z self args w = set_int cv z ZMQ_TCP_KEEPALIVE_INTVL self args w"

definition zsocket_set_req_correlate ::
    "lua_conv \<Rightarrow> 'w zmq \<Rightarrow> addr option \<Rightarrow> lua_value list \<Rightarrow> 'w \<Rightarrow> 'w zsock_res option" where
  "zsocket_set_req_correlate cv z self args w = set_int cv z ZMQ_REQ_CORRELATE self args w"

definition zsocket_set_max_msg_size ::
    "float_conv \<Rightarrow> 'w zmq \<Rightarrow> addr option \<Rightarrow> lua_value list \<Rightarrow> 'w \<Rightarrow> 'w zsock_res option" where
  "zsocket_set_max_msg_size fc z self args w = set_number fc z ZMQ_MAXMSGSIZE self args w"

definition zsocket_set_multicast_hops ::
    "lua_conv \<Rightarrow> 'w zmq \<Rightarrow> addr option \<Rightarrow> lua_value list \<Rightarrow> 'w \<Rightarrow> 'w zsock_res option" where
  "zsocket_set_multicast_hops cv z self args w = set_int cv z ZMQ_MULTICAST_HOPS self args w"

definition zsocket_set_conflate ::
    "'w zmq \<Rightarrow> addr option \<Rightarrow> lua_value list \<Rightarrow> 'w \<Rightarrow> 'w zsock_res option" where
  "zsocket_set_conflate z self args w = set_bool z ZMQ_CONFLATE self args w"

definition zsocket_set_plain_server ::
    "'w zmq \<Rightarrow> addr option \<Rightarrow> lua_value list \<Rightarrow> 'w \<Rightarrow> 'w zsock_res option" where
  "zsocket_set_plain_server z self args w = set_bool z ZMQ_PLAIN_SERVER self args w"

definition zsocket_set_plain_username ::
    "lua_conv \<Rightarrow> 'w zmq \<Rightarrow> bytes \<Rightarrow> addr option \<Rightarrow> lua_value list \<Rightarrow> 'w \<Rightarrow> 'w zsock_res option" where
  "zsocket_set_plain_username cv z ptr self args w = set_pointer cv z ZMQ_PLAIN_USERNAME ptr self args w"

definition zsocket_set_plain_password ::
    "lua_conv \<Rightarrow> 'w zmq \<Rightarrow> bytes \<Rightarrow> addr option \<Rightarrow> lua_value list \<Rightarrow> 'w \<Rightarrow> 'w zsock_res option" where
  "zsocket_set_plain_password cv z ptr self args w = set_pointer cv z ZMQ_PLAIN_PASSWORD ptr self args w"

definition zsocket_set_curve_server ::
    "'w zmq \<Rightarrow> addr option \<Rightarrow> lua_value list \<Rightarrow> 'w \<Rightarrow> 'w zsock_res option" where
  "zsocket_set_curve_server z self args w = set_bool z ZMQ_CURVE_SERVER self args w"

definition zsocket_set_curve_secret_key ::
    "lua_conv \<Rightarrow> 'w zmq \<Rightarrow> addr option \<Rightarrow> lua_value list \<Rightarrow> 'w \<Rightarrow> 'w zsock_res option" where
  "zsocket_set_curve_secret_key cv z self args w = set_key cv z ZMQ_CURVE_SECRETKEY 32 self args w"

definition zsocket_set_curve_public_key ::
    "lua_conv \<Rightarrow> 'w zmq \<Rightarrow> addr option \<Rightarrow> lua_value list \<Rightarrow> 'w \<Rightarrow> 'w zsock_res option" where
  "zsocket_set_curve_public_key cv z self args w = set_key cv z ZMQ_CURVE_PUBLICKEY 32 self args w"

definition zsocket_set_curve_server_key ::
    "lua_conv \<Rightarrow> 'w zmq \<Rightarrow> addr option \<Rightarrow> lua_value list \<Rightarrow> 'w \<Rightarrow> 'w zsock_res option" where
  "zsocket_set_curve_server_key cv z self args w = set_key cv z ZMQ_CURVE_SERVERKEY 40 self args w"

definition zsocket_set_ipv6 ::
    "'w zmq \<Rightarrow> addr option \<Rightarrow> lua_value list \<Rightarrow> 'w \<Rightarrow> 'w zsock_res option" where
  "zsocket_set_ipv6 z self args w = set_bool z ZMQ_IPV6 self args w"

definition zsocket_set_ipv4only ::
    "'w zmq \<Rightarrow> addr option \<Rightarrow> lua_value list \<Rightarrow> 'w \<Rightarrow> 'w zsock_res option" where
  "zsocket_set_ipv4only z self args w = set_bool z ZMQ_IPV4ONLY self args w"

section \<open>The methods\<close>

definition create_metatable :: "(bytes \<times> bytes) list" where
  "create_metatable =
    [(str ''__gc'', str ''zsocket_gc''),
     (str ''__tostring'', str ''zsocket_tostring''),
     (str ''close'', str ''zsocket_close''),
     (str ''bind'', str ''zsocket_bind''),
     (str ''unbind'', str ''zsocket_unbind''),
     (str ''connect'', str ''zsocket_connect''),
     (str ''disconnect'', str ''zsocket_disconnect''),
     (str ''send'', str ''zsocket_send''),
     (str ''recv'', str ''zsocket_recv''),
     (str ''monitor'', str ''zsocket_monitor''),
     (str ''getType'', str ''zsocket_get_type''),
     (str ''getRecvMore'', str ''zsocket_get_recv_more''),
     (str ''getRecvHWM'', str ''zsocket_get_recv_hwm''),
     (str ''getSendHWM'', str ''zsocket_get_send_hwm''),
     (str ''getAffinity'', str ''zsocket_get_affinity''),
     (str ''getIdentity'', str ''zsocket_get_identity''),
     (str ''getRate'', str ''zsocket_get_rate''),
     (str ''getRecoveryInterval'', str ''zsocket_get_recovery_interval''),
     (str ''getSendBuf'', str ''zsocket_get_send_buf''),
     (str ''getRecvBuf'', str ''zsocket_get_recv_buf''),
     (str ''getLinger'', str ''zsocket_get_linger''),
     (str ''getReconnectInterval'', str ''zsocket_get_reconnect_interval''),
     (str ''getReconnectIntervalMax'', str ''zsocket_get_reconnect_interval_max''),
     (str ''getBacklog'', str ''zsocket_get_backlog''),
     (str ''getMaxMsgSize'', str ''zsocket_get_max_msg_size''),
     (str ''getMulticastHops'', str ''zsocket_get_multicast_hops''),
     (str ''getRecvTimeout'', str ''zsocket_get_recv_timeout''),
     (str ''getSendTimeout'', str ''zsocket_get_send_timeout''),
     (str ''getIpv6'', str ''zsocket_get_ipv6''),
     (str ''getImmediate'', str ''zsocket_get_immediate''),
     (str ''getFd'', str ''zsocket_get_fd''),
     (str ''getEvents'', str ''zsocket_get_events''),
     (str ''getLastEndpoint'', str ''zsocket_get_last_endpoint''),
     (str ''getTcpKeepalive'', str ''zsocket_get_tcp_keepalive''),
     (str ''getTcpKeepaliveIdle'', str ''zsocket_get_tcp_keepalive_idle''),
     (str ''getTcpKeepaliveCount'', str ''zsocket_get_tcp_keepalive_count''),
     (str ''getTcpKeepaliveInterval'', str ''zsocket_get_tcp_keepalive_interval''),
     (str ''getMechanism'', str ''zsocket_get_mechanism''),
     (str ''getPlainUsername'', str ''zsocket_get_plain_username''),
     (str ''getPlainPassword'', str ''zsocket_get_plain_password''),
     (str ''getCurvePublicKey'', str ''zsocket_get_curve_public_key''),
     (str ''getCurveSecretKey'', str ''zsocket_get_curve_secret_key''),
     (str ''getCurveServerKey'', str ''zsocket_get_curve_server_key''),
     (str ''getZapDomain'', str ''zsocket_get_zap_domain''),
     (str ''setSendHWM'', str ''zsocket_set_sendhwm''),
     (str ''setRecvHWM'', str ''zsocket_set_recvhwm''),
     (str ''setSendbuf'', str ''zsocket_set_sendbuf''),
     (str ''setRecvbuf'', str ''zsocket_set_recvbuf''),
     (str ''setSendTimeout'', str ''zsocket_set_send_timeout''),
     (str ''setRecvTimeout'', str ''zsocket_set_recv_timeout''),
     (str ''setAffinity'', str ''zsocket_set_affinity''),
     (str ''setSubscribe'', str ''zsocket_set_subscribe''),
     (str ''setUnsubscribe'', str ''zsocket_set_unsubscribe''),
     (str ''setIdentity'', str ''zsocket_set_identity''),
     (str ''setRate'', str ''zsocket_set_rate''),
     (str ''setRecoveryInterval'', str ''zsocket_set_recovery_interval''),
     (str ''setReconnectInterval'', str ''zsocket_set_reconnect_interval''),
     (str ''setReconnectIntervalMax'', str ''zsocket_set_reconnect_interval_max''),
     (str ''setBacklog'', str ''zsocket_set_backlog''),
     (str ''setAcceptFilter'', str ''zsocket_set_accept_filter''),
     (str ''setLinger'', str ''zsocket_set_linger''),
     (str ''setImmediate'', str ''zsocket_set_immediate''),
     (str ''setMandatory'', str ''zsocket_set_mandatory''),
     (str ''setProbeRouter'', str ''zsocket_set_probe_router''),
     (str ''setXpubVerbose'', str ''zsocket_set_xpub_verbose''),
     (str ''setReqRelaxed'', str ''zsocket_set_req_relaxed''),
     (str ''setTcpKeepalive'', str ''zsocket_set_tcp_keepalive''),
     (str ''setTcpKeepaliveIdle'', str ''zsocket_set_tcp_keepalive_idle''),
     (str ''setTcpKeepaliveCount'', str ''zsocket_set_tcp_keepalive_count''),
     (str ''setTcpKeepaliveInterval'', str ''zsocket_set_tcp_keepalive_interval''),
     (str ''setReqCorrelate'', str ''zsocket_set_req_correlate''),
     (str ''setMaxMsgSize'', str ''zsocket_set_max_msg_size''),
     (str ''setMulticastHops'', str ''zsocket_set_multicast_hops''),
     (str ''setPlainServer'', str ''zsocket_set_plain_server''),
     (str ''setPlainUsername'', str ''zsocket_set_plain_username''),
     (str ''setPlainPassword'', str ''zsocket_set_plain_password''),
     (str ''setCurveServer'', str ''zsocket_set_curve_server''),
     (str ''setCurveSecretKey'', str ''zsocket_set_curve_secret_key''),
     (str ''setCurvePublicKey'', str ''zsocket_set_curve_public_key''),
     (str ''setCurveServerKey'', str ''zsocket_set_curve_server_key''),
     (str ''setIpv6'', str ''zsocket_set_ipv6''),
     (str ''setIpv4only'', str ''zsocket_set_ipv4only''),
     (str ''setConflate'', str ''zsocket_set_conflate'')]"

end
