(* ===== verification/Zmq_Properties.thy ===== *)
theory Zmq_Properties
  imports Zmq_Options
begin

text \<open>
  The properties of the Lua module \<open>zmq\<close> (\<open>src/lualib/lua_zmq.c\<close>): options are read back as they
  were set, and what a closed socket does.
\<close>

section \<open>Values in memory\<close>





section \<open>What the module needs of libzmq\<close>








section \<open>A library to try the theorems on\<close>

text \<open>Its state is the last option that was set and its value.\<close>

definition demo_zmq :: "(int \<times> bytes) zmq" where
  "demo_zmq = \<lparr>zmq_errno = \<lambda>_. 22, zmq_strerror = \<lambda>_. [], zmq_socket = \<lambda>_ w. (Some 5, w), zmq_close = \<lambda>_ w. (0, w),
     zmq_bind = \<lambda>_ _ w. (0, w), zmq_unbind = \<lambda>_ _ w. (0, w), zmq_connect = \<lambda>_ _ w. (0, w),
     zmq_disconnect = \<lambda>_ _ w. (0, w), zmq_send = \<lambda>_ _ _ w. (- 1, w), zmq_recvmsg = \<lambda>_ _ w. ((- 1, []), w),
     zmq_socket_monitor = \<lambda>_ _ _ w. (0, w),
     zmq_getsockopt = \<lambda>_ opt n w. (if opt = fst w \<and> length (snd w) \<le> n then ((0, snd w), w) else ((- 1, []), w)),
     zmq_setsockopt = \<lambda>_ opt v w. (0, (opt, v)), zmq_version = (4, 1, 2), zmq_z85_encode = \<lambda>_. None,
     zmq_z85_decode = \<lambda>_. None, zmq_curve_keypair = \<lambda>w. ((- 1, [], []), w), zmq_sleep = \<lambda>_ w. w\<rparr>"


section \<open>Properties\<close>



text \<open>
  Closing a socket object closes its socket once: a second close and the finalizer do nothing.
  Binding, connecting and every option on a closed socket abort the process; sending and receiving
  hand the null socket to the library and report its error.
\<close>

lemma zmq_closed_socket:
  assumes "zmq_close z socket w = (0, w')" and "luaL_checkstring cv args 2 = Inr addr"
    and "\<forall>data flag w. fst (zmq_send z None data flag w) = - 1" and "luaL_optinteger cv args 3 0 = Inr fl"
  shows "zsocket_close z (Some socket) w = Some (None, w') \<and> zsocket_close z None w' = Some (None, w') \<and>
    zsocket_bind cv z None args w' = None \<and> zsocket_connect cv z None args w' = None \<and>
    zsocket_get_linger z None w' = None \<and> zsocket_set_linger cv z None args w' = None \<and>
    (\<exists>e w''. zsocket_send cv z None args w' = (Inr [L_nil, L_int e], w''))"
proof -
  obtain d where d: "luaL_checklstring cv args 2 = Inr d"
    using assms(2) by (cases "luaL_checklstring cv args 2") (auto simp: luaL_checkstring_def)
  obtain w'' where "zmq_send z None d (to_int32 (uint fl)) w' = (- 1, w'')"
    using assms(3) by (metis prod.collapse)
  with assms d show ?thesis
    by (simp add: zsocket_close_def zsocket_bind_def zsocket_connect_def zsocket_get_linger_def get_int_def
        zsocket_set_linger_def set_int_def zsocket_send_def)
qed

lemma zmq_closed_socket_witness:
  "zsocket_close demo_zmq (Some 5) (0, []) = Some (None, (0, [])) \<and>
   zsocket_bind no_conv demo_zmq None [L_nil, L_str [97]] (0, []) = None"
proof -
  have "zmq_close demo_zmq 5 (0, []) = (0, (0, []))" "\<forall>data flag w. fst (zmq_send demo_zmq None data flag w) = - 1"
    by (simp_all add: demo_zmq_def)
  moreover have "luaL_checkstring no_conv [L_nil, L_str [97]] 2 = Inr [97]"
    by (simp add: lua_arg_def cstr_def)
  moreover have "luaL_optinteger no_conv [L_nil, L_str [97]] 3 0 = Inr 0"
    by (simp add: luaL_optinteger_def lua_arg_def lua_isnoneornil_def)
  ultimately show ?thesis using zmq_closed_socket [of demo_zmq 5 "(0, [])" "(0, [])" no_conv "[L_nil, L_str [97]]"] by blast
qed

end
