(* ===== verification/Lua_Mysql.thy ===== *)
theory Lua_Mysql
  imports Env Resource
begin

text \<open>
  The Lua module \<open>mysql\<close> of \<open>src/lualib/lua_mysql.c\<close>: connections, queries and cursors over the
  results.

  The client library is a parameter, the record \<open>mysql\<close>, over a state \<open>'w\<close>: connections and
  results are addresses. A row is the list of its cells, null or the bytes of the cell, which are
  followed by one NUL; the lengths the library reports are separate from the rows. The state of
  the module is the library's and Lua's registry, where a cursor keeps its connection alive.
\<close>

datatype enum_field_types =
    MYSQL_TYPE_DECIMAL | MYSQL_TYPE_TINY | MYSQL_TYPE_SHORT | MYSQL_TYPE_LONG | MYSQL_TYPE_FLOAT
  | MYSQL_TYPE_DOUBLE | MYSQL_TYPE_NULL | MYSQL_TYPE_TIMESTAMP | MYSQL_TYPE_LONGLONG | MYSQL_TYPE_INT24
  | MYSQL_TYPE_DATE | MYSQL_TYPE_TIME | MYSQL_TYPE_DATETIME | MYSQL_TYPE_YEAR | MYSQL_TYPE_NEWDATE
  | MYSQL_TYPE_VARCHAR | MYSQL_TYPE_BIT | MYSQL_TYPE_TIMESTAMP2 | MYSQL_TYPE_DATETIME2 | MYSQL_TYPE_TIME2
  | MYSQL_TYPE_NEWDECIMAL | MYSQL_TYPE_ENUM | MYSQL_TYPE_SET | MYSQL_TYPE_TINY_BLOB | MYSQL_TYPE_MEDIUM_BLOB
  | MYSQL_TYPE_LONG_BLOB | MYSQL_TYPE_BLOB | MYSQL_TYPE_VAR_STRING | MYSQL_TYPE_STRING | MYSQL_TYPE_GEOMETRY

datatype mysql_option =
    MYSQL_SET_CHARSET_NAME bytes
  | MYSQL_OPT_RECONNECT bool
  | MYSQL_OPT_CONNECT_TIMEOUT u32
  | MYSQL_OPT_READ_TIMEOUT u32
  | MYSQL_OPT_WRITE_TIMEOUT u32
  | MYSQL_OPT_COMPRESS
  | MYSQL_OPT_PROTOCOL u32

type_synonym my_row = "bytes option list"
type_synonym my_field = "bytes \<times> enum_field_types"

record 'w mysql =
  mysql_init :: "addr \<Rightarrow> 'w \<Rightarrow> bool \<times> 'w"
  mysql_error :: "addr \<Rightarrow> 'w \<Rightarrow> bytes"
  mysql_close :: "addr \<Rightarrow> 'w \<Rightarrow> 'w"
  mysql_real_connect :: "addr \<Rightarrow> bytes \<Rightarrow> bytes \<Rightarrow> bytes \<Rightarrow> bytes option \<Rightarrow> u32 \<Rightarrow> bytes option \<Rightarrow> u64 \<Rightarrow> 'w \<Rightarrow> bool \<times> 'w"
  mysql_real_query :: "addr \<Rightarrow> bytes \<Rightarrow> 'w \<Rightarrow> int \<times> 'w"
  mysql_store_result :: "addr \<Rightarrow> 'w \<Rightarrow> addr option \<times> 'w"
  mysql_use_result :: "addr \<Rightarrow> 'w \<Rightarrow> addr option \<times> 'w"
  mysql_field_count :: "addr \<Rightarrow> 'w \<Rightarrow> u32"
  mysql_affected_rows :: "addr \<Rightarrow> 'w \<Rightarrow> u64"
  mysql_commit :: "addr \<Rightarrow> 'w \<Rightarrow> bool \<times> 'w"
  mysql_rollback :: "addr \<Rightarrow> 'w \<Rightarrow> bool \<times> 'w"
  mysql_options :: "addr \<Rightarrow> mysql_option \<Rightarrow> 'w \<Rightarrow> int \<times> 'w"
  mysql_ping :: "addr \<Rightarrow> 'w \<Rightarrow> int \<times> 'w"
  my_methods :: "addr \<Rightarrow> 'w \<Rightarrow> addr option"
  mysql_real_escape_string :: "addr \<Rightarrow> bytes \<Rightarrow> 'w \<Rightarrow> bytes"
  mysql_num_rows :: "addr \<Rightarrow> 'w \<Rightarrow> u64"
  mysql_fetch_row :: "addr \<Rightarrow> 'w \<Rightarrow> my_row option \<times> 'w"
  mysql_fetch_lengths :: "addr \<Rightarrow> 'w \<Rightarrow> nat list option"
  mysql_fetch_fields :: "addr \<Rightarrow> 'w \<Rightarrow> my_field list option"
  mysql_free_result :: "addr \<Rightarrow> 'w \<Rightarrow> 'w"
  atof_number :: "bytes \<Rightarrow> lua_value"
  malloc_avail :: "nat \<Rightarrow> bool"
  luaL_ref :: "(nat \<Rightarrow> lua_value option) \<Rightarrow> nat"

record 'w my_state =
  my_world :: 'w
  registry :: "nat \<Rightarrow> lua_value option"

record Connection =
  conn_closed :: bool
  my_conn :: addr

text \<open>\<open>conn\<close> is a reference of the registry, \<open>None\<close> for \<open>LUA_NOREF\<close>.\<close>

record Cursor =
  conn :: "nat option"
  fetch_all :: bool
  numcols :: u32
  my_res :: "addr option"
  my_fields :: "my_field list option"

section \<open>Cursors\<close>

definition create_cursor ::
    "'w mysql \<Rightarrow> lua_value \<Rightarrow> addr \<Rightarrow> u32 \<Rightarrow> bool \<Rightarrow> 'w my_state \<Rightarrow> Cursor \<times> 'w my_state" where
  "create_cursor lib conn_value result ncols all s =
    (let ref = luaL_ref lib (registry s)
     in (\<lparr>conn = Some ref, fetch_all = all, numcols = ncols, my_res = Some result, my_fields = None\<rparr>,
         s\<lparr>registry := (registry s)(ref \<mapsto> conn_value)\<rparr>))"

definition cursor_nullify :: "'w mysql \<Rightarrow> Cursor \<Rightarrow> 'w my_state \<Rightarrow> Cursor \<times> 'w my_state" where
  "cursor_nullify lib cur s =
    (let (cur, s) = (case my_res cur of
           Some res \<Rightarrow> (cur\<lparr>my_res := None, my_fields := None\<rparr>, s\<lparr>my_world := mysql_free_result lib res (my_world s)\<rparr>)
         | None \<Rightarrow> (cur, s))
     in case conn cur of
          Some ref \<Rightarrow> (cur\<lparr>conn := None\<rparr>, s\<lparr>registry := (registry s)(ref := None)\<rparr>)
        | None \<Rightarrow> (cur, s))"

definition cursor_gc :: "'w mysql \<Rightarrow> Cursor \<Rightarrow> 'w my_state \<Rightarrow> Cursor \<times> 'w my_state" where
  "cursor_gc lib cur s = cursor_nullify lib cur s"

text \<open>A cursor and, below, a connection are resources in the sense of theory Resource.\<close>

definition cursor_live :: "Cursor \<Rightarrow> bool" where
  "cursor_live cur \<longleftrightarrow> my_res cur \<noteq> None \<or> conn cur \<noteq> None"

definition cursor_dead :: "Cursor \<Rightarrow> Cursor" where
  "cursor_dead cur =
    (if my_res cur = None then cur\<lparr>conn := None\<rparr> else cur\<lparr>my_res := None, my_fields := None, conn := None\<rparr>)"

definition cursor_release :: "'w mysql \<Rightarrow> Cursor \<Rightarrow> 'w my_state \<Rightarrow> 'w my_state" where
  "cursor_release lib cur s = s
    \<lparr>my_world := (case my_res cur of Some res \<Rightarrow> mysql_free_result lib res (my_world s) | None \<Rightarrow> my_world s),
     registry := (case conn cur of Some ref \<Rightarrow> (registry s)(ref := None) | None \<Rightarrow> registry s)\<rparr>"

interpretation cursor_res: resource "cursor_gc lib" cursor_live cursor_dead "cursor_release lib"
  for lib
  by unfold_locales
    (auto simp: cursor_gc_def cursor_nullify_def cursor_live_def cursor_dead_def cursor_release_def split: option.splits)

definition cursor_numrows :: "'w mysql \<Rightarrow> Cursor \<Rightarrow> 'w my_state \<Rightarrow> lua_value list lua_res" where
  "cursor_numrows lib cur s =
    (case my_res cur of
       None \<Rightarrow> Inl (Arg_error 1)
     | Some res \<Rightarrow> Inr [L_int (mysql_num_rows lib res (my_world s))])"

text \<open>
  \<open>pushvalue\<close>: a string is \<open>len\<close> bytes from where the cell starts; reading behind its NUL is a
  fault, and so is a number out of range for \<open>atoll\<close>.
\<close>

definition is_integer_type :: "enum_field_types \<Rightarrow> bool" where
  "is_integer_type type \<longleftrightarrow> type \<in> {MYSQL_TYPE_BIT, MYSQL_TYPE_TINY, MYSQL_TYPE_SHORT, MYSQL_TYPE_INT24,
     MYSQL_TYPE_YEAR, MYSQL_TYPE_LONG, MYSQL_TYPE_LONGLONG}"

definition is_float_type :: "enum_field_types \<Rightarrow> bool" where
  "is_float_type type \<longleftrightarrow> type \<in> {MYSQL_TYPE_DECIMAL, MYSQL_TYPE_NEWDECIMAL, MYSQL_TYPE_FLOAT, MYSQL_TYPE_DOUBLE}"

definition pushvalue :: "'w mysql \<Rightarrow> enum_field_types \<Rightarrow> bytes option \<Rightarrow> nat \<Rightarrow> lua_value option" where
  "pushvalue lib type row len =
    (case row of
       None \<Rightarrow> Some L_nil
     | Some data \<Rightarrow>
         if type = MYSQL_TYPE_NULL then Some L_nil
         else if is_integer_type type then map_option (\<lambda>n. L_int (of_int n)) (atoll (cstr data))
         else if is_float_type type then Some (atof_number lib (cstr data))
         else do { c_assert (len \<le> length data + 1); Some (L_str (take len (data @ [0]))) })"

text \<open>
  The two loops of \<open>result_to_table\<close>: column \<open>i\<close> is stored under the column's name or under
  \<open>i + 1\<close>. A table is the function from keys to values; a column without cell, length or field is
  read out of bounds.
\<close>

type_synonym lua_table = "lua_value \<Rightarrow> lua_value"

definition column_key :: "my_field list \<Rightarrow> bool \<Rightarrow> nat \<Rightarrow> lua_value" where
  "column_key fs alpha_idx i = (if alpha_idx then L_str (cstr (fst (fs ! i))) else L_int (of_nat (i + 1)))"

fun result_loop ::
    "'w mysql \<Rightarrow> my_field list \<Rightarrow> my_row \<Rightarrow> nat list \<Rightarrow> bool \<Rightarrow> nat list \<Rightarrow> lua_table \<Rightarrow> lua_table option" where
  "result_loop lib fs row lengths alpha_idx [] t = Some t"
| "result_loop lib fs row lengths alpha_idx (i # is) t = do {
     c_assert (i < length fs \<and> i < length row \<and> i < length lengths);
     v \<leftarrow> pushvalue lib (snd (fs ! i)) (row ! i) (lengths ! i);
     result_loop lib fs row lengths alpha_idx is (t(column_key fs alpha_idx i := v))
   }"

definition result_to_table ::
    "'w mysql \<Rightarrow> Cursor \<Rightarrow> my_field list \<Rightarrow> my_row \<Rightarrow> nat list \<Rightarrow> bool \<Rightarrow> lua_table option" where
  "result_to_table lib cur fs row lengths alpha_idx =
     result_loop lib fs row lengths alpha_idx [0..<unat (numcols cur)] (\<lambda>_. L_nil)"

text \<open>The option \<open>a\<close> of both fetch functions.\<close>

definition alpha_option :: "lua_conv \<Rightarrow> lua_value list \<Rightarrow> bool" where
  "alpha_option cv args =
    (case lua_tostring cv (lua_arg args 2) of Some opt \<Rightarrow> strcmp_eq opt (str ''a'') | None \<Rightarrow> False)"

text \<open>The fields are asked for when they are not known yet.\<close>

definition known_fields :: "'w mysql \<Rightarrow> Cursor \<Rightarrow> addr \<Rightarrow> 'w my_state \<Rightarrow> my_field list option" where
  "known_fields lib cur res s =
    (case my_fields cur of Some fs \<Rightarrow> Some fs | None \<Rightarrow> mysql_fetch_fields lib res (my_world s))"

text \<open>\<open>None\<close> as the value is a call that returns nothing.\<close>

definition cursor_fetch ::
    "lua_conv \<Rightarrow> 'w mysql \<Rightarrow> lua_value list \<Rightarrow> Cursor \<Rightarrow> 'w my_state
     \<Rightarrow> (lua_table option lua_res \<times> Cursor \<times> 'w my_state) option" where
  "cursor_fetch cv lib args cur s =
    (case my_res cur of None \<Rightarrow> Some (Inl (Arg_error 1), cur, s) | Some res \<Rightarrow>
     (let (row, w) = mysql_fetch_row lib res (my_world s); s = s\<lparr>my_world := w\<rparr>
      in case row of None \<Rightarrow> Some (Inr None, cur, s) | Some row \<Rightarrow>
         (let lengths = mysql_fetch_lengths lib res w;
              cur = cur\<lparr>my_fields := known_fields lib cur res s\<rparr>
          in case (lengths, my_fields cur) of
               (Some ls, Some fs) \<Rightarrow> do {
                 t \<leftarrow> result_to_table lib cur fs row ls (alpha_option cv args);
                 Some (Inr (Some t), cur, s) }
             | _ \<Rightarrow> Some (Inl (Arg_error 1), cur, s))))"

text \<open>
  The loop of \<open>fetchAll\<close>: the lengths were asked for once, after the first row. It ends when the
  library gives no more row.
\<close>

partial_function (option) fetch_all_loop ::
    "'w mysql \<Rightarrow> Cursor \<Rightarrow> addr \<Rightarrow> my_field list \<Rightarrow> nat list \<Rightarrow> bool \<Rightarrow> my_row option \<Rightarrow> lua_table list \<Rightarrow> 'w
     \<Rightarrow> (lua_table list \<times> 'w) option" where
  "fetch_all_loop lib cur res fs lengths alpha_idx row ts w =
    (case row of None \<Rightarrow> Some (ts, w) | Some r \<Rightarrow>
     Option.bind (result_to_table lib cur fs r lengths alpha_idx) (\<lambda>t.
       fetch_all_loop lib cur res fs lengths alpha_idx
         (fst (mysql_fetch_row lib res w)) (ts @ [t]) (snd (mysql_fetch_row lib res w))))"

definition cursor_fetch_all ::
    "lua_conv \<Rightarrow> 'w mysql \<Rightarrow> lua_value list \<Rightarrow> Cursor \<Rightarrow> 'w my_state
     \<Rightarrow> (lua_table list option lua_res \<times> Cursor \<times> 'w my_state) option" where
  "cursor_fetch_all cv lib args cur s =
    (case my_res cur of None \<Rightarrow> Some (Inl (Arg_error 1), cur, s) | Some res \<Rightarrow>
     if \<not> fetch_all cur then Some (Inl (Arg_error 1), cur, s)
     else
       (let (row, w) = mysql_fetch_row lib res (my_world s); s = s\<lparr>my_world := w\<rparr>
        in if row = None \<or> numcols cur = 0
           then (let (cur, s) = cursor_nullify lib cur s in Some (Inr None, cur, s))
           else
             (let cur = cur\<lparr>my_fields := known_fields lib cur res s\<rparr>;
                  lengths = mysql_fetch_lengths lib res w
              in case (lengths, my_fields cur) of
                   (Some ls, Some fs) \<Rightarrow> do {
                     (ts, w) \<leftarrow> fetch_all_loop lib cur res fs ls (alpha_option cv args) row [] w;
                     let (cur, s) = cursor_nullify lib cur (s\<lparr>my_world := w\<rparr>);
                     Some (Inr (Some ts), cur, s) }
                 | _ \<Rightarrow> Some (Inl (Arg_error 1), cur, s))))"

section \<open>Connections\<close>

text \<open>The object is made before \<open>mysql_init\<close>; \<open>p\<close> is the address of its \<open>MYSQL\<close>.\<close>

definition conn_create :: "'w mysql \<Rightarrow> addr \<Rightarrow> 'w my_state \<Rightarrow> Connection lua_res \<times> 'w my_state" where
  "conn_create lib p s =
    (let (same, w) = mysql_init lib p (my_world s); s = s\<lparr>my_world := w\<rparr>
     in if same then (Inr \<lparr>conn_closed = False, my_conn = p\<rparr>, s)
        else (Inl (Lua_error (mysql_error lib p w @ [10])), s))"

definition conn_close :: "'w mysql \<Rightarrow> Connection \<Rightarrow> 'w my_state \<Rightarrow> Connection \<times> 'w my_state" where
  "conn_close lib c s =
    (if \<not> conn_closed c
     then (c\<lparr>conn_closed := True\<rparr>, s\<lparr>my_world := mysql_close lib (my_conn c) (my_world s)\<rparr>)
     else (c, s))"

definition conn_release :: "'w mysql \<Rightarrow> Connection \<Rightarrow> 'w my_state \<Rightarrow> 'w my_state" where
  "conn_release lib c s = s\<lparr>my_world := mysql_close lib (my_conn c) (my_world s)\<rparr>"

interpretation conn_res: resource "conn_close lib" "\<lambda>c. \<not> conn_closed c" "\<lambda>c. c\<lparr>conn_closed := True\<rparr>" "conn_release lib"
  for lib
  by unfold_locales (simp_all add: conn_close_def conn_release_def)

definition conn_tostring :: "(Connection \<Rightarrow> bytes) \<Rightarrow> Connection \<Rightarrow> lua_value list" where
  "conn_tostring ptr c = [L_str (str ''Connection* ('' @ ptr c @ str '')'')]"

text \<open>The checks of a value on top of the stack; they report no argument number, here 0.\<close>

definition check_top_string :: "lua_conv \<Rightarrow> lua_value \<Rightarrow> bytes lua_res" where
  "check_top_string cv v = (case lua_tostring cv (Some v) of None \<Rightarrow> Inl (Arg_error 0) | Some b \<Rightarrow> Inr (cstr b))"

definition opt_top_integer :: "lua_conv \<Rightarrow> lua_value \<Rightarrow> lua_Integer \<Rightarrow> lua_Integer lua_res" where
  "opt_top_integer cv v d =
    (if v = L_nil then Inr d
     else case lua_tointeger cv (Some v) of None \<Rightarrow> Inl (Arg_error 0) | Some n \<Rightarrow> Inr n)"

text \<open>\<open>field\<close> reads the table in the second argument.\<close>

definition conn_connect ::
    "lua_conv \<Rightarrow> 'w mysql \<Rightarrow> (nat \<Rightarrow> bytes \<Rightarrow> lua_value) \<Rightarrow> lua_value list \<Rightarrow> Connection \<Rightarrow> 'w my_state
     \<Rightarrow> unit lua_res \<times> 'w my_state" where
  "conn_connect cv lib field args c s =
    (if conn_closed c then (Inl (Arg_error 1), s)
     else case lua_arg args 2 of
       Some (L_table t) \<Rightarrow>
         (case check_top_string cv (field t (str ''host'')) of Inl e \<Rightarrow> (Inl e, s) | Inr host \<Rightarrow>
          case check_top_string cv (field t (str ''user'')) of Inl e \<Rightarrow> (Inl e, s) | Inr user \<Rightarrow>
          case check_top_string cv (field t (str ''passwd'')) of Inl e \<Rightarrow> (Inl e, s) | Inr passwd \<Rightarrow>
          (let db = map_option cstr (lua_tostring cv (Some (field t (str ''db''))))
           in case opt_top_integer cv (field t (str ''port'')) 3306 of Inl e \<Rightarrow> (Inl e, s) | Inr port \<Rightarrow>
          (let unix_socket = map_option cstr (lua_tostring cv (Some (field t (str ''unix_socket''))))
           in case opt_top_integer cv (field t (str ''client_flag'')) 0 of Inl e \<Rightarrow> (Inl e, s) | Inr flags \<Rightarrow>
          (let (same, w) = mysql_real_connect lib (my_conn c) host user passwd db (ucast port) unix_socket flags (my_world s);
               s = s\<lparr>my_world := w\<rparr>
           in if \<not> same then (Inl (Lua_error (str ''connect failed, '' @ mysql_error lib (my_conn c) w @ [10])), s)
              else (Inr (), s)))))
     | _ \<Rightarrow> (Inl (Arg_error 1), s))"

text \<open>\<open>error: text\<close>, as several functions raise it.\<close>

definition my_throw :: "'w mysql \<Rightarrow> Connection \<Rightarrow> int \<times> 'w \<Rightarrow> 'w my_state \<Rightarrow> unit lua_res \<times> 'w my_state" where
  "my_throw lib c r s =
    (let (err, w) = r; s = s\<lparr>my_world := w\<rparr>
     in if err \<noteq> 0 then (Inl (Lua_error (dec_int err @ str '': '' @ mysql_error lib (my_conn c) w @ [10])), s)
        else (Inr (), s))"

text \<open>\<open>conn_execute\<close> gives a cursor, values, or an error.\<close>

definition conn_execute ::
    "lua_conv \<Rightarrow> 'w mysql \<Rightarrow> lua_value list \<Rightarrow> Connection \<Rightarrow> 'w my_state
     \<Rightarrow> (lua_value list + Cursor) lua_res \<times> 'w my_state" where
  "conn_execute cv lib args c s =
    (if conn_closed c then (Inl (Arg_error 1), s)
     else case luaL_checklstring cv args 2 of Inl e \<Rightarrow> (Inl e, s) | Inr stmt \<Rightarrow>
     (let all = (case lua_tostring cv (lua_arg args 3) of
            Some opt \<Rightarrow> if strcmp_eq opt (str ''store'') then True
                        else if strcmp_eq opt (str ''use'') then False else True
          | None \<Rightarrow> True);
          q = mysql_real_query lib (my_conn c) stmt (my_world s)
      in case my_throw lib c q s of
           (Inl e, s) \<Rightarrow> (Inl e, s)
         | (Inr (), s) \<Rightarrow>
             (let (res, w) = (if all then mysql_store_result lib else mysql_use_result lib) (my_conn c) (my_world s);
                  s = s\<lparr>my_world := w\<rparr>;
                  ncols = mysql_field_count lib (my_conn c) w
              in case res of
                   Some r \<Rightarrow>
                     (let (cur, s) = create_cursor lib (the (lua_arg args 1)) r ncols all s in (Inr (Inr cur), s))
                 | None \<Rightarrow>
                     if ncols = 0 then (Inr (Inl [L_int (mysql_affected_rows lib (my_conn c) w)]), s)
                     else (Inr (Inl []), s))))"

definition conn_commit :: "'w mysql \<Rightarrow> Connection \<Rightarrow> 'w my_state \<Rightarrow> unit lua_res \<times> 'w my_state" where
  "conn_commit lib c s =
    (if conn_closed c then (Inl (Arg_error 1), s)
     else
       (let (failed, w) = mysql_commit lib (my_conn c) (my_world s); s = s\<lparr>my_world := w\<rparr>
        in if failed then (Inl (Lua_error (str ''commit failed, '' @ mysql_error lib (my_conn c) w @ [10])), s)
           else (Inr (), s)))"

definition conn_rollback :: "'w mysql \<Rightarrow> Connection \<Rightarrow> 'w my_state \<Rightarrow> unit lua_res \<times> 'w my_state" where
  "conn_rollback lib c s =
    (if conn_closed c then (Inl (Arg_error 1), s)
     else
       (let (failed, w) = mysql_rollback lib (my_conn c) (my_world s); s = s\<lparr>my_world := w\<rparr>
        in if failed then (Inl (Lua_error (str ''rollback failed, '' @ mysql_error lib (my_conn c) w @ [10])), s)
           else (Inr (), s)))"

definition conn_set_charset ::
    "lua_conv \<Rightarrow> 'w mysql \<Rightarrow> lua_value list \<Rightarrow> Connection \<Rightarrow> 'w my_state \<Rightarrow> unit lua_res \<times> 'w my_state" where
  "conn_set_charset cv lib args c s =
    (if conn_closed c then (Inl (Arg_error 1), s)
     else case luaL_checkstring cv args 2 of Inl e \<Rightarrow> (Inl e, s) | Inr charset \<Rightarrow>
     my_throw lib c (mysql_options lib (my_conn c) (MYSQL_SET_CHARSET_NAME charset) (my_world s)) s)"

definition conn_set_reconnect ::
    "'w mysql \<Rightarrow> lua_value list \<Rightarrow> Connection \<Rightarrow> 'w my_state \<Rightarrow> unit lua_res \<times> 'w my_state" where
  "conn_set_reconnect lib args c s =
    (if conn_closed c then (Inl (Arg_error 1), s)
     else my_throw lib c
       (mysql_options lib (my_conn c) (MYSQL_OPT_RECONNECT (lua_toboolean (lua_arg args 2))) (my_world s)) s)"

definition conn_set_connect_timeout ::
    "lua_conv \<Rightarrow> 'w mysql \<Rightarrow> lua_value list \<Rightarrow> Connection \<Rightarrow> 'w my_state \<Rightarrow> unit lua_res \<times> 'w my_state" where
  "conn_set_connect_timeout cv lib args c s =
    (if conn_closed c then (Inl (Arg_error 1), s)
     else case luaL_checkinteger cv args 2 of Inl e \<Rightarrow> (Inl e, s) | Inr n \<Rightarrow>
     my_throw lib c (mysql_options lib (my_conn c) (MYSQL_OPT_CONNECT_TIMEOUT (ucast n)) (my_world s)) s)"

definition conn_set_read_timeout ::
    "lua_conv \<Rightarrow> 'w mysql \<Rightarrow> lua_value list \<Rightarrow> Connection \<Rightarrow> 'w my_state \<Rightarrow> unit lua_res \<times> 'w my_state" where
  "conn_set_read_timeout cv lib args c s =
    (if conn_closed c then (Inl (Arg_error 1), s)
     else case luaL_checkinteger cv args 2 of Inl e \<Rightarrow> (Inl e, s) | Inr n \<Rightarrow>
     my_throw lib c (mysql_options lib (my_conn c) (MYSQL_OPT_READ_TIMEOUT (ucast n)) (my_world s)) s)"

definition conn_set_write_timeout ::
    "lua_conv \<Rightarrow> 'w mysql \<Rightarrow> lua_value list \<Rightarrow> Connection \<Rightarrow> 'w my_state \<Rightarrow> unit lua_res \<times> 'w my_state" where
  "conn_set_write_timeout cv lib args c s =
    (if conn_closed c then (Inl (Arg_error 1), s)
     else case luaL_checkinteger cv args 2 of Inl e \<Rightarrow> (Inl e, s) | Inr n \<Rightarrow>
     my_throw lib c (mysql_options lib (my_conn c) (MYSQL_OPT_WRITE_TIMEOUT (ucast n)) (my_world s)) s)"

definition conn_set_protocol ::
    "lua_conv \<Rightarrow> 'w mysql \<Rightarrow> lua_value list \<Rightarrow> Connection \<Rightarrow> 'w my_state \<Rightarrow> unit lua_res \<times> 'w my_state" where
  "conn_set_protocol cv lib args c s =
    (if conn_closed c then (Inl (Arg_error 1), s)
     else case luaL_checkinteger cv args 2 of Inl e \<Rightarrow> (Inl e, s) | Inr n \<Rightarrow>
     my_throw lib c (mysql_options lib (my_conn c) (MYSQL_OPT_PROTOCOL (ucast n)) (my_world s)) s)"

definition conn_set_compress :: "'w mysql \<Rightarrow> Connection \<Rightarrow> 'w my_state \<Rightarrow> unit lua_res \<times> 'w my_state" where
  "conn_set_compress lib c s =
    (if conn_closed c then (Inl (Arg_error 1), s)
     else my_throw lib c (mysql_options lib (my_conn c) MYSQL_OPT_COMPRESS (my_world s)) s)"

text \<open>The server is asked only when the connection has no method table, that is before it connected.\<close>

definition conn_ping :: "'w mysql \<Rightarrow> Connection \<Rightarrow> 'w my_state \<Rightarrow> unit lua_res \<times> 'w my_state" where
  "conn_ping lib c s =
    (if conn_closed c then (Inl (Arg_error 1), s)
     else if my_methods lib (my_conn c) (my_world s) = None
     then my_throw lib c (mysql_ping lib (my_conn c) (my_world s)) s
     else (Inr (), s))"

text \<open>The escaped string is written into a buffer with room for twice the length and a NUL.\<close>

definition conn_escape_string ::
    "lua_conv \<Rightarrow> 'w mysql \<Rightarrow> lua_value list \<Rightarrow> Connection \<Rightarrow> 'w my_state \<Rightarrow> lua_value list lua_res option" where
  "conn_escape_string cv lib args c s =
    (if conn_closed c then Some (Inl (Arg_error 1))
     else case luaL_checklstring cv args 2 of Inl e \<Rightarrow> Some (Inl e) | Inr stmt \<Rightarrow>
     if \<not> malloc_avail lib (length stmt * 2 + 1) then Some (luaL_error ''malloc() failed.'')
     else do {
       let dest = mysql_real_escape_string lib (my_conn c) stmt (my_world s);
       c_assert (length (dest @ [0]) \<le> length stmt * 2 + 1);
       Some (Inr [L_str dest]) })"

section \<open>The module\<close>

definition push_mysql_constant :: "(bytes \<times> int) list" where
  "push_mysql_constant =
    [(str ''PROTOCOL_DEFAULT'', 0),
     (str ''PROTOCOL_TCP'', 1),
     (str ''PROTOCOL_SOCKET'', 2),
     (str ''PROTOCOL_PIPE'', 3),
     (str ''PROTOCOL_MEMORY'', 4),
     (str ''CLIENT_LONG_PASSWORD'', 1),
     (str ''CLIENT_FOUND_ROWS'', 2),
     (str ''CLIENT_LONG_FLAG'', 4),
     (str ''CLIENT_CONNECT_WITH_DB'', 8),
     (str ''CLIENT_NO_SCHEMA'', 16),
     (str ''CLIENT_COMPRESS'', 32),
     (str ''CLIENT_ODBC'', 64),
     (str ''CLIENT_LOCAL_FILES'', 128),
     (str ''CLIENT_IGNORE_SPACE'', 256),
     (str ''CLIENT_PROTOCOL_41'', 512),
     (str ''CLIENT_INTERACTIVE'', 1024),
     (str ''CLIENT_SSL'', 2048),
     (str ''CLIENT_IGNORE_SIGPIPE'', 4096),
     (str ''CLIENT_TRANSACTIONS'', 8192),
     (str ''CLIENT_MULTI_STATEMENTS'', 65536),
     (str ''CLIENT_MULTI_RESULTS'', 131072),
     (str ''CLIENT_PS_MULTI_RESULTS'', 262144)]"

definition mysql_make_meta :: "(bytes \<times> (bytes \<times> bytes) list) list" where
  "mysql_make_meta =
    [(str ''Connection*'',
       [(str ''__gc'', str ''conn_close''),
        (str ''__tostring'', str ''conn_tostring''),
        (str ''setCharset'', str ''conn_set_charset''),
        (str ''setReconnect'', str ''conn_set_reconnect''),
        (str ''setConnectTimeout'', str ''conn_set_connect_timeout''),
        (str ''setWriteTimeout'', str ''conn_set_write_timeout''),
        (str ''setReadTimeout'', str ''conn_set_read_timeout''),
        (str ''setProtocol'', str ''conn_set_protocol''),
        (str ''setCompress'', str ''conn_set_compress''),
        (str ''escape'', str ''conn_escape_string''),
        (str ''connect'', str ''conn_connect''),
        (str ''ping'', str ''conn_ping''),
        (str ''close'', str ''conn_close''),
        (str ''execute'', str ''conn_execute''),
        (str ''commit'', str ''conn_commit''),
        (str ''rollback'', str ''conn_rollback'')]),
     (str ''Cursor*'',
       [(str ''__gc'', str ''cursor_gc''),
        (str ''fetch'', str ''cursor_fetch''),
        (str ''fetchAll'', str ''cursor_fetch_all''),
        (str ''numrows'', str ''cursor_numrows'')])]"

definition luaopen_mysql_lib :: "bytes \<Rightarrow> (bytes \<times> bytes) list \<times> (bytes \<times> bytes) list" where
  "luaopen_mysql_lib client_info =
    ([(str ''createClient'', str ''conn_create'')], [(str ''_VERSION'', client_info)])"

end
