(* ===== verification/Mysql_Properties.thy ===== *)
theory Mysql_Properties
  imports Lua_Mysql
begin

text \<open>
  The properties of the Lua module \<open>mysql\<close> (\<open>src/lualib/lua_mysql.c\<close>): what \<open>fetchAll\<close> returns and
  when a cursor lets go of its result and its connection. The witnesses run on a library with one
  result, whose state is the rows that are left.
\<close>

text \<open>The loop over the remaining rows gives a table for each and stops at the end.\<close>

lemma fetch_all_loop_rows:
  assumes "yields (mysql_fetch_row lib res) w rs w'"
    and "\<forall>x \<in> set (r # rs). result_to_table lib cur fs x ls a = Some (tab x)"
  shows "fetch_all_loop lib cur res fs ls a (Some r) ts w = Some (ts @ map tab (r # rs), w')"
  using assms
proof (induction rs arbitrary: w r ts)
  case Nil
  then show ?case by (subst fetch_all_loop.simps, subst fetch_all_loop.simps) simp
next
  case (Cons r' rs)
  then obtain w1 where row: "mysql_fetch_row lib res w = (Some r', w1)" and rest: "yields (mysql_fetch_row lib res) w1 rs w'" by auto
  have "\<forall>x \<in> set (r' # rs). result_to_table lib cur fs x ls a = Some (tab x)" using Cons.prems(2) by simp
  from Cons.IH [OF rest this, of "ts @ [tab r]"] show ?case
    using Cons.prems(2) row by (subst fetch_all_loop.simps) simp
qed

text \<open>A cursor that let go: no result, no fields, no connection.\<close>

definition cursor_done :: "Cursor \<Rightarrow> bool" where
  "cursor_done cur \<longleftrightarrow> my_res cur = None \<and> my_fields cur = None \<and> conn cur = None"

lemma cursor_nullify_done:
  assumes "my_res cur = Some res" and "conn cur = Some ref"
  shows "\<exists>cur'. cursor_nullify lib cur s =
      (cur', s\<lparr>my_world := mysql_free_result lib res (my_world s), registry := (registry s)(ref := None)\<rparr>) \<and>
    cursor_done cur'"
  using assms by (simp add: cursor_nullify_def cursor_done_def)


lemma fetch_all_rows:
  assumes cur: "my_res cur = Some res" "conn cur = Some ref" "fetch_all cur" "my_fields cur = None" "numcols cur \<noteq> 0"
    and first: "mysql_fetch_row lib res (my_world s) = (Some r, w1)"
    and meta: "mysql_fetch_lengths lib res w1 = Some ls" "mysql_fetch_fields lib res w1 = Some fs"
    and rest: "yields (mysql_fetch_row lib res) w1 rs w2"
    and rows: "\<forall>x \<in> set (r # rs). result_to_table lib (cur\<lparr>my_fields := Some fs\<rparr>) fs x ls (alpha_option cv args) = Some (tab x)"
  shows "\<exists>cur'. cursor_fetch_all cv lib args cur s =
      Some (Inr (Some (map tab (r # rs))), cur',
        s\<lparr>my_world := mysql_free_result lib res w2, registry := (registry s)(ref := None)\<rparr>) \<and> cursor_done cur'"
proof -
  let ?c = "cur\<lparr>my_fields := Some fs\<rparr>"
  have known: "known_fields lib cur res (s\<lparr>my_world := w1\<rparr>) = Some fs"
    by (simp add: known_fields_def cur meta)
  obtain cur' where n: "cursor_nullify lib ?c (s\<lparr>my_world := w2\<rparr>) =
      (cur', s\<lparr>my_world := mysql_free_result lib res w2, registry := (registry s)(ref := None)\<rparr>)"
    and d: "cursor_done cur'"
    using cursor_nullify_done [of ?c res ref lib "s\<lparr>my_world := w2\<rparr>"] cur by auto
  have "cursor_fetch_all cv lib args cur s =
      Some (Inr (Some (map tab (r # rs))), cur',
        s\<lparr>my_world := mysql_free_result lib res w2, registry := (registry s)(ref := None)\<rparr>)"
    using fetch_all_loop_rows [OF rest rows, of "[]"] n
    by (simp add: cursor_fetch_all_def cur first meta known)
  with d show ?thesis by blast
qed

section \<open>A library to try the theorems on\<close>

text \<open>Its state: the rows that are left, and the lengths of the current row.\<close>

definition demo_mysql :: "(my_row list \<times> nat list) mysql" where
  "demo_mysql = \<lparr>mysql_init = \<lambda>_ w. (True, w), mysql_error = \<lambda>_ _. [], mysql_close = \<lambda>_ w. w,
     mysql_real_connect = \<lambda>_ _ _ _ _ _ _ _ w. (True, w), mysql_real_query = \<lambda>_ _ w. (0, w),
     mysql_store_result = \<lambda>_ w. (Some 9, w), mysql_use_result = \<lambda>_ w. (Some 9, w), mysql_field_count = \<lambda>_ _. 1,
     mysql_affected_rows = \<lambda>_ _. 0, mysql_commit = \<lambda>_ w. (False, w), mysql_rollback = \<lambda>_ w. (False, w),
     mysql_options = \<lambda>_ _ w. (0, w), mysql_ping = \<lambda>_ w. (0, w), my_methods = \<lambda>_ _. None,
     mysql_real_escape_string = \<lambda>_ b _. b, mysql_num_rows = \<lambda>_ w. of_nat (length (fst w)),
     mysql_fetch_row = \<lambda>_ w. (case fst w of [] \<Rightarrow> (None, w)
       | r # rs \<Rightarrow> (Some r, (rs, map (\<lambda>c. case c of None \<Rightarrow> 0 | Some b \<Rightarrow> length b) r))),
     mysql_fetch_lengths = \<lambda>_ w. Some (snd w), mysql_fetch_fields = \<lambda>_ _. Some [([97], MYSQL_TYPE_STRING)],
     mysql_free_result = \<lambda>_ _. ([], []), atof_number = \<lambda>_. L_nil, malloc_avail = \<lambda>_. True, luaL_ref = \<lambda>_. 4\<rparr>"

definition demo_cursor :: Cursor where
  "demo_cursor = \<lparr>conn = Some 4, fetch_all = True, numcols = 1, my_res = Some 9, my_fields = None\<rparr>"

definition demo_state :: "(my_row list \<times> nat list) my_state" where
  "demo_state = \<lparr>my_world = ([[Some [97]], [Some [98, 99]]], []), registry = [4 \<mapsto> L_userdata 1]\<rparr>"


section \<open>Properties\<close>



text \<open>
  \<open>fetchAll\<close> uses the lengths of the first row for all rows. A string column of a later row comes
  back cut to the length of the first row's value, where \<open>fetch\<close> would have given the whole value;
  when the later value is more than one byte shorter, the code reads behind it.
\<close>

lemma mysql_fetch_all_stale_lengths:
  assumes "my_res cur = Some res" and "conn cur = Some ref" and "fetch_all cur" and "my_fields cur = None"
    and "numcols cur = 1"
    and "mysql_fetch_row lib res (my_world s) = (Some [Some d], w1)"
    and "mysql_fetch_lengths lib res w1 = Some [length d]"
    and "mysql_fetch_fields lib res w1 = Some [(name, MYSQL_TYPE_STRING)]"
    and "mysql_fetch_row lib res w1 = (Some [Some e], w2)" and "mysql_fetch_row lib res w2 = (None, w3)"
  shows "if length d \<le> length e + 1
    then \<exists>t1 t2 cur' s'. cursor_fetch_all cv lib [] cur s = Some (Inr (Some [t1, t2]), cur', s') \<and>
      t1 (L_int 1) = L_str d \<and> t2 (L_int 1) = L_str (take (length d) (e @ [0]))
    else cursor_fetch_all cv lib [] cur s = None"
proof -
  let ?fs = "[(name, MYSQL_TYPE_STRING)]"
  let ?tab = "\<lambda>x :: my_row. (\<lambda>_. L_nil)(L_int 1 := L_str (take (length d) (the (hd x) @ [0])))"
  have cell: "result_to_table lib (cur\<lparr>my_fields := Some ?fs\<rparr>) ?fs [Some x] [length d] (alpha_option cv []) =
      (if length d \<le> length x + 1 then Some (?tab [Some x]) else None)" for x
    by (simp add: result_to_table_def assms(5) alpha_option_def lua_arg_def lua_tostring_def pushvalue_def
        is_integer_type_def is_float_type_def column_key_def)
  show ?thesis
  proof (cases "length d \<le> length e + 1")
    case True
    have "\<forall>x \<in> set [[Some d], [Some e]]. result_to_table lib (cur\<lparr>my_fields := Some ?fs\<rparr>) ?fs x [length d]
        (alpha_option cv []) = Some (?tab x)" using True by (simp add: cell)
    from fetch_all_rows [OF assms(1,2,3,4) _ assms(6,7,8) _ this, of w3] assms(5,9,10) True show ?thesis by auto
  next
    case False
    then have "fetch_all_loop lib (cur\<lparr>my_fields := Some ?fs\<rparr>) res ?fs [length d] (alpha_option cv [])
        (Some [Some d]) [] w1 = None"
      by (subst fetch_all_loop.simps, subst fetch_all_loop.simps) (simp add: cell assms(9))
    then show ?thesis using False assms by (simp add: cursor_fetch_all_def known_fields_def)
  qed
qed

lemma mysql_fetch_all_stale_lengths_witness:
  "\<exists>t1 t2 cur' s'. cursor_fetch_all no_conv demo_mysql [] demo_cursor demo_state = Some (Inr (Some [t1, t2]), cur', s') \<and>
     t1 (L_int 1) = L_str [97] \<and> t2 (L_int 1) = L_str [98]"
proof -
  have cur: "my_res demo_cursor = Some 9" "conn demo_cursor = Some 4" "fetch_all demo_cursor"
    "my_fields demo_cursor = None" "numcols demo_cursor = 1"
    by (simp_all add: demo_cursor_def)
  have "mysql_fetch_row demo_mysql 9 (my_world demo_state) = (Some [Some [97]], ([[Some [98, 99]]], [1]))"
    "mysql_fetch_lengths demo_mysql 9 ([[Some [98, 99]]], [1]) = Some [length [97 :: byte]]"
    "mysql_fetch_fields demo_mysql 9 ([[Some [98, 99]]], [1]) = Some [([97], MYSQL_TYPE_STRING)]"
    "mysql_fetch_row demo_mysql 9 ([[Some [98, 99]]], [1]) = (Some [Some [98, 99]], ([], [2]))"
    "mysql_fetch_row demo_mysql 9 ([], [2]) = (None, ([], [2]))"
    by (simp_all add: demo_mysql_def demo_state_def)
  from mysql_fetch_all_stale_lengths [OF cur this, of no_conv] show ?thesis by simp
qed

end
