(* ===== verification/Luv.thy ===== *)
theory Luv
  imports Lua_Api
begin

text \<open>
  The Lua module \<open>luv\<close> of \<open>src/lualib/luv/luv.c\<close>, \<open>luv_timer.h\<close> and \<open>luv_os.h\<close>: timers on the
  node's event loop and wrappers of libuv's functions about the system, on the branches that are
  compiled outside Windows.

  libuv is a parameter. For the timers it is the record \<open>uv\<close> over the state \<open>'w\<close> of the loop; a
  timer's handle has the address of the timer. For the system it is the record \<open>uv_os\<close>. A floating
  point number is a Lua value of its own.
\<close>

section \<open>Timers\<close>

record 'w uv =
  uv_err_name :: "int \<Rightarrow> bytes"
  uv_strerror :: "int \<Rightarrow> bytes"
  uv_timer_init :: "addr \<Rightarrow> 'w \<Rightarrow> int \<times> 'w"
  uv_timer_start :: "addr \<Rightarrow> u64 \<Rightarrow> u64 \<Rightarrow> 'w \<Rightarrow> int \<times> 'w"
  uv_is_active :: "addr \<Rightarrow> 'w \<Rightarrow> bool"
  uv_is_closing :: "addr \<Rightarrow> 'w \<Rightarrow> bool"
  uv_close :: "addr \<Rightarrow> 'w \<Rightarrow> 'w"
  luaL_ref :: "(nat \<Rightarrow> lua_value option) \<Rightarrow> nat"

text \<open>\<open>timer_ref\<close> is \<open>None\<close> for \<open>LUA_NOREF\<close>; the memory of a freed timer is \<open>None\<close>.\<close>

record luv_timer =
  timer_ref :: "nat option"

record 'w luv_state =
  luv_world :: 'w
  timers :: "addr \<Rightarrow> luv_timer option"
  registry :: "nat \<Rightarrow> lua_value option"

definition luv_error :: "'w uv \<Rightarrow> int \<Rightarrow> 'a lua_res" where
  "luv_error lib r = Inl (Lua_error (uv_err_name lib r @ str '': '' @ uv_strerror lib r))"

text \<open>The loop of the node the module was opened for.\<close>

definition luv_loop :: "bool \<Rightarrow> unit lua_res" where
  "luv_loop tag_ok = (if \<not> tag_ok then luaL_error ''invalid node object'' else Inr ())"

definition on_timer_close :: "addr \<Rightarrow> 'w luv_state \<Rightarrow> 'w luv_state option" where
  "on_timer_close p s = do {
     _ \<leftarrow> timers s p;
     Some (s\<lparr>timers := (timers s)(p := None)\<rparr>)
   }"

text \<open>\<open>call f\<close> is \<open>qsf_trace_pcall\<close> of the function \<open>f\<close> without arguments.\<close>

definition timeout_cb ::
    "'w uv \<Rightarrow> (nat \<Rightarrow> 'w luv_state \<Rightarrow> 'w luv_state option) \<Rightarrow> addr \<Rightarrow> 'w luv_state \<Rightarrow> 'w luv_state option" where
  "timeout_cb lib call p s = do {
     timer \<leftarrow> timers s p;
     s \<leftarrow> (case Option.bind (timer_ref timer) (registry s) of
            Some (L_fun f) \<Rightarrow> call f s
          | _ \<Rightarrow> Some s);
     if \<not> uv_is_active lib p (luv_world s)
     then do {
       timer \<leftarrow> timers s p;
       let s = (case timer_ref timer of Some ref \<Rightarrow> s\<lparr>registry := (registry s)(ref := None)\<rparr> | None \<Rightarrow> s);
       let s = s\<lparr>timers := (timers s)(p \<mapsto> timer\<lparr>timer_ref := None\<rparr>)\<rparr>;
       Some (if \<not> uv_is_closing lib p (luv_world s)
             then s\<lparr>luv_world := uv_close lib p (luv_world s)\<rparr> else s) }
     else Some s
   }"

text \<open>
  \<open>malloc\<close> gives the address of the timer. \<open>luaL_ref\<close> takes the value on top of the stack, which is
  the last argument, whatever the third one was checked to be; a \<open>nil\<close> gets no place in the
  registry.
\<close>

definition luv_new_timer ::
    "lua_conv \<Rightarrow> 'w uv \<Rightarrow> bool \<Rightarrow> addr option \<Rightarrow> lua_value list \<Rightarrow> 'w luv_state
     \<Rightarrow> (unit lua_res \<times> 'w luv_state) option" where
  "luv_new_timer cv lib tag_ok malloc args s =
    (case luv_loop tag_ok of Inl e \<Rightarrow> Some (Inl e, s) | Inr _ \<Rightarrow> do {
       p \<leftarrow> malloc;
       let (r, w) = uv_timer_init lib p (luv_world s);
       let s0 = s\<lparr>luv_world := w\<rparr>;
       let s1 = s0\<lparr>timers := (timers s0)(p \<mapsto> \<lparr>timer_ref = Some 0\<rparr>)\<rparr>;
       if r < 0 then Some (luv_error lib r, s0)
       else (case luaL_checkinteger cv args 1 of Inl e \<Rightarrow> Some (Inl e, s1) | Inr timeout \<Rightarrow>
             case luaL_checkinteger cv args 2 of Inl e \<Rightarrow> Some (Inl e, s1) | Inr repeat \<Rightarrow>
             if \<not> lua_isfunction (lua_arg args 3) then Some (Inl (Arg_error 3), s1)
             else
               (let ref = (if last args = L_nil then None else Some (luaL_ref lib (registry s1)));
                    s2 = s1\<lparr>registry := (case ref of None \<Rightarrow> registry s1 | Some n \<Rightarrow> (registry s1)(n \<mapsto> last args)),
                            timers := (timers s1)(p \<mapsto> \<lparr>timer_ref = ref\<rparr>)\<rparr>;
                    (r, w) = uv_timer_start lib p timeout repeat (luv_world s2);
                    s3 = s2\<lparr>luv_world := w\<rparr>
                in if r < 0
                   then Some (luv_error lib r,
                          s3\<lparr>registry := (case ref of None \<Rightarrow> registry s3 | Some n \<Rightarrow> (registry s3)(n := None)),
                             timers := (timers s3)(p := None)\<rparr>)
                   else Some (Inr (), s3))) })"

section \<open>The system\<close>

definition MAX_PATH_LENGTH :: nat where "MAX_PATH_LENGTH = 512"
definition MAX_TITLE_LENGTH :: nat where "MAX_TITLE_LENGTH = 256"
definition INET6_ADDRSTRLEN :: nat where "INET6_ADDRSTRLEN = 46"

record uv_timeval =
  tv_sec :: lua_Integer
  tv_usec :: lua_Integer

record uv_rusage =
  ru_utime :: uv_timeval
  ru_stime :: uv_timeval
  ru_maxrss :: u64
  ru_ixrss :: u64
  ru_idrss :: u64
  ru_isrss :: u64
  ru_minflt :: u64
  ru_majflt :: u64
  ru_nswap :: u64
  ru_inblock :: u64
  ru_oublock :: u64
  ru_msgsnd :: u64
  ru_msgrcv :: u64
  ru_nsignals :: u64
  ru_nvcsw :: u64
  ru_nivcsw :: u64

record uv_cpu_times =
  cpu_user :: u64
  cpu_nice :: u64
  cpu_sys :: u64
  cpu_idle :: u64
  cpu_irq :: u64

record uv_cpu_info =
  cpu_model :: bytes
  cpu_speed :: int
  cpu_times :: uv_cpu_times

text \<open>\<open>ip4_name\<close> and \<open>ip6_name\<close> are the texts libuv makes of the address.\<close>

record uv_interface =
  if_name :: bytes
  is_internal :: bool
  sin_family :: nat
  ip4_name :: bytes
  ip6_name :: bytes

text \<open>A function with an error code gives the code and what it stores.\<close>

record 'w uv_os =
  uv_version :: u32
  uv_version_string :: bytes
  uv_get_process_title :: "nat \<Rightarrow> 'w \<Rightarrow> int \<times> bytes"
  uv_set_process_title :: "bytes \<Rightarrow> 'w \<Rightarrow> int \<times> 'w"
  uv_resident_set_memory :: "'w \<Rightarrow> int \<times> u64"
  uv_uptime :: "'w \<Rightarrow> int \<times> lua_value"
  uv_getrusage :: "'w \<Rightarrow> int \<times> uv_rusage"
  uv_cpu_infos :: "'w \<Rightarrow> int \<times> uv_cpu_info list"
  uv_interface_addresses :: "'w \<Rightarrow> uv_interface list"
  uv_loadavg :: "'w \<Rightarrow> lua_value \<times> lua_value \<times> lua_value"
  uv_exepath :: "nat \<Rightarrow> 'w \<Rightarrow> int \<times> bytes"
  uv_cwd :: "nat \<Rightarrow> 'w \<Rightarrow> int \<times> bytes"
  uv_chdir :: "bytes \<Rightarrow> 'w \<Rightarrow> int \<times> 'w"
  uv_os_homedir :: "nat \<Rightarrow> 'w \<Rightarrow> int \<times> bytes"
  uv_get_total_memory :: "'w \<Rightarrow> u64"
  uv_hrtime :: "'w \<Rightarrow> u64"
  getpid :: "'w \<Rightarrow> int"
  getuid :: "'w \<Rightarrow> int"
  getgid :: "'w \<Rightarrow> int"
  setuid :: "int \<Rightarrow> 'w \<Rightarrow> int \<times> 'w"
  setgid :: "int \<Rightarrow> 'w \<Rightarrow> int \<times> 'w"

text \<open>A table a function makes: nested tables by field name or index.\<close>

datatype luv_value =
    V lua_value
  | Fields "(bytes \<times> luv_value) list"
  | Items "luv_value list"

definition luv_version :: "'w uv_os \<Rightarrow> lua_value list" where
  "luv_version os = [L_int (ucast (uv_version os))]"

definition luv_version_string :: "'w uv_os \<Rightarrow> lua_value list" where
  "luv_version_string os = [L_str (uv_version_string os)]"

definition luv_get_process_title :: "'w uv \<Rightarrow> 'w uv_os \<Rightarrow> 'w \<Rightarrow> lua_value list lua_res option" where
  "luv_get_process_title lib os w =
    (let (r, title) = uv_get_process_title os MAX_TITLE_LENGTH w
     in if r < 0 then Some (luv_error lib r)
        else do { title \<leftarrow> buf_cstr (take MAX_TITLE_LENGTH title); Some (Inr [L_str title]) })"

definition luv_set_process_title ::
    "lua_conv \<Rightarrow> 'w uv \<Rightarrow> 'w uv_os \<Rightarrow> lua_value list \<Rightarrow> 'w \<Rightarrow> lua_value list lua_res \<times> 'w" where
  "luv_set_process_title cv lib os args w =
    (case luaL_checkstring cv args 1 of Inl e \<Rightarrow> (Inl e, w) | Inr title \<Rightarrow>
     (let (r, w) = uv_set_process_title os title w
      in if r < 0 then (luv_error lib r, w) else (Inr [L_int (of_int r)], w)))"

definition luv_resident_set_memory :: "'w uv \<Rightarrow> 'w uv_os \<Rightarrow> 'w \<Rightarrow> lua_value list lua_res" where
  "luv_resident_set_memory lib os w =
    (let (r, rss) = uv_resident_set_memory os w in if r < 0 then luv_error lib r else Inr [L_int rss])"

definition luv_uptime :: "'w uv \<Rightarrow> 'w uv_os \<Rightarrow> 'w \<Rightarrow> lua_value list lua_res" where
  "luv_uptime lib os w =
    (let (r, uptime) = uv_uptime os w in if r < 0 then luv_error lib r else Inr [uptime])"

definition luv_push_timeval_table :: "uv_timeval \<Rightarrow> luv_value" where
  "luv_push_timeval_table t =
    Fields [(str ''sec'', V (L_int (tv_sec t))), (str ''usec'', V (L_int (tv_usec t)))]"

definition luv_getrusage :: "'w uv \<Rightarrow> 'w uv_os \<Rightarrow> 'w \<Rightarrow> luv_value lua_res" where
  "luv_getrusage lib os w =
    (let (r, u) = uv_getrusage os w; n = (\<lambda>field. V (L_int (field u)))
     in if r < 0 then luv_error lib r
        else Inr (Fields
          [(str ''utime'', luv_push_timeval_table (ru_utime u)), (str ''stime'', luv_push_timeval_table (ru_stime u)),
           (str ''maxrss'', n ru_maxrss), (str ''ixrss'', n ru_ixrss), (str ''idrss'', n ru_idrss),
           (str ''isrss'', n ru_isrss), (str ''minflt'', n ru_minflt), (str ''majflt'', n ru_majflt),
           (str ''nswap'', n ru_nswap), (str ''inblock'', n ru_inblock), (str ''oublock'', n ru_oublock),
           (str ''msgsnd'', n ru_msgsnd), (str ''msgrcv'', n ru_msgrcv), (str ''nsignals'', n ru_nsignals),
           (str ''nvcsw'', n ru_nvcsw), (str ''nivcsw'', n ru_nivcsw)]))"

definition luv_cpu_info :: "'w uv \<Rightarrow> 'w uv_os \<Rightarrow> 'w \<Rightarrow> luv_value lua_res" where
  "luv_cpu_info lib os w =
    (let (r, cpus) = uv_cpu_infos os w
     in if r < 0 then luv_error lib r
        else Inr (Items (map (\<lambda>c. Fields
          [(str ''model'', V (L_str (cpu_model c))), (str ''speed'', V (L_int (of_int (cpu_speed c)))),
           (str ''times'', Fields
             [(str ''user'', V (L_int (cpu_user (cpu_times c)))), (str ''nice'', V (L_int (cpu_nice (cpu_times c)))),
              (str ''sys'', V (L_int (cpu_sys (cpu_times c)))), (str ''idle'', V (L_int (cpu_idle (cpu_times c)))),
              (str ''irq'', V (L_int (cpu_irq (cpu_times c))))])]) cpus)))"

text \<open>The address families of Linux; \<open>None\<close> is the null pointer.\<close>

definition luv_af_num_to_string :: "nat \<Rightarrow> bytes option" where
  "luv_af_num_to_string num =
    map_of [(1, str ''unix''), (2, str ''inet''), (10, str ''inet6''), (4, str ''ipx''), (16, str ''netlink''),
            (9, str ''x25''), (3, str ''ax25''), (8, str ''atmpvc''), (5, str ''appletalk''), (17, str ''packet'')] num"

definition AF_INET :: nat where "AF_INET = 2"
definition AF_INET6 :: nat where "AF_INET6 = 10"

definition interface_entry :: "uv_interface \<Rightarrow> luv_value" where
  "interface_entry i =
    Fields
      [(str ''internal'', V (L_bool (is_internal i))),
       (str ''ip'', V (L_str (
          if sin_family i = AF_INET then ip4_name i
          else if sin_family i = AF_INET6 then ip6_name i
          else cstr (strncpy (str ''<unknown sa family>'') INET6_ADDRSTRLEN)))),
       (str ''family'', V (case luv_af_num_to_string (sin_family i) of Some f \<Rightarrow> L_str f | None \<Rightarrow> L_nil))]"

text \<open>
  The table under an interface's name is made when it is not there yet, and the entry goes behind
  the last one. The result is the outer table as the function from names to lists of entries.
\<close>

fun interface_loop :: "uv_interface list \<Rightarrow> (bytes \<Rightarrow> luv_value list option) \<Rightarrow> bytes \<Rightarrow> luv_value list option" where
  "interface_loop [] t = t"
| "interface_loop (i # is) t =
    (let t = (case t (if_name i) of None \<Rightarrow> t(if_name i \<mapsto> []) | Some _ \<Rightarrow> t)
     in interface_loop is (t(if_name i \<mapsto> the (t (if_name i)) @ [interface_entry i])))"

definition luv_interface_addresses :: "'w uv_os \<Rightarrow> 'w \<Rightarrow> bytes \<Rightarrow> luv_value list option" where
  "luv_interface_addresses os w = interface_loop (uv_interface_addresses os w) Map.empty"

definition luv_loadavg :: "'w uv_os \<Rightarrow> 'w \<Rightarrow> lua_value list" where
  "luv_loadavg os w = (let (a, b, c) = uv_loadavg os w in [a, b, c])"

text \<open>The paths come with their length, which is not above the room.\<close>

definition luv_path :: "'w uv \<Rightarrow> (nat \<Rightarrow> 'w \<Rightarrow> int \<times> bytes) \<Rightarrow> 'w \<Rightarrow> lua_value list lua_res option" where
  "luv_path lib f w =
    (let (r, path) = f (2 * MAX_PATH_LENGTH) w
     in if r < 0 then Some (luv_error lib r)
        else do { c_assert (length path \<le> 2 * MAX_PATH_LENGTH); Some (Inr [L_str path]) })"

definition luv_exepath :: "'w uv \<Rightarrow> 'w uv_os \<Rightarrow> 'w \<Rightarrow> lua_value list lua_res option" where
  "luv_exepath lib os w = luv_path lib (uv_exepath os) w"

definition luv_cwd :: "'w uv \<Rightarrow> 'w uv_os \<Rightarrow> 'w \<Rightarrow> lua_value list lua_res option" where
  "luv_cwd lib os w = luv_path lib (uv_cwd os) w"

definition luv_os_homedir :: "'w uv \<Rightarrow> 'w uv_os \<Rightarrow> 'w \<Rightarrow> lua_value list lua_res option" where
  "luv_os_homedir lib os w = luv_path lib (uv_os_homedir os) w"

definition luv_chdir ::
    "lua_conv \<Rightarrow> 'w uv \<Rightarrow> 'w uv_os \<Rightarrow> lua_value list \<Rightarrow> 'w \<Rightarrow> lua_value list lua_res \<times> 'w" where
  "luv_chdir cv lib os args w =
    (case luaL_checkstring cv args 1 of Inl e \<Rightarrow> (Inl e, w) | Inr path \<Rightarrow>
     (let (r, w) = uv_chdir os path w
      in if r < 0 then (luv_error lib r, w) else (Inr [L_int (of_int r)], w)))"

definition luv_get_total_memory :: "'w uv_os \<Rightarrow> 'w \<Rightarrow> lua_value list" where
  "luv_get_total_memory os w = [L_int (uv_get_total_memory os w)]"

definition luv_hrtime :: "'w uv_os \<Rightarrow> 'w \<Rightarrow> lua_value list" where
  "luv_hrtime os w = [L_int (uv_hrtime os w)]"

definition luv_getpid :: "'w uv_os \<Rightarrow> 'w \<Rightarrow> lua_value list" where
  "luv_getpid os w = [L_int (of_int (getpid os w))]"

definition luv_getuid :: "'w uv_os \<Rightarrow> 'w \<Rightarrow> lua_value list" where
  "luv_getuid os w = [L_int (of_int (to_int32 (getuid os w)))]"

definition luv_getgid :: "'w uv_os \<Rightarrow> 'w \<Rightarrow> lua_value list" where
  "luv_getgid os w = [L_int (of_int (to_int32 (getgid os w)))]"

definition luv_setuid ::
    "lua_conv \<Rightarrow> 'w uv_os \<Rightarrow> lua_value list \<Rightarrow> 'w \<Rightarrow> lua_value list lua_res \<times> 'w" where
  "luv_setuid cv os args w =
    (case luaL_checkinteger cv args 1 of Inl e \<Rightarrow> (Inl e, w) | Inr uid \<Rightarrow>
     (let (r, w) = setuid os (to_int32 (uint uid)) w
      in if r = - 1 then (luaL_error ''Error setting UID'', w) else (Inr [], w)))"

definition luv_setgid ::
    "lua_conv \<Rightarrow> 'w uv_os \<Rightarrow> lua_value list \<Rightarrow> 'w \<Rightarrow> lua_value list lua_res \<times> 'w" where
  "luv_setgid cv os args w =
    (case luaL_checkinteger cv args 1 of Inl e \<Rightarrow> (Inl e, w) | Inr gid \<Rightarrow>
     (let (r, w) = setgid os (to_int32 (uint gid)) w
      in if r = - 1 then (luaL_error ''Error setting GID'', w) else (Inr [], w)))"

section \<open>The module\<close>

definition luv_libs :: "(bytes \<times> bytes) list" where
  "luv_libs =
    [(str ''chdir'', str ''luv_chdir''), (str ''osHomedir'', str ''luv_os_homedir''),
     (str ''cpuInfo'', str ''luv_cpu_info''), (str ''cwd'', str ''luv_cwd''), (str ''exepath'', str ''luv_exepath''),
     (str ''getProcessTitle'', str ''luv_get_process_title''), (str ''getTotalMemory'', str ''luv_get_total_memory''),
     (str ''getpid'', str ''luv_getpid''), (str ''getuid'', str ''luv_getuid''), (str ''setuid'', str ''luv_setuid''),
     (str ''getgid'', str ''luv_getgid''), (str ''setgid'', str ''luv_setgid''),
     (str ''getrusage'', str ''luv_getrusage''), (str ''hrtime'', str ''luv_hrtime''),
     (str ''interfaceAddresses'', str ''luv_interface_addresses''), (str ''loadavg'', str ''luv_loadavg''),
     (str ''residentSetMemory'', str ''luv_resident_set_memory''),
     (str ''setProcessTitle'', str ''luv_set_process_title''), (str ''uptime'', str ''luv_uptime''),
     (str ''version'', str ''luv_version''), (str ''versionString'', str ''luv_version_string''),
     (str ''createTimer'', str ''luv_new_timer'')]"

definition luaopen_luv_lib :: "lua_value option \<Rightarrow> (bytes \<times> bytes) list lua_res" where
  "luaopen_luv_lib qsf_ctx =
    (case qsf_ctx of
       Some (L_light p) \<Rightarrow> Inr luv_libs
     | Some (L_userdata p) \<Rightarrow> Inr luv_libs
     | _ \<Rightarrow> Inl (Arg_error 1))"

end
