(* ===== verification/Luv_Properties.thy ===== *)
theory Luv_Properties
  imports Luv
begin

text \<open>
  The properties of the Lua module \<open>luv\<close> (\<open>src/lualib/luv/\<close>): the life of a timer and the table
  of the network interfaces.
\<close>

section \<open>Network interfaces\<close>

lemma interface_loop_groups:
  "interface_loop is t name =
    (let es = map interface_entry (filter (\<lambda>i. if_name i = name) is)
     in case t name of Some old \<Rightarrow> Some (old @ es) | None \<Rightarrow> if es = [] then None else Some es)"
proof (induction "is" arbitrary: t)
  case (Cons i "is")
  then show ?case by (cases "t (if_name i)") (auto simp: Let_def split: option.splits)
qed (simp split: option.split)

section \<open>Properties\<close>

text \<open>
  C35: The life of a timer. While libuv keeps a timer active, a timeout calls its function and
  changes nothing else. When the timer is not active after the call, its registry reference is
  given back, its handle is closed once, and the close callback frees it; only that reference and
  that timer change. A timer that is created with exactly three arguments calls the function it was
  given; with more arguments the last one takes its place.
\<close>

theorem luv_timer_life:
  assumes "timers s p = Some t" and "timer_ref t = Some ref" and "registry s ref = Some (L_fun f)"
    and "call f s = Some s1" and "timers s1 p = Some t"
  shows "(if uv_is_active lib p (luv_world s1) then timeout_cb lib call p s = Some s1
     else \<exists>s2 s3. timeout_cb lib call p s = Some s2 \<and> on_timer_close p s2 = Some s3 \<and>
       registry s3 = (registry s1)(ref := None) \<and> timers s3 = (timers s1)(p := None) \<and>
       luv_world s3 = (if uv_is_closing lib p (luv_world s1) then luv_world s1 else uv_close lib p (luv_world s1)) \<and>
       timeout_cb lib call p s3 = None) \<and>
    (\<forall>w1 w2 x xs. uv_timer_init lib q (luv_world s) = (0, w1) \<and> uv_timer_start lib q a b w1 = (0, w2) \<longrightarrow>
       (\<exists>s4. luv_new_timer cv lib True (Some q) ([L_int a, L_int b, L_fun g] @ xs @ [L_fun x]) s = Some (Inr (), s4) \<and>
          Option.bind (timers s4 q) (\<lambda>t. Option.bind (timer_ref t) (registry s4)) = Some (L_fun x)) \<and>
       (\<exists>s4. luv_new_timer cv lib True (Some q) [L_int a, L_int b, L_fun g] s = Some (Inr (), s4) \<and>
          Option.bind (timers s4 q) (\<lambda>t. Option.bind (timer_ref t) (registry s4)) = Some (L_fun g)))"
  using assms
  by (auto simp: timeout_cb_def on_timer_close_def luv_new_timer_def luv_loop_def lua_arg_def lua_isfunction_def Let_def)

text \<open>A loop in which the timer at address 7 stopped.\<close>

definition demo_uv :: "nat uv" where
  "demo_uv = \<lparr>uv_err_name = \<lambda>_. [], uv_strerror = \<lambda>_. [], uv_timer_init = \<lambda>_ w. (0, w),
     uv_timer_start = \<lambda>_ _ _ w. (0, w), uv_is_active = \<lambda>_ _. False, uv_is_closing = \<lambda>_ _. False,
     uv_close = \<lambda>_ w. w + 1, luaL_ref = \<lambda>_. 4\<rparr>"

theorem luv_timer_life_witness:
  "\<exists>s2 s3. timeout_cb demo_uv (\<lambda>_ s. Some s) 7
      \<lparr>luv_world = 0, timers = [7 \<mapsto> \<lparr>timer_ref = Some 3\<rparr>], registry = [3 \<mapsto> L_fun 1]\<rparr> = Some s2 \<and>
    on_timer_close 7 s2 = Some s3 \<and> timers s3 = Map.empty \<and> registry s3 = Map.empty \<and> luv_world s3 = 1"
proof -
  let ?s = "\<lparr>luv_world = 0, timers = [7 \<mapsto> \<lparr>timer_ref = Some 3\<rparr>], registry = [3 \<mapsto> L_fun 1]\<rparr> :: nat luv_state"
  have a: "timers ?s 7 = Some \<lparr>timer_ref = Some 3\<rparr>" "timer_ref \<lparr>timer_ref = Some (3 :: nat)\<rparr> = Some 3"
    "registry ?s 3 = Some (L_fun 1)" by simp_all
  have b: "\<not> uv_is_active demo_uv 7 w" "\<not> uv_is_closing demo_uv 7 w" "uv_close demo_uv 7 w = w + 1" for w
    by (simp_all add: demo_uv_def)
  note luv_timer_life [OF a(1) a(2) a(3), where call = "\<lambda>_ s. Some s" and lib = demo_uv, OF refl a(1), THEN conjunct1]
  then show ?thesis using b by fastforce
qed

text \<open>
  The table of network interfaces has an entry for exactly the names that occur, and under
  each name the addresses of that interface in the order the system gives them, each with its
  text and family; a family without a name has the field left out.
\<close>

lemma luv_interfaces_grouped:
  "luv_interface_addresses os w name =
    (let is = filter (\<lambda>i. if_name i = name) (uv_interface_addresses os w)
     in if is = [] then None
        else Some (map (\<lambda>i. Fields
          [(str ''internal'', V (L_bool (is_internal i))),
           (str ''ip'', V (L_str (if sin_family i = 2 then ip4_name i else if sin_family i = 10 then ip6_name i
              else str ''<unknown sa family>''))),
           (str ''family'', V (case luv_af_num_to_string (sin_family i) of Some f \<Rightarrow> L_str f | None \<Rightarrow> L_nil))]) is))"
proof -
  have "cstr (strncpy (str ''<unknown sa family>'') INET6_ADDRSTRLEN) = str ''<unknown sa family>''"
    by (simp add: strncpy_def INET6_ADDRSTRLEN_def str_def cstr_def)
  then have "interface_entry = (\<lambda>i. Fields
          [(str ''internal'', V (L_bool (is_internal i))),
           (str ''ip'', V (L_str (if sin_family i = 2 then ip4_name i else if sin_family i = 10 then ip6_name i
              else str ''<unknown sa family>''))),
           (str ''family'', V (case luv_af_num_to_string (sin_family i) of Some f \<Rightarrow> L_str f | None \<Rightarrow> L_nil))])"
    by (intro ext) (simp add: interface_entry_def AF_INET_def AF_INET6_def)
  then show ?thesis by (simp add: luv_interface_addresses_def interface_loop_groups Let_def)
qed

end
