(* ===== verification/Resource_Properties.thy ===== *)
theory Resource_Properties
  imports Fs_Properties Mysql_Properties
begin

text \<open>
  One property across modules: what the objects of \<open>src/lualib/lua_fs.c\<close> and
  \<open>src/lualib/lua_mysql.c\<close> do when a script closes them and the collector finalizes them later.
\<close>

text \<open>
  C33: Closing and finalizing. However often a directory iterator, a directory lock, a connection and
  a cursor are closed or finalized, and whatever happens in between, their resource is given back
  exactly once, at the first of these calls; the later ones change nothing.
\<close>

theorem resources_released_once:
  assumes "\<not> closed d" and "dir d = Some p" and "ln lock = Some name" and "\<not> conn_closed c"
    and "my_res cur = Some res" and "conn cur = Some ref"
  shows "(\<exists>d'. closes (dir_close os) d w (f # fs) = (d', fold (\<lambda>f. f) fs (snd (closedir os p (f w))))) \<and>
    (\<exists>l'. closes (lfs_unlock_dir os) lock w (f # fs) = (l', fold (\<lambda>f. f) fs (snd (unlink os name (f w))))) \<and>
    (\<exists>c'. closes (conn_close lib) c s (g # gs) =
       (c', fold (\<lambda>g. g) gs ((g s)\<lparr>my_world := mysql_close lib (my_conn c) (my_world (g s))\<rparr>))) \<and>
    (\<exists>cur'. closes (cursor_gc lib) cur s (g # gs) =
       (cur', fold (\<lambda>g. g) gs ((g s)\<lparr>my_world := mysql_free_result lib res (my_world (g s)),
          registry := (registry (g s))(ref := None)\<rparr>)))"
proof -
  have "cursor_live cur" using assms(5) by (simp add: cursor_live_def)
  note dir_res.closes_once [OF assms(1), of os w f fs] lock_res.closes_once [of lock os w f fs]
    conn_res.closes_once [OF assms(4), of lib s g gs] cursor_res.closes_once [OF this, of lib s g gs]
  then show ?thesis using assms(2,3,5,6)
    by (simp add: dir_release_def lock_release_def conn_release_def cursor_release_def)
qed

theorem resources_released_once_witness:
  "\<exists>l'. closes (lfs_unlock_dir demo_os) \<lparr>ln = Some [97]\<rparr> ([[97]], []) [\<lambda>w. w, \<lambda>w. ([97] # fst w, snd w)] =
     (l', ([[97]], []))"
proof -
  have a: "\<not> closed \<lparr>closed = False, dir = Some 3\<rparr>" "dir \<lparr>closed = False, dir = Some 3\<rparr> = Some 3"
    "ln \<lparr>ln = Some [97]\<rparr> = Some [97 :: byte]" "\<not> conn_closed \<lparr>conn_closed = False, my_conn = 5\<rparr>"
    by simp_all
  have c: "my_res demo_cursor = Some 9" "conn demo_cursor = Some 4" by (simp_all add: demo_cursor_def)
  note resources_released_once [OF a c, where os = demo_os and w = "([[97]], [])" and f = "\<lambda>w. w" and
      fs = "[\<lambda>w. ([97] # fst w, snd w)]", THEN conjunct2, THEN conjunct1]
  then show ?thesis by (simp add: demo_os_def)
qed

end
