(* ===== verification/Lua_Process.thy ===== *)
theory Lua_Process
  imports Lua_Api
begin

text \<open>
  The Lua module \<open>process\<close> of \<open>src/lualib/lua_process.c\<close>, on the branches that are compiled
  outside Windows. The clock, the random number instruction and libuuid are parameters.
\<close>

text \<open>\<open>gettimeofday\<close> gives seconds and microseconds.\<close>

definition process_time :: "int \<times> nat \<Rightarrow> lua_value list" where
  "process_time tv = (let now = fst tv * 1000 + int (snd tv div 1000) in [L_int (of_int now)])"

text \<open>
  The number of microseconds given to \<open>usleep\<close>, whose parameter has 32 bits and no sign. The
  product is an \<open>int\<close> and has to fit it.
\<close>

definition process_sleep :: "lua_conv \<Rightarrow> lua_value list \<Rightarrow> u32 lua_res option" where
  "process_sleep cv args =
    (case luaL_checkinteger cv args 1 of Inl e \<Rightarrow> Some (Inl e) | Inr n \<Rightarrow>
     (let msec = to_int32 (uint n)
      in do {
        c_assert (- (2 ^ 31) \<le> msec * 1000 \<and> msec * 1000 < 2 ^ 31);
        Some (Inr (of_int (msec * 1000))) }))"

text \<open>
  The instruction succeeds or not and sets the value in both cases; \<open>step i\<close> is its outcome at
  the \<open>i\<close>-th use. \<open>Suc n\<close> is the number of tries left before the decrement.
\<close>

fun rand32_loop :: "(nat \<Rightarrow> bool \<times> u32) \<Rightarrow> nat \<Rightarrow> nat \<Rightarrow> u32" where
  "rand32_loop step i 0 = 0"
| "rand32_loop step i (Suc n) =
    (let (ok, v) = step i
     in if ok then v else if n = 0 then v else rand32_loop step (Suc i) n)"

definition process_rand32 :: "(nat \<Rightarrow> bool \<times> u32) \<Rightarrow> lua_value list" where
  "process_rand32 step = [L_int (ucast (rand32_loop step 0 100))]"

text \<open>
  \<open>memcmp\<close> reads three bytes of the option, which is followed by one NUL; \<open>uuid\<close> and \<open>unparse\<close>
  are libuuid's generator and text form, written into a buffer of 40 NULs.
\<close>

definition process_new_uuid ::
    "lua_conv \<Rightarrow> bytes \<Rightarrow> (bytes \<Rightarrow> bytes) \<Rightarrow> lua_value list \<Rightarrow> lua_value list lua_res option" where
  "process_new_uuid cv uuid unparse args =
    (case luaL_optlstring cv args 1 (str ''bin'') of Inl e \<Rightarrow> Some (Inl e) | Inr option \<Rightarrow> do {
       c_assert (3 \<le> length (option @ [0]));
       if take 3 (option @ [0]) = str ''hex''
       then do {
         let text = unparse uuid;
         c_assert (length text < 40);
         Some (Inr [L_str (take 36 (text @ replicate (40 - length text) 0))]) }
       else Some (Inr [L_str uuid]) })"

definition luaopen_process_lib :: "bytes \<Rightarrow> (bytes \<times> bytes) list \<times> (bytes \<times> bytes) list" where
  "luaopen_process_lib platform =
    ([(str ''time'', str ''process_time''), (str ''sleep'', str ''process_sleep''),
      (str ''rand32'', str ''process_rand32''), (str ''createUUID'', str ''process_new_uuid'')],
     [(str ''platform'', platform)])"

section \<open>Properties of the module\<close>

text \<open>The value is that of the first try that succeeds, among at most \<open>n\<close>.\<close>

lemma rand32_loop_first:
  assumes "fst (step k)" and "i \<le> k" and "k < i + n" and "\<forall>j. i \<le> j \<and> j < k \<longrightarrow> \<not> fst (step j)"
  shows "rand32_loop step i n = snd (step k)"
  using assms
proof (induction n arbitrary: i)
  case (Suc n)
  show ?case
  proof (cases "i = k")
    case True
    then show ?thesis using Suc.prems(1) by (simp add: split_beta)
  next
    case False
    then have "\<not> fst (step i)" and "Suc i \<le> k" and "k < Suc i + n" and "n \<noteq> 0" using Suc.prems by auto
    then show ?thesis using Suc.IH [of "Suc i"] Suc.prems by (simp add: split_beta)
  qed
qed simp

lemma rand32_first_of_100:
  "fst (step k) \<Longrightarrow> k < 100 \<Longrightarrow> \<forall>j<k. \<not> fst (step j) \<Longrightarrow> process_rand32 step = [L_int (ucast (snd (step k)))]"
  using rand32_loop_first [of step k 0 100] by (simp add: process_rand32_def)

text \<open>More than 2147483 milliseconds overflow the product.\<close>

lemma process_sleep_range:
  assumes "- (2 ^ 31) \<le> sint n" and "sint n < 2 ^ 31"
  shows "process_sleep cv [L_int n] =
    (if - 2147483 \<le> sint n \<and> sint n \<le> 2147483 then Some (Inr (of_int (sint n * 1000))) else None)"
proof -
  have "to_int32 (uint n) = sint n" by (rule to_int32_uint [OF assms])
  then show ?thesis by (auto simp: process_sleep_def lua_arg_def c_assert_def)
qed

end
