(* ===== verification/Uthash_Ops.thy ===== *)
theory Uthash_Ops
  imports Uthash
begin

text \<open>
  The remaining operations of \<open>src/net/uthash.h\<close> on an integer-keyed table: replacement,
  clearing, the size estimate, the selection of elements into a second table, and the integrity
  check \<open>HASH_FSCK\<close> (which every operation runs when \<open>HASH_DEBUG\<close> is defined).
\<close>

section \<open>Replace, clear, overhead\<close>

definition HASH_REPLACE_INT :: "(nat \<Rightarrow> bool) \<Rightarrow> uthash \<Rightarrow> addr \<Rightarrow> (addr option \<times> uthash) option" where
  "HASH_REPLACE_INT malloc_ok u a = do {
     replaced \<leftarrow> HASH_FIND_INT u (hh_key (ut_hh u) a);
     u \<leftarrow> (case replaced of None \<Rightarrow> Some u | Some r \<Rightarrow> HASH_DEL u r);
     u \<leftarrow> HASH_ADD_INT malloc_ok u a;
     Some (replaced, u)
   }"

definition HASH_CLEAR :: "uthash \<Rightarrow> uthash option" where
  "HASH_CLEAR u =
    (case ut_head u of
       None \<Rightarrow> Some u
     | Some _ \<Rightarrow> do { _ \<leftarrow> the_tbl u; Some (u\<lparr>ut_head := None, ut_tbl := None\<rparr>) })"

definition sizeof_UT_hash_handle :: nat where "sizeof_UT_hash_handle = 56"

text \<open>The sum is of type \<open>size_t\<close>; with 32-bit counts it does not wrap.\<close>

definition HASH_OVERHEAD :: "uthash \<Rightarrow> nat option" where
  "HASH_OVERHEAD u =
    (case ut_head u of
       None \<Rightarrow> Some 0
     | Some _ \<Rightarrow> do {
         t \<leftarrow> the_tbl u;
         Some (unat (num_items t) * sizeof_UT_hash_handle + unat (num_buckets t) * sizeof_UT_hash_bucket
               + sizeof_UT_hash_table) })"

section \<open>Select\<close>

text \<open>
  An element that satisfies the condition is added to the destination table through its second
  handle. The handles of the two tables are different members of the element's structure, so
  each table has its own link functions; the key pointer is copied. \<open>last_elt\<close> is
  \<open>_last_elt\<close>, and its handle is \<open>_last_elt_hh\<close>.
\<close>

definition select_elt ::
    "(nat \<Rightarrow> bool) \<Rightarrow> ut_handles \<Rightarrow> addr \<Rightarrow> addr option \<Rightarrow> uthash \<Rightarrow> uthash option" where
  "select_elt malloc_ok src a last_elt dst = do {
     let h = ut_hh dst;
     let h = h\<lparr>hh_key := (hh_key h)(a := hh_key src a), hh_hashv := (hh_hashv h)(a := hh_hashv src a),
              hh_prev_elt := (hh_prev_elt h)(a := last_elt),
              hh_next_elt := opt_upd ((hh_next_elt h)(a := None)) last_elt (Some a)\<rparr>;
     (head, t) \<leftarrow> (case ut_head dst of
         None \<Rightarrow> do { t \<leftarrow> HASH_MAKE_TABLE malloc_ok a; Some (a, t) }
       | Some d \<Rightarrow> do { t \<leftarrow> the_tbl dst; Some (d, t) });
     let b = HASH_TO_BKT (hh_hashv h a) (num_buckets t);
     (h, t) \<leftarrow> HASH_ADD_TO_BKT malloc_ok b a h t;
     Some \<lparr>ut_head = Some head, ut_tbl = Some (t\<lparr>num_items := num_items t + 1\<rparr>), ut_hh = h\<rparr>
   }"

partial_function (option) select_chain ::
    "(nat \<Rightarrow> bool) \<Rightarrow> (addr \<Rightarrow> bool) \<Rightarrow> ut_handles \<Rightarrow> addr option \<Rightarrow> uthash \<times> addr option
     \<Rightarrow> (uthash \<times> addr option) option" where
  "select_chain malloc_ok cond src src_hh s =
    (case src_hh of
       None \<Rightarrow> Some s
     | Some a \<Rightarrow>
         if cond a
         then Option.bind (select_elt malloc_ok src a (snd s) (fst s)) (\<lambda>dst.
                select_chain malloc_ok cond src (hh_next src a) (dst, Some a))
         else select_chain malloc_ok cond src (hh_next src a) s)"

fun select_loop ::
    "(nat \<Rightarrow> bool) \<Rightarrow> (addr \<Rightarrow> bool) \<Rightarrow> ut_handles \<Rightarrow> UT_hash_bucket list \<Rightarrow> uthash \<times> addr option
     \<Rightarrow> (uthash \<times> addr option) option" where
  "select_loop malloc_ok cond src [] s = Some s"
| "select_loop malloc_ok cond src (b # bs) s = do {
     s \<leftarrow> select_chain malloc_ok cond src (hh_head b) s;
     select_loop malloc_ok cond src bs s
   }"

definition HASH_SELECT ::
    "(nat \<Rightarrow> bool) \<Rightarrow> (addr \<Rightarrow> bool) \<Rightarrow> uthash \<Rightarrow> uthash \<Rightarrow> uthash option" where
  "HASH_SELECT malloc_ok cond src dst =
    (case ut_head src of
       None \<Rightarrow> Some dst
     | Some _ \<Rightarrow> do {
         t \<leftarrow> the_tbl src;
         c_assert (unat (num_buckets t) \<le> length (buckets t));
         (dst, _) \<leftarrow> select_loop malloc_ok cond (ut_hh src) (take (unat (num_buckets t)) (buckets t)) (dst, None);
         Some dst })"

section \<open>The integrity check\<close>

text \<open>The result of \<open>HASH_FSCK\<close>: accepted, or the message with which \<open>HASH_OOPS\<close> exits.\<close>

datatype fsck =
    Fsck_ok
  | Invalid_hh_prev
  | Invalid_bucket_count
  | Invalid_hh_item_count
  | Invalid_prev
  | Invalid_app_item_count

text \<open>
  Both \<open>while (_thh)\<close> loops have this shape: compare the back link with the element visited
  before, count, go on. \<open>Some None\<close> is a mismatch, \<open>None\<close> a loop that never ends.
\<close>

partial_function (option) fsck_walk ::
    "(addr \<Rightarrow> addr option) \<Rightarrow> (addr \<Rightarrow> addr option) \<Rightarrow> addr option \<Rightarrow> addr option \<Rightarrow> u32 \<Rightarrow> u32 option option"
where
  "fsck_walk nx pv prev thh count =
    (case thh of
       None \<Rightarrow> Some (Some count)
     | Some a \<Rightarrow> if prev \<noteq> pv a then Some None
                 else fsck_walk nx pv (Some a) (nx a) (count + 1))"

fun fsck_buckets :: "ut_handles \<Rightarrow> UT_hash_bucket list \<Rightarrow> u32 \<Rightarrow> (fsck + u32) option" where
  "fsck_buckets h [] count = Some (Inr count)"
| "fsck_buckets h (b # bs) count =
    (case fsck_walk (hh_next h) (hh_prev h) None (hh_head b) 0 of
       None \<Rightarrow> None
     | Some None \<Rightarrow> Some (Inl Invalid_hh_prev)
     | Some (Some n) \<Rightarrow>
         if bkt_count b \<noteq> n then Some (Inl Invalid_bucket_count)
         else fsck_buckets h bs (count + n))"

definition fsck_app :: "uthash \<Rightarrow> UT_hash_table \<Rightarrow> fsck option" where
  "fsck_app u t =
    (case fsck_walk (hh_next_elt (ut_hh u)) (hh_prev_elt (ut_hh u)) None (ut_head u) 0 of
       None \<Rightarrow> None
     | Some None \<Rightarrow> Some Invalid_prev
     | Some (Some n) \<Rightarrow> Some (if n \<noteq> num_items t then Invalid_app_item_count else Fsck_ok))"

definition HASH_FSCK :: "uthash \<Rightarrow> fsck option" where
  "HASH_FSCK u =
    (case ut_head u of
       None \<Rightarrow> Some Fsck_ok
     | Some _ \<Rightarrow> do {
         t \<leftarrow> the_tbl u;
         c_assert (unat (num_buckets t) \<le> length (buckets t));
         r \<leftarrow> fsck_buckets (ut_hh u) (take (unat (num_buckets t)) (buckets t)) 0;
         case r of
           Inl e \<Rightarrow> Some e
         | Inr count \<Rightarrow> if count \<noteq> num_items t then Some Invalid_hh_item_count else fsck_app u t })"

end
