(* ===== verification/Uthash_Ops_Correct.thy ===== *)
theory Uthash_Ops_Correct
  imports Uthash_Ops Uthash_Correct "HOL-Library.Multiset"
begin

text \<open>
  Correctness of the operations of theory Uthash_Ops over the invariant \<open>ut_rep\<close>: what
  \<open>HASH_FSCK\<close> accepts and that it always ends, replacement and clearing, and the table that
  \<open>HASH_SELECT\<close> builds, which is well formed except for its \<open>tail\<close> field.
\<close>

section \<open>The integrity check\<close>

text \<open>
  A segment without a predecessor holds every element once: the back link of a repeated element
  would have to name two different ones.
\<close>

lemma dlseg_distinct: "dlseg nx pv None xs q \<Longrightarrow> distinct xs"
proof (induction xs arbitrary: q rule: rev_induct)
  case (snoc x xs)
  then have dist: "distinct xs" and px: "pv x = last_or None xs" by auto
  have "x \<notin> set xs"
  proof
    assume "x \<in> set xs"
    then obtain us vs where xs: "xs = us @ x # vs" using split_list by fast
    then have "last_or None us = Some (last (x # vs))"
      using snoc.prems px by (simp add: last_or_def)
    then have "last (x # vs) \<in> set us" by (rule last_or_Some_in)
    then show False using dist xs by (metis disjoint_iff distinct_append last_in_set list.distinct(1))
  qed
  then show ?case using dist by simp
qed simp

definition chain_ok :: "(addr \<Rightarrow> addr option) \<Rightarrow> (addr \<Rightarrow> addr option) \<Rightarrow> addr option \<Rightarrow> u32 \<Rightarrow> bool" where
  "chain_ok nx pv p n \<longleftrightarrow> (\<exists>xs. dlseg nx pv None xs None \<and> p = hd_or xs None \<and> n = of_nat (length xs))"

lemma fsck_walk_list:
  "dlseg nx pv p xs None \<Longrightarrow> fsck_walk nx pv p (hd_or xs None) n = Some (Some (n + of_nat (length xs)))"
proof (induction xs arbitrary: p n)
  case Nil
  then show ?case by (subst fsck_walk.simps) simp
next
  case (Cons x xs)
  then show ?case by (subst fsck_walk.simps) (simp add: add.assoc)
qed

lemma fsck_walk_accepts:
  assumes "fsck_walk nx pv p q n = Some (Some m)"
  shows "\<exists>xs. dlseg nx pv p xs None \<and> q = hd_or xs None \<and> m = n + of_nat (length xs)"
proof -
  define P where "P nx pv p q n r \<longleftrightarrow> (r = Some m \<longrightarrow>
      (\<exists>xs. dlseg nx pv p xs None \<and> q = hd_or xs None \<and> m = n + of_nat (length xs)))"
    for nx pv :: "addr \<Rightarrow> addr option" and p q :: "addr option" and n :: u32 and r
  have "P nx pv p q n (Some m)"
  proof (rule fsck_walk.raw_induct [where P = P, OF _ assms])
    fix walk nx pv p q n r
    assume ih: "\<And>nx pv p q n y. walk nx pv p q n = Some y \<Longrightarrow> P nx pv p q n y"
      and step: "(case q of None \<Rightarrow> Some (Some n)
        | Some a \<Rightarrow> if p \<noteq> pv a then Some None else walk nx pv (Some a) (nx a) (n + 1)) = Some r"
    show "P nx pv p q n r"
    proof (cases q)
      case None
      then show ?thesis using step by (auto simp: P_def intro: exI [of _ "[]"])
    next
      case (Some a)
      show ?thesis
      proof (cases "p = pv a")
        case True
        then have "P nx pv (Some a) (nx a) (n + 1) r" using step Some by (intro ih) simp
        moreover have "dlseg nx pv p (a # xs) None" if "dlseg nx pv (Some a) xs None" "nx a = hd_or xs None" for xs
          using that True by simp
        moreover have "n + 1 + of_nat (length xs) = n + of_nat (length (a # xs))" for xs :: "addr list"
          by (simp add: add.assoc)
        ultimately show ?thesis unfolding P_def Some by (metis hd_or_simps(2))
      next
        case False
        then show ?thesis using step Some by (simp add: P_def)
      qed
    qed
  qed
  then show ?thesis by (simp add: P_def)
qed

lemma fsck_walk_iff: "fsck_walk nx pv None q 0 = Some (Some n) \<longleftrightarrow> chain_ok nx pv q n"
  using fsck_walk_accepts [of nx pv None q 0 n] fsck_walk_list [of nx pv None _ 0]
  by (auto simp: chain_ok_def)

text \<open>The walk ends on any memory, damaged or not, in which finitely many links are set.\<close>

lemma fsck_walk_ends:
  assumes fin: "finite {a. nx a \<noteq> None}" and "dlseg nx pv None us q"
  shows "\<exists>r. fsck_walk nx pv (last_or None us) q n = Some r"
  using assms(2)
proof (induction "card ({a. nx a \<noteq> None} - set us)" arbitrary: us q n rule: less_induct)
  case less
  show ?case
  proof (cases q)
    case None
    then show ?thesis by (subst fsck_walk.simps) simp
  next
    case (Some a)
    show ?thesis
    proof (cases "last_or None us = pv a")
      case False
      then show ?thesis using Some by (subst fsck_walk.simps) simp
    next
      case True
      have seg: "dlseg nx pv None (us @ [a]) (nx a)" using less.prems Some True by simp
      have new: "a \<notin> set us" using dlseg_distinct [OF seg] by simp
      have "\<exists>r. fsck_walk nx pv (last_or None (us @ [a])) (nx a) (n + 1) = Some r"
      proof (cases "nx a")
        case None
        then show ?thesis by (subst fsck_walk.simps) simp
      next
        case (Some b)
        have "card ({a. nx a \<noteq> None} - set (us @ [a])) < card ({a. nx a \<noteq> None} - set us)"
          by (rule psubset_card_mono) (use fin Some new in auto)
        then show ?thesis by (rule less.hyps [OF _ seg])
      qed
      then show ?thesis using Some True by (subst fsck_walk.simps) simp
    qed
  qed
qed

lemma fsck_buckets_iff:
  "fsck_buckets h bs n = Some (Inr m) \<longleftrightarrow>
    (\<forall>b \<in> set bs. chain_ok (hh_next h) (hh_prev h) (hh_head b) (bkt_count b)) \<and>
    m = n + sum_list (map bkt_count bs)"
proof (induction bs arbitrary: n)
  case (Cons b bs)
  note walk = fsck_walk_iff [of "hh_next h" "hh_prev h" "hh_head b", symmetric]
  consider "fsck_walk (hh_next h) (hh_prev h) None (hh_head b) 0 = None"
    | "fsck_walk (hh_next h) (hh_prev h) None (hh_head b) 0 = Some None"
    | k where "fsck_walk (hh_next h) (hh_prev h) None (hh_head b) 0 = Some (Some k)"
    by (metis not_Some_eq)
  then show ?case
  proof cases
    case (3 k)
    then show ?thesis using Cons [of "n + k"] by (auto simp: walk add.assoc)
  qed (simp_all add: walk)
qed auto

lemma fsck_buckets_ends:
  "finite {a. hh_next h a \<noteq> None} \<Longrightarrow> \<exists>r. fsck_buckets h bs n = Some r"
proof (induction bs arbitrary: n)
  case (Cons b bs)
  obtain r where "fsck_walk (hh_next h) (hh_prev h) None (hh_head b) 0 = Some r"
    using fsck_walk_ends [OF Cons.prems, of "hh_prev h" "[]"] by auto
  then show ?case using Cons by (cases r) auto
qed simp

lemma fsck_buckets_errors: "fsck_buckets h bs n = Some (Inl e) \<Longrightarrow> e \<noteq> Fsck_ok"
  by (induction bs arbitrary: n) (auto split: option.splits if_splits)

text \<open>What an accepted table looks like.\<close>

definition fsck_inv :: "uthash \<Rightarrow> bool" where
  "fsck_inv u \<longleftrightarrow> (ut_head u \<noteq> None \<longrightarrow>
    (\<exists>t. ut_tbl u = Some t \<and> unat (num_buckets t) \<le> length (buckets t) \<and>
      (\<forall>b \<in> set (take (unat (num_buckets t)) (buckets t)).
         chain_ok (hh_next (ut_hh u)) (hh_prev (ut_hh u)) (hh_head b) (bkt_count b)) \<and>
      sum_list (map bkt_count (take (unat (num_buckets t)) (buckets t))) = num_items t \<and>
      chain_ok (hh_next_elt (ut_hh u)) (hh_prev_elt (ut_hh u)) (ut_head u) (num_items t)))"

lemma HASH_FSCK_iff: "HASH_FSCK u = Some Fsck_ok \<longleftrightarrow> fsck_inv u"
proof (cases "ut_head u")
  case None
  then show ?thesis by (simp add: HASH_FSCK_def fsck_inv_def)
next
  case (Some a)
  note walk = fsck_walk_iff [of "hh_next_elt (ut_hh u)" "hh_prev_elt (ut_hh u)" "Some a"]
  show ?thesis
  proof (cases "ut_tbl u")
    case None
    then show ?thesis using Some by (simp add: HASH_FSCK_def fsck_inv_def the_tbl_def)
  next
    case tbl: (Some t)
    let ?bs = "take (unat (num_buckets t)) (buckets t)"
    have app: "fsck_app u t = Some Fsck_ok \<longleftrightarrow>
        chain_ok (hh_next_elt (ut_hh u)) (hh_prev_elt (ut_hh u)) (ut_head u) (num_items t)"
      using walk [of "num_items t"] Some by (auto simp: fsck_app_def split: option.splits)
    show ?thesis
    proof (cases "unat (num_buckets t) \<le> length (buckets t)")
      case True
      then have run: "HASH_FSCK u = Option.bind (fsck_buckets (ut_hh u) ?bs 0) (case_sum Some
          (\<lambda>count. if count \<noteq> num_items t then Some Invalid_hh_item_count else fsck_app u t))"
        using Some tbl by (simp add: HASH_FSCK_def the_tbl_def)
      have "HASH_FSCK u = Some Fsck_ok \<longleftrightarrow>
          fsck_buckets (ut_hh u) ?bs 0 = Some (Inr (num_items t)) \<and> fsck_app u t = Some Fsck_ok"
      proof (cases "fsck_buckets (ut_hh u) ?bs 0")
        case (Some r)
        then show ?thesis
          unfolding run using fsck_buckets_errors [of "ut_hh u" ?bs 0] by (cases r) simp_all
      qed (simp add: run)
      then show ?thesis
        unfolding app fsck_buckets_iff using Some tbl True by (auto simp: fsck_inv_def)
    next
      case False
      then show ?thesis using Some tbl by (simp add: HASH_FSCK_def fsck_inv_def the_tbl_def)
    qed
  qed
qed

lemma HASH_FSCK_ends:
  assumes "finite {a. hh_next (ut_hh u) a \<noteq> None}" and "finite {a. hh_next_elt (ut_hh u) a \<noteq> None}"
    and "the_tbl u = Some t" and "unat (num_buckets t) \<le> length (buckets t)"
  shows "\<exists>v. HASH_FSCK u = Some v"
proof -
  obtain r where r: "fsck_buckets (ut_hh u) (take (unat (num_buckets t)) (buckets t)) 0 = Some r"
    using fsck_buckets_ends [OF assms(1)] by blast
  obtain w where "fsck_walk (hh_next_elt (ut_hh u)) (hh_prev_elt (ut_hh u)) None (ut_head u) 0 = Some w"
    using fsck_walk_ends [OF assms(2), of "hh_prev_elt (ut_hh u)" "[]"] by auto
  then have "\<exists>v. fsck_app u t = Some v" by (cases w) (simp_all add: fsck_app_def)
  then show ?thesis
    using r assms(3,4) by (cases r) (auto simp: HASH_FSCK_def split: option.splits)
qed
text \<open>Every well-formed table is accepted.\<close>

lemma sum_bkt_count:
  assumes rep: "bkts_rep nx pv idx bs D" and fin: "finite D" and idx: "\<forall>a \<in> D. idx a < length bs"
  shows "sum_list (map bkt_count bs) = of_nat (card D)"
proof -
  have "bkt_count (bs ! i) = of_nat (card {a \<in> D. idx a = i})" if i: "i < length bs" for i
    by (rule bkts_repE [OF rep i]) (metis distinct_card)
  then have "sum_list (map bkt_count bs) = (\<Sum>i < length bs. of_nat (card {a \<in> D. idx a = i}))"
    by (simp add: sum_list_sum_nth atLeast0LessThan)
  also have "\<dots> = of_nat (\<Sum>i < length bs. card {a \<in> D. idx a = i})" by simp
  also have "(\<Sum>i < length bs. card {a \<in> D. idx a = i}) = card D"
    using sum.group [OF fin, of "{..<length bs}" idx "\<lambda>_. 1 :: nat"] idx by auto
  finally show ?thesis .
qed

lemma ut_rep_fsck:
  assumes rep: "ut_rep u xs"
  shows "HASH_FSCK u = Some Fsck_ok"
  unfolding HASH_FSCK_iff
proof (cases "xs = []")
  case True
  then show "fsck_inv u" using ut_repD(5) [OF rep] by (simp add: fsck_inv_def)
next
  case False
  let ?h = "ut_hh u"
  obtain t where t: "ut_tbl u = Some t" "num_items t = of_nat (length xs)" "bt_rep ?h t (set xs)"
    by (rule ut_rep_tblE [OF rep False])
  obtain l where l: "l \<le> 30" "num_buckets t = 2 ^ l" "length (buckets t) = 2 ^ l"
      "bkts_rep (hh_next ?h) (hh_prev ?h) (bkt_idx ?h (2 ^ l)) (buckets t) (set xs)"
    using t(3) by (auto simp: bt_rep_def)
  have n: "unat (num_buckets t) = length (buckets t)" using l by (simp add: unat_pow2_u32)
  have "chain_ok (hh_next ?h) (hh_prev ?h) (hh_head b) (bkt_count b)" if b: "b \<in> set (buckets t)" for b
  proof -
    obtain i where i: "i < length (buckets t)" "b = buckets t ! i" using b by (auto simp: in_set_conv_nth)
    show ?thesis by (rule bkts_repE [OF l(4) i(1)]) (auto simp: chain_ok_def i(2))
  qed
  moreover have "sum_list (map bkt_count (buckets t)) = num_items t"
    using sum_bkt_count [OF l(4)] ut_repD(1) [OF rep] t(2) l(3) HASH_TO_BKT_less
    by (simp add: distinct_card)
  moreover have "chain_ok (hh_next_elt ?h) (hh_prev_elt ?h) (ut_head u) (num_items t)"
    using ut_repD(4,5) [OF rep] t(2) by (auto simp: chain_ok_def)
  ultimately show "fsck_inv u" using t(1) n by (simp add: fsck_inv_def)
qed

section \<open>Clear and replace\<close>

lemma HASH_CLEAR_rep:
  assumes rep: "ut_rep u xs"
  shows "\<exists>u'. HASH_CLEAR u = Some u' \<and> ut_rep u' [] \<and> hh_key (ut_hh u') = hh_key (ut_hh u)"
proof (cases xs)
  case Nil
  then show ?thesis using rep ut_repD(5) [OF rep] by (simp add: HASH_CLEAR_def)
next
  case (Cons x ys)
  then obtain t where "the_tbl u = Some t" using ut_rep_tblE [OF rep] by blast
  then show ?thesis using Cons ut_repD(5) [OF rep] by (simp add: HASH_CLEAR_def ut_rep_def)
qed

lemma HASH_OVERHEAD_rep:
  assumes rep: "ut_rep u xs" and "xs \<noteq> []"
  shows "\<exists>l. 5 \<le> l \<and> l \<le> 30 \<and> HASH_OVERHEAD u = Some (length xs * 56 + 2 ^ l * 16 + 64)"
proof -
  obtain t where t: "the_tbl u = Some t" "num_items t = of_nat (length xs)" "bt_rep (ut_hh u) t (set xs)"
    by (rule ut_rep_tblE [OF assms])
  then obtain l where l: "5 \<le> l" "l \<le> 30" "num_buckets t = 2 ^ l" by (auto simp: bt_rep_def)
  then have "unat (num_buckets t) = 2 ^ l" by (simp add: unat_pow2_u32)
  moreover have "unat (num_items t) = length xs"
    unfolding t(2) using ut_repD(2) [OF rep] by (rule unat_of_nat_u32)
  ultimately show ?thesis
    using t(1) l(1,2) ut_repD(5) [OF rep] assms(2)
    by (cases xs) (auto simp: HASH_OVERHEAD_def sizeof_UT_hash_handle_def sizeof_UT_hash_bucket_def
        sizeof_UT_hash_table_def)
qed

lemma remove1_key:
  assumes "distinct (map f xs)" and "r \<in> set xs" and "f r = k"
  shows "remove1 r xs = filter (\<lambda>b. f b \<noteq> k) xs"
proof -
  have "distinct xs" using assms(1) by (simp add: distinct_map)
  moreover have "b \<noteq> r \<longleftrightarrow> f b \<noteq> k" if "b \<in> set xs" for b
    using assms that by (auto simp: distinct_map dest: inj_onD)
  ultimately show ?thesis
    by (metis (mono_tags, lifting) filter_cong filter_neq_remove1)
qed

lemma HASH_REPLACE_INT_rep:
  assumes rep: "ut_rep u xs" and len: "Suc (length xs) < 2 ^ 32"
    and lim: "\<forall>n. malloc_ok n \<longrightarrow> n < 2 ^ 35"
    and run: "HASH_REPLACE_INT malloc_ok u a = Some (r, u')"
  shows "r = List.find (\<lambda>b. hh_key (ut_hh u) b = hh_key (ut_hh u) a) xs \<and>
    ut_rep u' (filter (\<lambda>b. hh_key (ut_hh u) b \<noteq> hh_key (ut_hh u) a) xs @ [a]) \<and>
    hh_key (ut_hh u') = hh_key (ut_hh u)"
proof -
  let ?key = "hh_key (ut_hh u)" and ?ys = "filter (\<lambda>b. hh_key (ut_hh u) b \<noteq> hh_key (ut_hh u) a) xs"
  have r: "r = List.find (\<lambda>b. ?key b = ?key a) xs"
    using run HASH_FIND_INT_rep [OF rep, of "?key a"] by (auto simp: HASH_REPLACE_INT_def bind_Some_conv)
  obtain u1 where u1: "(case r of None \<Rightarrow> Some u | Some r \<Rightarrow> HASH_DEL u r) = Some u1"
      "HASH_ADD_INT malloc_ok u1 a = Some u'"
    using run HASH_FIND_INT_rep [OF rep, of "?key a"] r by (auto simp: HASH_REPLACE_INT_def bind_Some_conv)
  have rep1: "ut_rep u1 ?ys \<and> hh_key (ut_hh u1) = ?key"
  proof (cases r)
    case None
    then have "?ys = xs" using r by (auto simp: find_None_iff filter_id_conv)
    then show ?thesis using None u1(1) rep by simp
  next
    case (Some b)
    then have b: "b \<in> set xs" "?key b = ?key a" using r list_find_SomeD [of _ xs b] by auto
    then show ?thesis
      using HASH_DEL_rep [OF rep b(1)] u1(1) Some remove1_key [OF ut_repD(3) [OF rep] b] by auto
  qed
  have "Suc (length ?ys) < 2 ^ 32" using len length_filter_le [of _ xs] by (meson Suc_le_mono le_less_trans)
  moreover have "a \<notin> set ?ys" "?key a \<notin> ?key ` set ?ys" by auto
  ultimately show ?thesis
    using HASH_ADD_INT_rep [OF conjunct1 [OF rep1] _ _ _ lim u1(2)] rep1 r by simp
qed

section \<open>Select\<close>

text \<open>
  The destination table while and after elements are selected: well formed but for the field
  \<open>tail\<close>, which stays at the first element.
\<close>

definition set_tail :: "addr option \<Rightarrow> uthash \<Rightarrow> uthash" where
  "set_tail z u = u\<lparr>ut_tbl := map_option (\<lambda>t. t\<lparr>tail := z\<rparr>) (ut_tbl u)\<rparr>"

definition sel_rep :: "uthash \<Rightarrow> addr list \<Rightarrow> bool" where
  "sel_rep d ys \<longleftrightarrow> ut_rep (set_tail (last_or None ys) d) ys \<and>
     (\<forall>t. ut_tbl d = Some t \<longrightarrow> tail t = hd_or ys None)"

lemma sel_rep_sel [simp]:
  "ut_head (set_tail z d) = ut_head d" "ut_hh (set_tail z d) = ut_hh d"
  by (simp_all add: set_tail_def)

lemma sel_rep_empty: "ut_rep d [] \<Longrightarrow> sel_rep d []"
  by (simp add: sel_rep_def set_tail_def ut_rep_def)

lemma sel_rep_tblE:
  assumes "sel_rep d ys" and "ys \<noteq> []"
  obtains t where "the_tbl d = Some t" and "ut_tbl d = Some t" and "tail t = hd_or ys None"
    and "num_items t = of_nat (length ys)"
    and "\<forall>a \<in> set ys. hh_hashv (ut_hh d) a = hash_int (hh_key (ut_hh d) a)"
    and "bt_rep (ut_hh d) t (set ys)"
proof -
  have "ut_rep (set_tail (last_or None ys) d) ys" using assms(1) by (simp add: sel_rep_def)
  note tblE = ut_rep_tblE [OF this assms(2), unfolded sel_rep_sel]
  obtain t where t: "ut_tbl (set_tail (last_or None ys) d) = Some t" "num_items t = of_nat (length ys)"
      "\<forall>a \<in> set ys. hh_hashv (ut_hh d) a = hash_int (hh_key (ut_hh d) a)" "bt_rep (ut_hh d) t (set ys)"
    by (rule tblE)
  obtain t' where t': "ut_tbl d = Some t'" "t = t'\<lparr>tail := last_or None ys\<rparr>"
    using t(1) by (auto simp: set_tail_def)
  have "ut_head d = hd_or ys None" using assms(1) ut_repD(5) by (fastforce simp: sel_rep_def)
  then have "the_tbl d = Some t'" using t'(1) assms(2) by (cases ys) (simp_all add: the_tbl_def)
  moreover have "bt_rep (ut_hh d) t' (set ys)" by (rule bt_rep_frame [OF t(4)]) (simp_all add: t'(2))
  ultimately show ?thesis
    using that [of t'] t' t(2,3) assms(1) by (simp add: sel_rep_def)
qed

lemma opt_upd_dlseg_snoc:
  assumes "dlseg nx pv None xs None" and "distinct xs" and "a \<notin> set xs"
  shows "dlseg (opt_upd (nx(a := None)) (last_or None xs) (Some a)) (pv(a := last_or None xs)) None (xs @ [a]) None"
proof (cases xs rule: rev_cases)
  case (snoc us z)
  then show ?thesis using dlseg_snoc [OF assms] by simp
qed simp

lemma select_elt_rep:
  assumes sel: "sel_rep d ys" and a: "a \<notin> set ys" "hh_key src a \<notin> hh_key (ut_hh d) ` set ys"
    and hash: "hh_hashv src a = hash_int (hh_key src a)" and len: "Suc (length ys) < 2 ^ 32"
    and lim: "\<forall>n. malloc_ok n \<longrightarrow> n < 2 ^ 35"
    and run: "select_elt malloc_ok src a (last_or None ys) d = Some d'"
  shows "sel_rep d' (ys @ [a]) \<and> hh_key (ut_hh d') = (hh_key (ut_hh d))(a := hh_key src a)"
proof -
  let ?h = "ut_hh d"
  define h1 where "h1 = ?h\<lparr>hh_key := (hh_key ?h)(a := hh_key src a), hh_hashv := (hh_hashv ?h)(a := hh_hashv src a),
      hh_prev_elt := (hh_prev_elt ?h)(a := last_or None ys),
      hh_next_elt := opt_upd ((hh_next_elt ?h)(a := None)) (last_or None ys) (Some a)\<rparr>"
  have rep: "ut_rep (set_tail (last_or None ys) d) ys" using sel by (simp add: sel_rep_def)
  let ?d = "(set_tail (last_or None ys) d)\<lparr>ut_hh := ?h\<lparr>hh_key := (hh_key ?h)(a := hh_key src a)\<rparr>\<rparr>"
  have rep0: "ut_rep ?d ys" using ut_rep_set_key [OF rep a(1), of "hh_key src a"] by simp
  have head: "ut_head d = hd_or ys None" using ut_repD(5) [OF rep] by simp
  obtain hd t where first: "(case ut_head d of
         None \<Rightarrow> do { t \<leftarrow> HASH_MAKE_TABLE malloc_ok a; Some (a, t) }
       | Some d' \<Rightarrow> do { t \<leftarrow> the_tbl d; Some (d', t) }) = Some (hd, t)"
    using run unfolding select_elt_def Let_def by (auto simp: bind_Some_conv)
  then obtain h' t' where second: "HASH_ADD_TO_BKT malloc_ok (HASH_TO_BKT (hh_hashv h1 a) (num_buckets t)) a h1 t = Some (h', t')"
    and d': "d' = \<lparr>ut_head = Some hd, ut_tbl = Some (t'\<lparr>num_items := num_items t' + 1\<rparr>), ut_hh = h'\<rparr>"
    using run unfolding select_elt_def Let_def h1_def [symmetric] by (auto simp: bind_Some_conv)
  have mid: "Some hd = hd_or (ys @ [a]) None \<and> tail t = hd_or (ys @ [a]) None \<and> num_items t = of_nat (length ys) \<and>
      bt_rep h1 t (set ys) \<and>
      (num_items t \<noteq> 0 \<or> buckets t ! HASH_TO_BKT (hh_hashv h1 a) (num_buckets t) = empty_bucket)"
  proof (cases ys)
    case Nil
    then have mk: "HASH_MAKE_TABLE malloc_ok a = Some t" "hd = a"
      using first head by (auto simp: bind_Some_conv)
    have "num_buckets t = 2 ^ 5" "buckets t = replicate (2 ^ 5) empty_bucket"
      using mk(1) by (auto simp: HASH_MAKE_TABLE_def c_assert_def HASH_INITIAL_NUM_BUCKETS_def split: if_splits)
    then have "buckets t ! HASH_TO_BKT (hh_hashv h1 a) (num_buckets t) = empty_bucket"
      by (simp only: nth_replicate HASH_TO_BKT_less)
    moreover have "bt_rep h1 t {}"
      by (rule bt_rep_frame [OF conjunct1 [OF bt_rep_MAKE_TABLE [OF mk(1)]]]) simp_all
    ultimately show ?thesis using Nil mk(2) bt_rep_MAKE_TABLE [OF mk(1), of h1 0] by simp
  next
    case (Cons y zs)
    then obtain t0 where t0: "the_tbl d = Some t0" "tail t0 = Some y" "num_items t0 = of_nat (length ys)"
        "bt_rep ?h t0 (set ys)"
      using sel_rep_tblE [OF sel] by auto
    then have t: "t = t0" "hd = y" using first head Cons by auto
    have "num_items t \<noteq> 0"
      unfolding t t0(3) using of_nat_u32_nonzero [of "length ys"] len Cons by simp
    moreover have "bt_rep h1 t (set ys)"
      unfolding t by (rule bt_rep_frame [OF t0(4)]) (use a(1) in \<open>auto simp: h1_def\<close>)
    ultimately show ?thesis using t t0(2,3) Cons by simp
  qed
  then have fin: "bt_rep h' t' (insert a (set ys))" "same_but_links h1 h'" "tail t' = tail t"
      "num_items t' = num_items t"
    using HASH_ADD_TO_BKT_rep_gen [OF _ a(1) _ lim second] by auto
  note keep = same_but_links_sel [OF fin(2)]
  let ?t = "t'\<lparr>num_items := num_items t' + 1, tail := Some a\<rparr>"
  have "ut_rep \<lparr>ut_head = hd_or (ys @ [a]) None, ut_tbl = Some ?t, ut_hh = h'\<rparr> (ys @ [a])"
  proof (rule ut_rep_snocI [OF rep0 a(1) _ len])
    show "dlseg (hh_next_elt h') (hh_prev_elt h') None (ys @ [a]) None"
      using opt_upd_dlseg_snoc [OF ut_repD(4,1) [OF rep] a(1)] keep by (simp add: h1_def)
    show "bt_rep h' ?t (insert a (set ys))" by (rule bt_rep_frame [OF fin(1)]) simp_all
  qed (use a hash mid fin(4) keep in \<open>auto simp: h1_def\<close>)
  moreover have "set_tail (last_or None (ys @ [a])) d' =
      \<lparr>ut_head = hd_or (ys @ [a]) None, ut_tbl = Some ?t, ut_hh = h'\<rparr>"
    using mid by (simp add: d' set_tail_def)
  ultimately show ?thesis
    using mid fin(3) keep by (simp add: sel_rep_def d' h1_def)
qed
text \<open>
  The invariant of the selection loop: the selected elements \<open>ys\<close> are in the destination, with
  the keys of the source, and each of them has doubled the bucket array at most once.
\<close>

definition sel_inv :: "ut_handles \<Rightarrow> uthash \<Rightarrow> addr list \<Rightarrow> bool" where
  "sel_inv src d ys \<longleftrightarrow> sel_rep d ys \<and> (\<forall>y \<in> set ys. hh_key (ut_hh d) y = hh_key src y) \<and>
     (\<forall>t. ut_tbl d = Some t \<longrightarrow> (\<exists>l \<le> 5 + length ys. num_buckets t = 2 ^ l))"

lemma HASH_ADD_TO_BKT_buckets:
  assumes "HASH_ADD_TO_BKT malloc_ok b a h t = Some (h', t')"
  shows "num_buckets t' = num_buckets t \<or> num_buckets t' = num_buckets t * 2"
proof -
  have *: "num_buckets t1' = num_buckets t1 * 2"
    if "HASH_EXPAND_BUCKETS malloc_ok h1 t1 = Some (h1', t1')" for h1 t1 h1' t1'
    using that by (auto simp: HASH_EXPAND_BUCKETS_def bind_Some_conv Let_def)
  show ?thesis
    using assms unfolding HASH_ADD_TO_BKT_def Let_def
    by (auto simp: bind_Some_conv dest!: * split: if_splits)
qed

lemma select_elt_inv:
  assumes inv: "sel_inv src d ys" and a: "a \<notin> set ys" "hh_key src a \<notin> hh_key src ` set ys"
    and hash: "hh_hashv src a = hash_int (hh_key src a)" and len: "Suc (length ys) < 2 ^ 32"
    and lim: "\<forall>n. malloc_ok n \<longrightarrow> n < 2 ^ 35"
    and run: "select_elt malloc_ok src a (last_or None ys) d = Some d'"
  shows "sel_inv src d' (ys @ [a])"
proof -
  have sel: "sel_rep d ys" and keys: "\<forall>y \<in> set ys. hh_key (ut_hh d) y = hh_key src y"
    and bk: "\<forall>t. ut_tbl d = Some t \<longrightarrow> (\<exists>l \<le> 5 + length ys. num_buckets t = 2 ^ l)"
    using inv by (auto simp: sel_inv_def)
  have "hh_key src a \<notin> hh_key (ut_hh d) ` set ys" using a(2) keys by auto
  note rep = select_elt_rep [OF sel a(1) this hash len lim run]
  have "\<exists>l \<le> 5 + length (ys @ [a]). num_buckets t' = 2 ^ l" if t': "ut_tbl d' = Some t'" for t'
  proof -
    obtain t h h' b t1 where t: "HASH_ADD_TO_BKT malloc_ok b a h t = Some (h', t1)" "num_buckets t' = num_buckets t1"
        "HASH_MAKE_TABLE malloc_ok a = Some t \<or> the_tbl d = Some t"
      using run t' unfolding select_elt_def Let_def by (auto simp: bind_Some_conv split: option.splits)
    have "\<exists>l \<le> 5 + length ys. num_buckets t = 2 ^ l"
      using t(3)
    proof
      assume "HASH_MAKE_TABLE malloc_ok a = Some t"
      then have "num_buckets t = 2 ^ 5"
        by (auto simp: HASH_MAKE_TABLE_def c_assert_def HASH_INITIAL_NUM_BUCKETS_def split: if_splits)
      then show ?thesis by (intro exI [of _ 5]) simp
    qed (use bk in \<open>auto simp: the_tbl_def split: option.splits\<close>)
    then obtain l where l: "l \<le> 5 + length ys" "num_buckets t = 2 ^ l" by blast
    show ?thesis
      using HASH_ADD_TO_BKT_buckets [OF t(1)]
    proof
      assume "num_buckets t1 = num_buckets t"
      then show ?thesis using l t(2) by (intro exI [of _ l]) simp
    next
      assume "num_buckets t1 = num_buckets t * 2"
      then show ?thesis using l t(2) by (intro exI [of _ "Suc l"]) simp
    qed
  qed
  then show ?thesis using rep keys a(1) by (auto simp: sel_inv_def)
qed

text \<open>Doubling a bucket array of up to \<open>2 ^ 29\<close> buckets asks for less than 32 GiB.\<close>

lemma doubling_below:
  assumes "nb = (2 :: u32) ^ l" and "l \<le> 29" and "\<forall>n < 2 ^ 35. P n"
  shows "P (unat (2 * nb) * sizeof_UT_hash_bucket)"
proof -
  have "(2 :: u32) * nb = 2 ^ Suc l" using assms(1) by simp
  moreover have "unat (2 ^ Suc l :: u32) = 2 ^ Suc l" using assms(2) by (intro unat_pow2_u32) simp
  moreover have "(2 :: nat) ^ (l + 5) < 2 ^ 35" using assms(2) by (intro power_strict_increasing) simp_all
  then have "(2 :: nat) ^ Suc l * 16 < 2 ^ 35" by (simp add: power_add)
  ultimately show ?thesis using assms(3) by (simp add: sizeof_UT_hash_bucket_def)
qed

text \<open>With an allocator that grants all requests below 32 GiB, the first 25 selections succeed.\<close>

lemma select_elt_progress:
  assumes inv: "sel_inv src d ys" and a: "a \<notin> set ys" and len: "length ys < 25"
    and grants: "\<forall>n < 2 ^ 35. malloc_ok n" and lim: "\<forall>n. malloc_ok n \<longrightarrow> n < 2 ^ 35"
  shows "select_elt malloc_ok src a last_elt d \<noteq> None"
proof -
  let ?h = "ut_hh d"
  define h1 where "h1 = ?h\<lparr>hh_key := (hh_key ?h)(a := hh_key src a), hh_hashv := (hh_hashv ?h)(a := hh_hashv src a),
      hh_prev_elt := (hh_prev_elt ?h)(a := last_elt),
      hh_next_elt := opt_upd ((hh_next_elt ?h)(a := None)) last_elt (Some a)\<rparr>"
  have sel: "sel_rep d ys" using inv by (simp add: sel_inv_def)
  then have head: "ut_head d = hd_or ys None" using ut_repD(5) by (fastforce simp: sel_rep_def)
  show ?thesis
  proof (cases ys)
    case Nil
    have "malloc_ok sizeof_UT_hash_table" "malloc_ok (unat HASH_INITIAL_NUM_BUCKETS * sizeof_UT_hash_bucket)"
      using grants by (simp_all add: sizeof_UT_hash_table_def HASH_INITIAL_NUM_BUCKETS_def sizeof_UT_hash_bucket_def)
    then obtain t where t: "HASH_MAKE_TABLE malloc_ok a = Some t"
      by (simp add: HASH_MAKE_TABLE_def)
    have "HASH_ADD_TO_BKT malloc_ok (HASH_TO_BKT (hh_hashv h1 a) (num_buckets t)) a h1 t \<noteq> None"
    proof -
      have "num_buckets t = 2 ^ 5" "buckets t = replicate (2 ^ 5) empty_bucket"
        using t by (auto simp: HASH_MAKE_TABLE_def c_assert_def HASH_INITIAL_NUM_BUCKETS_def split: if_splits)
      then have "buckets t ! HASH_TO_BKT (hh_hashv h1 a) (num_buckets t) = empty_bucket"
          "HASH_TO_BKT (hh_hashv h1 a) (num_buckets t) < length (buckets t)"
        by (simp_all only: nth_replicate HASH_TO_BKT_less length_replicate)
      then show ?thesis
        by (simp add: HASH_ADD_TO_BKT_def empty_bucket_def HASH_BKT_CAPACITY_THRESH_def Let_def word_le_nat_alt)
    qed
    then show ?thesis
      using Nil head t unfolding select_elt_def Let_def h1_def by auto
  next
    case (Cons y zs)
    obtain t where t: "the_tbl d = Some t" "ut_tbl d = Some t" "num_items t = of_nat (length ys)"
        "bt_rep ?h t (set ys)"
      using Cons by (auto intro: sel_rep_tblE [OF sel])
    obtain l where l: "l \<le> 5 + length ys" "num_buckets t = 2 ^ l"
      using inv t(2) by (auto simp: sel_inv_def)
    have "HASH_ADD_TO_BKT malloc_ok (HASH_TO_BKT (hh_hashv h1 a) (num_buckets t)) a h1 t \<noteq> None"
    proof (rule HASH_ADD_TO_BKT_progress [OF _ a _ lim])
      show "bt_rep h1 t (set ys)"
        by (rule bt_rep_frame [OF t(4)]) (use a in \<open>auto simp: h1_def\<close>)
      show "num_items t \<noteq> 0"
        unfolding t(3) using of_nat_u32_nonzero [of "length ys"] len Cons by simp
      show "malloc_ok (unat (2 * num_buckets t) * sizeof_UT_hash_bucket)"
        by (rule doubling_below [OF l(2) _ grants]) (use l(1) len in simp)
    qed
    then show ?thesis
      using Cons head t(1) unfolding select_elt_def Let_def h1_def by auto
  qed
qed
text \<open>The outcome of selecting: the new state, or a refused allocation.\<close>

definition sel_result ::
    "(nat \<Rightarrow> bool) \<Rightarrow> ut_handles \<Rightarrow> addr list \<Rightarrow> (uthash \<times> addr option) option \<Rightarrow> bool" where
  "sel_result malloc_ok src ys r = (case r of
       None \<Rightarrow> \<not> ((\<forall>n < 2 ^ 35. malloc_ok n) \<and> length ys \<le> 25)
     | Some (d, z) \<Rightarrow> z = last_or None ys \<and> sel_inv src d ys)"

text \<open>The elements a chain may still offer: their keys are new and their hash values right.\<close>

definition sel_todo :: "ut_handles \<Rightarrow> addr list \<Rightarrow> addr list \<Rightarrow> bool" where
  "sel_todo src ys zs \<longleftrightarrow> distinct (ys @ zs) \<and> distinct (map (hh_key src) (ys @ zs)) \<and>
     (\<forall>z \<in> set zs. hh_hashv src z = hash_int (hh_key src z)) \<and> length (ys @ zs) < 2 ^ 32"

lemma sel_todo_simps:
  "sel_todo src ys (a # zs) \<Longrightarrow> sel_todo src (ys @ [a]) zs \<and> a \<notin> set ys \<and>
     hh_key src a \<notin> hh_key src ` set ys \<and> hh_hashv src a = hash_int (hh_key src a) \<and> Suc (length ys) < 2 ^ 32"
  "sel_todo src ys (a # zs) \<Longrightarrow> sel_todo src ys zs"
  by (auto simp: sel_todo_def)

lemma sel_todo_filter: "sel_todo src ys (zs @ rest) \<Longrightarrow> sel_todo src (ys @ filter cond zs) rest"
proof (induction zs arbitrary: ys)
  case (Cons a zs)
  then have todo: "sel_todo src ys (a # (zs @ rest))" by simp
  show ?case
  proof (cases "cond a")
    case True
    then show ?thesis
      using Cons.IH [of "ys @ [a]"] sel_todo_simps(1) [OF todo] by simp
  next
    case False
    then show ?thesis using Cons.IH [OF sel_todo_simps(2) [OF todo]] by simp
  qed
qed simp

lemma select_chain_result:
  assumes "sll (hh_next src) zs None" and "sel_todo src ys (zs @ rest)" and "sel_inv src d ys"
    and lim: "\<forall>n. malloc_ok n \<longrightarrow> n < 2 ^ 35"
  shows "sel_result malloc_ok src (ys @ filter cond zs)
      (select_chain malloc_ok cond src (hd_or zs None) (d, last_or None ys))"
  using assms(1-3)
proof (induction zs arbitrary: ys d)
  case Nil
  then show ?case by (subst select_chain.simps) (simp add: sel_result_def)
next
  case (Cons a zs)
  have nx: "hh_next src a = hd_or zs None" and sll: "sll (hh_next src) zs None" using Cons.prems(1) by simp_all
  have todo: "sel_todo src ys (a # (zs @ rest))" using Cons.prems(2) by simp
  show ?case
  proof (cases "cond a")
    case False
    then show ?thesis
      using Cons.IH [OF sll sel_todo_simps(2) [OF todo] Cons.prems(3)] nx
      by (subst select_chain.simps) simp
  next
    case True
    note new = sel_todo_simps(1) [OF todo]
    have flt: "ys @ filter cond (a # zs) = (ys @ [a]) @ filter cond zs" using True by simp
    show ?thesis
    proof (cases "select_elt malloc_ok src a (last_or None ys) d")
      case None
      then have fail: "select_chain malloc_ok cond src (hd_or (a # zs) None) (d, last_or None ys) = None"
        using True by (subst select_chain.simps) simp
      have "\<not> ((\<forall>n < 2 ^ 35. malloc_ok n) \<and> length ys < 25)"
        using select_elt_progress [OF Cons.prems(3) _ _ _ lim] new None by blast
      then show ?thesis
        unfolding fail using True by (auto simp: sel_result_def)
    next
      case (Some d')
      have inv: "sel_inv src d' (ys @ [a])"
        using select_elt_inv [OF Cons.prems(3) _ _ _ _ lim Some] new by blast
      have "select_chain malloc_ok cond src (hd_or (a # zs) None) (d, last_or None ys) =
          select_chain malloc_ok cond src (hd_or zs None) (d', last_or None (ys @ [a]))"
        using True Some nx by (subst select_chain.simps) simp
      then show ?thesis
        unfolding flt using Cons.IH [OF sll conjunct1 [OF new] inv] by simp
    qed
  qed
qed

lemma select_loop_result:
  assumes "list_all2 (\<lambda>b zs. sll (hh_next src) zs None \<and> hh_head b = hd_or zs None) bs zss"
    and "sel_todo src ys (concat zss)" and "sel_inv src d ys"
    and lim: "\<forall>n. malloc_ok n \<longrightarrow> n < 2 ^ 35"
  shows "sel_result malloc_ok src (ys @ filter cond (concat zss))
      (select_loop malloc_ok cond src bs (d, last_or None ys))"
  using assms(1-3)
proof (induction bs zss arbitrary: ys d rule: list_all2_induct)
  case Nil
  then show ?case by (simp add: sel_result_def)
next
  case (Cons b bs zs zss)
  have todo: "sel_todo src ys (zs @ concat zss)" using Cons.prems(1) by simp
  have chain: "sel_result malloc_ok src (ys @ filter cond zs)
      (select_chain malloc_ok cond src (hh_head b) (d, last_or None ys))"
    using select_chain_result [OF _ todo Cons.prems(2) lim, where cond = cond] Cons.hyps(1) by simp
  show ?case
  proof (cases "select_chain malloc_ok cond src (hh_head b) (d, last_or None ys)")
    case None
    then show ?thesis using chain by (auto simp: sel_result_def)
  next
    case (Some r)
    then obtain d' where d': "r = (d', last_or None (ys @ filter cond zs))" "sel_inv src d' (ys @ filter cond zs)"
      using chain by (cases r) (auto simp: sel_result_def)
    then show ?thesis
      using Cons.IH [OF sel_todo_filter [OF todo] d'(2)] Some by simp
  qed
qed

text \<open>The chains of a well-formed table, in bucket order.\<close>

lemma distinct_concat_map:
  assumes "distinct is" and "\<And>i. i \<in> set is \<Longrightarrow> distinct (f i)"
    and "\<And>i j. i \<in> set is \<Longrightarrow> j \<in> set is \<Longrightarrow> i \<noteq> j \<Longrightarrow> set (f i) \<inter> set (f j) = {}"
  shows "distinct (concat (map f is))"
  using assms
proof (induction "is")
  case (Cons i "is")
  then have "set (f i) \<inter> set (f j) = {}" if "j \<in> set is" for j
    using that by (metis distinct.simps(2) list.set_intros(1,2))
  then show ?case using Cons by auto
qed simp

lemma ut_rep_chains:
  assumes rep: "ut_rep u xs" and "xs \<noteq> []"
  shows "\<exists>t zss. the_tbl u = Some t \<and> unat (num_buckets t) = length (buckets t) \<and>
    list_all2 (\<lambda>b zs. sll (hh_next (ut_hh u)) zs None \<and> hh_head b = hd_or zs None) (buckets t) zss \<and>
    mset (concat zss) = mset xs"
proof -
  let ?h = "ut_hh u"
  obtain t where t: "the_tbl u = Some t" "bt_rep ?h t (set xs)"
    by (rule ut_rep_tblE [OF assms])
  obtain l where l: "l \<le> 30" "num_buckets t = 2 ^ l" "length (buckets t) = 2 ^ l"
      "bkts_rep (hh_next ?h) (hh_prev ?h) (bkt_idx ?h (2 ^ l)) (buckets t) (set xs)"
    using t(2) by (auto simp: bt_rep_def)
  have "\<forall>i. \<exists>ys. i < length (buckets t) \<longrightarrow> dlseg (hh_next ?h) (hh_prev ?h) None ys None \<and> distinct ys \<and>
      set ys = {a \<in> set xs. bkt_idx ?h (2 ^ l) a = i} \<and> hh_head (buckets t ! i) = hd_or ys None"
    using l(4) unfolding bkts_rep_def by blast
  from choice [OF this] obtain f where "\<forall>i. i < length (buckets t) \<longrightarrow>
      dlseg (hh_next ?h) (hh_prev ?h) None (f i) None \<and> distinct (f i) \<and>
      set (f i) = {a \<in> set xs. bkt_idx ?h (2 ^ l) a = i} \<and> hh_head (buckets t ! i) = hd_or (f i) None"
    by (rule exE)
  then have f: "dlseg (hh_next ?h) (hh_prev ?h) None (f i) None" "distinct (f i)"
      "set (f i) = {a \<in> set xs. bkt_idx ?h (2 ^ l) a = i}" "hh_head (buckets t ! i) = hd_or (f i) None"
    if "i < length (buckets t)" for i
    using that by (auto dest: spec)
  define zss where "zss = map f [0..<length (buckets t)]"
  have len: "length zss = length (buckets t)" by (simp add: zss_def)
  have nth: "zss ! i = f i" if "i < length (buckets t)" for i using that by (simp add: zss_def)
  have all: "list_all2 (\<lambda>b zs. sll (hh_next ?h) zs None \<and> hh_head b = hd_or zs None) (buckets t) zss"
    using dlseg_sll [OF f(1)] f(4) by (simp add: list_all2_conv_all_nth len nth)
  have "set (concat zss) = set xs"
    using f(3) HASH_TO_BKT_less l(3) by (auto simp: zss_def)
  moreover have "distinct (concat zss)"
    unfolding zss_def
  proof (rule distinct_concat_map)
    fix i j
    assume "i \<in> set [0..<length (buckets t)]" "j \<in> set [0..<length (buckets t)]" "i \<noteq> j"
    then show "set (f i) \<inter> set (f j) = {}" using f(3) by auto
  qed (use f(2) in auto)
  ultimately have "mset (concat zss) = mset xs"
    using ut_repD(1) [OF rep] by (metis set_eq_iff_mset_eq_distinct)
  moreover have "unat (num_buckets t) = length (buckets t)" using l by (simp add: unat_pow2_u32)
  ultimately show ?thesis using t(1) all by blast
qed

text \<open>
  Selecting from a well-formed table into an empty one: the destination holds the elements that
  satisfy the condition, in the bucket order of the source.
\<close>

lemma HASH_SELECT_rep:
  assumes src: "ut_rep u xs" and dst: "ut_rep d []" and lim: "\<forall>n. malloc_ok n \<longrightarrow> n < 2 ^ 35"
  shows "\<exists>ys. mset ys = mset (filter cond xs) \<and>
    (case HASH_SELECT malloc_ok cond u d of
       None \<Rightarrow> \<not> ((\<forall>n < 2 ^ 35. malloc_ok n) \<and> length ys \<le> 25)
     | Some d' \<Rightarrow> sel_inv (ut_hh u) d' ys)"
proof (cases "xs = []")
  case True
  have inv: "sel_inv (ut_hh u) d []"
    using sel_rep_empty [OF dst] ut_repD(6) [OF dst] by (simp add: sel_inv_def)
  have "HASH_SELECT malloc_ok cond u d = Some d"
    using True ut_repD(5) [OF src] by (simp add: HASH_SELECT_def)
  then show ?thesis using True inv by (intro exI [of _ "[]"]) simp
next
  case False
  let ?h = "ut_hh u"
  obtain t zss where t: "the_tbl u = Some t" "unat (num_buckets t) = length (buckets t)"
      "list_all2 (\<lambda>b zs. sll (hh_next ?h) zs None \<and> hh_head b = hd_or zs None) (buckets t) zss"
      "mset (concat zss) = mset xs"
    using ut_rep_chains [OF src False] by blast
  note perm = mset_eq_setD [OF t(4)] mset_eq_length [OF t(4)] mset_eq_imp_distinct_iff [OF t(4)]
  have inv: "sel_inv ?h d []"
    using sel_rep_empty [OF dst] ut_repD(6) [OF dst] by (simp add: sel_inv_def)
  have "\<forall>a \<in> set xs. hh_hashv ?h a = hash_int (hh_key ?h a)"
    by (rule ut_rep_tblE [OF src False])
  then have todo: "sel_todo ?h [] (concat zss)"
    using ut_repD(1-3) [OF src] perm by (simp add: sel_todo_def distinct_map)
  have "HASH_SELECT malloc_ok cond u d =
      map_option fst (select_loop malloc_ok cond ?h (buckets t) (d, None))"
    using t(1,2) ut_repD(5) [OF src] False
    by (cases xs) (auto simp: HASH_SELECT_def map_option_case split: option.splits)
  then show ?thesis
    using select_loop_result [OF t(3) todo inv lim, where cond = cond] t(4)
    by (intro exI [of _ "filter cond (concat zss)"]) (auto simp: sel_result_def split: option.splits)
qed

subsection \<open>Using the destination\<close>

text \<open>Searching does not look at \<open>tail\<close>.\<close>

lemma HASH_FIND_INT_set_tail: "HASH_FIND_INT (set_tail z d) k = HASH_FIND_INT d k"
  by (cases "ut_tbl d") (auto simp: HASH_FIND_INT_def the_tbl_def set_tail_def split: option.splits)

lemma sel_rep_find:
  assumes "sel_rep d ys"
  shows "HASH_FIND_INT d k = Some (List.find (\<lambda>a. hh_key (ut_hh d) a = k) ys)"
  using HASH_FIND_INT_rep [of "set_tail (last_or None ys) d" ys k] assms
  by (simp add: sel_rep_def HASH_FIND_INT_set_tail)

lemma fsck_set_tail: "fsck_inv (set_tail z d) = fsck_inv d"
  by (cases "ut_tbl d") (auto simp: fsck_inv_def set_tail_def)

text \<open>The integrity check does not see the stale \<open>tail\<close>; the invariant does.\<close>

lemma sel_rep_fsck: "sel_rep d ys \<Longrightarrow> HASH_FSCK d = Some Fsck_ok"
  using ut_rep_fsck [of "set_tail (last_or None ys) d" ys]
  by (simp add: HASH_FSCK_iff fsck_set_tail sel_rep_def)

lemma sel_rep_ut_rep_iff:
  assumes sel: "sel_rep d ys"
  shows "ut_rep d ys \<longleftrightarrow> length ys \<le> 1"
proof (cases "ys = []")
  case True
  then show ?thesis using sel by (simp add: sel_rep_def set_tail_def ut_rep_def)
next
  case False
  then obtain t where t: "ut_tbl d = Some t" "tail t = hd_or ys None"
    using sel_rep_tblE [OF sel] by blast
  have rep: "ut_rep (set_tail (last_or None ys) d) ys" using sel by (simp add: sel_rep_def)
  obtain y zs where ys: "ys = y # zs" using False by (cases ys) simp_all
  have "set_tail (last_or None ys) d = d" if "zs = []"
    using that t by (simp add: ys set_tail_def)
  then have "zs = [] \<Longrightarrow> ut_rep d ys" using rep by simp
  moreover have "\<not> ut_rep d ys" if "zs \<noteq> []"
  proof
    assume "ut_rep d ys"
    then have "tail t = Some (last ys)" using t(1) False by (simp add: ut_rep_def)
    then have "y = last zs" using t(2) that by (simp add: ys)
    moreover have "distinct ys" using ut_repD(1) [OF rep] .
    ultimately show False using that by (simp add: ys)
  qed
  ultimately show ?thesis by (auto simp: ys)
qed

lemma dlseg_unique:
  "dlseg nx pv p xs None \<Longrightarrow> dlseg nx pv q ys None \<Longrightarrow> hd_or xs None = hd_or ys None \<Longrightarrow> xs = ys"
proof (induction xs arbitrary: p q ys)
  case Nil
  then show ?case by (cases ys) auto
next
  case (Cons x xs)
  then show ?case by (cases ys) auto
qed

lemma sel_rep_unique:
  assumes "sel_rep d ys" and "ut_rep d zs"
  shows "zs = ys"
proof -
  have rep: "ut_rep (set_tail (last_or None ys) d) ys" using assms(1) by (simp add: sel_rep_def)
  show ?thesis
    by (rule dlseg_unique [OF ut_repD(4) [OF assms(2)] ut_repD(4) [OF rep, unfolded sel_rep_sel]])
      (use ut_repD(5) [OF assms(2)] ut_repD(5) [OF rep] in simp)
qed

text \<open>
  An addition to a selected table of two or more elements appends behind the stale \<open>tail\<close>, the
  first element: the application order is cut down to two elements.
\<close>

lemma sel_rep_add_cuts:
  assumes sel: "sel_rep d ys" and two: "2 \<le> length ys" and a: "a \<notin> set ys"
    and len: "Suc (length ys) < 2 ^ 32" and lim: "\<forall>n. malloc_ok n \<longrightarrow> n < 2 ^ 35"
    and run: "HASH_ADD_INT malloc_ok d a = Some d'"
  shows "ut_head d' = Some (hd ys) \<and> sll (hh_next_elt (ut_hh d')) [hd ys, a] None \<and>
    HASH_COUNT d' = Some (of_nat (Suc (length ys))) \<and> HASH_FSCK d' \<noteq> Some Fsck_ok"
proof -
  let ?h = "ut_hh d"
  have ne: "ys \<noteq> []" using two by auto
  obtain t where t: "the_tbl d = Some t" "tail t = hd_or ys None" "num_items t = of_nat (length ys)"
      "bt_rep ?h t (set ys)"
    using sel_rep_tblE [OF sel ne] by blast
  have head: "ut_head d = hd_or ys None" using sel ut_repD(5) by (fastforce simp: sel_rep_def)
  obtain y zs where ys: "ys = y # zs" using ne by (cases ys) simp_all
  define h1 where "h1 = ?h\<lparr>hh_next_elt := (hh_next_elt ?h)(a := None, y := Some a),
      hh_prev_elt := (hh_prev_elt ?h)(a := Some y),
      hh_hashv := (hh_hashv ?h)(a := hash_int (hh_key ?h a))\<rparr>"
  define t1 where "t1 = t\<lparr>tail := Some a, num_items := num_items t + 1\<rparr>"
  have n1: "num_items t1 = of_nat (Suc (length ys))" using t(3) by (simp add: t1_def)
  have items: "num_items t1 \<noteq> 0"
    unfolding n1 by (rule of_nat_u32_nonzero [OF len]) simp
  obtain h' t' where add: "HASH_ADD_TO_BKT malloc_ok (HASH_TO_BKT (hh_hashv h1 a) (num_buckets t1)) a h1 t1 = Some (h', t')"
      "d' = \<lparr>ut_head = Some y, ut_tbl = Some t', ut_hh = h'\<rparr>"
    using run t(1,2) head by (auto simp: HASH_ADD_INT_def Let_def bind_Some_conv h1_def t1_def ys)
  have "bt_rep h1 t1 (set ys)"
    by (rule bt_rep_frame [OF t(4)]) (use a in \<open>auto simp: h1_def t1_def\<close>)
  from HASH_ADD_TO_BKT_rep [OF this a items lim add(1)]
  have fin: "same_but_links h1 h'" "num_items t' = num_items t1" by auto
  have sll: "sll (hh_next_elt h') [y, a] None"
    using same_but_links_sel [OF fin(1)] a by (simp add: h1_def ys)
  have "HASH_FSCK d' \<noteq> Some Fsck_ok"
    unfolding HASH_FSCK_iff
  proof
    assume "fsck_inv d'"
    then obtain xs where xs: "dlseg (hh_next_elt h') (hh_prev_elt h') None xs None" "Some y = hd_or xs None"
        "num_items t' = of_nat (length xs)"
      by (auto simp: fsck_inv_def chain_ok_def add(2))
    obtain us where us: "xs = y # us" using xs(2) by (cases xs) simp_all
    then have "Some a = hd_or us None" using sll xs(1) by simp
    then obtain vs where vs: "us = a # vs" by (cases us) simp_all
    then have "hd_or vs None = None" using sll xs(1) us by simp
    then have "length xs = 2" using us vs by simp
    then have "unat (of_nat (Suc (length ys)) :: u32) = 2" using xs(3) fin(2) n1 by simp
    then show False using unat_of_nat_u32 [OF len] two by simp
  qed
  then show ?thesis
    using sll fin(2) n1 by (simp add: add(2) ys HASH_COUNT_def the_tbl_def)
qed

lemma sel_inv_add_progress:
  assumes inv: "sel_inv src d ys" and ne: "ys \<noteq> []" and a: "a \<notin> set ys" and len: "length ys < 25"
    and grants: "\<forall>n < 2 ^ 35. malloc_ok n" and lim: "\<forall>n. malloc_ok n \<longrightarrow> n < 2 ^ 35"
  shows "HASH_ADD_INT malloc_ok d a \<noteq> None"
proof -
  have sel: "sel_rep d ys" using inv by (simp add: sel_inv_def)
  then have head: "ut_head d = hd_or ys None" using ut_repD(5) by (fastforce simp: sel_rep_def)
  obtain y zs where ys: "ys = y # zs" using ne by (cases ys) simp_all
  obtain t where t: "the_tbl d = Some t" "ut_tbl d = Some t" "tail t = Some y" "num_items t = of_nat (length ys)"
      "bt_rep (ut_hh d) t (set ys)"
    using ys by (auto intro: sel_rep_tblE [OF sel])
  obtain l where l: "l \<le> 5 + length ys" "num_buckets t = 2 ^ l"
    using inv t(2) by (auto simp: sel_inv_def)
  let ?h = "ut_hh d"
  define h1 where "h1 = ?h\<lparr>hh_next_elt := (hh_next_elt ?h)(a := None, y := Some a),
      hh_prev_elt := (hh_prev_elt ?h)(a := Some y),
      hh_hashv := (hh_hashv ?h)(a := hash_int (hh_key ?h a))\<rparr>"
  define t1 where "t1 = t\<lparr>tail := Some a, num_items := num_items t + 1\<rparr>"
  have "HASH_ADD_TO_BKT malloc_ok (HASH_TO_BKT (hh_hashv h1 a) (num_buckets t1)) a h1 t1 \<noteq> None"
  proof (rule HASH_ADD_TO_BKT_progress [OF _ a _ lim])
    show "bt_rep h1 t1 (set ys)"
      by (rule bt_rep_frame [OF t(5)]) (use a in \<open>auto simp: h1_def t1_def\<close>)
    have n1: "num_items t1 = of_nat (Suc (length ys))" using t(4) by (simp add: t1_def)
    show "num_items t1 \<noteq> 0" unfolding n1 by (rule of_nat_u32_nonzero) (use len in simp_all)
    have "malloc_ok (unat (2 * num_buckets t) * sizeof_UT_hash_bucket)"
      by (rule doubling_below [OF l(2) _ grants]) (use l(1) len in simp)
    then show "malloc_ok (unat (2 * num_buckets t1) * sizeof_UT_hash_bucket)" by (simp add: t1_def)
  qed
  then show ?thesis
    using head t(1,3) by (auto simp: HASH_ADD_INT_def Let_def h1_def t1_def ys)
qed

section \<open>Building a table\<close>

text \<open>Each addition doubles the bucket array at most once.\<close>

lemma HASH_ADD_INT_buckets:
  assumes "HASH_ADD_INT malloc_ok u a = Some u'" and "5 \<le> n"
    and "\<forall>t. ut_tbl u = Some t \<longrightarrow> (\<exists>l \<le> n. num_buckets t = 2 ^ l)"
  shows "\<forall>t. ut_tbl u' = Some t \<longrightarrow> (\<exists>l \<le> Suc n. num_buckets t = 2 ^ l)"
proof (intro allI impI)
  fix t' assume t': "ut_tbl u' = Some t'"
  obtain b t h h' where t: "HASH_ADD_TO_BKT malloc_ok b a h t = Some (h', t')"
      "\<exists>l \<le> n. num_buckets t = 2 ^ l"
  proof (cases "ut_head u")
    case None
    then obtain t0 where t0: "HASH_MAKE_TABLE malloc_ok a = Some t0"
      using assms(1) by (auto simp: HASH_ADD_INT_def Let_def bind_Some_conv)
    have "num_buckets t0 = 2 ^ 5"
      using t0 by (auto simp: HASH_MAKE_TABLE_def c_assert_def HASH_INITIAL_NUM_BUCKETS_def split: if_splits)
    then have "\<exists>l \<le> n. num_buckets (t0\<lparr>num_items := num_items t0 + 1\<rparr>) = 2 ^ l" using assms(2) by auto
    moreover obtain b h h' where "HASH_ADD_TO_BKT malloc_ok b a h (t0\<lparr>num_items := num_items t0 + 1\<rparr>) = Some (h', t')"
      using assms(1) t' None t0 by (auto simp: HASH_ADD_INT_def Let_def bind_Some_conv)
    ultimately show thesis by (rule that [rotated])
  next
    case (Some x)
    then obtain t0 where t0: "ut_tbl u = Some t0"
      using assms(1) by (cases "ut_tbl u") (auto simp: HASH_ADD_INT_def Let_def bind_Some_conv the_tbl_def)
    then have "\<exists>l \<le> n. num_buckets (t0\<lparr>tail := Some a, num_items := num_items t0 + 1\<rparr>) = 2 ^ l"
      using assms(3) by simp
    moreover obtain b h h' where "HASH_ADD_TO_BKT malloc_ok b a h (t0\<lparr>tail := Some a, num_items := num_items t0 + 1\<rparr>) = Some (h', t')"
      using assms(1) t' Some t0 by (auto simp: HASH_ADD_INT_def Let_def bind_Some_conv the_tbl_def)
    ultimately show thesis by (rule that [rotated])
  qed
  then obtain l where l: "l \<le> n" "num_buckets t = 2 ^ l" by blast
  show "\<exists>l \<le> Suc n. num_buckets t' = 2 ^ l"
    using HASH_ADD_TO_BKT_buckets [OF t(1)]
  proof
    assume "num_buckets t' = num_buckets t"
    then show ?thesis using l by (intro exI [of _ l]) simp
  next
    assume "num_buckets t' = num_buckets t * 2"
    then show ?thesis using l by (intro exI [of _ "Suc l"]) simp
  qed
qed

end
