(* ===== verification/Uthash_Sort.thy ===== *)
theory Uthash_Sort
  imports Uthash_Correct "HOL-Library.Sorting_Algorithms"
begin

text \<open>
  Sorting the hash table: \<open>HASH_SRT\<close> of \<open>src/net/uthash.h\<close>, a bottom-up merge sort of the
  application-order list that rewrites \<open>next\<close> and \<open>prev\<close> in place, and its correctness. The
  reference is the stable sort of HOL-Library.Sorting_Algorithms. \<open>cmpfcn\<close> is the user's
  comparison function, applied to the addresses of two elements.
\<close>

section \<open>The code\<close>

text \<open>The merge variables \<open>_hs_p\<close>, \<open>_hs_q\<close>, \<open>_hs_psize\<close> and \<open>_hs_qsize\<close>.\<close>

record hs_runs =
  hs_p :: "addr option"
  hs_q :: "addr option"
  hs_psize :: u32
  hs_qsize :: u32

text \<open>The \<open>for\<close> loop that moves \<open>q\<close> past the run of \<open>p\<close>; the last argument is \<open>_hs_psize\<close>.\<close>

partial_function (option) hs_advance ::
    "(addr \<Rightarrow> addr option) \<Rightarrow> u32 \<Rightarrow> u32 \<Rightarrow> addr option \<Rightarrow> u32 \<Rightarrow> (addr option \<times> u32) option" where
  "hs_advance nx insize i q psize =
    (if i < insize
     then (case q of
             None \<Rightarrow> None
           | Some a \<Rightarrow> if nx a = None then Some (None, psize + 1)
                       else hs_advance nx insize (i + 1) (nx a) (psize + 1))
     else Some (q, psize))"

text \<open>The choice of the next element \<open>_hs_e\<close>.\<close>

definition hs_take_p :: "ut_handles \<Rightarrow> hs_runs \<Rightarrow> addr option \<times> hs_runs" where
  "hs_take_p h r = (hs_p r, r\<lparr>hs_p := (case hs_p r of None \<Rightarrow> None | Some p \<Rightarrow> hh_next_elt h p),
                             hs_psize := hs_psize r - 1\<rparr>)"

definition hs_take_q :: "ut_handles \<Rightarrow> hs_runs \<Rightarrow> (addr option \<times> hs_runs) option" where
  "hs_take_q h r = (case hs_q r of
       None \<Rightarrow> None
     | Some q \<Rightarrow> Some (Some q, r\<lparr>hs_q := hh_next_elt h q, hs_qsize := hs_qsize r - 1\<rparr>))"

definition hs_take ::
    "(addr \<Rightarrow> addr \<Rightarrow> int) \<Rightarrow> ut_handles \<Rightarrow> hs_runs \<Rightarrow> (addr option \<times> hs_runs) option" where
  "hs_take cmpfcn h r =
    (if hs_psize r = 0 then hs_take_q h r
     else if hs_qsize r = 0 \<or> hs_q r = None then Some (hs_take_p h r)
     else do {
       p \<leftarrow> hs_p r;
       q \<leftarrow> hs_q r;
       if cmpfcn p q \<le> 0 then Some (hs_take_p h r) else hs_take_q h r })"

text \<open>Appending \<open>_hs_e\<close> to the list built so far, given by \<open>_hs_list\<close> and \<open>_hs_tail\<close>.\<close>

definition hs_append ::
    "addr option \<Rightarrow> ut_handles \<times> addr option \<times> addr option \<Rightarrow> ut_handles \<times> addr option \<times> addr option"
where
  "hs_append e s = (case s of (h, list, z) \<Rightarrow>
     (h\<lparr>hh_next_elt := opt_upd (hh_next_elt h) z e, hh_prev_elt := opt_upd (hh_prev_elt h) e z\<rparr>,
      (if z = None then e else list), e))"

partial_function (option) hs_merge ::
    "(addr \<Rightarrow> addr \<Rightarrow> int) \<Rightarrow> hs_runs \<Rightarrow> ut_handles \<times> addr option \<times> addr option
     \<Rightarrow> (addr option \<times> ut_handles \<times> addr option \<times> addr option) option" where
  "hs_merge cmpfcn r s =
    (if 0 < hs_psize r \<or> 0 < hs_qsize r \<and> hs_q r \<noteq> None
     then Option.bind (hs_take cmpfcn (fst s) r) (\<lambda>er. hs_merge cmpfcn (snd er) (hs_append (fst er) s))
     else Some (hs_q r, s))"

text \<open>One pass, the loop \<open>while (_hs_p)\<close>; the last argument is \<open>_hs_nmerges\<close>.\<close>

partial_function (option) hs_pass ::
    "(addr \<Rightarrow> addr \<Rightarrow> int) \<Rightarrow> u32 \<Rightarrow> addr option \<Rightarrow> ut_handles \<times> addr option \<times> addr option \<Rightarrow> u32
     \<Rightarrow> ((ut_handles \<times> addr option \<times> addr option) \<times> u32) option" where
  "hs_pass cmpfcn insize p s nmerges =
    (case p of
       None \<Rightarrow> Some (s, nmerges)
     | Some a \<Rightarrow>
         Option.bind (hs_advance (hh_next_elt (fst s)) insize 0 p 0) (\<lambda>qn.
         Option.bind (hs_merge cmpfcn
             \<lparr>hs_p = p, hs_q = fst qn, hs_psize = snd qn, hs_qsize = insize\<rparr> s) (\<lambda>qs.
         hs_pass cmpfcn insize (fst qs) (snd qs) (nmerges + 1))))"

text \<open>The end of a pass: the last element gets a null \<open>next\<close>.\<close>

definition hs_close ::
    "ut_handles \<times> addr option \<times> addr option \<Rightarrow> ut_handles \<times> addr option \<times> addr option" where
  "hs_close s = (case s of (h, list, z) \<Rightarrow>
     (h\<lparr>hh_next_elt := opt_upd (hh_next_elt h) z None\<rparr>, list, z))"

text \<open>The loop \<open>while (_hs_looping)\<close>.\<close>

partial_function (option) hs_loop ::
    "(addr \<Rightarrow> addr \<Rightarrow> int) \<Rightarrow> u32 \<Rightarrow> ut_handles \<Rightarrow> addr option
     \<Rightarrow> (ut_handles \<times> addr option \<times> addr option) option" where
  "hs_loop cmpfcn insize h list =
    Option.bind (hs_pass cmpfcn insize list (h, None, None) 0) (\<lambda>sn.
      if snd sn \<le> 1 then Some (hs_close (fst sn))
      else hs_loop cmpfcn (insize * 2) (fst (hs_close (fst sn))) (fst (snd (hs_close (fst sn)))))"

definition HASH_SRT :: "(addr \<Rightarrow> addr \<Rightarrow> int) \<Rightarrow> uthash \<Rightarrow> uthash option" where
  "HASH_SRT cmpfcn u =
    (case ut_head u of
       None \<Rightarrow> Some u
     | Some _ \<Rightarrow> do {
         t \<leftarrow> the_tbl u;
         (h, list, z) \<leftarrow> hs_loop cmpfcn 1 (ut_hh u) (ut_head u);
         Some \<lparr>ut_head = list, ut_tbl = Some (t\<lparr>tail := z\<rparr>), ut_hh = h\<rparr> })"

section \<open>The list level\<close>

text \<open>The order in which two runs are merged.\<close>

fun merge_runs :: "('a \<Rightarrow> 'a \<Rightarrow> int) \<Rightarrow> 'a list \<Rightarrow> 'a list \<Rightarrow> 'a list" where
  "merge_runs c [] ys = ys"
| "merge_runs c xs [] = xs"
| "merge_runs c (x # xs) (y # ys) =
     (if c x y \<le> 0 then x # merge_runs c xs (y # ys) else y # merge_runs c (x # xs) ys)"

lemma merge_runs_Nil2 [simp]: "merge_runs c xs [] = xs"
  by (cases xs) simp_all

lemma mset_merge_runs [simp]: "mset (merge_runs c xs ys) = mset xs + mset ys"
  by (induction c xs ys rule: merge_runs.induct) simp_all

lemma set_merge_runs [simp]: "set (merge_runs c xs ys) = set xs \<union> set ys"
  by (induction c xs ys rule: merge_runs.induct) auto

lemma length_merge_runs [simp]: "length (merge_runs c xs ys) = length xs + length ys"
  by (induction c xs ys rule: merge_runs.induct) simp_all

text \<open>A comparison function that orders the elements of \<open>A\<close> as the comparator \<open>cmp\<close> does.\<close>

definition orders_as :: "('a \<Rightarrow> 'a \<Rightarrow> int) \<Rightarrow> 'a comparator \<Rightarrow> 'a set \<Rightarrow> bool" where
  "orders_as c cmp A \<longleftrightarrow> (\<forall>x \<in> A. \<forall>y \<in> A. c x y \<le> 0 \<longleftrightarrow> compare cmp x y \<noteq> Greater)"

lemma orders_as_subset: "orders_as c cmp A \<Longrightarrow> B \<subseteq> A \<Longrightarrow> orders_as c cmp B"
  by (auto simp: orders_as_def)

lemma sorted_Cons_all:
  "Sorting_Algorithms.sorted cmp xs \<Longrightarrow> (\<And>z. z \<in> set xs \<Longrightarrow> compare cmp x z \<noteq> Greater) \<Longrightarrow>
   Sorting_Algorithms.sorted cmp (x # xs)"
  by (cases xs) simp_all

lemma merge_runs_sorted:
  assumes "Sorting_Algorithms.sorted cmp xs" and "Sorting_Algorithms.sorted cmp ys"
    and "orders_as c cmp (set xs \<union> set ys)"
  shows "Sorting_Algorithms.sorted cmp (merge_runs c xs ys)"
  using assms
proof (induction c xs ys rule: merge_runs.induct)
  case (3 c x xs y ys)
  show ?case
  proof (cases "c x y \<le> 0")
    case True
    then have "compare cmp x y \<noteq> Greater" using "3.prems"(3) by (simp add: orders_as_def)
    then have "compare cmp x z \<noteq> Greater" if "z \<in> set (merge_runs c xs (y # ys))" for z
      using that sorted_Cons_imp_not_less [OF "3.prems"(1), of z]
        sorted_Cons_imp_not_less [OF "3.prems"(2), of z] compare.trans_not_greater [of cmp x y z] by auto
    moreover have "Sorting_Algorithms.sorted cmp (merge_runs c xs (y # ys))"
      by (rule "3.IH"(1) [OF True]) (use "3.prems" in \<open>auto dest: sorted_Cons_imp_sorted intro: orders_as_subset\<close>)
    ultimately show ?thesis using True sorted_Cons_all [of cmp "merge_runs c xs (y # ys)" x] by simp
  next
    case False
    then have "compare cmp x y = Greater" using "3.prems"(3) by (simp add: orders_as_def)
    then have "compare cmp y x \<noteq> Greater" by (simp add: compare.greater_iff_sym_less)
    then have "compare cmp y z \<noteq> Greater" if "z \<in> set (merge_runs c (x # xs) ys)" for z
      using that sorted_Cons_imp_not_less [OF "3.prems"(1), of z]
        sorted_Cons_imp_not_less [OF "3.prems"(2), of z] compare.trans_not_greater [of cmp y x z] by auto
    moreover have "Sorting_Algorithms.sorted cmp (merge_runs c (x # xs) ys)"
      by (rule "3.IH"(2) [OF False]) (use "3.prems" in \<open>auto dest: sorted_Cons_imp_sorted intro: orders_as_subset\<close>)
    ultimately show ?thesis using False sorted_Cons_all [of cmp "merge_runs c (x # xs) ys" y] by simp
  qed
qed simp_all

text \<open>Stability: a merge keeps, within each class of equivalent elements, the order of the input.\<close>

lemma merge_runs_stable:
  assumes "Sorting_Algorithms.sorted cmp xs" and "orders_as c cmp (set xs \<union> set ys)"
  shows "stable_segment cmp z (merge_runs c xs ys) = stable_segment cmp z xs @ stable_segment cmp z ys"
  using assms
proof (induction c xs ys rule: merge_runs.induct)
  case (3 c x xs y ys)
  show ?case
  proof (cases "c x y \<le> 0")
    case True
    have "stable_segment cmp z (merge_runs c xs (y # ys)) = stable_segment cmp z xs @ stable_segment cmp z (y # ys)"
      by (rule "3.IH"(1) [OF True]) (use "3.prems" in \<open>auto dest: sorted_Cons_imp_sorted intro: orders_as_subset\<close>)
    then show ?thesis using True by auto
  next
    case False
    then have gt: "compare cmp x y = Greater" using "3.prems"(2) by (simp add: orders_as_def)
    have seg: "stable_segment cmp z (merge_runs c (x # xs) ys) = stable_segment cmp z (x # xs) @ stable_segment cmp z ys"
      by (rule "3.IH"(2) [OF False]) (use "3.prems" in \<open>auto intro: orders_as_subset\<close>)
    have "stable_segment cmp z (x # xs) = []" if eq: "compare cmp z y = Equiv"
    proof -
      have "compare cmp y w = Less" if w: "w \<in> set (x # xs)" for w
        using w gt "3.prems"(1) sorted_Cons_imp_not_less [of cmp x xs w]
        by (metis compare.greater_iff_sym_less compare.trans_less compare.trans_less_equiv
            comp.exhaust set_ConsD)
      then have "compare cmp z w = Less" if "w \<in> set (x # xs)" for w
        using that eq compare.trans_equiv_less by metis
      then show ?thesis by (auto simp: filter_empty_conv)
    qed
    then show ?thesis using False seg by auto
  qed
qed simp_all

lemma merge_runs_sort:
  assumes "orders_as c cmp (set xs \<union> set ys)"
  shows "merge_runs c (Sorting_Algorithms.sort cmp xs) (Sorting_Algorithms.sort cmp ys) =
    Sorting_Algorithms.sort cmp (xs @ ys)"
  by (rule sort_eqI [symmetric])
    (use assms in \<open>simp_all add: merge_runs_sorted merge_runs_stable stable_sort\<close>)

text \<open>The list after the passes of width below \<open>k\<close>: blocks of \<open>k\<close> elements, each sorted.\<close>

function sorted_blocks :: "'a comparator \<Rightarrow> nat \<Rightarrow> 'a list \<Rightarrow> 'a list" where
  "sorted_blocks cmp k xs =
    (if xs = [] \<or> k = 0 then [] else Sorting_Algorithms.sort cmp (take k xs) @ sorted_blocks cmp k (drop k xs))"
  by pat_completeness auto
termination
  by (relation "measure (\<lambda>(_, _, xs). length xs)") auto

declare sorted_blocks.simps [simp del]

lemma sorted_blocks_Nil [simp]: "sorted_blocks cmp k [] = []"
  by (simp add: sorted_blocks.simps)

lemma mset_sorted_blocks [simp]: "0 < k \<Longrightarrow> mset (sorted_blocks cmp k xs) = mset xs"
proof (induction "length xs" arbitrary: xs rule: less_induct)
  case less
  show ?case
  proof (cases "xs = []")
    case False
    then have "mset (sorted_blocks cmp k (drop k xs)) = mset (drop k xs)"
      using less by simp
    moreover have "mset (take k xs) + mset (drop k xs) = mset xs"
      by (metis append_take_drop_id mset_append)
    ultimately show ?thesis using False less.prems by (subst sorted_blocks.simps) simp
  qed simp
qed

lemma set_sorted_blocks [simp]: "0 < k \<Longrightarrow> set (sorted_blocks cmp k xs) = set xs"
  by (metis mset_sorted_blocks set_mset_mset)

lemma length_sorted_blocks [simp]: "0 < k \<Longrightarrow> length (sorted_blocks cmp k xs) = length xs"
  by (metis mset_sorted_blocks size_mset)

lemma sorted_blocks_one: "sorted_blocks cmp 1 xs = xs"
proof (induction xs)
  case (Cons x xs)
  then show ?case by (subst sorted_blocks.simps) simp
qed simp

lemma sorted_blocks_all: "length xs \<le> k \<Longrightarrow> sorted_blocks cmp k xs = Sorting_Algorithms.sort cmp xs"
  by (subst sorted_blocks.simps) auto

lemma take_sorted_blocks:
  assumes "0 < k"
  shows "take k (sorted_blocks cmp k xs) = Sorting_Algorithms.sort cmp (take k xs)"
    and "drop k (sorted_blocks cmp k xs) = sorted_blocks cmp k (drop k xs)"
proof -
  have eq: "sorted_blocks cmp k xs = Sorting_Algorithms.sort cmp (take k xs) @ sorted_blocks cmp k (drop k xs)"
    using assms by (cases "xs = []") (simp_all add: sorted_blocks.simps [of cmp k xs])
  show "take k (sorted_blocks cmp k xs) = Sorting_Algorithms.sort cmp (take k xs)"
    unfolding eq by (cases "k \<le> length xs") auto
  show "drop k (sorted_blocks cmp k xs) = sorted_blocks cmp k (drop k xs)"
    unfolding eq by (cases "k \<le> length xs") auto
qed

text \<open>One pass of width \<open>k\<close> over a list.\<close>

function pass_list :: "('a \<Rightarrow> 'a \<Rightarrow> int) \<Rightarrow> nat \<Rightarrow> 'a list \<Rightarrow> 'a list" where
  "pass_list c k xs =
    (if xs = [] \<or> k = 0 then []
     else merge_runs c (take k xs) (take k (drop k xs)) @ pass_list c k (drop (2 * k) xs))"
  by pat_completeness auto
termination
  by (relation "measure (\<lambda>(_, _, xs). length xs)") auto

declare pass_list.simps [simp del]

lemma pass_list_Nil [simp]: "pass_list c k [] = []"
  by (simp add: pass_list.simps)

lemma pass_list_blocks:
  assumes "0 < k" and "orders_as c cmp (set xs)"
  shows "pass_list c k (sorted_blocks cmp k xs) = sorted_blocks cmp (2 * k) xs"
  using assms(2)
proof (induction "length xs" arbitrary: xs rule: less_induct)
  case less
  show ?case
  proof (cases "xs = []")
    case False
    let ?ys = "sorted_blocks cmp k xs"
    have ne: "?ys \<noteq> []" using False assms(1) by (metis length_0_conv length_sorted_blocks)
    have two: "drop (2 * k) ?ys = sorted_blocks cmp k (drop (2 * k) xs)"
      by (metis assms(1) drop_drop mult_2 take_sorted_blocks(2))
    have mid: "take k (drop k ?ys) = Sorting_Algorithms.sort cmp (take k (drop k xs))"
      by (simp add: take_sorted_blocks [OF assms(1)])
    have sub: "set (take k xs) \<union> set (take k (drop k xs)) \<subseteq> set xs"
      using set_take_subset [of k xs] set_take_subset [of k "drop k xs"] set_drop_subset [of k xs] by blast
    have "merge_runs c (take k ?ys) (take k (drop k ?ys)) = Sorting_Algorithms.sort cmp (take (2 * k) xs)"
      unfolding mid take_sorted_blocks(1) [OF assms(1)]
      using merge_runs_sort [OF orders_as_subset [OF less.prems sub]] by (simp add: mult_2 take_add)
    moreover have "pass_list c k (sorted_blocks cmp k (drop (2 * k) xs)) =
        sorted_blocks cmp (2 * k) (drop (2 * k) xs)"
    proof (rule less.hyps)
      show "length (drop (2 * k) xs) < length xs" using False assms(1) by simp
      show "orders_as c cmp (set (drop (2 * k) xs))"
        by (rule orders_as_subset [OF less.prems set_drop_subset])
    qed
    ultimately show ?thesis
      using ne assms(1) False two
      by (subst pass_list.simps, subst sorted_blocks.simps [of cmp "2 * k"]) simp
  qed simp
qed

lemma mset_pass_list [simp]: "0 < k \<Longrightarrow> mset (pass_list c k xs) = mset xs"
proof (induction "length xs" arbitrary: xs rule: less_induct)
  case less
  show ?case
  proof (cases "xs = []")
    case False
    then have "mset (pass_list c k (drop (2 * k) xs)) = mset (drop (2 * k) xs)"
      using less by simp
    moreover have "mset (take k xs) + mset (take k (drop k xs)) + mset (drop (2 * k) xs) = mset xs"
      by (metis append_take_drop_id drop_drop mset_append mult_2 add.assoc)
    ultimately show ?thesis using False less.prems by (subst pass_list.simps) simp
  qed simp
qed

lemma length_pass_list [simp]: "0 < k \<Longrightarrow> length (pass_list c k xs) = length xs"
  by (metis mset_pass_list size_mset)

text \<open>All passes from width \<open>k\<close> on. The last one is the one that needs a single merge.\<close>

function srt_list :: "('a \<Rightarrow> 'a \<Rightarrow> int) \<Rightarrow> nat \<Rightarrow> 'a list \<Rightarrow> 'a list" where
  "srt_list c k xs =
    (if k = 0 \<or> length xs \<le> 2 * k then pass_list c k xs else srt_list c (2 * k) (pass_list c k xs))"
  by pat_completeness auto
termination
  by (relation "measure (\<lambda>(_, k, xs). length xs - k)") auto

declare srt_list.simps [simp del]

lemma mset_srt_list [simp]: "0 < k \<Longrightarrow> mset (srt_list c k xs) = mset xs"
proof (induction c k xs rule: srt_list.induct)
  case (1 c k xs)
  then show ?case by (subst srt_list.simps) simp
qed

lemma srt_list_blocks:
  assumes "0 < k" and "orders_as c cmp (set xs)"
  shows "srt_list c k (sorted_blocks cmp k xs) = Sorting_Algorithms.sort cmp xs"
  using assms(1)
proof (induction "length xs - k" arbitrary: k rule: less_induct)
  case less
  show ?case
  proof (cases "length xs \<le> 2 * k")
    case True
    then show ?thesis
      using less.prems assms(2) by (subst srt_list.simps) (simp add: pass_list_blocks sorted_blocks_all)
  next
    case False
    then show ?thesis
      using less assms(2) by (subst srt_list.simps) (simp add: pass_list_blocks)
  qed
qed

lemma srt_list_sort: "orders_as c cmp (set xs) \<Longrightarrow> srt_list c 1 xs = Sorting_Algorithms.sort cmp xs"
  using srt_list_blocks [of 1 c cmp xs] by (simp del: One_nat_def add: sorted_blocks_one)

section \<open>The pointer level\<close>

text \<open>Two states of the handles that agree but for the application order.\<close>

definition same_but_order :: "ut_handles \<Rightarrow> ut_handles \<Rightarrow> bool" where
  "same_but_order h h' \<longleftrightarrow> hh_hashv h' = hh_hashv h \<and> hh_key h' = hh_key h \<and>
     hh_prev h' = hh_prev h \<and> hh_next h' = hh_next h"

lemma same_but_order_refl [simp]: "same_but_order h h"
  by (simp add: same_but_order_def)

lemma same_but_order_trans: "same_but_order h h' \<Longrightarrow> same_but_order h' h'' \<Longrightarrow> same_but_order h h''"
  by (simp add: same_but_order_def)

text \<open>The list built so far: well linked, but for the \<open>next\<close> field of its last element.\<close>

definition hs_out :: "ut_handles \<Rightarrow> addr list \<Rightarrow> bool" where
  "hs_out h os \<longleftrightarrow> dlseg (opt_upd (hh_next_elt h) (last_or None os) None) (hh_prev_elt h) None os None"

lemma hs_out_Nil [simp]: "hs_out h []"
  by (simp add: hs_out_def)

text \<open>A step writes only the fields of the elements of the list it extends.\<close>

definition order_frame :: "addr set \<Rightarrow> ut_handles \<Rightarrow> ut_handles \<Rightarrow> bool" where
  "order_frame A h h' \<longleftrightarrow> same_but_order h h' \<and> (\<forall>x. x \<notin> A \<longrightarrow> hh_next_elt h' x = hh_next_elt h x)"

lemma order_frame_trans:
  "order_frame A h h' \<Longrightarrow> order_frame B h' h'' \<Longrightarrow> A \<subseteq> B \<Longrightarrow> order_frame B h h''"
  by (auto simp: order_frame_def intro: same_but_order_trans)

lemma order_frame_sll:
  "order_frame A h h' \<Longrightarrow> set xs \<inter> A = {} \<Longrightarrow> sll (hh_next_elt h) xs q \<Longrightarrow> sll (hh_next_elt h') xs q"
  using sll_cong [of xs "hh_next_elt h'" "hh_next_elt h"] by (auto simp: order_frame_def)

lemma hs_append_out:
  assumes "hs_out h os" and "distinct os" and "y \<notin> set os"
  shows "\<exists>h'. hs_append (Some y) (h, hd_or os None, last_or None os) =
      (h', hd_or (os @ [y]) None, last_or None (os @ [y])) \<and>
    hs_out h' (os @ [y]) \<and> order_frame (set os) h h'"
proof (cases os rule: rev_cases)
  case Nil
  then show ?thesis
    by (simp add: hs_append_def hs_out_def order_frame_def same_but_order_def)
next
  case (snoc us z)
  let ?h' = "h\<lparr>hh_next_elt := (hh_next_elt h)(z := Some y), hh_prev_elt := (hh_prev_elt h)(y := Some z)\<rparr>"
  have "hs_append (Some y) (h, hd_or os None, last_or None os) =
      (?h', hd_or (os @ [y]) None, last_or None (os @ [y]))"
    by (cases us) (simp_all add: hs_append_def snoc last_or_def)
  moreover have "last_or None (us @ [z, y]) = Some y" by (simp add: last_or_def)
  then have "hs_out ?h' (os @ [y])" using assms by (auto simp: hs_out_def snoc)
  moreover have "order_frame (set os) h ?h'" by (simp add: snoc order_frame_def same_but_order_def)
  ultimately show ?thesis by blast
qed

lemma of_nat_u32_Suc: "(of_nat (Suc n) :: u32) - 1 = of_nat n"
  by simp

lemma of_nat_u32_pos: "n < 2 ^ 32 \<Longrightarrow> 0 < (of_nat n :: u32) \<longleftrightarrow> 0 < n"
  using of_nat_u32_eq_0 [of n] by (simp add: word_neq_0_conv [symmetric])

lemma of_nat_u32_less: "m < 2 ^ 32 \<Longrightarrow> n < 2 ^ 32 \<Longrightarrow> (of_nat m :: u32) < of_nat n \<longleftrightarrow> m < n"
  by (simp add: word_less_nat_alt unat_of_nat_u32)

lemma hs_advance_run:
  assumes "sll nx xs None" and "xs \<noteq> []" and "j \<le> k" and "k < 2 ^ 32"
  shows "hs_advance nx (of_nat k) (of_nat j) (hd_or xs None) (of_nat j) =
    Some (hd_or (drop (k - j) xs) None, of_nat (j + min (k - j) (length xs)))"
  using assms
proof (induction xs arbitrary: j)
  case (Cons x xs)
  show ?case
  proof (cases "j < k")
    case True
    then have lt: "(of_nat j :: u32) < of_nat k" using Cons.prems(4) by (simp add: of_nat_u32_less)
    have d: "k - j = Suc (k - Suc j)" using True by simp
    show ?thesis
    proof (cases "xs = []")
      case True
      then show ?thesis using lt d Cons.prems(1) by (subst hs_advance.simps) (simp add: add.commute)
    next
      case False
      have "hs_advance nx (of_nat k) (of_nat (Suc j)) (hd_or xs None) (of_nat (Suc j)) =
          Some (hd_or (drop (k - Suc j) xs) None, of_nat (Suc j + min (k - Suc j) (length xs)))"
        by (rule Cons.IH) (use Cons.prems True False in auto)
      then show ?thesis
        using lt d Cons.prems(1) False by (subst hs_advance.simps) (simp add: add.commute add.left_commute)
    qed
  next
    case False
    then have "j = k" using Cons.prems(3) by simp
    then show ?thesis by (subst hs_advance.simps) simp
  qed
qed simp

text \<open>One round of the merge loop: the element the list level takes, the rest of the runs.\<close>

lemma hs_merge_done:
  "hs_psize r = 0 \<Longrightarrow> hs_qsize r = 0 \<or> hs_q r = None \<Longrightarrow> hs_merge c r s = Some (hs_q r, s)"
  by (subst hs_merge.simps) auto

lemma hs_merge_step:
  assumes "0 < hs_psize r \<or> 0 < hs_qsize r \<and> hs_q r \<noteq> None" and "hs_take c (fst s) r = Some (e, r')"
  shows "hs_merge c r s = hs_merge c r' (hs_append e s)"
  using assms by (subst hs_merge.simps) simp

lemma hs_merge_runs:
  assumes "hs_out h os" and "distinct (os @ ps @ qs)"
    and "sll (hh_next_elt h) ps e0" and "sll (hh_next_elt h) qs None"
    and "ps \<noteq> [] \<longrightarrow> p = hd_or ps None" and "length ps < 2 ^ 32" and "n < 2 ^ 32"
  shows "\<exists>h' os'. hs_merge c \<lparr>hs_p = p, hs_q = hd_or qs None, hs_psize = of_nat (length ps), hs_qsize = of_nat n\<rparr>
      (h, hd_or os None, last_or None os) =
      Some (hd_or (drop n qs) None, h', hd_or os' None, last_or None os') \<and>
    os' = os @ merge_runs c ps (take n qs) \<and> hs_out h' os' \<and> order_frame (set os') h h'"
  using assms
proof (induction "length ps + min n (length qs)" arbitrary: h os ps qs p n rule: less_induct)
  case less
  let ?r = "\<lparr>hs_p = p, hs_q = hd_or qs None, hs_psize = of_nat (length ps), hs_qsize = of_nat n\<rparr>"
  have psz: "(of_nat (length ps) :: u32) = 0 \<longleftrightarrow> ps = []" "0 < (of_nat (length ps) :: u32) \<longleftrightarrow> ps \<noteq> []"
    using of_nat_u32_eq_0 [OF less.prems(6)] of_nat_u32_pos [OF less.prems(6)] by simp_all
  have qsz: "(of_nat n :: u32) = 0 \<longleftrightarrow> n = 0" "0 < (of_nat n :: u32) \<longleftrightarrow> 0 < n"
    using of_nat_u32_eq_0 [OF less.prems(7)] of_nat_u32_pos [OF less.prems(7)] by simp_all
  consider "ps = []" "n = 0 \<or> qs = []"
    | y qs' n' where "qs = y # qs'" "n = Suc n'" "ps = [] \<or> \<not> c (hd ps) y \<le> 0"
    | x ps' where "ps = x # ps'" "n = 0 \<or> qs = [] \<or> c x (hd qs) \<le> 0"
    by (cases ps; cases qs; cases n) auto
  then show ?case
  proof cases
    case 1
    then have "hs_merge c ?r (h, hd_or os None, last_or None os) =
        Some (hd_or (drop n qs) None, h, hd_or os None, last_or None os)"
      using psz qsz by (subst hs_merge_done) auto
    moreover have "take n qs = []" using 1 by auto
    ultimately show ?thesis using 1 less.prems(1)
      by (intro exI [of _ h] exI [of _ os]) (simp add: order_frame_def)
  next
    case 2
    obtain h1 where h1: "hs_append (Some y) (h, hd_or os None, last_or None os) =
          (h1, hd_or (os @ [y]) None, last_or None (os @ [y]))"
        "hs_out h1 (os @ [y])" "order_frame (set os) h h1"
      using hs_append_out [OF less.prems(1), of y] less.prems(2) 2(1) by auto
    have "hs_take c h ?r = Some (Some y, ?r\<lparr>hs_q := hd_or qs' None, hs_qsize := of_nat n'\<rparr>)"
      using 2 less.prems(4,5) psz qsz by (cases ps) (auto simp: hs_take_def hs_take_q_def)
    then have step: "hs_merge c ?r (h, hd_or os None, last_or None os) =
        hs_merge c (?r\<lparr>hs_q := hd_or qs' None, hs_qsize := of_nat n'\<rparr>) (h1, hd_or (os @ [y]) None, last_or None (os @ [y]))"
      using 2 qsz h1(1) by (subst hs_merge_step) auto
    have "sll (hh_next_elt h1) ps e0" "sll (hh_next_elt h1) qs' None"
      by (rule order_frame_sll [OF h1(3)]; use less.prems(2-4) 2(1) in auto)+
    with less.hyps [of ps n' qs' h1 "os @ [y]" p] less.prems 2(1,2) h1(2)
    obtain h' os' where res: "hs_merge c (?r\<lparr>hs_q := hd_or qs' None, hs_qsize := of_nat n'\<rparr>)
          (h1, hd_or (os @ [y]) None, last_or None (os @ [y])) =
        Some (hd_or (drop n' qs') None, h', hd_or os' None, last_or None os')"
        "os' = (os @ [y]) @ merge_runs c ps (take n' qs')" "hs_out h' os'" "order_frame (set os') h1 h'"
      by auto
    have "os' = os @ merge_runs c ps (take n qs)" using res(2) 2 by (cases ps) auto
    moreover have "order_frame (set os') h h'"
      by (rule order_frame_trans [OF h1(3) res(4)]) (use res(2) in auto)
    ultimately show ?thesis using step res(1,3) 2(1,2) by auto
  next
    case 3
    obtain h1 where h1: "hs_append (Some x) (h, hd_or os None, last_or None os) =
          (h1, hd_or (os @ [x]) None, last_or None (os @ [x]))"
        "hs_out h1 (os @ [x])" "order_frame (set os) h h1"
      using hs_append_out [OF less.prems(1), of x] less.prems(2) 3(1) by auto
    have "hs_take c h ?r = Some (Some x, ?r\<lparr>hs_p := hd_or ps' e0, hs_psize := of_nat (length ps')\<rparr>)"
      using 3 less.prems(3,5) psz qsz by (cases qs) (auto simp: hs_take_def hs_take_p_def)
    then have step: "hs_merge c ?r (h, hd_or os None, last_or None os) =
        hs_merge c (?r\<lparr>hs_p := hd_or ps' e0, hs_psize := of_nat (length ps')\<rparr>) (h1, hd_or (os @ [x]) None, last_or None (os @ [x]))"
      using 3 psz h1(1) by (subst hs_merge_step) auto
    have "sll (hh_next_elt h1) ps' e0" "sll (hh_next_elt h1) qs None"
      by (rule order_frame_sll [OF h1(3)]; use less.prems(2-4) 3(1) in auto)+
    moreover have "ps' \<noteq> [] \<longrightarrow> hd_or ps' e0 = hd_or ps' None" by (cases ps') auto
    ultimately obtain h' os' where res: "hs_merge c (?r\<lparr>hs_p := hd_or ps' e0, hs_psize := of_nat (length ps')\<rparr>)
          (h1, hd_or (os @ [x]) None, last_or None (os @ [x])) =
        Some (hd_or (drop n qs) None, h', hd_or os' None, last_or None os')"
        "os' = (os @ [x]) @ merge_runs c ps' (take n qs)" "hs_out h' os'" "order_frame (set os') h1 h'"
      using less.hyps [of ps' n qs h1 "os @ [x]" "hd_or ps' e0"] less.prems 3(1) h1(2) by auto
    have "os' = os @ merge_runs c ps (take n qs)" using res(2) 3 by (cases "take n qs") (cases qs; cases n; auto)+
    moreover have "order_frame (set os') h h'"
      by (rule order_frame_trans [OF h1(3) res(4)]) (use res(2) in auto)
    ultimately show ?thesis using step res(1,3) by auto
  qed
qed

text \<open>One pass. The number of merges decides whether it is the last one.\<close>

lemma hs_pass_list:
  assumes "hs_out h os" and "distinct (os @ xs)" and "sll (hh_next_elt h) xs None"
    and "0 < k" and "k < 2 ^ 32"
  shows "\<exists>h' os' n. hs_pass c (of_nat k) (hd_or xs None) (h, hd_or os None, last_or None os) (of_nat m) =
      Some ((h', hd_or os' None, last_or None os'), of_nat (m + n)) \<and>
    os' = os @ pass_list c k xs \<and> hs_out h' os' \<and> order_frame (set os') h h' \<and>
    n \<le> length xs \<and> (n = 0 \<longleftrightarrow> xs = []) \<and> (n \<le> 1 \<longleftrightarrow> length xs \<le> 2 * k)"
  using assms
proof (induction "length xs" arbitrary: h os xs m rule: less_induct)
  case less
  show ?case
  proof (cases xs)
    case Nil
    then show ?thesis using less.prems(1)
      by (intro exI [of _ h] exI [of _ os] exI [of _ 0]) (simp add: hs_pass.simps order_frame_def)
  next
    case (Cons x ys)
    then have ne: "xs \<noteq> []" and hd: "hd_or xs None = Some x" by simp_all
    let ?p = "take k xs" and ?q = "drop k xs" and ?rest = "drop (k + k) xs"
    have adv: "hs_advance (hh_next_elt h) (of_nat k) 0 (Some x) 0 =
        Some (hd_or ?q None, of_nat (length ?p))"
      using hs_advance_run [OF less.prems(3) ne, of 0 k] less.prems(5) hd by (simp add: min.commute)
    have split: "sll (hh_next_elt h) ?p (hd_or ?q None)" "sll (hh_next_elt h) ?q None"
      using less.prems(3) sll_append [of "hh_next_elt h" ?p ?q None] by simp_all
    have dist: "distinct (os @ ?p @ ?q)" using less.prems(2) by simp
    have hd': "Some x = hd_or ?p None" using Cons less.prems(4) by (cases k) auto
    then have pp: "?p \<noteq> [] \<longrightarrow> Some x = hd_or ?p None" by simp
    have lp: "length ?p < 2 ^ 32" using less.prems(5) by simp
    obtain h1 os1 where m1: "hs_merge c \<lparr>hs_p = Some x, hs_q = hd_or ?q None,
          hs_psize = of_nat (length ?p), hs_qsize = of_nat k\<rparr> (h, hd_or os None, last_or None os) =
        Some (hd_or (drop k ?q) None, h1, hd_or os1 None, last_or None os1)"
        "os1 = os @ merge_runs c ?p (take k ?q)" "hs_out h1 os1" "order_frame (set os1) h h1"
      using hs_merge_runs [OF less.prems(1) dist split pp lp less.prems(5), of c] by blast
    have rest: "drop k ?q = ?rest" by simp
    have parts: "mset xs = mset ?p + mset (take k ?q) + mset ?rest"
      by (metis append_take_drop_id mset_append rest add.assoc)
    then have setparts: "mset (os1 @ ?rest) = mset (os @ xs)" by (simp add: m1(2))
    have d1: "distinct (os1 @ ?rest)"
      using less.prems(2) setparts by (metis mset_eq_imp_distinct_iff)
    have s1: "sll (hh_next_elt h1) ?rest None"
    proof (rule order_frame_sll [OF m1(4)])
      show "set ?rest \<inter> set os1 = {}" using d1 by auto
      show "sll (hh_next_elt h) ?rest None"
        by (metis append_take_drop_id rest sll_append split(2))
    qed
    have len: "length ?rest < length xs" using ne less.prems(4) by simp
    obtain h' os' n where res: "hs_pass c (of_nat k) (hd_or ?rest None) (h1, hd_or os1 None, last_or None os1)
          (of_nat (Suc m)) = Some ((h', hd_or os' None, last_or None os'), of_nat (Suc m + n))"
        "os' = os1 @ pass_list c k ?rest" "hs_out h' os'" "order_frame (set os') h1 h'"
        "n \<le> length ?rest" "n = 0 \<longleftrightarrow> ?rest = []"
      using less.hyps [OF len m1(3) d1 s1 less.prems(4,5), of "Suc m"] by blast
    have "hs_pass c (of_nat k) (hd_or xs None) (h, hd_or os None, last_or None os) (of_nat m) =
        Some ((h', hd_or os' None, last_or None os'), of_nat (m + Suc n))"
      using adv m1(1) res(1) hd by (subst hs_pass.simps) (simp add: add.commute)
    moreover have "os' = os @ pass_list c k xs"
      using res(2) m1(2) ne less.prems(4) by (subst pass_list.simps) (simp add: mult_2)
    moreover have "order_frame (set os') h h'"
      by (rule order_frame_trans [OF m1(4) res(4)]) (use res(2) in auto)
    moreover have "Suc n \<le> length xs" using res(5) len by simp
    moreover have "Suc n \<le> 1 \<longleftrightarrow> length xs \<le> 2 * k" using res(6) by (simp add: mult_2)
    ultimately show ?thesis using res(3) ne by (intro exI [of _ h'] exI [of _ os'] exI [of _ "Suc n"]) simp
  qed
qed

text \<open>All passes, for any comparison function.\<close>

lemma hs_loop_list:
  assumes "dlseg (hh_next_elt h) (hh_prev_elt h) None xs None" and "distinct xs"
    and "xs \<noteq> []" and "length xs < 2 ^ 32" and "0 < k" and "k < 2 ^ 32"
  shows "\<exists>h'. hs_loop c (of_nat k) h (hd_or xs None) =
      Some (h', hd_or (srt_list c k xs) None, last_or None (srt_list c k xs)) \<and>
    dlseg (hh_next_elt h') (hh_prev_elt h') None (srt_list c k xs) None \<and> same_but_order h h'"
  using assms
proof (induction "length xs - k" arbitrary: k h xs rule: less_induct)
  case less
  let ?ys = "pass_list c k xs"
  have sll: "sll (hh_next_elt h) xs None"
    using less.prems(1) by (rule dlseg_sll)
  obtain h1 n where p: "hs_pass c (of_nat k) (hd_or xs None) (h, None, None) 0 =
        Some ((h1, hd_or ?ys None, last_or None ?ys), of_nat n)"
      "hs_out h1 ?ys" "order_frame (set ?ys) h h1" "n \<le> length xs" "n \<le> 1 \<longleftrightarrow> length xs \<le> 2 * k"
    using hs_pass_list [of h "[]" xs k c 0] less.prems sll by auto
  let ?h2 = "h1\<lparr>hh_next_elt := opt_upd (hh_next_elt h1) (last_or None ?ys) None\<rparr>"
  have cl: "hs_close (h1, hd_or ?ys None, last_or None ?ys) = (?h2, hd_or ?ys None, last_or None ?ys)"
    by (simp add: hs_close_def)
  have d2: "dlseg (hh_next_elt ?h2) (hh_prev_elt ?h2) None ?ys None"
    using p(2) by (simp add: hs_out_def)
  have same: "same_but_order h ?h2"
    using p(3) by (simp add: order_frame_def same_but_order_def)
  have cnt: "(of_nat n :: u32) \<le> 1 \<longleftrightarrow> length xs \<le> 2 * k"
    using p(4,5) less.prems(4) by (simp add: word_le_nat_alt unat_of_nat_u32)
  show ?case
  proof (cases "length xs \<le> 2 * k")
    case True
    then have "srt_list c k xs = ?ys" by (subst srt_list.simps) simp
    moreover have "hs_loop c (of_nat k) h (hd_or xs None) = Some (?h2, hd_or ?ys None, last_or None ?ys)"
      using p(1) cnt True cl by (subst hs_loop.simps) simp
    ultimately show ?thesis using d2 same by auto
  next
    case False
    have srt: "srt_list c k xs = srt_list c (2 * k) ?ys"
      using False less.prems(5) by (subst srt_list.simps) simp
    have len: "length ?ys = length xs" using less.prems(5) by simp
    have ms: "mset ?ys = mset xs" using less.prems(5) by simp
    have dist: "distinct ?ys" using ms less.prems(2) by (metis mset_eq_imp_distinct_iff)
    have ne: "?ys \<noteq> []" using len less.prems(3) by auto
    have "\<exists>h'. hs_loop c (of_nat (2 * k)) ?h2 (hd_or ?ys None) =
        Some (h', hd_or (srt_list c (2 * k) ?ys) None, last_or None (srt_list c (2 * k) ?ys)) \<and>
      dlseg (hh_next_elt h') (hh_prev_elt h') None (srt_list c (2 * k) ?ys) None \<and> same_but_order ?h2 h'"
      by (rule less.hyps [OF _ d2 dist ne]) (use False less.prems len in auto)
    moreover have "hs_loop c (of_nat k) h (hd_or xs None) = hs_loop c (of_nat (2 * k)) ?h2 (hd_or ?ys None)"
      using p(1) cnt False cl by (subst hs_loop.simps) (simp add: mult.commute)
    ultimately show ?thesis unfolding srt using same_but_order_trans [OF same] by auto
  qed
qed

section \<open>The table\<close>

text \<open>
  Whatever the comparison function answers, the sort ends, the table is well formed again and
  only the application order has changed.
\<close>

lemma HASH_SRT_rep:
  assumes rep: "ut_rep u xs"
  shows "\<exists>u'. HASH_SRT c u = Some u' \<and> ut_rep u' (srt_list c 1 xs) \<and> hh_key (ut_hh u') = hh_key (ut_hh u)"
proof (cases "xs = []")
  case True
  then show ?thesis using rep ut_repD(5) [OF rep] by (simp add: HASH_SRT_def srt_list.simps)
next
  case False
  let ?ys = "srt_list c 1 xs" and ?h = "ut_hh u"
  obtain t where t: "the_tbl u = Some t" "num_items t = of_nat (length xs)"
      "\<forall>a \<in> set xs. hh_hashv ?h a = hash_int (hh_key ?h a)" "bt_rep ?h t (set xs)"
    by (rule ut_rep_tblE [OF rep False])
  obtain h' where h': "hs_loop c 1 ?h (hd_or xs None) = Some (h', hd_or ?ys None, last_or None ?ys)"
      "dlseg (hh_next_elt h') (hh_prev_elt h') None ?ys None" "same_but_order ?h h'"
    using hs_loop_list [OF ut_repD(4,1) [OF rep] False ut_repD(2) [OF rep], of 1 c] by auto
  have ms: "mset ?ys = mset xs" by simp
  note perm = mset_eq_setD [OF ms] mset_eq_length [OF ms] mset_eq_imp_distinct_iff [OF ms]
  let ?u = "\<lparr>ut_head = hd_or ?ys None, ut_tbl = Some (t\<lparr>tail := last_or None ?ys\<rparr>), ut_hh = h'\<rparr>"
  have ne: "?ys \<noteq> []" using perm(2) False by auto
  have keys: "distinct (map (hh_key h') ?ys)"
    using ut_repD(3) [OF rep] perm h'(3) by (simp add: distinct_map same_but_order_def)
  have "HASH_SRT c u = Some ?u"
    using t(1) h'(1) ut_repD(5) [OF rep] False by (cases xs) (simp_all add: HASH_SRT_def)
  moreover have "ut_rep ?u ?ys"
  proof -
    have "bt_rep h' (t\<lparr>tail := last_or None ?ys\<rparr>) (set ?ys)"
      using t(4) h'(3) perm(1) by (simp add: bt_rep_def same_but_order_def)
    then show ?thesis
      using ut_repD(1-3) [OF rep] perm t(2,3) h'(2,3) ne keys
      by (auto simp: ut_rep_def same_but_order_def last_or_def)
  qed
  ultimately show ?thesis using h'(3) by (auto simp: same_but_order_def)
qed

end
