(* ===== verification/Uthash_Hash.thy ===== *)
theory Uthash_Hash
  imports Uthash_Correct
begin

text \<open>
  The other hash functions that \<open>src/net/uthash.h\<close> offers in place of Jenkins' (selected with
  \<open>HASH_FUNCTION\<close>), and the bloom filter that a build with \<open>HASH_BLOOM\<close> puts in front of the
  buckets. A key is the list of its bytes; where the code reads it through \<open>const char *\<close> the
  bytes are signed, hence \<open>scast\<close>.
\<close>

section \<open>Hash functions\<close>

definition HASH_BER :: "bytes \<Rightarrow> u32" where
  "HASH_BER key = foldl (\<lambda>hashv c. (push_bit 5 hashv + hashv) + scast c) 0 key"

definition HASH_SAX :: "bytes \<Rightarrow> u32" where
  "HASH_SAX key = foldl (\<lambda>hashv c. hashv XOR (push_bit 5 hashv + drop_bit 2 hashv + scast c)) 0 key"

definition HASH_FNV :: "bytes \<Rightarrow> u32" where
  "HASH_FNV key = foldl (\<lambda>hashv c. (hashv XOR scast c) * 16777619) 2166136261 key"

definition oat_step :: "u32 \<Rightarrow> byte \<Rightarrow> u32" where
  "oat_step hashv c =
    (let hashv = hashv + scast c; hashv = hashv + push_bit 10 hashv in hashv XOR drop_bit 6 hashv)"

definition HASH_OAT :: "bytes \<Rightarrow> u32" where
  "HASH_OAT key =
    (let hashv = foldl oat_step 0 key;
         hashv = hashv + push_bit 3 hashv;
         hashv = hashv XOR drop_bit 11 hashv
     in hashv + push_bit 15 hashv)"

text \<open>\<open>get16bits\<close>: two bytes, the low one first.\<close>

definition get16bits :: "bytes \<Rightarrow> nat \<Rightarrow> u32" where
  "get16bits key off = push_bit 8 (ucast (key ! (off + 1))) + ucast (key ! off)"

text \<open>The main loop takes four bytes at a time and leaves the remaining ones.\<close>

function sfh_loop :: "bytes \<Rightarrow> u32 \<Rightarrow> bytes \<times> u32" where
  "sfh_loop key hashv =
    (if 4 \<le> length key
     then (let hashv = hashv + get16bits key 0;
               tmp = push_bit 11 (get16bits key 2) XOR hashv;
               hashv = push_bit 16 hashv XOR tmp
           in sfh_loop (drop 4 key) (hashv + drop_bit 11 hashv))
     else (key, hashv))"
  by pat_completeness auto
termination
  by (relation "measure (\<lambda>(key, _). length key)") auto

definition sfh_end :: "bytes \<Rightarrow> u32 \<Rightarrow> u32" where
  "sfh_end rest hashv =
    (if length rest = 3
     then (let hashv = hashv + get16bits rest 0;
               hashv = hashv XOR push_bit 16 hashv;
               hashv = hashv XOR push_bit 18 (ucast (rest ! 2))
           in hashv + drop_bit 11 hashv)
     else if length rest = 2
     then (let hashv = hashv + get16bits rest 0;
               hashv = hashv XOR push_bit 11 hashv
           in hashv + drop_bit 17 hashv)
     else if length rest = 1
     then (let hashv = hashv + ucast (rest ! 0);
               hashv = hashv XOR push_bit 10 hashv
           in hashv + drop_bit 1 hashv)
     else hashv)"

definition HASH_SFH :: "bytes \<Rightarrow> u32" where
  "HASH_SFH key =
    (let (rest, hashv) = sfh_loop key 0xcafebabe;
         hashv = sfh_end rest hashv;
         hashv = hashv XOR push_bit 3 hashv;
         hashv = hashv + drop_bit 5 hashv;
         hashv = hashv XOR push_bit 4 hashv;
         hashv = hashv + drop_bit 17 hashv;
         hashv = hashv XOR push_bit 25 hashv
     in hashv + drop_bit 6 hashv)"

section \<open>MurmurHash\<close>

definition MUR_ROTL32 :: "u32 \<Rightarrow> nat \<Rightarrow> u32" where
  "MUR_ROTL32 x r = push_bit r x OR drop_bit (32 - r) x"

definition MUR_FMIX :: "u32 \<Rightarrow> u32" where
  "MUR_FMIX h =
    (let h = h XOR drop_bit 16 h; h = h * 0x85ebca6b;
         h = h XOR drop_bit 13 h; h = h * 0xc2b2ae35
     in h XOR drop_bit 16 h)"

definition mur_c1 :: u32 where "mur_c1 = 0xcc9e2d51"
definition mur_c2 :: u32 where "mur_c2 = 0x1b873593"

definition mur_block :: "u32 \<Rightarrow> u32 \<Rightarrow> u32" where
  "mur_block h1 k1 =
    (let k1 = k1 * mur_c1; k1 = MUR_ROTL32 k1 15; k1 = k1 * mur_c2;
         h1 = h1 XOR k1; h1 = MUR_ROTL32 h1 13
     in h1 * 5 + 0xe6546b64)"

text \<open>The \<open>switch\<close> on the one to three bytes behind the last block falls through.\<close>

definition mur_tail :: "bytes \<Rightarrow> u32 \<Rightarrow> u32" where
  "mur_tail rest h1 =
    (if rest = [] then h1
     else (let k1 = (if length rest = 3 then push_bit 16 (ucast (rest ! 2)) else 0);
               k1 = (if 2 \<le> length rest then k1 XOR push_bit 8 (ucast (rest ! 1)) else k1);
               k1 = k1 XOR ucast (rest ! 0);
               k1 = k1 * mur_c1; k1 = MUR_ROTL32 k1 15; k1 = k1 * mur_c2
           in h1 XOR k1))"

text \<open>
  \<open>getblock\<close> is \<open>MUR_GETBLOCK(_mur_blocks,_mur_i)\<close>, where \<open>_mur_i\<close> runs from minus the number of
  blocks up to \<open>-1\<close>.
\<close>

definition HASH_MUR :: "(int \<Rightarrow> u32) \<Rightarrow> bytes \<Rightarrow> u32" where
  "HASH_MUR getblock key =
    (let nblocks = length key div 4;
         h1 = foldl (\<lambda>h1 j. mur_block h1 (getblock (int j - int nblocks))) 0xf88D5353 [0..<nblocks];
         h1 = mur_tail (drop (4 * nblocks) key) h1
     in MUR_FMIX (h1 XOR of_nat (length key)))"

text \<open>The four bytes at an address, as a little-endian machine reads them in one load.\<close>

definition le_load :: "(nat \<Rightarrow> byte) \<Rightarrow> nat \<Rightarrow> u32" where
  "le_load mem a = ucast (mem a) OR push_bit 8 (ucast (mem (a + 1)))
     OR push_bit 16 (ucast (mem (a + 2))) OR push_bit 24 (ucast (mem (a + 3)))"

text \<open>On x86, and on other machines for an aligned pointer: the block \<open>p[i]\<close>.\<close>

definition mur_index :: "(nat \<Rightarrow> byte) \<Rightarrow> nat \<Rightarrow> int \<Rightarrow> u32" where
  "mur_index mem p i = le_load mem (nat (int p + 4 * i))"

text \<open>The aligned word that contains the byte at \<open>p\<close>, and the pieces of two adjacent ones.\<close>

definition WP :: "nat \<Rightarrow> nat" where "WP p = 4 * (p div 4)"

definition MUR_THREE_ONE :: "(nat \<Rightarrow> byte) \<Rightarrow> nat \<Rightarrow> u32" where
  "MUR_THREE_ONE mem p = drop_bit 8 (le_load mem (WP p) AND 0xffffff00)
     OR push_bit 24 (le_load mem (WP p + 4) AND 0x000000ff)"

definition MUR_TWO_TWO :: "(nat \<Rightarrow> byte) \<Rightarrow> nat \<Rightarrow> u32" where
  "MUR_TWO_TWO mem p = drop_bit 16 (le_load mem (WP p) AND 0xffff0000)
     OR push_bit 16 (le_load mem (WP p + 4) AND 0x0000ffff)"

definition MUR_ONE_THREE :: "(nat \<Rightarrow> byte) \<Rightarrow> nat \<Rightarrow> u32" where
  "MUR_ONE_THREE mem p = drop_bit 24 (le_load mem (WP p) AND 0xff000000)
     OR push_bit 8 (le_load mem (WP p + 4) AND 0x00ffffff)"

text \<open>The macro for other machines. For a pointer that is not aligned it does not use \<open>i\<close>.\<close>

definition MUR_GETBLOCK :: "(nat \<Rightarrow> byte) \<Rightarrow> nat \<Rightarrow> int \<Rightarrow> u32" where
  "MUR_GETBLOCK mem p i =
    (if p mod 4 = 0 then mur_index mem p i
     else if p mod 4 = 1 then MUR_THREE_ONE mem p
     else if p mod 4 = 2 then MUR_TWO_TWO mem p
     else MUR_ONE_THREE mem p)"

text \<open>Hashing the \<open>len\<close> bytes at address \<open>a\<close> on x86 and on another little-endian machine.\<close>

definition HASH_MUR_x86 :: "(nat \<Rightarrow> byte) \<Rightarrow> nat \<Rightarrow> nat \<Rightarrow> u32" where
  "HASH_MUR_x86 mem a len = HASH_MUR (mur_index mem (a + 4 * (len div 4))) (map mem [a..<a + len])"

definition HASH_MUR_other :: "(nat \<Rightarrow> byte) \<Rightarrow> nat \<Rightarrow> nat \<Rightarrow> u32" where
  "HASH_MUR_other mem a len = HASH_MUR (MUR_GETBLOCK mem (a + 4 * (len div 4))) (map mem [a..<a + len])"

section \<open>The bloom filter\<close>

text \<open>\<open>nbits\<close> is \<open>HASH_BLOOM\<close>, kept in \<open>bloom_nbits\<close>; the filter is the byte array \<open>bloom_bv\<close>.\<close>

definition HASH_BLOOM_BYTELEN :: "nat \<Rightarrow> nat" where
  "HASH_BLOOM_BYTELEN nbits = 2 ^ nbits div 8 + (if (2 :: nat) ^ nbits mod 8 \<noteq> 0 then 1 else 0)"

definition HASH_BLOOM_MAKE :: "nat \<Rightarrow> bytes" where
  "HASH_BLOOM_MAKE nbits = replicate (HASH_BLOOM_BYTELEN nbits) 0"

definition bloom_index :: "nat \<Rightarrow> u32 \<Rightarrow> nat" where
  "bloom_index nbits hashv = unat (hashv AND ucast ((push_bit nbits 1 :: u64) - 1))"

definition HASH_BLOOM_ADD :: "nat \<Rightarrow> u32 \<Rightarrow> bytes \<Rightarrow> bytes option" where
  "HASH_BLOOM_ADD nbits hashv bv =
    (let idx = bloom_index nbits hashv in
     if idx div 8 < length bv then Some (bv[idx div 8 := (bv ! (idx div 8)) OR push_bit (idx mod 8) 1]) else None)"

definition HASH_BLOOM_TEST :: "nat \<Rightarrow> u32 \<Rightarrow> bytes \<Rightarrow> bool option" where
  "HASH_BLOOM_TEST nbits hashv bv =
    (let idx = bloom_index nbits hashv in
     if idx div 8 < length bv then Some ((bv ! (idx div 8)) AND push_bit (idx mod 8) 1 \<noteq> 0) else None)"

text \<open>\<open>HASH_FIND\<close> as a build with the filter has it: the bucket is searched when the test passes.\<close>

definition HASH_FIND_BLOOM :: "nat \<Rightarrow> bytes \<Rightarrow> uthash \<Rightarrow> u32 \<Rightarrow> addr option option" where
  "HASH_FIND_BLOOM nbits bv u key =
    (case ut_head u of
       None \<Rightarrow> Some None
     | Some _ \<Rightarrow> do {
         pass \<leftarrow> HASH_BLOOM_TEST nbits (hash_int key) bv;
         if pass then HASH_FIND_INT u key else Some None })"

section \<open>Lemmas on the hash functions\<close>

text \<open>Bernstein's hash is the value of the key as a number in base 33.\<close>

lemma HASH_BER_horner: "HASH_BER key = (\<Sum>i < length key. scast (key ! i) * 33 ^ (length key - Suc i))"
proof (induction key rule: rev_induct)
  case Nil
  show ?case by (simp add: HASH_BER_def)
next
  case (snoc c key)
  have "push_bit 5 h + h = h * 33" for h :: u32
    by (simp add: push_bit_eq_mult)
  then have "HASH_BER (key @ [c]) = HASH_BER key * 33 + scast c"
    by (simp add: HASH_BER_def)
  also have "HASH_BER key * 33 = (\<Sum>i < length key. scast ((key @ [c]) ! i) * 33 ^ (Suc (length key) - Suc i))"
    unfolding snoc sum_distrib_right
  proof (rule sum.cong)
    fix i assume "i \<in> {..<length key}"
    then have "Suc (length key) - Suc i = Suc (length key - Suc i)" and "(key @ [c]) ! i = key ! i"
      by (simp_all add: nth_append)
    then show "scast (key ! i) * 33 ^ (length key - Suc i) * 33 =
        (scast ((key @ [c]) ! i) * 33 ^ (Suc (length key) - Suc i) :: u32)"
      by (simp only: power_Suc2 mult.assoc)
  qed simp
  finally show ?case by simp
qed

lemma MUR_GETBLOCK_aligned: "p mod 4 = 0 \<Longrightarrow> MUR_GETBLOCK mem p i = mur_index mem p i"
  by (simp add: MUR_GETBLOCK_def)

lemma HASH_MUR_aligned: "a mod 4 = 0 \<Longrightarrow> HASH_MUR_other mem a len = HASH_MUR_x86 mem a len"
proof -
  assume "a mod 4 = 0"
  then have "(a + 4 * (len div 4)) mod 4 = 0" by simp
  then have "MUR_GETBLOCK mem (a + 4 * (len div 4)) = mur_index mem (a + 4 * (len div 4))"
    by (intro ext MUR_GETBLOCK_aligned)
  then show ?thesis by (simp add: HASH_MUR_other_def HASH_MUR_x86_def)
qed

text \<open>On a pointer that is not aligned every block is read at the end of the key, whatever its index.\<close>

lemma MUR_GETBLOCK_ignores_index: "p mod 4 \<noteq> 0 \<Longrightarrow> MUR_GETBLOCK mem p i = MUR_GETBLOCK mem p j"
  by (simp add: MUR_GETBLOCK_def)

text \<open>
  The same four bytes at an aligned and at an odd address get different hash values, where the
  variant for x86 gives equal ones.
\<close>

definition twice_stored :: "nat \<Rightarrow> byte" where
  "twice_stored a = (if a = 4 \<or> a = 9 then 7 else 0)"

lemma mur_unaligned_key_differs:
  "map twice_stored [4..<8] = map twice_stored [9..<13]"
  "HASH_MUR_x86 twice_stored 4 4 = HASH_MUR_x86 twice_stored 9 4"
  "HASH_MUR_other twice_stored 4 4 \<noteq> HASH_MUR_other twice_stored 9 4"
  by code_simp+

section \<open>Lemmas on the bloom filter\<close>

lemma bloom_index_bound:
  assumes "nbits \<le> 32"
  shows "bloom_index nbits hashv < 2 ^ nbits"
proof -
  have "(push_bit nbits 1 :: u64) - 1 = mask nbits" by (simp add: mask_eq_exp_minus_1 push_bit_eq_mult)
  then have "(ucast ((push_bit nbits 1 :: u64) - 1) :: u32) = mask nbits"
    using assms by (intro bit_word_eqI) (auto simp: bit_mask_iff bit_ucast_iff possible_bit_word)
  then have "bloom_index nbits hashv = take_bit nbits (unat hashv)"
    by (simp add: bloom_index_def flip: take_bit_eq_mask unsigned_take_bit_eq)
  then show ?thesis by simp
qed

lemma bloom_index_byte:
  assumes "nbits \<le> 32"
  shows "bloom_index nbits hashv div 8 < HASH_BLOOM_BYTELEN nbits"
proof -
  have "bloom_index nbits hashv div 8 * 8 < 2 ^ nbits"
    using bloom_index_bound [OF assms, of hashv] by (meson div_times_less_eq_dividend le_less_trans)
  moreover have "(2 :: nat) ^ nbits \<le> HASH_BLOOM_BYTELEN nbits * 8"
    unfolding HASH_BLOOM_BYTELEN_def using div_mult_mod_eq [of "(2 :: nat) ^ nbits" 8]
      mod_less_divisor [of 8 "(2 :: nat) ^ nbits"] by auto
  ultimately show ?thesis by simp
qed

text \<open>The filter after the hash values \<open>hs\<close> were added to a new one.\<close>

definition bloom_of :: "nat \<Rightarrow> u32 list \<Rightarrow> bytes option" where
  "bloom_of nbits hs = foldl (\<lambda>bv hv. Option.bind bv (HASH_BLOOM_ADD nbits hv)) (Some (HASH_BLOOM_MAKE nbits)) hs"

lemma bit_byte: "n < 8 \<Longrightarrow> (w AND push_bit n 1 \<noteq> 0) = bit (w :: byte) n"
  by (simp add: and_exp_eq_0_iff_not_bit push_bit_eq_mult)

lemma bloom_of_tests:
  assumes "nbits \<le> 32"
  shows "\<exists>bv. bloom_of nbits hs = Some bv \<and> length bv = HASH_BLOOM_BYTELEN nbits \<and>
    (\<forall>hv. HASH_BLOOM_TEST nbits hv bv = Some (\<exists>h \<in> set hs. bloom_index nbits h = bloom_index nbits hv))"
proof (induction hs rule: rev_induct)
  case Nil
  then show ?case
    using bloom_index_byte [OF assms]
    by (auto simp: bloom_of_def HASH_BLOOM_MAKE_def HASH_BLOOM_TEST_def Let_def)
next
  case (snoc h hs)
  then obtain bv where bv: "bloom_of nbits hs = Some bv" "length bv = HASH_BLOOM_BYTELEN nbits"
      "\<And>hv. HASH_BLOOM_TEST nbits hv bv = Some (\<exists>h \<in> set hs. bloom_index nbits h = bloom_index nbits hv)"
    by blast
  define i where "i = bloom_index nbits h"
  define bv' where "bv' = bv[i div 8 := (bv ! (i div 8)) OR push_bit (i mod 8) 1]"
  have i: "i div 8 < length bv" using bloom_index_byte [OF assms, of h] bv(2) by (simp add: i_def)
  have "bloom_of nbits (hs @ [h]) = Some bv'"
    using bv(1) i by (simp add: bloom_of_def HASH_BLOOM_ADD_def Let_def i_def bv'_def)
  moreover have "HASH_BLOOM_TEST nbits hv bv' =
      Some (\<exists>h' \<in> set (hs @ [h]). bloom_index nbits h' = bloom_index nbits hv)" for hv
  proof -
    define j where "j = bloom_index nbits hv"
    have j: "j div 8 < length bv" using bloom_index_byte [OF assms, of hv] bv(2) by (simp add: j_def)
    have old: "bit (bv ! (j div 8)) (j mod 8) \<longleftrightarrow> (\<exists>h \<in> set hs. bloom_index nbits h = j)"
      using bv(3) [of hv] j bit_byte [of "j mod 8" "bv ! (j div 8)"]
      by (simp add: HASH_BLOOM_TEST_def Let_def j_def)
    have "bit (bv' ! (j div 8)) (j mod 8) \<longleftrightarrow> bit (bv ! (j div 8)) (j mod 8) \<or> i = j"
    proof (cases "i div 8 = j div 8")
      case True
      then have "i = j \<longleftrightarrow> i mod 8 = j mod 8" by (metis div_mult_mod_eq)
      then show ?thesis using True i by (auto simp: bv'_def bit_or_iff bit_exp_iff possible_bit_word)
    next
      case False
      then show ?thesis by (auto simp: bv'_def)
    qed
    then show ?thesis
      using old j bit_byte [of "j mod 8" "bv' ! (j div 8)"]
      by (auto simp: HASH_BLOOM_TEST_def Let_def j_def i_def bv'_def)
  qed
  ultimately show ?case using bv(2) by (auto simp: bv'_def)
qed

text \<open>The filter never hides an element of the table.\<close>

lemma HASH_FIND_BLOOM_eq:
  assumes rep: "ut_rep u xs" and "nbits \<le> 32" and bv: "bloom_of nbits hs = Some bv"
    and added: "\<forall>a \<in> set xs. hash_int (hh_key (ut_hh u) a) \<in> set hs"
  shows "HASH_FIND_BLOOM nbits bv u k = HASH_FIND_INT u k"
proof (cases "ut_head u")
  case None
  then show ?thesis by (simp add: HASH_FIND_BLOOM_def HASH_FIND_INT_def)
next
  case (Some x)
  have t: "HASH_BLOOM_TEST nbits (hash_int k) bv =
      Some (\<exists>h \<in> set hs. bloom_index nbits h = bloom_index nbits (hash_int k))"
    using bloom_of_tests [OF assms(2), of hs] bv by auto
  show ?thesis
  proof (cases "\<exists>a \<in> set xs. hh_key (ut_hh u) a = k")
    case True
    then show ?thesis using Some t added by (auto simp: HASH_FIND_BLOOM_def)
  next
    case False
    then have "HASH_FIND_INT u k = Some None"
      unfolding HASH_FIND_INT_rep [OF rep] by (auto simp: find_None_iff)
    then show ?thesis using Some t by (simp add: HASH_FIND_BLOOM_def)
  qed
qed

end
