(* ===== verification/Uthash_Properties.thy ===== *)
theory Uthash_Properties
  imports Uthash_Ops_Correct Uthash_Sort Uthash_Hash
begin

text \<open>
  The properties of the hash table as a library of its own: the tables that any sequence of its
  operations builds, sorting, the integrity check, and selection into a second table.
\<close>

section \<open>Reachable tables\<close>

text \<open>Writing the key field of an element, which is the program's own data.\<close>

definition set_key :: "addr \<Rightarrow> u32 \<Rightarrow> uthash \<Rightarrow> uthash" where
  "set_key a k u = u\<lparr>ut_hh := (ut_hh u)\<lparr>hh_key := (hh_key (ut_hh u))(a := k)\<rparr>\<rparr>"

text \<open>
  The tables a program can build, with the list of their elements: it writes the keys of elements
  outside the table, adds elements under new keys, replaces, deletes, sorts and clears.
\<close>

inductive table_reach :: "(nat \<Rightarrow> bool) \<Rightarrow> uthash \<Rightarrow> addr list \<Rightarrow> bool" for avail where
  reach_empty: "table_reach avail empty_uthash []"
| reach_key: "table_reach avail u xs \<Longrightarrow> a \<notin> set xs \<Longrightarrow> table_reach avail (set_key a k u) xs"
| reach_add: "table_reach avail u xs \<Longrightarrow> a \<notin> set xs \<Longrightarrow> HASH_FIND_INT u (ut_key u a) = Some None \<Longrightarrow>
    Suc (length xs) < 2 ^ 32 \<Longrightarrow> HASH_ADD_INT (malloc_below avail) u a = Some u' \<Longrightarrow>
    table_reach avail u' (xs @ [a])"
| reach_replace: "table_reach avail u xs \<Longrightarrow> Suc (length xs) < 2 ^ 32 \<Longrightarrow>
    HASH_REPLACE_INT (malloc_below avail) u a = Some (r, u') \<Longrightarrow>
    table_reach avail u' (filter (\<lambda>b. ut_key u b \<noteq> ut_key u a) xs @ [a])"
| reach_del: "table_reach avail u xs \<Longrightarrow> a \<in> set xs \<Longrightarrow> HASH_DEL u a = Some u' \<Longrightarrow>
    table_reach avail u' (remove1 a xs)"
| reach_sort: "table_reach avail u xs \<Longrightarrow> HASH_SRT c u = Some u' \<Longrightarrow>
    table_reach avail u' (srt_list c 1 xs)"
| reach_clear: "table_reach avail u xs \<Longrightarrow> HASH_CLEAR u = Some u' \<Longrightarrow> table_reach avail u' []"

lemma table_reach_rep: "table_reach avail u xs \<Longrightarrow> ut_rep u xs"
proof (induction rule: table_reach.induct)
  case reach_empty
  show ?case by (rule ut_rep_empty)
next
  case (reach_key u xs a k)
  then show ?case by (simp add: set_key_def ut_rep_set_key)
next
  case (reach_add u xs a u')
  then show ?case using ut.add_law ut.find_None_iff by blast
next
  case (reach_replace u xs a r u')
  then show ?case
    using HASH_REPLACE_INT_rep [OF reach_replace.IH _ malloc_below_lim] by (simp add: ut_key_def)
next
  case (reach_del u xs a u')
  then show ?case using ut.del_law by fastforce
next
  case (reach_sort u xs c u')
  then show ?case using HASH_SRT_rep [of u xs c] by auto
next
  case (reach_clear u xs u')
  then show ?case using HASH_CLEAR_rep [of u xs] by auto
qed

text \<open>A table of up to 25 elements can be built when the allocator grants what is below 32 GiB.\<close>

lemma table_reach_exists:
  assumes "distinct xs" and "\<forall>a \<in> set xs. a < 2 ^ 32" and "length xs \<le> 25"
  shows "\<exists>u. table_reach (\<lambda>_. True) u xs \<and> (\<forall>a \<in> set xs. ut_key u a = of_nat a) \<and>
    (\<forall>t. ut_tbl u = Some t \<longrightarrow> (\<exists>l \<le> 5 + length xs. num_buckets t = 2 ^ l))"
  using assms
proof (induction xs rule: rev_induct)
  case Nil
  then show ?case using reach_empty [of "\<lambda>_. True"] by (intro exI [of _ empty_uthash]) (simp add: empty_uthash_def)
next
  case (snoc a xs)
  then obtain u where u: "table_reach (\<lambda>_. True) u xs" "\<forall>a \<in> set xs. ut_key u a = of_nat a"
      "\<forall>t. ut_tbl u = Some t \<longrightarrow> (\<exists>l \<le> 5 + length xs. num_buckets t = 2 ^ l)" by auto
  let ?u = "set_key a (of_nat a) u"
  have a: "a \<notin> set xs" using snoc.prems(1) by simp
  have r1: "table_reach (\<lambda>_. True) ?u xs" by (rule reach_key [OF u(1) a])
  have keys: "\<forall>b \<in> set (xs @ [a]). ut_key ?u b = of_nat b" using u(2) a by (auto simp: ut_key_def set_key_def)
  have new: "ut_key ?u a \<notin> ut_key ?u ` set xs"
  proof
    assume "ut_key ?u a \<in> ut_key ?u ` set xs"
    then obtain b where b: "b \<in> set xs" "(of_nat a :: u32) = of_nat b" using keys by auto
    then have "a = b" using snoc.prems(2) by (metis in_set_conv_decomp list.set_intros(1) set_append
        Un_iff unat_of_nat_u32)
    then show False using a b(1) by simp
  qed
  have room: "ut_room (malloc_below (\<lambda>_. True)) ?u"
  proof (cases "ut_tbl ?u")
    case None
    then show ?thesis by (simp add: ut_room_def malloc_below_def sizeof_UT_hash_table_def sizeof_UT_hash_bucket_def)
  next
    case (Some t)
    then obtain l where l: "l \<le> 5 + length xs" "num_buckets t = 2 ^ l" using u(3) by (auto simp: set_key_def)
    have "malloc_below (\<lambda>_. True) (unat (2 * num_buckets t) * sizeof_UT_hash_bucket)"
      by (rule doubling_below [OF l(2)]) (use l(1) snoc.prems(3) in \<open>simp_all add: malloc_below_def\<close>)
    then show ?thesis using Some by (simp add: ut_room_def)
  qed
  have len: "Suc (length xs) < 2 ^ 32" using snoc.prems(3) by simp
  obtain u' where u': "HASH_ADD_INT (malloc_below (\<lambda>_. True)) ?u a = Some u'"
    using HASH_ADD_INT_progress [OF table_reach_rep [OF r1] a len malloc_below_lim room]
    by (auto simp: malloc_below_def sizeof_UT_hash_bucket_def)
  have "HASH_FIND_INT ?u (ut_key ?u a) = Some None"
    using ut.find_None_iff [OF table_reach_rep [OF r1]] new by blast
  then have "table_reach (\<lambda>_. True) u' (xs @ [a])" by (rule reach_add [OF r1 a _ len u'])
  moreover have "ut_key u' = ut_key ?u"
    using ut.add_law [OF table_reach_rep [OF r1] a new len u'] by simp
  moreover have "\<forall>t. ut_tbl u' = Some t \<longrightarrow> (\<exists>l \<le> 5 + length (xs @ [a]). num_buckets t = 2 ^ l)"
    using HASH_ADD_INT_buckets [OF u', of "5 + length xs"] u(3) by (simp add: set_key_def)
  ultimately show ?case using keys by auto
qed



section \<open>Sorting\<close>

text \<open>
  C21: Sorting refines the stable sort: when the comparison function orders the elements as a
  comparator does, the sort ends, the elements come in the order of the library's stable sort, the
  table is well formed and every search finds what it found before.
\<close>

theorem uthash_sort_stable:
  assumes "ut_rep u xs" and "orders_as c cmp (set xs)"
  shows "\<exists>u'. HASH_SRT c u = Some u' \<and> ut_rep u' (Sorting_Algorithms.sort cmp xs) \<and>
    (\<forall>k. HASH_FIND_INT u' k = HASH_FIND_INT u k)"
proof -
  obtain u' where u': "HASH_SRT c u = Some u'" "ut_rep u' (Sorting_Algorithms.sort cmp xs)"
      "ut_key u' = ut_key u"
    using HASH_SRT_rep [OF assms(1), of c] srt_list_sort [OF assms(2)] by (auto simp: ut_key_def)
  have "List.find (\<lambda>a. ut_key u a = k) (Sorting_Algorithms.sort cmp xs) = List.find (\<lambda>a. ut_key u a = k) xs" for k
    by (rule find_key_cong [OF ut.rep_keys [OF assms(1)]]) auto
  then show ?thesis using u' ut.find_law [OF assms(1)] ut.find_law [OF u'(2)] by auto
qed

text \<open>Sorting the elements 5, 3, 4 by their parity moves 4 to the front and keeps 5 before 3.\<close>

theorem uthash_sort_stable_witness:
  "\<exists>u u'. ut_rep u [5, 3, 4] \<and> HASH_SRT (\<lambda>a b. int (a mod 2) - int (b mod 2)) u = Some u' \<and> ut_rep u' [4, 5, 3]"
proof -
  obtain u where u: "ut_rep u [5, 3, 4]"
    using table_reach_exists [of "[5, 3, 4]"] table_reach_rep by auto
  have "orders_as (\<lambda>a b. int (a mod 2) - int (b mod 2)) (key (\<lambda>a. a mod 2) default) (set [5, 3, 4 :: nat])"
    by (simp add: orders_as_def)
  from uthash_sort_stable [OF u this] u show ?thesis by auto
qed

section \<open>The integrity check\<close>

text \<open>
  C22: The integrity check always ends, on any memory in which finitely many links are set, cyclic or
  damaged as it may be, and it accepts exactly the tables whose bucket chains and whose
  application order are proper doubly linked lists with the recorded lengths.
\<close>

theorem uthash_fsck_exact:
  assumes "finite {a. hh_next (ut_hh u) a \<noteq> None}" and "finite {a. hh_next_elt (ut_hh u) a \<noteq> None}"
    and "the_tbl u = Some t" and "unat (num_buckets t) \<le> length (buckets t)"
  shows "\<exists>v. HASH_FSCK u = Some v \<and> (v = Fsck_ok \<longleftrightarrow>
    (\<forall>b \<in> set (take (unat (num_buckets t)) (buckets t)).
       chain_ok (hh_next (ut_hh u)) (hh_prev (ut_hh u)) (hh_head b) (bkt_count b)) \<and>
    sum_list (map bkt_count (take (unat (num_buckets t)) (buckets t))) = num_items t \<and>
    chain_ok (hh_next_elt (ut_hh u)) (hh_prev_elt (ut_hh u)) (ut_head u) (num_items t))"
proof -
  obtain v where "HASH_FSCK u = Some v" using HASH_FSCK_ends [OF assms] by blast
  moreover have "ut_head u \<noteq> None" "ut_tbl u = Some t"
    using assms(3) by (auto simp: the_tbl_def split: option.splits)
  ultimately show ?thesis
    using HASH_FSCK_iff [of u] assms(4) by (auto simp: fsck_inv_def)
qed

text \<open>A bucket chain that runs in a circle is reported.\<close>

definition cyclic_table :: uthash where
  "cyclic_table = \<lparr>ut_head = Some 3,
     ut_tbl = Some \<lparr>buckets = [\<lparr>hh_head = Some 3, bkt_count = 1, expand_mult = 0\<rparr>], num_buckets = 1,
       log2_num_buckets = 0, num_items = 1, tail = Some 3, ideal_chain_maxlen = 0, nonideal_items = 0,
       ineff_expands = 0, noexpand = 0\<rparr>,
     ut_hh = \<lparr>hh_prev_elt = \<lambda>_. None, hh_next_elt = \<lambda>_. None, hh_prev = \<lambda>_. None,
       hh_next = [3 \<mapsto> 3], hh_key = \<lambda>_. 0, hh_hashv = \<lambda>_. 0\<rparr>\<rparr>"

theorem uthash_fsck_exact_witness: "\<exists>v. HASH_FSCK cyclic_table = Some v \<and> v \<noteq> Fsck_ok"
proof -
  have "\<not> chain_ok [3 \<mapsto> 3] (\<lambda>_. None) (Some 3) 1"
    by (auto simp: chain_ok_def neq_Nil_conv hd_or_def split: list.splits if_splits)
  moreover have "finite {a. hh_next (ut_hh cyclic_table) a \<noteq> None}" "finite {a. hh_next_elt (ut_hh cyclic_table) a \<noteq> None}"
      "the_tbl cyclic_table = Some (the (ut_tbl cyclic_table))"
    by (simp_all add: cyclic_table_def the_tbl_def)
  ultimately show ?thesis
    using uthash_fsck_exact [of cyclic_table "the (ut_tbl cyclic_table)"]
    by (auto simp: cyclic_table_def)
qed

section \<open>Selection\<close>

lemma select_find:
  assumes "ut_rep u xs" and "mset ys = mset (filter cond xs)" and "sel_inv (ut_hh u) d ys"
  shows "HASH_FIND_INT d k = Some (List.find (\<lambda>a. ut_key u a = k) (filter cond xs))"
proof -
  have keys: "hh_key (ut_hh d) a = ut_key u a" if "a \<in> set ys" for a
    using assms(3) that by (simp add: sel_inv_def ut_key_def)
  have sets: "set ys = set (filter cond xs)" using assms(2) mset_eq_setD by blast
  have "List.find (\<lambda>a. hh_key (ut_hh d) a = k) ys = List.find (\<lambda>a. ut_key u a = k) ys"
    using keys by (intro find_cong) auto
  also have "\<dots> = List.find (\<lambda>a. ut_key u a = k) (filter cond xs)"
    by (rule find_key_cong)
      (use ut.rep_keys [OF assms(1)] sets in \<open>auto simp: distinct_map_filter\<close>)
  finally show ?thesis
    using sel_rep_find [of d ys k] assms(3) by (simp add: sel_inv_def)
qed

text \<open>
  Selecting from a well-formed table into an empty one gives a table whose elements are those
  that satisfy the condition, found under their keys, counted, and accepted by the integrity
  check, unless an allocation is refused. The table is well formed only when at most one element
  was selected: \<open>tail\<close> is never moved on from the first.
\<close>

lemma uthash_select:
  assumes "ut_rep u xs" and "ut_rep d []" and "\<forall>n. malloc_ok n \<longrightarrow> n < 2 ^ 35"
  shows "case HASH_SELECT malloc_ok cond u d of
      None \<Rightarrow> \<not> ((\<forall>n < 2 ^ 35. malloc_ok n) \<and> length (filter cond xs) \<le> 25)
    | Some d' \<Rightarrow>
        (\<forall>k. HASH_FIND_INT d' k = Some (List.find (\<lambda>a. ut_key u a = k) (filter cond xs))) \<and>
        HASH_COUNT d' = Some (of_nat (length (filter cond xs))) \<and> HASH_FSCK d' = Some Fsck_ok \<and>
        ((\<exists>ys. ut_rep d' ys) \<longleftrightarrow> length (filter cond xs) \<le> 1)"
proof -
  obtain ys where ys: "mset ys = mset (filter cond xs)"
    "case HASH_SELECT malloc_ok cond u d of
       None \<Rightarrow> \<not> ((\<forall>n < 2 ^ 35. malloc_ok n) \<and> length ys \<le> 25)
     | Some d' \<Rightarrow> sel_inv (ut_hh u) d' ys"
    using HASH_SELECT_rep [OF assms, of cond] by blast
  note len = mset_eq_length [OF ys(1)]
  show ?thesis
  proof (cases "HASH_SELECT malloc_ok cond u d")
    case None
    then show ?thesis using ys(2) len by simp
  next
    case (Some d')
    then have inv: "sel_inv (ut_hh u) d' ys" and sel: "sel_rep d' ys"
      using ys(2) by (simp_all add: sel_inv_def)
    have "HASH_COUNT d' = Some (of_nat (length ys))"
      using HASH_COUNT_rep [of "set_tail (last_or None ys) d'" ys] sel
      by (cases "ut_tbl d'") (auto simp: sel_rep_def HASH_COUNT_def the_tbl_def set_tail_def split: option.splits)
    moreover have "(\<exists>zs. ut_rep d' zs) \<longleftrightarrow> length ys \<le> 1"
      using sel_rep_ut_rep_iff [OF sel] sel_rep_unique [OF sel] by blast
    ultimately show ?thesis
      using Some select_find [OF assms(1) ys(1) inv] sel_rep_fsck [OF sel] len by simp
  qed
qed

text \<open>Selecting the odd elements of 5, 3, 4.\<close>

lemma uthash_select_witness:
  "\<exists>u d. ut_rep u [5, 3, 4] \<and> HASH_SELECT (malloc_below (\<lambda>_. True)) odd u empty_uthash = Some d \<and>
     HASH_COUNT d = Some 2 \<and> HASH_FSCK d = Some Fsck_ok \<and> \<not> (\<exists>ys. ut_rep d ys)"
proof -
  obtain u where u: "ut_rep u [5, 3, 4]"
    using table_reach_exists [of "[5, 3, 4]"] table_reach_rep by auto
  have "\<forall>n < 2 ^ 35. malloc_below (\<lambda>_. True) n" by (simp add: malloc_below_def)
  then obtain d where "HASH_SELECT (malloc_below (\<lambda>_. True)) odd u empty_uthash = Some d"
      "HASH_COUNT d = Some 2" "HASH_FSCK d = Some Fsck_ok" "\<not> (\<exists>ys. ut_rep d ys)"
    using uthash_select [OF u ut_rep_empty malloc_below_lim [of "\<lambda>_. True"], of odd]
    by (auto split: option.splits)
  with u show ?thesis by blast
qed

text \<open>
  Adding to a table that \<open>HASH_SELECT\<close> filled with two or more elements cuts the application
  order down to the first of them and the new one, while the count says otherwise.
\<close>

lemma uthash_select_then_add:
  assumes "ut_rep u xs" and "ut_rep d []" and "\<forall>n. malloc_ok n \<longrightarrow> n < 2 ^ 35"
    and "HASH_SELECT malloc_ok cond u d = Some d'" and "2 \<le> length (filter cond xs)"
    and "a \<notin> set xs" and "Suc (length xs) < 2 ^ 32" and "HASH_ADD_INT malloc_ok d' a = Some d''"
  shows "\<exists>y. ut_head d'' = Some y \<and> ut_next d'' y = Some a \<and> ut_next d'' a = None \<and>
    HASH_COUNT d'' = Some (of_nat (Suc (length (filter cond xs)))) \<and> HASH_FSCK d'' \<noteq> Some Fsck_ok"
proof -
  obtain ys where ys: "mset ys = mset (filter cond xs)" "sel_inv (ut_hh u) d' ys"
    using HASH_SELECT_rep [OF assms(1-3), of cond] assms(4) by auto
  note perm = mset_eq_length [OF ys(1)] mset_eq_setD [OF ys(1)]
  have "Suc (length ys) < 2 ^ 32"
    using assms(6) perm(1) length_filter_le [of cond xs] by (metis Suc_le_mono le_less_trans assms(7))
  then show ?thesis
    using sel_rep_add_cuts [of d' ys a malloc_ok d''] assms(3,5-8) perm ys(2)
    by (auto simp: sel_inv_def ut_next_def)
qed

text \<open>Selecting both elements of 5, 3 and adding 4 cuts one of the two off.\<close>

lemma uthash_select_then_add_witness:
  "\<exists>u d d' y. ut_rep u [5, 3] \<and> HASH_SELECT (malloc_below (\<lambda>_. True)) odd u empty_uthash = Some d \<and>
     HASH_ADD_INT (malloc_below (\<lambda>_. True)) d 4 = Some d' \<and> ut_head d' = Some y \<and> ut_next d' y = Some 4 \<and>
     ut_next d' 4 = None \<and> HASH_COUNT d' = Some 3"
proof -
  let ?m = "malloc_below (\<lambda>_. True)"
  obtain u where u: "ut_rep u [5, 3]"
    using table_reach_exists [of "[5, 3]"] table_reach_rep by auto
  have m: "\<forall>n < 2 ^ 35. ?m n" by (simp add: malloc_below_def)
  obtain ys where ys: "mset ys = mset (filter odd [5, 3 :: nat])"
    "case HASH_SELECT ?m odd u empty_uthash of None \<Rightarrow> \<not> ((\<forall>n < 2 ^ 35. ?m n) \<and> length ys \<le> 25)
     | Some d \<Rightarrow> sel_inv (ut_hh u) d ys"
    using HASH_SELECT_rep [OF u ut_rep_empty malloc_below_lim [of "\<lambda>_. True"], of odd] by blast
  have len: "length ys = 2" and set: "set ys = {5, 3}"
    using mset_eq_length [OF ys(1)] mset_eq_setD [OF ys(1)] by simp_all
  obtain d where d: "HASH_SELECT ?m odd u empty_uthash = Some d" "sel_inv (ut_hh u) d ys"
    using ys(2) m len by (auto split: option.splits)
  obtain d' where "HASH_ADD_INT ?m d 4 = Some d'"
    using sel_inv_add_progress [OF d(2) _ _ _ m malloc_below_lim, of 4] len set by fastforce
  then show ?thesis
    using u d(1) uthash_select_then_add [OF u ut_rep_empty malloc_below_lim d(1), of 4 d'] by auto
qed

section \<open>The bloom filter\<close>

text \<open>
  A filter to which the hash value of every element was added, among any others (elements deleted
  since), answers no search differently from the table without one.
\<close>

lemma uthash_bloom_transparent:
  assumes "ut_rep u xs" and "nbits \<le> 32" and "\<forall>a \<in> set xs. hash_int (ut_key u a) \<in> set hs"
  shows "\<exists>bv. bloom_of nbits hs = Some bv \<and> (\<forall>k. HASH_FIND_BLOOM nbits bv u k = HASH_FIND_INT u k)"
proof -
  obtain bv where "bloom_of nbits hs = Some bv" using bloom_of_tests [OF assms(2)] by blast
  then show ?thesis
    using HASH_FIND_BLOOM_eq [OF assms(1,2)] assms(3) by (auto simp: ut_key_def)
qed

lemma uthash_bloom_transparent_witness:
  "\<exists>u bv. ut_rep u [5, 3, 4] \<and> bloom_of 12 (map (\<lambda>a. hash_int (ut_key u a)) [4, 3, 5]) = Some bv \<and>
     HASH_FIND_BLOOM 12 bv u 3 = Some (Some 3)"
proof -
  obtain u where u: "table_reach (\<lambda>_. True) u [5, 3, 4]" "\<forall>a \<in> set [5, 3, 4]. ut_key u a = of_nat a"
    using table_reach_exists [of "[5, 3, 4]"] by auto
  note rep = table_reach_rep [OF u(1)]
  obtain bv where bv: "bloom_of 12 (map (\<lambda>a. hash_int (ut_key u a)) [4, 3, 5]) = Some bv"
      "HASH_FIND_BLOOM 12 bv u 3 = HASH_FIND_INT u 3"
    using uthash_bloom_transparent [OF rep, of 12 "map (\<lambda>a. hash_int (ut_key u a)) [4, 3, 5]"] by auto
  have "HASH_FIND_INT u 3 = Some (Some 3)"
    using ut.find_mem [OF rep, of 3] u(2) by simp
  then show ?thesis using rep bv by auto
qed

end
