(* ===== verification/Node_Threads.thy ===== *)
theory Node_Threads
  imports Node_Run
begin

text \<open>
  The node registry of \<open>src/qsf_node.c\<close> under several OS threads. Where theory Node takes each
  operation as one step, here a thread executes \<open>qsf_create_node\<close>, \<open>node_thread_callback\<close> and
  \<open>cleanup_node\<close> one small step at a time (one iteration of a list loop, one lock operation, one
  field write), and the steps of all threads interleave in any order. A thread that waits for the
  mutex is not ready while another one holds it.

  \<open>Main\<close> is the thread that runs \<open>qsf_start\<close>; the thread of the node at \<open>s\<close> is \<open>Node s\<close>. The
  shutdown \<open>qsf_node_exit\<close> does not wait for the other threads and is no step of this system; what it
  does to the threads of any reachable configuration is \<open>node_exit_strands\<close> of theory
  Node_Threads_Properties.
\<close>

section \<open>Threads\<close>

datatype tid = Main | Node addr

text \<open>The arguments of a call of \<open>qsf_create_node\<close>, and what \<open>uv_thread_create\<close> will return.\<close>

record create_call =
  cc_name :: bytes
  cc_path :: bytes
  cc_args :: bytes
  cc_r :: int

text \<open>What follows the critical section: a return code, or the end of the thread.\<close>

datatype after = Return int | Exit

text \<open>
  Where a thread is. \<open>Running\<close> is outside the code of \<open>qsf_node.c\<close>, in a script or in \<open>main\<close>,
  with the result of the last \<open>qsf_create_node\<close>.
\<close>

datatype phase =
    Gone
  | Running "int option"
  | Create_lock create_call
  | Create_find create_call "addr option"
  | Create_link create_call addr slot
  | Create_spawn create_call addr
  | Remove_walk bytes slot after
  | Unlock after
  | Init addr
  | Cleanup addr
  | Cleanup_lock addr

record config =
  reg :: node_context
  phase_of :: "tid \<Rightarrow> phase"

section \<open>One step of a thread\<close>

text \<open>
  \<open>init_node\<close> and the loading of the script, which touch no shared data but the thread's own
  node: whether the script is called.
\<close>

definition thread_start :: "thread_env \<Rightarrow> addr \<Rightarrow> node_context \<Rightarrow> (bool \<times> node_context) option" where
  "thread_start e s c = do {
     (r, _, c) \<leftarrow> init_node e s c;
     if r = 0
     then do {
       n \<leftarrow> ctx_nodes c s;
       path \<leftarrow> buf_cstr (n_path n);
       if te_loadfile e path = 0
       then do { _ \<leftarrow> buf_cstr (n_args n); Some (True, c) }
       else do { _ \<leftarrow> buf_cstr (n_name n); Some (False, c) } }
     else Some (False, c)
   }"

text \<open>The first part of \<open>cleanup_node\<close>, up to the lock: the node is marked as bad.\<close>

definition cleanup_mark :: "addr \<Rightarrow> node_context \<Rightarrow> node_context option" where
  "cleanup_mark s c = do {
     n \<leftarrow> ctx_nodes c s;
     _ \<leftarrow> buf_cstr (n_name n);
     Some (c\<lparr>ctx_nodes := (ctx_nodes c)(s := Some (n\<lparr>n_tag := QSF_NODE_TAG_VALUE_BAD\<rparr>))\<rparr>)
   }"

text \<open>
  The next step of a thread in a given phase: its next phase, the registry, and the node whose
  thread it starts, if any. \<open>blk\<close> is the block that \<open>malloc\<close> would return now. \<open>None\<close> is a
  fault.
\<close>

fun phase_step ::
    "thread_env \<Rightarrow> addr \<Rightarrow> phase \<Rightarrow> node_context \<Rightarrow> (phase \<times> node_context \<times> addr option) option" where
  "phase_step e blk Gone c = None"
| "phase_step e blk (Running r) c = None"
| "phase_step e blk (Create_lock q) c = do {
     c \<leftarrow> uv_mutex_lock c;
     Some (Create_find q (ctx_list c), c, None) }"
| "phase_step e blk (Create_find q None) c = do {
     c_assert (ctx_nodes c blk = None);
     let n = \<lparr>n_next = None, n_L = False, n_dealer = False,
              n_name = strncpy (cc_name q) MAX_ID_LENGTH, n_path = strncpy (cc_path q) MAX_PATH,
              n_args = strncpy (cc_args q) MAX_ARG_LENGTH, n_tag = 0\<rparr>;
     Some (Create_link q blk Head, c\<lparr>ctx_nodes := (ctx_nodes c)(blk := Some n)\<rparr>, None) }"
| "phase_step e blk (Create_find q (Some a)) c = do {
     nm \<leftarrow> node_cname c a;
     if nm = cc_name q then Some (Unlock (Return 3), c, None)
     else do { n \<leftarrow> ctx_nodes c a; Some (Create_find q (n_next n), c, None) } }"
| "phase_step e blk (Create_link q s pph) c = do {
     v \<leftarrow> read_slot c pph;
     case v of
       Some p \<Rightarrow> Some (Create_link q s (Next p), c, None)
     | None \<Rightarrow> do {
         c \<leftarrow> write_slot c pph (Some s);
         Some (Create_spawn q s, c\<lparr>ctx_count := ctx_count c + 1\<rparr>, None) } }"
| "phase_step e blk (Create_spawn q s) c =
     (if cc_r q < 0
      then do { nm \<leftarrow> node_cname c s; Some (Remove_walk nm Head (Return (cc_r q)), c, None) }
      else Some (Unlock (Return (cc_r q)), c, Some s))"
| "phase_step e blk (Remove_walk nm pph k) c = do {
     v \<leftarrow> read_slot c pph;
     case v of
       None \<Rightarrow> Some (Unlock k, c, None)
     | Some p \<Rightarrow> do {
         nm' \<leftarrow> node_cname c p;
         if nm' = nm
         then do {
           n \<leftarrow> ctx_nodes c p;
           c \<leftarrow> write_slot c pph (n_next n);
           Some (Unlock k, c\<lparr>ctx_nodes := (ctx_nodes c)(p := None), ctx_count := ctx_count c - 1\<rparr>, None) }
         else Some (Remove_walk nm (Next p) k, c, None) } }"
| "phase_step e blk (Unlock k) c = do {
     c \<leftarrow> uv_mutex_unlock c;
     Some (case k of Return r \<Rightarrow> Running (Some r) | Exit \<Rightarrow> Gone, c, None) }"
| "phase_step e blk (Init s) c = do {
     (called, c) \<leftarrow> thread_start e s c;
     Some (if called then Running None else Cleanup s, c, None) }"
| "phase_step e blk (Cleanup s) c = do {
     c \<leftarrow> cleanup_mark s c;
     Some (Cleanup_lock s, c, None) }"
| "phase_step e blk (Cleanup_lock s) c = do {
     c \<leftarrow> uv_mutex_lock c;
     nm \<leftarrow> node_cname c s;
     Some (Remove_walk nm Head Exit, c, None) }"

text \<open>\<open>uv_mutex_lock\<close> blocks; a thread outside the code moves when its script does.\<close>

fun ready :: "phase \<Rightarrow> node_context \<Rightarrow> bool" where
  "ready Gone c = False"
| "ready (Running r) c = False"
| "ready (Create_lock q) c = (\<not> ctx_locked c)"
| "ready (Cleanup_lock s) c = (\<not> ctx_locked c)"
| "ready _ c = True"

fun in_cs :: "phase \<Rightarrow> bool" where
  "in_cs (Create_find q p) = True"
| "in_cs (Create_link q s pph) = True"
| "in_cs (Create_spawn q s) = True"
| "in_cs (Remove_walk nm pph k) = True"
| "in_cs (Unlock k) = True"
| "in_cs _ = False"

text \<open>The checks before the lock; the strings are C strings that fit their arrays.\<close>

definition create_start :: "create_call \<Rightarrow> phase" where
  "create_start q =
    (if MAX_ID_LENGTH \<le> length (cc_name q) then Running (Some 1)
     else if cc_name q = str ''sys'' then Running (Some 2)
     else Create_lock q)"

definition call_ok :: "create_call \<Rightarrow> bool" where
  "call_ok q \<longleftrightarrow> is_cstr (cc_name q) \<and> is_cstr (cc_path q) \<and> length (cc_path q) < MAX_PATH \<and>
     is_cstr (cc_args q) \<and> length (cc_args q) < MAX_ARG_LENGTH"

definition spawn :: "addr option \<Rightarrow> (tid \<Rightarrow> phase) \<Rightarrow> (tid \<Rightarrow> phase)" where
  "spawn sp ph = (case sp of None \<Rightarrow> ph | Some s \<Rightarrow> ph(Node s := Init s))"

section \<open>All threads\<close>

text \<open>
  The configurations that any interleaving reaches: a ready thread makes a step, a running thread
  calls \<open>qsf_create_node\<close>, or the script of a node returns and its thread goes on to
  \<open>cleanup_node\<close>.
\<close>

inductive threads_step :: "thread_env \<Rightarrow> config \<Rightarrow> config \<Rightarrow> bool" for e where
  step_thread: "ready (phase_of cf t) (reg cf) \<Longrightarrow> ctx_nodes (reg cf) blk = None \<Longrightarrow>
    phase_step e blk (phase_of cf t) (reg cf) = Some (ph, c, sp) \<Longrightarrow>
    threads_step e cf \<lparr>reg = c, phase_of = spawn sp ((phase_of cf)(t := ph))\<rparr>"
| step_call: "phase_of cf t = Running r \<Longrightarrow> call_ok q \<Longrightarrow>
    threads_step e cf (cf\<lparr>phase_of := (phase_of cf)(t := create_start q)\<rparr>)"
| step_return: "phase_of cf (Node s) = Running r \<Longrightarrow>
    threads_step e cf (cf\<lparr>phase_of := (phase_of cf)(Node s := Cleanup s)\<rparr>)"

inductive threads_reach :: "thread_env \<Rightarrow> config \<Rightarrow> config \<Rightarrow> bool" for e cf0 where
  threads_init: "threads_reach e cf0 cf0"
| threads_next: "threads_reach e cf0 cf \<Longrightarrow> threads_step e cf cf' \<Longrightarrow> threads_reach e cf0 cf'"

text \<open>After \<open>qsf_node_init\<close> the main thread runs and no node exists.\<close>

definition threads_start :: "node_context \<Rightarrow> config" where
  "threads_start c = \<lparr>reg = snd (qsf_node_init 0 c), phase_of = (\<lambda>_. Gone)(Main := Running None)\<rparr>"

inductive_cases threads_stepE: "threads_step e cf cf'"

end
