(* ===== verification/Node_Threads_Correct.thy ===== *)
theory Node_Threads_Correct
  imports Node_Threads
begin

text \<open>
  The invariant of the interleaved threads of theory Node_Threads. \<open>tinv cf xs\<close> says that at most
  one thread is in its critical section, that \<open>xs\<close> are the nodes linked into the registry, what
  the thread in its critical section knows about them, and that every thread that still needs its
  node finds it allocated. \<open>thread_step_inv\<close> shows that every ready thread can make its step and
  that the step keeps the invariant.
\<close>

section \<open>What threads may write without the lock\<close>

text \<open>The fields a node's own thread writes are not looked at by the list operations.\<close>

definition core :: "qsf_node \<Rightarrow> qsf_node" where
  "core n = n\<lparr>n_L := False, n_dealer := False, n_tag := 0\<rparr>"

lemma core_sel [simp]:
  "n_next (core n) = n_next n" "n_name (core n) = n_name n" "n_path (core n) = n_path n" "n_args (core n) = n_args n"
  by (simp_all add: core_def)

definition same_shape :: "node_context \<Rightarrow> node_context \<Rightarrow> bool" where
  "same_shape c c' \<longleftrightarrow> ctx_list c' = ctx_list c \<and> ctx_count c' = ctx_count c \<and> ctx_locked c' = ctx_locked c \<and>
     (\<forall>a. map_option core (ctx_nodes c' a) = map_option core (ctx_nodes c a))"

lemma same_shape_node:
  assumes "same_shape c c'" and "ctx_nodes c' a = Some n'"
  obtains n where "ctx_nodes c a = Some n" and "core n' = core n"
proof -
  have "map_option core (ctx_nodes c a) = Some (core n')"
    using assms by (metis option.simps(9) same_shape_def)
  then show ?thesis using that by auto
qed

lemma same_shape_sym: "same_shape c c' \<Longrightarrow> same_shape c' c"
  by (simp add: same_shape_def)

lemma same_shape_sel:
  assumes "same_shape c c'"
  shows "nxt c' = nxt c" "node_cname c' = node_cname c" "dom (ctx_nodes c') = dom (ctx_nodes c)"
    "ctx_nodes c' a = None \<longleftrightarrow> ctx_nodes c a = None"
proof -
  have eq: "map_option core (ctx_nodes c' x) = map_option core (ctx_nodes c x)" for x
    using assms by (simp add: same_shape_def)
  show none: "ctx_nodes c' x = None \<longleftrightarrow> ctx_nodes c x = None" for x
    using eq [of x] by (metis option.map_disc_iff)
  show "nxt c' = nxt c"
  proof
    fix x
    show "nxt c' x = nxt c x"
      using eq [of x] by (cases "ctx_nodes c' x"; cases "ctx_nodes c x") (auto simp: nxt_def dest: arg_cong [of _ _ n_next])
  qed
  show "node_cname c' = node_cname c"
  proof
    fix x
    show "node_cname c' x = node_cname c x"
      using eq [of x] by (cases "ctx_nodes c' x"; cases "ctx_nodes c x") (auto simp: node_cname_def dest: arg_cong [of _ _ n_name])
  qed
  show "dom (ctx_nodes c') = dom (ctx_nodes c)" using none by (simp add: dom_def)
qed

lemma same_shape_inv: "same_shape c c' \<Longrightarrow> node_inv c' xs = node_inv c xs"
  unfolding node_inv_def by (simp add: same_shape_sel) (simp add: same_shape_def)

lemma same_shape_without:
  "same_shape c c' \<Longrightarrow> same_shape (c\<lparr>ctx_nodes := (ctx_nodes c)(s := None)\<rparr>) (c'\<lparr>ctx_nodes := (ctx_nodes c')(s := None)\<rparr>)"
  by (simp add: same_shape_def)

text \<open>The strings a node was created with can be read back.\<close>

definition node_ok :: "qsf_node \<Rightarrow> bool" where
  "node_ok n \<longleftrightarrow> buf_cstr (n_name n) \<noteq> None \<and> buf_cstr (n_path n) \<noteq> None \<and> buf_cstr (n_args n) \<noteq> None"

lemma node_ok_core [simp]: "node_ok (core n) = node_ok n"
  by (simp add: node_ok_def)

definition data_ok :: "node_context \<Rightarrow> bool" where
  "data_ok c \<longleftrightarrow> (\<forall>a n. ctx_nodes c a = Some n \<longrightarrow> node_ok n)"

lemma data_okD: "data_ok c \<Longrightarrow> ctx_nodes c a = Some n \<Longrightarrow> node_ok n"
  by (auto simp: data_ok_def)

lemma same_shape_data: "same_shape c c' \<Longrightarrow> data_ok c \<Longrightarrow> data_ok c'"
  unfolding data_ok_def by (metis node_ok_core same_shape_node)

text \<open>The environment lets \<open>init_node\<close> through: it may fail to make a Lua state, but not abort.\<close>

definition start_ok :: "thread_env \<Rightarrow> bool" where
  "start_ok e \<longleftrightarrow> load_node_path (te_dostring e) (te_lua_path e) (te_lua_cpath e) \<noteq> None \<and> (\<forall>nm. te_dealer e nm)"

lemma own_upd_shape:
  assumes "ctx_nodes c s = Some n" and "core n' = core n"
  shows "same_shape c (c\<lparr>ctx_nodes := (ctx_nodes c)(s := Some n')\<rparr>)"
  using assms by (simp add: same_shape_def)

lemma thread_start_ok:
  assumes "start_ok e" and "ctx_nodes c s = Some n" and "node_ok n"
  shows "\<exists>called c'. thread_start e s c = Some (called, c') \<and> same_shape c c'"
proof (cases "te_newstate e")
  case False
  then show ?thesis
    using assms by (intro exI [of _ False] exI [of _ c]) (simp add: thread_start_def init_node_def same_shape_def)
next
  case True
  obtain nm path args where str: "buf_cstr (n_name n) = Some nm" "buf_cstr (n_path n) = Some path"
      "buf_cstr (n_args n) = Some args"
    using assms(3) by (auto simp: node_ok_def)
  let ?n = "n\<lparr>n_L := True, n_dealer := True, n_tag := QSF_NODE_TAG_VALUE_GOOD\<rparr>"
  have "same_shape c (c\<lparr>ctx_nodes := (ctx_nodes c)(s := Some ?n)\<rparr>)"
    by (rule own_upd_shape [OF assms(2)]) (simp add: core_def)
  then show ?thesis
    using True assms(1,2) str
    by (cases "te_loadfile e path = 0") (auto simp: thread_start_def init_node_def start_ok_def)
qed

lemma cleanup_mark_ok:
  assumes "ctx_nodes c s = Some n" and "node_ok n"
  shows "\<exists>c'. cleanup_mark s c = Some c' \<and> same_shape c c'"
proof -
  have "same_shape c (c\<lparr>ctx_nodes := (ctx_nodes c)(s := Some (n\<lparr>n_tag := QSF_NODE_TAG_VALUE_BAD\<rparr>))\<rparr>)"
    by (rule own_upd_shape [OF assms(1)]) (simp add: core_def)
  then show ?thesis using assms by (auto simp: cleanup_mark_def node_ok_def)
qed

section \<open>The critical section\<close>

text \<open>
  What the thread in its critical section has established, by phase. A node that is being created
  has no thread yet; a thread that removes a node removes its own or one it failed to start.
\<close>

fun cs_inv :: "(tid \<Rightarrow> phase) \<Rightarrow> tid \<Rightarrow> phase \<Rightarrow> node_context \<Rightarrow> addr list \<Rightarrow> bool" where
  "cs_inv phs t (Create_find q p) c xs =
     (node_inv c xs \<and> call_ok q \<and> name_ok (cc_name q) \<and>
      (\<exists>us vs. xs = us @ vs \<and> p = hd_or vs None \<and> (\<forall>a \<in> set us. node_cname c a \<noteq> Some (cc_name q))))"
| "cs_inv phs t (Create_link q s pph) c xs =
     (s \<notin> set xs \<and> call_ok q \<and> name_ok (cc_name q) \<and> phs (Node s) = Gone \<and>
      ctx_nodes c s = Some (new_node (cc_name q) (cc_path q) (cc_args q)) \<and>
      node_inv (c\<lparr>ctx_nodes := (ctx_nodes c)(s := None)\<rparr>) xs \<and>
      (\<forall>a \<in> set xs. node_cname c a \<noteq> Some (cc_name q)) \<and>
      (\<exists>us vs. xs = us @ vs \<and> pph = end_slot Head us))"
| "cs_inv phs t (Create_spawn q s) c xs = (node_inv c xs \<and> s \<in> set xs \<and> phs (Node s) = Gone)"
| "cs_inv phs t (Remove_walk nm pph k) c xs =
     (node_inv c xs \<and>
      (\<exists>us vs s. xs = us @ vs \<and> pph = end_slot Head us \<and> (\<forall>a \<in> set us. node_cname c a \<noteq> Some nm) \<and>
         s \<in> set vs \<and> node_cname c s = Some nm \<and> (if k = Exit then t = Node s else phs (Node s) = Gone)))"
| "cs_inv phs t (Unlock k) c xs = (node_inv c xs \<and> (k = Exit \<longrightarrow> t \<noteq> Main))"
| "cs_inv phs t _ c xs = True"

text \<open>The node a thread works on is its own, and a call that waits has passed the checks.\<close>

fun own_ok :: "tid \<Rightarrow> phase \<Rightarrow> bool" where
  "own_ok t (Init s) = (t = Node s)"
| "own_ok t (Cleanup s) = (t = Node s)"
| "own_ok t (Cleanup_lock s) = (t = Node s)"
| "own_ok t (Create_lock q) = (call_ok q \<and> name_ok (cc_name q))"
| "own_ok t _ = True"

text \<open>A thread needs its node until it has removed it.\<close>

definition needs_node :: "phase \<Rightarrow> bool" where
  "needs_node ph \<longleftrightarrow> ph \<noteq> Gone \<and> ph \<noteq> Unlock Exit"

definition tinv :: "config \<Rightarrow> addr list \<Rightarrow> bool" where
  "tinv cf xs \<longleftrightarrow>
     (\<forall>t. in_cs (phase_of cf t) \<longrightarrow> cs_inv (phase_of cf) t (phase_of cf t) (reg cf) xs) \<and>
     (\<forall>t u. in_cs (phase_of cf t) \<longrightarrow> in_cs (phase_of cf u) \<longrightarrow> t = u) \<and>
     (ctx_locked (reg cf) \<longleftrightarrow> (\<exists>t. in_cs (phase_of cf t))) \<and>
     (\<not> ctx_locked (reg cf) \<longrightarrow> node_inv (reg cf) xs) \<and> data_ok (reg cf) \<and>
     (\<forall>t. own_ok t (phase_of cf t)) \<and> (\<forall>s. needs_node (phase_of cf (Node s)) \<longrightarrow> s \<in> set xs)"

lemma tinvD:
  assumes "tinv cf xs"
  shows "in_cs (phase_of cf t) \<Longrightarrow> cs_inv (phase_of cf) t (phase_of cf t) (reg cf) xs"
    and "in_cs (phase_of cf t) \<Longrightarrow> in_cs (phase_of cf u) \<Longrightarrow> t = u"
    and "ctx_locked (reg cf) \<longleftrightarrow> (\<exists>t. in_cs (phase_of cf t))"
    and "\<not> ctx_locked (reg cf) \<Longrightarrow> node_inv (reg cf) xs"
    and "data_ok (reg cf)" and "own_ok t (phase_of cf t)"
    and "needs_node (phase_of cf (Node s)) \<Longrightarrow> s \<in> set xs"
  using assms unfolding tinv_def by blast+

text \<open>What the thread in its critical section knows survives the others' writes to their nodes.\<close>

lemma cs_inv_shape:
  assumes "cs_inv phs t ph c xs" and "same_shape c c'" and "\<forall>s. phs (Node s) = Gone \<longrightarrow> phs' (Node s) = Gone"
    and "\<forall>s n. ctx_nodes c s = Some n \<longrightarrow> phs (Node s) = Gone \<longrightarrow> ctx_nodes c' s = Some n"
  shows "cs_inv phs' t ph c' xs"
proof (cases ph)
  case (Create_link q s pph)
  then show ?thesis
    using assms same_shape_sel(2) [OF assms(2)] same_shape_inv [OF same_shape_without [OF assms(2)], of s xs]
    by auto
next
  case (Remove_walk nm pph k)
  then show ?thesis
    using assms(1,3) same_shape_sel(2) [OF assms(2)] same_shape_inv [OF assms(2), of xs] by (auto split: if_splits)
qed (use assms(1,3) same_shape_sel(2) [OF assms(2)] same_shape_inv [OF assms(2), of xs] in auto)

section \<open>The steps\<close>

text \<open>The configuration after a step of \<open>t\<close>.\<close>

definition after_step :: "config \<Rightarrow> tid \<Rightarrow> phase \<Rightarrow> node_context \<Rightarrow> addr option \<Rightarrow> config" where
  "after_step cf t ph c sp = \<lparr>reg = c, phase_of = spawn sp ((phase_of cf)(t := ph))\<rparr>"

text \<open>The registered nodes before and after: unchanged, one more at the end, or one less.\<close>

definition list_step :: "addr list \<Rightarrow> addr list \<Rightarrow> bool" where
  "list_step xs ys \<longleftrightarrow> ys = xs \<or> (\<exists>s. s \<notin> set xs \<and> ys = xs @ [s]) \<or> (\<exists>s \<in> set xs. ys = remove1 s xs)"

lemma list_step_refl [simp]: "list_step xs xs"
  by (simp add: list_step_def)

text \<open>A step of a thread outside the critical section that writes at most its own node.\<close>

lemma tinv_own_step:
  assumes inv: "tinv cf xs" and ph: "\<not> in_cs (phase_of cf t)" "phase_of cf t \<noteq> Gone"
    and ph': "\<not> in_cs ph" "own_ok t ph" and shape: "same_shape (reg cf) c"
    and other: "\<forall>a. Node a \<noteq> t \<longrightarrow> ctx_nodes c a = ctx_nodes (reg cf) a"
  shows "tinv (after_step cf t ph c None) xs"
proof -
  let ?phs = "(phase_of cf)(t := ph)"
  have lock: "ctx_locked c = ctx_locked (reg cf)" using shape by (simp add: same_shape_def)
  have cs: "in_cs (?phs u) \<longleftrightarrow> in_cs (phase_of cf u)" for u using ph(1) ph'(1) by simp
  have 1: "\<forall>u. in_cs (?phs u) \<longrightarrow> cs_inv ?phs u (?phs u) c xs"
  proof (intro allI impI)
    fix u assume u: "in_cs (?phs u)"
    then have old: "in_cs (phase_of cf u)" "u \<noteq> t" using cs ph(1) by auto
    have "cs_inv ?phs u (phase_of cf u) c xs"
      by (rule cs_inv_shape [OF tinvD(1) [OF inv old(1)] shape]) (use ph(2) other in auto)
    then show "cs_inv ?phs u (?phs u) c xs" using old(2) by simp
  qed
  have 2: "\<forall>u v. in_cs (?phs u) \<longrightarrow> in_cs (?phs v) \<longrightarrow> u = v"
    using cs tinvD(2) [OF inv] by blast
  have 3: "ctx_locked c \<longleftrightarrow> (\<exists>u. in_cs (?phs u))" using cs lock tinvD(3) [OF inv] by simp
  have 4: "\<not> ctx_locked c \<longrightarrow> node_inv c xs"
    using tinvD(4) [OF inv] lock unfolding same_shape_inv [OF shape] by blast
  have 5: "data_ok c" by (rule same_shape_data [OF shape tinvD(5) [OF inv]])
  have 6: "\<forall>u. own_ok u (?phs u)" using ph'(2) tinvD(6) [OF inv] by simp
  have "needs_node (phase_of cf t)" using ph by (auto simp: needs_node_def)
  then have 7: "\<forall>x. needs_node (?phs (Node x)) \<longrightarrow> x \<in> set xs"
    using tinvD(7) [OF inv] by (metis fun_upd_apply)
  show ?thesis
    using 1 2 3 4 5 6 7 by (simp only: tinv_def after_step_def spawn_def option.case config.select_convs) blast
qed

text \<open>A step into the critical section or inside it.\<close>

lemma tinv_cs_step:
  assumes inv: "tinv cf xs" and alone: "\<forall>u. u \<noteq> t \<longrightarrow> \<not> in_cs (phase_of cf u)"
    and ph: "in_cs ph" and lock: "ctx_locked c" and data: "data_ok c"
    and cs: "cs_inv (spawn sp ((phase_of cf)(t := ph))) t ph c ys"
    and sp: "\<forall>s. sp = Some s \<longrightarrow> s \<in> set ys \<and> phase_of cf (Node s) = Gone \<and> Node s \<noteq> t"
    and needs: "\<forall>s. needs_node (phase_of cf (Node s)) \<longrightarrow> Node s \<noteq> t \<longrightarrow> s \<in> set ys"
    and self: "\<forall>s. t = Node s \<longrightarrow> needs_node ph \<longrightarrow> s \<in> set ys"
  shows "tinv (after_step cf t ph c sp) ys"
proof -
  let ?phs = "spawn sp ((phase_of cf)(t := ph))"
  have t: "?phs t = ph" using sp by (auto simp: spawn_def split: option.splits)
  have in_cs: "in_cs (?phs u) \<longleftrightarrow> u = t" for u
    using alone ph t by (auto simp: spawn_def split: option.splits)
  have "own_ok u (?phs u)" for u
    using tinvD(6) [OF inv, of u] ph by (cases sp; cases ph) (auto simp: spawn_def)
  moreover have "needs_node (?phs (Node s)) \<Longrightarrow> s \<in> set ys" for s
    using needs self sp by (cases sp) (auto simp: spawn_def split: if_splits)
  ultimately show ?thesis
    using cs lock data t unfolding tinv_def after_step_def by (simp add: in_cs)
qed

text \<open>The step out of it.\<close>

lemma tinv_unlock_step:
  assumes inv: "tinv cf xs" and t: "phase_of cf t = Unlock k"
    and ph: "ph = (case k of Return r \<Rightarrow> Running (Some r) | Exit \<Rightarrow> Gone)"
  shows "tinv (after_step cf t ph ((reg cf)\<lparr>ctx_locked := False\<rparr>) None) xs"
proof -
  let ?phs = "(phase_of cf)(t := ph)"
  have alone: "in_cs (phase_of cf u) \<Longrightarrow> u = t" for u
    using tinvD(2) [OF inv, of u t] t by simp
  have reg: "node_inv (reg cf) xs" using tinvD(1) [OF inv, of t] t by simp
  have free: "\<not> in_cs (?phs u)" for u using alone ph by (auto split: after.splits)
  have "needs_node (?phs (Node s)) \<Longrightarrow> s \<in> set xs" for s
    using tinvD(7) [OF inv, of s] t ph by (cases "Node s = t") (auto simp: needs_node_def split: after.splits)
  moreover have "own_ok u (?phs u)" for u
    using tinvD(6) [OF inv, of u] ph by (auto split: after.splits)
  moreover have "data_ok ((reg cf)\<lparr>ctx_locked := False\<rparr>)"
    using tinvD(5) [OF inv] by (simp add: data_ok_def)
  ultimately show ?thesis
    using reg free unfolding tinv_def after_step_def by (simp add: spawn_def)
qed

section \<open>The list operations, one iteration at a time\<close>

lemma write_slot_data: "write_slot c pph v = Some c' \<Longrightarrow> data_ok c \<Longrightarrow> data_ok c'"
  by (cases pph) (auto simp: data_ok_def node_ok_def bind_Some_conv split: if_splits)

lemma data_ok_free: "data_ok c \<Longrightarrow> data_ok (c\<lparr>ctx_nodes := (ctx_nodes c)(a := None), ctx_count := k\<rparr>)"
  by (simp add: data_ok_def)

text \<open>Linking: the end of the list is found slot by slot, then the new node is linked there.\<close>

lemma link_read:
  assumes inv: "node_inv (c\<lparr>ctx_nodes := (ctx_nodes c)(s := None)\<rparr>) (us @ vs)" and s: "s \<notin> set us"
  shows "read_slot c (end_slot Head us) = Some (hd_or vs None)"
proof -
  have "read_slot c (end_slot Head us) = read_slot (c\<lparr>ctx_nodes := (ctx_nodes c)(s := None)\<rparr>) (end_slot Head us)"
    using s by (cases us rule: rev_cases) auto
  then show ?thesis using read_end_slot [OF inv] by simp
qed

lemma link_end:
  assumes inv: "node_inv (c\<lparr>ctx_nodes := (ctx_nodes c)(s := None)\<rparr>) xs" and s: "s \<notin> set xs"
    and name: "name_ok name" and node: "ctx_nodes c s = Some (new_node name path args)"
    and new: "\<forall>a \<in> set xs. node_cname c a \<noteq> Some name"
  shows "\<exists>c'. write_slot c (end_slot Head xs) (Some s) = Some c' \<and>
    node_inv (c'\<lparr>ctx_count := ctx_count c' + 1\<rparr>) (xs @ [s]) \<and> ctx_locked c' = ctx_locked c"
proof -
  let ?c = "c\<lparr>ctx_nodes := (ctx_nodes c)(s := None)\<rparr>"
  have names: "node_cname ?c a = node_cname c a" if "a \<in> set xs" for a
    using that s by (auto simp: node_cname_def)
  have c: "c = c\<lparr>ctx_nodes := (ctx_nodes c)(s := Some (new_node name path args))\<rparr>"
    using node by (simp add: fun_upd_idem)
  have "last_slot c Head = Some (end_slot Head xs)"
  proof (rule last_slot_list)
    have "nxt c a = nxt ?c a" if "a \<in> set xs" for a using that s by (auto simp: nxt_def)
    then show "sll (nxt c) xs None" using node_invD(2) [OF inv] sll_cong [of xs "nxt c" "nxt ?c"] by simp
    show "\<forall>a \<in> set xs. ctx_nodes c a \<noteq> None" using node_inv_dom [OF inv] by auto
  qed (use node_invD(1) [OF inv] in simp)
  moreover obtain c1 where c1: "create_from_node_list (Some s) name path args ?c = Some (s, c1)"
      "node_inv c1 (xs @ [s])" "ctx_locked c1 = ctx_locked c"
    using create_from_node_list_inv [OF inv name, of s path args] new names by auto
  moreover have "create_from_node_list (Some s) name path args ?c =
      Option.bind (last_slot c Head) (\<lambda>pph. Option.bind (write_slot c pph (Some s)) (\<lambda>c. Some (s, c\<lparr>ctx_count := ctx_count c + 1\<rparr>)))"
    unfolding create_from_node_list_def using c by (simp add: new_node_def Let_def)
  ultimately show ?thesis by (auto simp: bind_Some_conv)
qed

text \<open>Unlinking the node found.\<close>

lemma remove_step:
  assumes inv: "node_inv c (us @ a # vs)" and us: "\<forall>b \<in> set us. node_cname c b \<noteq> Some nm"
    and a: "node_cname c a = Some nm" and n: "ctx_nodes c a = Some n"
  shows "\<exists>c1. write_slot c (end_slot Head us) (n_next n) = Some c1 \<and>
    node_inv (c1\<lparr>ctx_nodes := (ctx_nodes c1)(a := None), ctx_count := ctx_count c1 - 1\<rparr>) (us @ vs) \<and>
    ctx_locked c1 = ctx_locked c"
proof -
  obtain c' where c': "remove_loop c nm (end_slot Head us) = Some c'" "ctx_locked c' = ctx_locked c"
      "node_inv c' (us @ filter (\<lambda>b. node_cname c b \<noteq> Some nm) (a # vs))"
    using remove_loop_list [OF inv us] by auto
  have "node_cname c b \<noteq> Some nm" if b: "b \<in> set vs" for b
  proof
    assume "node_cname c b = Some nm"
    then have "b = a" using node_cname_inj [OF inv, of a b] a b by simp
    then show False using node_invD(3) [OF inv] b by simp
  qed
  then have "filter (\<lambda>b. node_cname c b \<noteq> Some nm) (a # vs) = vs" using a by simp
  moreover have "remove_loop c nm (end_slot Head us) =
      Option.bind (write_slot c (end_slot Head us) (n_next n)) (\<lambda>c.
        Some (c\<lparr>ctx_nodes := (ctx_nodes c)(a := None), ctx_count := ctx_count c - 1\<rparr>))"
    using read_end_slot [OF inv] a n by (subst remove_loop.simps) simp
  ultimately have "Option.bind (write_slot c (end_slot Head us) (n_next n)) (\<lambda>c.
        Some (c\<lparr>ctx_nodes := (ctx_nodes c)(a := None), ctx_count := ctx_count c - 1\<rparr>)) = Some c'"
      "node_inv c' (us @ vs)"
    using c' by simp_all
  then show ?thesis using c'(2) by (auto simp: bind_Some_conv)
qed

section \<open>Every ready thread can step\<close>

lemma cs_alone:
  assumes "tinv cf xs" and "in_cs (phase_of cf t)"
  shows "\<forall>u. u \<noteq> t \<longrightarrow> \<not> in_cs (phase_of cf u)" and "ctx_locked (reg cf)"
  using tinvD(2) [OF assms(1), of _ t] tinvD(3) [OF assms(1)] assms(2) by blast+

text \<open>A step in the critical section that leaves the registry as it is.\<close>

lemma tinv_cs_keep:
  assumes inv: "tinv cf xs" and cs: "cs_inv ((phase_of cf)(t := ph)) t ph (reg cf) xs"
    and t: "in_cs (phase_of cf t)" and ph: "in_cs ph" and self: "needs_node (phase_of cf t)"
  shows "tinv (after_step cf t ph (reg cf) None) xs"
  by (rule tinv_cs_step [OF inv cs_alone(1) [OF inv t] ph cs_alone(2) [OF inv t] tinvD(5) [OF inv]])
    (use cs tinvD(7) [OF inv] self in \<open>auto simp: spawn_def\<close>)

text \<open>What a step from a given phase must satisfy.\<close>

definition step_good :: "thread_env \<Rightarrow> addr \<Rightarrow> config \<Rightarrow> tid \<Rightarrow> addr list \<Rightarrow> bool" where
  "step_good e blk cf t xs \<longleftrightarrow> (\<exists>ph c sp ys. phase_step e blk (phase_of cf t) (reg cf) = Some (ph, c, sp) \<and>
     tinv (after_step cf t ph c sp) ys \<and> list_step xs ys)"

lemma step_goodI:
  "phase_step e blk (phase_of cf t) (reg cf) = Some (ph, c, sp) \<Longrightarrow> tinv (after_step cf t ph c sp) ys \<Longrightarrow>
    list_step xs ys \<Longrightarrow> step_good e blk cf t xs"
  by (auto simp: step_good_def)

lemma step_Create_lock:
  assumes inv: "tinv cf xs" and t: "phase_of cf t = Create_lock q" and lock: "\<not> ctx_locked (reg cf)"
  shows "step_good e blk cf t xs"
proof (rule step_goodI [OF _ _ list_step_refl])
  let ?c = "(reg cf)\<lparr>ctx_locked := True\<rparr>" and ?ph = "Create_find q (ctx_list (reg cf))"
  have reg: "node_inv ?c xs" using tinvD(4) [OF inv lock] by simp
  show "phase_step e blk (phase_of cf t) (reg cf) = Some (?ph, ?c, None)"
    using t lock by (simp add: uv_mutex_lock_def)
  have "call_ok q" "name_ok (cc_name q)" using tinvD(6) [OF inv, of t] t by simp_all
  then have cs: "cs_inv (spawn None ((phase_of cf)(t := ?ph))) t ?ph ?c xs"
    using reg node_invD(1) [OF reg] by (simp del: node_inv_lock) (intro exI [of _ "[]"] exI [of _ xs], simp)
  show "tinv (after_step cf t ?ph ?c None) xs"
    by (rule tinv_cs_step [OF inv _ _ _ _ cs])
      (use tinvD(3,5,7) [OF inv] lock t in \<open>auto simp: data_ok_def needs_node_def\<close>)
qed

lemma step_Cleanup_lock:
  assumes inv: "tinv cf xs" and t: "phase_of cf t = Cleanup_lock s" and lock: "\<not> ctx_locked (reg cf)"
  shows "step_good e blk cf t xs"
proof -
  let ?c = "(reg cf)\<lparr>ctx_locked := True\<rparr>"
  have own: "t = Node s" using tinvD(6) [OF inv, of t] t by simp
  then have s: "s \<in> set xs" using tinvD(7) [OF inv, of s] t by (simp add: needs_node_def)
  have reg: "node_inv ?c xs" using tinvD(4) [OF inv lock] by simp
  obtain nm where nm: "node_cname ?c s = Some nm" by (rule node_inv_cname [OF reg s])
  let ?ph = "Remove_walk nm Head Exit"
  have cs: "cs_inv (spawn None ((phase_of cf)(t := ?ph))) t ?ph ?c xs"
    using reg nm s own by simp (intro exI [of _ "[]"] exI [of _ xs] conjI exI [of _ s], simp_all)
  show ?thesis
  proof (rule step_goodI [OF _ _ list_step_refl])
    show "phase_step e blk (phase_of cf t) (reg cf) = Some (?ph, ?c, None)"
      using t lock nm by (simp add: uv_mutex_lock_def)
    show "tinv (after_step cf t ?ph ?c None) xs"
      by (rule tinv_cs_step [OF inv _ _ _ _ cs])
        (use tinvD(3,5,7) [OF inv] lock s own in \<open>auto simp: data_ok_def needs_node_def\<close>)
  qed
qed

lemma step_Unlock:
  assumes inv: "tinv cf xs" and t: "phase_of cf t = Unlock k"
  shows "step_good e blk cf t xs"
proof (rule step_goodI [OF _ tinv_unlock_step [OF inv t refl] list_step_refl])
  have "ctx_locked (reg cf)" using cs_alone(2) [OF inv, of t] t by simp
  then show "phase_step e blk (phase_of cf t) (reg cf) =
      Some (case k of Return r \<Rightarrow> Running (Some r) | Exit \<Rightarrow> Gone, (reg cf)\<lparr>ctx_locked := False\<rparr>, None)"
    using t by (simp add: uv_mutex_unlock_def)
qed

lemma step_own:
  assumes inv: "tinv cf xs" and e: "start_ok e" and t: "phase_of cf t = Init s \<or> phase_of cf t = Cleanup s"
  shows "step_good e blk cf t xs"
proof -
  have own: "t = Node s" using tinvD(6) [OF inv, of t] t by auto
  then have s: "s \<in> set xs" using tinvD(7) [OF inv, of s] t by (auto simp: needs_node_def)
  have "ctx_nodes (reg cf) s \<noteq> None"
  proof (cases "ctx_locked (reg cf)")
    case False
    then show ?thesis using node_invD(4) [OF tinvD(4) [OF inv]] s by blast
  next
    case True
    then obtain u where u: "in_cs (phase_of cf u)" using tinvD(3) [OF inv] by blast
    then have "cs_inv (phase_of cf) u (phase_of cf u) (reg cf) xs" by (rule tinvD(1) [OF inv])
    then show ?thesis
      using u s node_invD(4) by (cases "phase_of cf u") (fastforce split: if_splits)+
  qed
  then obtain n where n: "ctx_nodes (reg cf) s = Some n" by blast
  note ok = data_okD [OF tinvD(5) [OF inv] n]
  from t show ?thesis
  proof
    assume t: "phase_of cf t = Init s"
    obtain called c where c: "thread_start e s (reg cf) = Some (called, c)" "same_shape (reg cf) c"
      using thread_start_ok [OF e n ok] by blast
    have other: "\<forall>a. a \<noteq> s \<longrightarrow> ctx_nodes c a = ctx_nodes (reg cf) a"
      using c(1) by (auto simp: thread_start_def init_node_def bind_Some_conv split: if_splits)
    have "tinv (after_step cf t (if called then Running None else Cleanup s) c None) xs"
      by (rule tinv_own_step [OF inv _ _ _ _ c(2)]) (use t own other in auto)
    then show ?thesis using t c(1) by (intro step_goodI [OF _ _ list_step_refl]) simp_all
  next
    assume t: "phase_of cf t = Cleanup s"
    obtain c where c: "cleanup_mark s (reg cf) = Some c" "same_shape (reg cf) c"
      using cleanup_mark_ok [OF n ok] by blast
    have other: "\<forall>a. a \<noteq> s \<longrightarrow> ctx_nodes c a = ctx_nodes (reg cf) a"
      using c(1) by (auto simp: cleanup_mark_def bind_Some_conv)
    have "tinv (after_step cf t (Cleanup_lock s) c None) xs"
      by (rule tinv_own_step [OF inv _ _ _ _ c(2)]) (use t own other in auto)
    then show ?thesis using t c(1) by (intro step_goodI [OF _ _ list_step_refl]) simp_all
  qed
qed

lemma new_node_ok: "call_ok q \<Longrightarrow> name_ok (cc_name q) \<Longrightarrow> node_ok (new_node (cc_name q) (cc_path q) (cc_args q))"
  by (simp add: node_ok_def new_node_def buf_cstr_strncpy call_ok_def name_ok_def)

lemma step_Create_find:
  assumes inv: "tinv cf xs" and t: "phase_of cf t = Create_find q p" and blk: "ctx_nodes (reg cf) blk = None"
  shows "step_good e blk cf t xs"
proof -
  have "cs_inv (phase_of cf) t (phase_of cf t) (reg cf) xs" by (rule tinvD(1) [OF inv]) (simp add: t)
  then obtain us vs where reg: "node_inv (reg cf) xs" and q: "call_ok q" "name_ok (cc_name q)"
    and xs: "xs = us @ vs" "p = hd_or vs None" "\<forall>a \<in> set us. node_cname (reg cf) a \<noteq> Some (cc_name q)"
    using t by auto
  show ?thesis
  proof (cases vs)
    case Nil
    let ?n = "new_node (cc_name q) (cc_path q) (cc_args q)"
    let ?c = "(reg cf)\<lparr>ctx_nodes := (ctx_nodes (reg cf))(blk := Some ?n)\<rparr>" and ?ph = "Create_link q blk Head"
    have new: "blk \<notin> set xs" using node_invD(4) [OF reg, of blk] blk by simp
    have self: "Node blk \<noteq> t" using tinvD(7) [OF inv, of blk] t new by (auto simp: needs_node_def)
    have "phase_of cf (Node blk) \<noteq> Unlock Exit"
      using tinvD(2) [OF inv, of "Node blk" t] self t by auto
    then have gone: "phase_of cf (Node blk) = Gone"
      using tinvD(7) [OF inv, of blk] new by (auto simp: needs_node_def)
    have names: "node_cname ?c a = node_cname (reg cf) a" if "a \<in> set xs" for a
      using that new by (auto simp: node_cname_def)
    have "?c\<lparr>ctx_nodes := (ctx_nodes ?c)(blk := None)\<rparr> = reg cf" using blk by (simp add: fun_upd_idem)
    moreover have "\<exists>us' vs'. xs = us' @ vs' \<and> Head = end_slot Head us'"
      by (rule exI [of _ "[]"], rule exI [of _ xs]) simp
    ultimately have cs: "cs_inv (spawn None ((phase_of cf)(t := ?ph))) t ?ph ?c xs"
      using new q gone self reg xs names Nil by (simp add: spawn_def)
    have "tinv (after_step cf t ?ph ?c None) xs"
    proof (rule tinv_cs_step [OF inv cs_alone(1) [OF inv] _ _ _ cs])
      show "data_ok ?c"
        using tinvD(5) [OF inv] new_node_ok [OF q] by (simp add: data_ok_def)
    qed (use t tinvD(7) [OF inv] cs_alone(2) [OF inv, of t] in \<open>auto simp: needs_node_def\<close>)
    moreover have "phase_step e blk (phase_of cf t) (reg cf) = Some (?ph, ?c, None)"
      using t xs(2) Nil blk by (simp add: new_node_def)
    ultimately show ?thesis by (intro step_goodI [OF _ _ list_step_refl])
  next
    case (Cons a ws)
    obtain n where n: "ctx_nodes (reg cf) a = Some n" using node_inv_alloc [OF reg, of a] xs(1) Cons by auto
    obtain nm where nm: "node_cname (reg cf) a = Some nm" using node_inv_cname [OF reg, of a] xs(1) Cons by auto
    have nx: "n_next n = hd_or ws None"
      using node_invD(2) [OF reg] n by (simp add: nxt_def xs(1) Cons)
    define ph where "ph = (if nm = cc_name q then Unlock (Return 3) else Create_find q (n_next n))"
    have "phase_step e blk (phase_of cf t) (reg cf) = Some (ph, reg cf, None)"
      using t xs(2) Cons nm n by (simp add: ph_def)
    moreover have "cs_inv ((phase_of cf)(t := ph)) t ph (reg cf) xs"
    proof (cases "nm = cc_name q")
      case True
      then show ?thesis using reg by (simp add: ph_def)
    next
      case False
      have "\<exists>us' vs'. xs = us' @ vs' \<and> n_next n = hd_or vs' None \<and> (\<forall>b \<in> set us'. node_cname (reg cf) b \<noteq> Some (cc_name q))"
        by (rule exI [of _ "us @ [a]"], rule exI [of _ ws]) (use xs(1,3) Cons nx nm False in auto)
      then show ?thesis using reg q False by (simp add: ph_def)
    qed
    then have "tinv (after_step cf t ph (reg cf) None) xs"
      by (rule tinv_cs_keep [OF inv]) (use t in \<open>auto simp: ph_def needs_node_def\<close>)
    ultimately show ?thesis by (intro step_goodI [OF _ _ list_step_refl])
  qed
qed

lemma step_Create_link:
  assumes inv: "tinv cf xs" and t: "phase_of cf t = Create_link q s pph"
  shows "step_good e blk cf t xs"
proof -
  have "cs_inv (phase_of cf) t (phase_of cf t) (reg cf) xs" by (rule tinvD(1) [OF inv]) (simp add: t)
  then obtain us vs where s: "s \<notin> set xs" "phase_of cf (Node s) = Gone"
      "ctx_nodes (reg cf) s = Some (new_node (cc_name q) (cc_path q) (cc_args q))"
    and q: "call_ok q" "name_ok (cc_name q)" "\<forall>a \<in> set xs. node_cname (reg cf) a \<noteq> Some (cc_name q)"
    and reg: "node_inv ((reg cf)\<lparr>ctx_nodes := (ctx_nodes (reg cf))(s := None)\<rparr>) xs"
    and xs: "xs = us @ vs" "pph = end_slot Head us"
    using t by auto
  have self: "Node s \<noteq> t" using s(2) t by auto
  have read: "read_slot (reg cf) pph = Some (hd_or vs None)"
    unfolding xs(2) by (rule link_read) (use reg s(1) xs(1) in auto)
  show ?thesis
  proof (cases vs)
    case (Cons a ws)
    let ?ph = "Create_link q s (Next a)"
    have "\<exists>us' vs'. xs = us' @ vs' \<and> Next a = end_slot Head us'"
      by (rule exI [of _ "us @ [a]"], rule exI [of _ ws]) (use xs(1) Cons in auto)
    then have "cs_inv ((phase_of cf)(t := ?ph)) t ?ph (reg cf) xs" using s q reg self by simp
    then have "tinv (after_step cf t ?ph (reg cf) None) xs"
      by (rule tinv_cs_keep [OF inv]) (use t in \<open>auto simp: needs_node_def\<close>)
    moreover have "phase_step e blk (phase_of cf t) (reg cf) = Some (?ph, reg cf, None)"
      using t read Cons by simp
    ultimately show ?thesis by (intro step_goodI [OF _ _ list_step_refl])
  next
    case Nil
    let ?ph = "Create_spawn q s"
    obtain c where c: "write_slot (reg cf) pph (Some s) = Some c"
        "node_inv (c\<lparr>ctx_count := ctx_count c + 1\<rparr>) (xs @ [s])" "ctx_locked c = ctx_locked (reg cf)"
      using link_end [OF reg s(1) q(2) s(3) q(3)] xs Nil by auto
    let ?c = "c\<lparr>ctx_count := ctx_count c + 1\<rparr>"
    have data: "data_ok ?c"
      using write_slot_data [OF c(1) tinvD(5) [OF inv]] by (simp add: data_ok_def)
    have "tinv (after_step cf t ?ph ?c None) (xs @ [s])"
      by (rule tinv_cs_step [OF inv cs_alone(1) [OF inv] _ _ data])
        (use t tinvD(7) [OF inv] cs_alone(2) [OF inv, of t] c(2,3) s(2) self in \<open>auto simp: needs_node_def spawn_def\<close>)
    moreover have "phase_step e blk (phase_of cf t) (reg cf) = Some (?ph, ?c, None)"
      using t read Nil c(1) by simp
    moreover have "list_step xs (xs @ [s])" using s(1) by (auto simp: list_step_def)
    ultimately show ?thesis by (intro step_goodI)
  qed
qed

lemma step_Create_spawn:
  assumes inv: "tinv cf xs" and t: "phase_of cf t = Create_spawn q s"
  shows "step_good e blk cf t xs"
proof -
  have "cs_inv (phase_of cf) t (phase_of cf t) (reg cf) xs" by (rule tinvD(1) [OF inv]) (simp add: t)
  then have reg: "node_inv (reg cf) xs" and s: "s \<in> set xs" "phase_of cf (Node s) = Gone"
    using t by auto
  have self: "Node s \<noteq> t" using s(2) t by auto
  note locked = cs_alone(2) [OF inv, of t]
  show ?thesis
  proof (cases "cc_r q < 0")
    case True
    obtain nm where nm: "node_cname (reg cf) s = Some nm" by (rule node_inv_cname [OF reg s(1)])
    let ?ph = "Remove_walk nm Head (Return (cc_r q))"
    have "cs_inv ((phase_of cf)(t := ?ph)) t ?ph (reg cf) xs"
      using reg nm s self by simp (intro exI [of _ "[]"] exI [of _ xs] conjI exI [of _ s], simp_all)
    then have "tinv (after_step cf t ?ph (reg cf) None) xs"
      by (rule tinv_cs_keep [OF inv]) (use t in \<open>auto simp: needs_node_def\<close>)
    moreover have "phase_step e blk (phase_of cf t) (reg cf) = Some (?ph, reg cf, None)"
      using t True nm by simp
    ultimately show ?thesis by (intro step_goodI [OF _ _ list_step_refl])
  next
    case False
    let ?ph = "Unlock (Return (cc_r q))"
    have "tinv (after_step cf t ?ph (reg cf) (Some s)) xs"
      by (rule tinv_cs_step [OF inv cs_alone(1) [OF inv] _ _ tinvD(5) [OF inv]])
        (use t tinvD(7) [OF inv] locked reg s self in \<open>auto simp: needs_node_def spawn_def\<close>)
    moreover have "phase_step e blk (phase_of cf t) (reg cf) = Some (?ph, reg cf, Some s)"
      using t False by simp
    ultimately show ?thesis by (intro step_goodI [OF _ _ list_step_refl])
  qed
qed

lemma step_Remove_walk:
  assumes inv: "tinv cf xs" and t: "phase_of cf t = Remove_walk nm pph k"
  shows "step_good e blk cf t xs"
proof -
  have "cs_inv (phase_of cf) t (phase_of cf t) (reg cf) xs" by (rule tinvD(1) [OF inv]) (simp add: t)
  then obtain us vs s where reg: "node_inv (reg cf) xs"
    and xs: "xs = us @ vs" "pph = end_slot Head us" "\<forall>a \<in> set us. node_cname (reg cf) a \<noteq> Some nm"
    and s: "s \<in> set vs" "node_cname (reg cf) s = Some nm"
      "if k = Exit then t = Node s else phase_of cf (Node s) = Gone"
    using t by auto
  obtain a ws where vs: "vs = a # ws" using s(1) by (cases vs) simp_all
  have read: "read_slot (reg cf) pph = Some (Some a)"
    using read_end_slot [of "reg cf" us vs] reg xs(1,2) vs by simp
  obtain n where n: "ctx_nodes (reg cf) a = Some n" using node_inv_alloc [OF reg, of a] xs(1) vs by auto
  obtain nm' where nm': "node_cname (reg cf) a = Some nm'" using node_inv_cname [OF reg, of a] xs(1) vs by auto
  show ?thesis
  proof (cases "nm' = nm")
    case False
    let ?ph = "Remove_walk nm (Next a) k"
    have sw: "s \<in> set ws" using s(1,2) vs nm' False by auto
    have own: "if k = Exit then t = Node s else ((phase_of cf)(t := ?ph)) (Node s) = Gone"
      using s(3) t by (auto split: if_splits)
    have "\<exists>us' vs' s. xs = us' @ vs' \<and> Next a = end_slot Head us' \<and>
        (\<forall>b \<in> set us'. node_cname (reg cf) b \<noteq> Some nm) \<and> s \<in> set vs' \<and> node_cname (reg cf) s = Some nm \<and>
        (if k = Exit then t = Node s else ((phase_of cf)(t := ?ph)) (Node s) = Gone)"
      by (rule exI [of _ "us @ [a]"], rule exI [of _ ws], rule exI [of _ s]) (use sw xs s(2) vs nm' False own in simp)
    then have "cs_inv ((phase_of cf)(t := ?ph)) t ?ph (reg cf) xs" using reg by simp
    then have "tinv (after_step cf t ?ph (reg cf) None) xs"
      by (rule tinv_cs_keep [OF inv]) (use t in \<open>auto simp: needs_node_def\<close>)
    moreover have "phase_step e blk (phase_of cf t) (reg cf) = Some (?ph, reg cf, None)"
      using t read nm' False by simp
    ultimately show ?thesis by (intro step_goodI [OF _ _ list_step_refl])
  next
    case True
    have as: "a = s" using node_cname_inj [OF reg, of a s] nm' True s(1,2) xs(1) vs by auto
    have dist: "s \<notin> set us" "s \<notin> set ws" using node_invD(3) [OF reg] xs(1) vs as by auto
    have ys: "remove1 s xs = us @ ws" using dist(1) xs(1) vs as by (simp add: remove1_split)
    obtain c where c: "write_slot (reg cf) pph (n_next n) = Some c"
        "node_inv (c\<lparr>ctx_nodes := (ctx_nodes c)(a := None), ctx_count := ctx_count c - 1\<rparr>) (us @ ws)"
        "ctx_locked c = ctx_locked (reg cf)"
      using remove_step [of "reg cf" us a ws nm n] reg xs vs nm' True n by auto
    let ?c = "c\<lparr>ctx_nodes := (ctx_nodes c)(a := None), ctx_count := ctx_count c - 1\<rparr>" and ?ph = "Unlock k"
    have data: "data_ok ?c" by (rule data_ok_free [OF write_slot_data [OF c(1) tinvD(5) [OF inv]]])
    have gone: "\<not> needs_node (phase_of cf (Node s)) \<or> t = Node s"
      using s(3) by (auto simp: needs_node_def split: if_splits)
    have kept: "x \<in> set (us @ ws)" if "needs_node (phase_of cf (Node x))" "Node x \<noteq> t" for x
      using tinvD(7) [OF inv that(1)] that gone xs(1) vs as by auto
    have self: "\<not> needs_node ?ph" if "t = Node s"
    proof -
      have "phase_of cf (Node s) \<noteq> Gone" using that t by auto
      then show ?thesis using s(3) by (auto simp: needs_node_def split: if_splits)
    qed
    have mine: "x \<in> set (us @ ws)" if "t = Node x" "needs_node ?ph" for x
    proof -
      have "x \<noteq> s" using self that by auto
      moreover have "x \<in> set xs" using tinvD(7) [OF inv, of x] that(1) t by (simp add: needs_node_def)
      ultimately show ?thesis using xs(1) vs as by auto
    qed
    have "tinv (after_step cf t ?ph ?c None) (us @ ws)"
    proof (rule tinv_cs_step [OF inv cs_alone(1) [OF inv] _ _ data])
      show "cs_inv (spawn None ((phase_of cf)(t := ?ph))) t ?ph ?c (us @ ws)"
        using c(2) s(3) by (auto split: if_splits)
    qed (use t cs_alone(2) [OF inv, of t] c(3) kept mine in auto)
    moreover have "phase_step e blk (phase_of cf t) (reg cf) = Some (?ph, ?c, None)"
      using t read nm' True n c(1) by simp
    moreover have "list_step xs (us @ ws)"
      unfolding list_step_def using ys xs(1) vs as by (intro disjI2 bexI [of _ s]) auto
    ultimately show ?thesis by (intro step_goodI)
  qed
qed

lemma thread_step_good:
  assumes "tinv cf xs" and "start_ok e" and "ready (phase_of cf t) (reg cf)" and "ctx_nodes (reg cf) blk = None"
  shows "step_good e blk cf t xs"
proof (cases "phase_of cf t")
  case (Create_find q p)
  then show ?thesis using step_Create_find assms by blast
qed (use assms step_Create_lock step_Create_link step_Create_spawn step_Remove_walk step_Unlock step_own
      step_Cleanup_lock in auto)

section \<open>Every reachable configuration\<close>

text \<open>A running thread starts a call, or its script returns: the registry is not touched.\<close>

lemma tinv_script_step:
  assumes inv: "tinv cf xs" and t: "phase_of cf t = Running r" and ph: "\<not> in_cs ph" "own_ok t ph"
  shows "tinv (cf\<lparr>phase_of := (phase_of cf)(t := ph)\<rparr>) xs"
proof -
  have "tinv (after_step cf t ph (reg cf) None) xs"
    by (rule tinv_own_step [OF inv _ _ ph]) (use t in \<open>auto simp: same_shape_def\<close>)
  then show ?thesis by (cases cf) (simp add: after_step_def spawn_def)
qed

lemma tinv_start: "ctx_nodes c = Map.empty \<Longrightarrow> tinv (threads_start c) []"
  by (auto simp: tinv_def threads_start_def qsf_node_init_def node_inv_def data_ok_def needs_node_def)

lemma threads_step_inv:
  assumes "threads_step e cf cf'" and "tinv cf xs" and "start_ok e"
  shows "\<exists>ys. tinv cf' ys \<and> list_step xs ys"
  using assms(1)
proof (cases rule: threads_stepE [consumes 1, case_names thread call return])
  case (thread t blk ph c sp)
  have "step_good e blk cf t xs" by (rule thread_step_good [OF assms(2,3) thread(2,3)])
  then show ?thesis using thread(1,4) by (auto simp: step_good_def after_step_def)
next
  case (call t r q)
  have "tinv cf' xs"
    unfolding call(1) by (rule tinv_script_step [OF assms(2) call(2)])
      (use call(3) in \<open>auto simp: create_start_def call_ok_def name_ok_def\<close>)
  then show ?thesis by auto
next
  case (return s r)
  have "tinv cf' xs"
    unfolding return(1) by (rule tinv_script_step [OF assms(2) return(2)]) simp_all
  then show ?thesis by auto
qed

lemma threads_reach_inv:
  assumes "threads_reach e (threads_start c) cf" and "start_ok e" and "ctx_nodes c = Map.empty"
  shows "\<exists>xs. tinv cf xs"
  using assms(1)
proof (induction rule: threads_reach.induct)
  case threads_init
  then show ?case using tinv_start [OF assms(3)] by blast
next
  case (threads_next cf cf')
  then show ?case using threads_step_inv [OF threads_next.hyps(2) _ assms(2)] by blast
qed

text \<open>The nodes linked into the registry, also while a thread is in its critical section.\<close>

definition linked :: "node_context \<Rightarrow> addr list \<Rightarrow> bool" where
  "linked c xs \<longleftrightarrow> ctx_list c = hd_or xs None \<and> sll (nxt c) xs None"

lemma sll_unique: "sll nx xs None \<Longrightarrow> sll nx ys None \<Longrightarrow> hd_or xs None = hd_or ys None \<Longrightarrow> xs = ys"
proof (induction xs arbitrary: ys)
  case Nil
  then show ?case by (cases ys) auto
next
  case (Cons x xs)
  then show ?case by (cases ys) auto
qed

lemma linked_unique: "linked c xs \<Longrightarrow> linked c ys \<Longrightarrow> xs = ys"
  using sll_unique by (metis linked_def)

lemma node_inv_linked: "node_inv c xs \<Longrightarrow> linked c xs"
  by (simp add: linked_def node_inv_def)

lemma tinv_linked:
  assumes "tinv cf xs"
  shows "linked (reg cf) xs \<and> distinct (map (node_cname (reg cf)) xs) \<and> (\<forall>a \<in> set xs. ctx_nodes (reg cf) a \<noteq> None)"
proof -
  have *: ?thesis if "node_inv (reg cf) xs"
    using that node_inv_linked node_invD(4,6) [OF that] by blast
  show ?thesis
  proof (cases "ctx_locked (reg cf)")
    case False
    then show ?thesis using * tinvD(4) [OF assms] by blast
  next
    case True
    then obtain t where t: "in_cs (phase_of cf t)" using tinvD(3) [OF assms] by blast
    note cs = tinvD(1) [OF assms t]
    show ?thesis
    proof (cases "phase_of cf t")
      case (Create_link q s pph)
      let ?c = "(reg cf)\<lparr>ctx_nodes := (ctx_nodes (reg cf))(s := None)\<rparr>"
      have s: "s \<notin> set xs" "node_inv ?c xs" using cs Create_link by auto
      have eq: "nxt ?c a = nxt (reg cf) a \<and> node_cname ?c a = node_cname (reg cf) a" if "a \<in> set xs" for a
        using that s(1) by (auto simp: nxt_def node_cname_def)
      have "sll (nxt (reg cf)) xs None"
        using node_invD(2) [OF s(2)] sll_cong [of xs "nxt ?c" "nxt (reg cf)"] eq by simp
      moreover have "map (node_cname ?c) xs = map (node_cname (reg cf)) xs" using eq by simp
      then have "distinct (map (node_cname (reg cf)) xs)" using node_invD(6) [OF s(2)] by (simp only:)
      moreover have "\<forall>a \<in> set xs. ctx_nodes (reg cf) a \<noteq> None" using node_inv_dom [OF s(2)] by auto
      ultimately show ?thesis using node_invD(1) [OF s(2)] by (simp add: linked_def)
    qed (use t cs * in auto)
  qed
qed
end
