(* ===== verification/Node_Threads_Live.thy ===== *)
theory Node_Threads_Live
  imports Node_Threads_Correct
begin

text \<open>
  How long a thread can hold the mutex of the registry. \<open>cs_left\<close> bounds the steps it still has to
  make in its critical section; every own step decreases it, and no step of another thread changes
  it.
\<close>

section \<open>The steps left\<close>

text \<open>The part of the list from a node on, and the part behind a slot.\<close>

fun pos_left :: "addr list \<Rightarrow> addr option \<Rightarrow> nat" where
  "pos_left xs None = 0"
| "pos_left xs (Some a) = length (dropWhile (\<lambda>x. x \<noteq> a) xs)"

fun slot_left :: "addr list \<Rightarrow> slot \<Rightarrow> nat" where
  "slot_left xs Head = length xs"
| "slot_left xs (Next a) = length (dropWhile (\<lambda>x. x \<noteq> a) xs) - 1"

fun cs_left :: "addr list \<Rightarrow> phase \<Rightarrow> nat" where
  "cs_left xs (Create_find q p) = 8 + 2 * length xs + pos_left xs p"
| "cs_left xs (Create_link q s pph) = 5 + length xs + slot_left xs pph"
| "cs_left xs (Create_spawn q s) = 3 + length xs"
| "cs_left xs (Remove_walk nm pph k) = 2 + slot_left xs pph"
| "cs_left xs (Unlock k) = 1"
| "cs_left xs _ = 0"

lemma dropWhile_split: "a \<notin> set us \<Longrightarrow> dropWhile (\<lambda>x. x \<noteq> a) (us @ a # ws) = a # ws"
  by (induction us) auto

lemma pos_left_split: "distinct (us @ vs) \<Longrightarrow> pos_left (us @ vs) (hd_or vs None) = length vs"
  by (cases vs) (auto simp: dropWhile_split)

lemma slot_left_split: "distinct (us @ vs) \<Longrightarrow> slot_left (us @ vs) (end_slot Head us) = length vs"
  by (cases us rule: rev_cases) (auto simp: dropWhile_split)

lemma pos_left_le: "pos_left xs p \<le> length xs"
  by (cases p) (simp_all add: length_dropWhile_le)

lemma slot_left_le: "slot_left xs pph \<le> length xs"
proof (cases pph)
  case (Next a)
  have "length (dropWhile (\<lambda>x. x \<noteq> a) xs) \<le> length xs" by (rule length_dropWhile_le)
  then show ?thesis using Next by simp
qed simp

lemma cs_left_le: "cs_left xs ph \<le> 3 * length xs + 8"
proof (cases ph)
  case (Create_find q p)
  then show ?thesis using pos_left_le [of xs p] by simp
next
  case (Create_link q s pph)
  then show ?thesis using slot_left_le [of xs pph] by simp
next
  case (Remove_walk nm pph k)
  then show ?thesis using slot_left_le [of xs pph] by simp
qed simp_all

lemma list_step_length: "list_step xs ys \<Longrightarrow> length ys \<le> Suc (length xs)"
  by (auto simp: list_step_def length_remove1)

section \<open>Steps\<close>

lemma tinv_distinct: "tinv cf xs \<Longrightarrow> distinct xs"
  using tinv_linked distinct_map by blast

lemma same_list:
  assumes "tinv cf xs" and "tinv cf' ys" and "ctx_list (reg cf') = ctx_list (reg cf)" and "nxt (reg cf') = nxt (reg cf)"
  shows "ys = xs"
proof -
  have "linked (reg cf') xs" using tinv_linked [OF assms(1)] assms(3,4) by (simp add: linked_def)
  then show ?thesis using tinv_linked [OF assms(2)] linked_unique by blast
qed

lemma own_step_decreases:
  assumes inv: "tinv cf xs" "tinv (after_step cf t ph c sp) ys" and ls: "list_step xs ys"
    and step: "phase_step e blk (phase_of cf t) (reg cf) = Some (ph, c, sp)"
    and cs: "in_cs (phase_of cf t)" and cs': "in_cs ph"
  shows "cs_left ys ph < cs_left xs (phase_of cf t)"
proof -
  note len = list_step_length [OF ls]
  note dist = tinv_distinct [OF inv(1)]
  have same: "ys = xs" if "c = reg cf" by (rule same_list [OF inv]) (use that in \<open>simp_all add: after_step_def\<close>)
  note inv' = tinvD(1) [OF inv(1) cs]
  show ?thesis
  proof (cases "phase_of cf t")
    case (Create_find q p)
    show ?thesis
    proof (cases p)
      case None
      then have "ph = Create_link q blk Head"
        using step Create_find by (auto simp: bind_Some_conv Let_def)
      then show ?thesis using Create_find None len by simp
    next
      case (Some a)
      obtain us vs where xs: "node_inv (reg cf) xs" "xs = us @ vs" "p = hd_or vs None"
        using inv' Create_find by auto
      then obtain ws where vs: "vs = a # ws" using Some by (cases vs) auto
      obtain nm where nm: "node_cname (reg cf) a = Some nm" using step Create_find Some by (auto simp: bind_Some_conv)
      show ?thesis
      proof (cases "nm = cc_name q")
        case True
        then show ?thesis using step Create_find Some nm by auto
      next
        case False
        then obtain n where n: "ctx_nodes (reg cf) a = Some n" "ph = Create_find q (n_next n)" "c = reg cf"
          using step Create_find Some nm by (auto simp: bind_Some_conv)
        have "n_next n = hd_or ws None"
          using node_invD(2) [OF xs(1)] n(1) by (simp add: nxt_def xs(2) vs)
        then have "pos_left xs (n_next n) = length ws"
          using pos_left_split [of "us @ [a]" ws] dist xs(2) vs by simp
        moreover have "pos_left xs p = Suc (length ws)"
          using pos_left_split [of us vs] dist xs(2,3) vs by simp
        ultimately show ?thesis using n same Create_find by simp
      qed
    qed
  next
    case (Create_link q s pph)
    obtain us vs where xs: "s \<notin> set xs" "node_inv ((reg cf)\<lparr>ctx_nodes := (ctx_nodes (reg cf))(s := None)\<rparr>) xs"
        "xs = us @ vs" "pph = end_slot Head us"
      using inv' Create_link by auto
    have read: "read_slot (reg cf) pph = Some (hd_or vs None)"
      unfolding xs(4) by (rule link_read) (use xs in auto)
    show ?thesis
    proof (cases vs)
      case Nil
      then obtain c1 where "ph = Create_spawn q s" using step Create_link read by (auto simp: bind_Some_conv)
      then show ?thesis using Create_link len by simp
    next
      case (Cons a ws)
      then have ph: "ph = Create_link q s (Next a)" "c = reg cf" using step Create_link read by auto
      have "slot_left xs (Next a) = length ws"
        using slot_left_split [of "us @ [a]" ws] dist xs(3) Cons by simp
      moreover have "slot_left xs pph = Suc (length ws)"
        using slot_left_split [of us vs] dist xs(3,4) Cons by simp
      ultimately show ?thesis using ph same Create_link by simp
    qed
  next
    case (Create_spawn q s)
    then have "c = reg cf" using step by (auto simp: bind_Some_conv split: if_splits)
    then show ?thesis using step Create_spawn same by (auto simp: bind_Some_conv split: if_splits)
  next
    case (Remove_walk nm pph k)
    obtain us vs s where xs: "node_inv (reg cf) xs" "xs = us @ vs" "pph = end_slot Head us" "s \<in> set vs"
      using inv' Remove_walk by auto
    obtain a ws where vs: "vs = a # ws" using xs(4) by (cases vs) simp_all
    have read: "read_slot (reg cf) pph = Some (Some a)"
      using read_end_slot [of "reg cf" us vs] xs vs by simp
    obtain nm' where nm': "node_cname (reg cf) a = Some nm'" using step Remove_walk read by (auto simp: bind_Some_conv)
    show ?thesis
    proof (cases "nm' = nm")
      case True
      then show ?thesis using step Remove_walk read nm' by (auto simp: bind_Some_conv)
    next
      case False
      then have ph: "ph = Remove_walk nm (Next a) k" "c = reg cf" using step Remove_walk read nm' by auto
      have "slot_left xs (Next a) = length ws"
        using slot_left_split [of "us @ [a]" ws] dist xs(2) vs by simp
      moreover have "slot_left xs pph = Suc (length ws)"
        using slot_left_split [of us vs] dist xs(2,3) vs by simp
      ultimately show ?thesis using ph same Remove_walk by simp
    qed
  next
    case (Unlock k)
    then show ?thesis using step cs' by (auto simp: bind_Some_conv split: after.splits)
  qed (use cs in auto)
qed

text \<open>A step of another thread while the mutex is held.\<close>

lemma other_step_same:
  assumes inv: "tinv cf xs" "tinv (after_step cf u ph c sp) ys" and e: "start_ok e"
    and u: "\<not> in_cs (phase_of cf u)" "ready (phase_of cf u) (reg cf)" and lock: "ctx_locked (reg cf)"
    and step: "phase_step e blk (phase_of cf u) (reg cf) = Some (ph, c, sp)"
  shows "ys = xs" and "sp = None"
proof -
  have alloc: "\<exists>n. ctx_nodes (reg cf) s = Some n \<and> node_ok n"
    if "phase_of cf u = Init s \<or> phase_of cf u = Cleanup s" for s
  proof -
    have "s \<in> set xs" using tinvD(6) [OF inv(1), of u] tinvD(7) [OF inv(1), of s] that by (auto simp: needs_node_def)
    then show ?thesis using tinv_linked [OF inv(1)] data_okD [OF tinvD(5) [OF inv(1)]] by (metis option.exhaust)
  qed
  have "same_shape (reg cf) c \<and> sp = None"
  proof (cases "phase_of cf u")
    case (Init s)
    then obtain n where "ctx_nodes (reg cf) s = Some n" "node_ok n" using alloc by blast
    then show ?thesis using thread_start_ok [OF e, of "reg cf" s n] step Init by (auto simp: bind_Some_conv)
  next
    case (Cleanup s)
    then obtain n where "ctx_nodes (reg cf) s = Some n" "node_ok n" using alloc by blast
    then show ?thesis using cleanup_mark_ok [of "reg cf" s n] step Cleanup by (auto simp: bind_Some_conv)
  qed (use u lock in auto)
  then show "sp = None" and "ys = xs"
    using same_list [OF inv] same_shape_sel(1) by (auto simp: after_step_def same_shape_def)
qed

section \<open>A critical section\<close>

text \<open>
  Any interleaving, seen from thread \<open>t\<close>: the number of steps \<open>t\<close> made in its critical section
  while the other threads, and their scripts, did anything in between.
\<close>

inductive cs_run :: "thread_env \<Rightarrow> tid \<Rightarrow> config \<Rightarrow> nat \<Rightarrow> config \<Rightarrow> bool" for e t cf0 where
  cs_start: "cs_run e t cf0 0 cf0"
| cs_own: "cs_run e t cf0 n cf \<Longrightarrow> in_cs (phase_of cf t) \<Longrightarrow> ctx_nodes (reg cf) blk = None \<Longrightarrow>
    phase_step e blk (phase_of cf t) (reg cf) = Some (ph, c, sp) \<Longrightarrow>
    cs_run e t cf0 (Suc n) \<lparr>reg = c, phase_of = spawn sp ((phase_of cf)(t := ph))\<rparr>"
| cs_thread: "cs_run e t cf0 n cf \<Longrightarrow> u \<noteq> t \<Longrightarrow> ready (phase_of cf u) (reg cf) \<Longrightarrow> ctx_nodes (reg cf) blk = None \<Longrightarrow>
    phase_step e blk (phase_of cf u) (reg cf) = Some (ph, c, sp) \<Longrightarrow>
    cs_run e t cf0 n \<lparr>reg = c, phase_of = spawn sp ((phase_of cf)(u := ph))\<rparr>"
| cs_script: "cs_run e t cf0 n cf \<Longrightarrow> threads_step e cf (cf\<lparr>phase_of := (phase_of cf)(u := ph)\<rparr>) \<Longrightarrow>
    phase_of cf u = Running r \<Longrightarrow> u \<noteq> t \<Longrightarrow> cs_run e t cf0 n (cf\<lparr>phase_of := (phase_of cf)(u := ph)\<rparr>)"

lemma in_cs_ready: "in_cs ph \<Longrightarrow> ready ph c"
  by (cases ph) simp_all

lemma cs_run_bound:
  assumes run: "cs_run e t cf0 n cf" and inv: "tinv cf0 xs" and e: "start_ok e"
  shows "\<exists>ys. tinv cf ys \<and> (if in_cs (phase_of cf t) then n + cs_left ys (phase_of cf t) \<le> cs_left xs (phase_of cf0 t)
    else n \<le> cs_left xs (phase_of cf0 t))"
  using run
proof (induction rule: cs_run.induct)
  case cs_start
  then show ?case using inv by auto
next
  case (cs_own n cf blk ph c sp)
  then obtain ys where ys: "tinv cf ys" "n + cs_left ys (phase_of cf t) \<le> cs_left xs (phase_of cf0 t)" by auto
  have "step_good e blk cf t ys"
    by (rule thread_step_good [OF ys(1) e in_cs_ready [OF cs_own.hyps(2)] cs_own.hyps(3)])
  then obtain zs where zs: "tinv (after_step cf t ph c sp) zs" "list_step ys zs"
    using cs_own.hyps(4) by (auto simp: step_good_def)
  have own: "phase_of (after_step cf t ph c sp) t = ph" if "in_cs (phase_of (after_step cf t ph c sp) t)"
    using that by (auto simp: after_step_def spawn_def split: option.splits if_splits)
  have pos: "0 < cs_left ys (phase_of cf t)" using cs_own.hyps(2) by (cases "phase_of cf t") auto
  have "if in_cs (phase_of (after_step cf t ph c sp) t)
      then Suc n + cs_left zs (phase_of (after_step cf t ph c sp) t) \<le> cs_left xs (phase_of cf0 t)
      else Suc n \<le> cs_left xs (phase_of cf0 t)"
    using own own_step_decreases [OF ys(1) zs cs_own.hyps(4,2)] ys(2) pos by auto
  then show ?case using zs(1) by (auto simp: after_step_def)
next
  case (cs_thread n cf u blk ph c sp)
  then obtain ys where ys: "tinv cf ys" "if in_cs (phase_of cf t)
      then n + cs_left ys (phase_of cf t) \<le> cs_left xs (phase_of cf0 t) else n \<le> cs_left xs (phase_of cf0 t)"
    by blast
  have "step_good e blk cf u ys" by (rule thread_step_good [OF ys(1) e cs_thread.hyps(3,4)])
  then obtain zs where zs: "tinv (after_step cf u ph c sp) zs" using cs_thread.hyps(5) by (auto simp: step_good_def)
  let ?ph = "phase_of (after_step cf u ph c sp) t"
  have "if in_cs ?ph then n + cs_left zs ?ph \<le> cs_left xs (phase_of cf0 t) else n \<le> cs_left xs (phase_of cf0 t)"
  proof (cases "in_cs (phase_of cf t)")
    case True
    have "zs = ys" "sp = None"
      using other_step_same [OF ys(1) zs e _ cs_thread.hyps(3) _ cs_thread.hyps(5)] cs_alone [OF ys(1) True]
        cs_thread.hyps(2) by blast+
    then show ?thesis using ys(2) True cs_thread.hyps(2) by (simp add: after_step_def spawn_def)
  next
    case False
    then have "\<not> in_cs ?ph" using cs_thread.hyps(2) by (auto simp: after_step_def spawn_def split: option.splits)
    then show ?thesis using ys(2) False by simp
  qed
  then show ?case using zs by (auto simp: after_step_def)
next
  case (cs_script n cf u ph r)
  then obtain ys where ys: "tinv cf ys" "if in_cs (phase_of cf t)
      then n + cs_left ys (phase_of cf t) \<le> cs_left xs (phase_of cf0 t) else n \<le> cs_left xs (phase_of cf0 t)"
    by blast
  let ?cf = "cf\<lparr>phase_of := (phase_of cf)(u := ph)\<rparr>"
  obtain zs where zs: "tinv ?cf zs" using threads_step_inv [OF cs_script.hyps(2) ys(1) e] by blast
  have "zs = ys" using same_list [OF ys(1) zs] by simp
  then show ?case using ys(2) zs cs_script.hyps(4) by auto
qed

end
