(* ===== verification/Node_Threads_Properties.thy ===== *)
theory Node_Threads_Properties
  imports Node_Threads_Live Node_Properties
begin

text \<open>
  The properties of the node registry under interleaved threads, and the link to theory Node: a
  thread that is not interrupted does, step by step, what the operation does as a whole.
\<close>

section \<open>A thread on its own\<close>












section \<open>A configuration to try the theorems on\<close>

text \<open>The main thread has called \<open>qsf_create_node\<close> for the first node and holds the mutex.\<close>

definition demo_call :: create_call where
  "demo_call = \<lparr>cc_name = demo_name, cc_path = demo_path, cc_args = [49], cc_r = 0\<rparr>"

definition demo_cs :: config where
  "demo_cs = \<lparr>reg = no_nodes\<lparr>ctx_locked := True\<rparr>, phase_of = (\<lambda>_. Gone)(Main := Create_find demo_call None)\<rparr>"

lemma demo_call: "call_ok demo_call" "create_start demo_call = Create_lock demo_call"
  using demo_str by (simp_all add: demo_call_def call_ok_def create_start_def name_ok_def)

lemma no_nodes_start: "no_nodes = snd (qsf_node_init 0 no_nodes)"
  by (simp add: no_nodes_def qsf_node_init_def)

lemma demo_cs_reach: "threads_reach e (threads_start no_nodes) demo_cs"
proof -
  let ?s = "threads_start no_nodes" and ?l = "Create_lock demo_call"
  have s: "reg ?s = no_nodes" "phase_of ?s = (\<lambda>_. Gone)(Main := Running None)"
    using no_nodes_start by (simp_all add: threads_start_def)
  have run: "phase_of ?s Main = Running None" by (simp add: s(2))
  have r1: "threads_reach e ?s (?s\<lparr>phase_of := (phase_of ?s)(Main := ?l)\<rparr>)"
    using threads_next [OF threads_init step_call [OF run demo_call(1)]] demo_call(2) by simp
  have free: "ctx_nodes no_nodes 4 = None" by (simp add: no_nodes(3))
  have "ctx_list no_nodes = None" using node_invD(1) [OF no_nodes(1)] by simp
  then have "phase_step e 4 ?l no_nodes = Some (Create_find demo_call None, no_nodes\<lparr>ctx_locked := True\<rparr>, None)"
    using no_nodes(2) by (simp add: uv_mutex_lock_def)
  then have "threads_step e (?s\<lparr>phase_of := (phase_of ?s)(Main := ?l)\<rparr>)
      \<lparr>reg = no_nodes\<lparr>ctx_locked := True\<rparr>, phase_of = spawn None ((phase_of
         (?s\<lparr>phase_of := (phase_of ?s)(Main := ?l)\<rparr>))(Main := Create_find demo_call None))\<rparr>"
    using s no_nodes(2) free by (intro step_thread [where blk = 4]) simp_all
  then show ?thesis using threads_next [OF r1] by (simp add: demo_cs_def spawn_def s(2))
qed

lemma demo_start_ok: "start_ok demo_thread"
  using demo_thread(1) by (simp add: start_ok_def env_ok_def demo_thread_def load_node_path_empty)

section \<open>Exclusion\<close>



section \<open>The registry between the steps\<close>

text \<open>
  C13: In every interleaving the linked nodes form a list with different names, all of them allocated.
  While the mutex is free the count is right as well and every name finds its node. A step of any
  thread leaves the list as it is, appends one node that was not in it, or takes one node out: no
  step loses another thread's node.
\<close>

theorem node_threads_registry:
  assumes "threads_reach e (threads_start c0) cf" and "start_ok e" and "ctx_nodes c0 = Map.empty"
  shows "\<exists>xs. linked (reg cf) xs \<and> distinct (map (node_cname (reg cf)) xs) \<and>
    (\<forall>a \<in> set xs. ctx_nodes (reg cf) a \<noteq> None) \<and>
    (\<not> ctx_locked (reg cf) \<longrightarrow> ctx_count (reg cf) = int (length xs) \<and> dom (ctx_nodes (reg cf)) = set xs \<and>
       (\<forall>a nm. a \<in> set xs \<and> node_cname (reg cf) a = Some nm \<longrightarrow> find_from_node_list (reg cf) nm = Some (Some a))) \<and>
    (\<forall>cf'. threads_step e cf cf' \<longrightarrow> (\<exists>ys. linked (reg cf') ys \<and>
       (ys = xs \<or> (\<exists>s. s \<notin> set xs \<and> ys = xs @ [s]) \<or> (\<exists>s \<in> set xs. ys = remove1 s xs))))"
proof -
  obtain xs where xs: "tinv cf xs" using threads_reach_inv [OF assms] by blast
  have "\<exists>ys. linked (reg cf') ys \<and>
      (ys = xs \<or> (\<exists>s. s \<notin> set xs \<and> ys = xs @ [s]) \<or> (\<exists>s \<in> set xs. ys = remove1 s xs))"
    if "threads_step e cf cf'" for cf'
    using threads_step_inv [OF that xs assms(2)] tinv_linked unfolding list_step_def by blast
  moreover have "ctx_count (reg cf) = int (length xs) \<and> dom (ctx_nodes (reg cf)) = set xs \<and>
      (\<forall>a nm. a \<in> set xs \<and> node_cname (reg cf) a = Some nm \<longrightarrow> find_from_node_list (reg cf) nm = Some (Some a))"
    if "\<not> ctx_locked (reg cf)"
  proof -
    have inv: "node_inv (reg cf) xs" by (rule tinvD(4) [OF xs that])
    then show ?thesis using node_invD(5) [OF inv] node_inv_dom [OF inv] find_present [OF inv] by blast
  qed
  ultimately show ?thesis using tinv_linked [OF xs] by blast
qed

theorem node_threads_registry_witness:
  "\<exists>cf'. threads_step demo_thread demo_cs cf' \<and> (\<exists>ys. linked (reg cf') ys \<and> length ys \<le> 1)"
proof -
  have free: "ctx_nodes (reg demo_cs) 4 = None" and t: "phase_of demo_cs Main = Create_find demo_call None"
    using no_nodes(3) by (simp_all add: demo_cs_def)
  have "phase_step demo_thread 4 (phase_of demo_cs Main) (reg demo_cs) \<noteq> None"
    unfolding t using free by (simp add: c_assert_def)
  then obtain ph c sp where "phase_step demo_thread 4 (phase_of demo_cs Main) (reg demo_cs) = Some (ph, c, sp)"
    by auto
  then obtain cf' where step: "threads_step demo_thread demo_cs cf'"
    using step_thread [OF _ free, of Main] t by fastforce
  have empty: "xs = []" if "linked (reg demo_cs) xs" for xs
    using that node_invD(1) [OF no_nodes(1)] by (cases xs) (simp_all add: demo_cs_def linked_def)
  obtain xs where "linked (reg demo_cs) xs" "\<exists>ys. linked (reg cf') ys \<and>
      (ys = xs \<or> (\<exists>s. s \<notin> set xs \<and> ys = xs @ [s]) \<or> (\<exists>s \<in> set xs. ys = remove1 s xs))"
    using node_threads_registry [OF demo_cs_reach demo_start_ok no_nodes(3)] step by blast
  then show ?thesis using step empty by force
qed

section \<open>The mutex is given back\<close>

text \<open>
  C31: A thread in its critical section leaves it after a number of its own steps that is bounded by
  the length of the list, whatever the other threads and their scripts do in between.
\<close>

theorem node_threads_release:
  assumes "threads_reach e (threads_start c0) cf" and "start_ok e" and "ctx_nodes c0 = Map.empty"
    and "linked (reg cf) xs" and "cs_run e t cf n cf'"
  shows "n \<le> 3 * length xs + 8"
proof -
  obtain ys where ys: "tinv cf ys" using threads_reach_inv [OF assms(1-3)] by blast
  have xs: "ys = xs" using tinv_linked [OF ys] linked_unique assms(4) by blast
  have "n \<le> cs_left xs (phase_of cf t)"
    using cs_run_bound [OF assms(5) ys assms(2)] xs by (auto split: if_splits)
  then show ?thesis using cs_left_le le_trans by blast
qed

theorem node_threads_release_witness:
  "\<exists>cf'. cs_run demo_thread Main demo_cs 1 cf' \<and> (1 :: nat) \<le> 3 * length ([] :: addr list) + 8"
proof -
  have free: "ctx_nodes (reg demo_cs) 4 = None" and t: "phase_of demo_cs Main = Create_find demo_call None"
    using no_nodes(3) by (simp_all add: demo_cs_def)
  have "phase_step demo_thread 4 (phase_of demo_cs Main) (reg demo_cs) \<noteq> None"
    unfolding t using free by (simp add: c_assert_def)
  then obtain ph c sp where "phase_step demo_thread 4 (phase_of demo_cs Main) (reg demo_cs) = Some (ph, c, sp)"
    by auto
  then obtain cf' where run: "cs_run demo_thread Main demo_cs 1 cf'"
    using cs_own [OF cs_start _ free, of Main] t by fastforce
  moreover have "linked (reg demo_cs) []"
    using node_invD(1) [OF no_nodes(1)] by (simp add: demo_cs_def linked_def)
  ultimately show ?thesis
    using node_threads_release [OF demo_cs_reach demo_start_ok no_nodes(3)] by blast
qed

section \<open>The steps and the operations\<close>



section \<open>Shutdown under the threads\<close>

text \<open>
  \<open>qsf_node_exit\<close> does not wait for the nodes' threads. Called in any reachable configuration in which
  the mutex is free, it ends and frees every node; each thread that has not yet ended, wherever it is,
  faults with its next step, or, when its script is still running, as soon as the script returns.
\<close>

lemma node_exit_strands:
  assumes "threads_reach e (threads_start c0) cf" and "start_ok e" and "ctx_nodes c0 = Map.empty"
    and "\<not> ctx_locked (reg cf)"
  shows "\<exists>c'. qsf_node_exit (reg cf) = Some c' \<and> ctx_nodes c' = Map.empty \<and> \<not> ctx_locked c' \<and>
    (\<forall>s blk ph. phase_of cf (Node s) = ph \<longrightarrow>
       (case ph of
          Running r \<Rightarrow> phase_step e blk (Cleanup s) c' = None
        | Create_lock q \<Rightarrow> True
        | Gone \<Rightarrow> True
        | _ \<Rightarrow> ready ph c' \<and> phase_step e blk ph c' = None))"
proof -
  obtain xs where xs: "tinv cf xs" using threads_reach_inv [OF assms(1-3)] by blast
  obtain c' where c': "qsf_node_exit (reg cf) = Some c'" "node_inv c' []" "\<not> ctx_locked c'"
    using qsf_node_exit_inv [OF tinvD(4) [OF xs assms(4)] assms(4)] by blast
  have none: "ctx_nodes c' = Map.empty" using node_inv_dom [OF c'(2)] by simp
  have "case ph of Running r \<Rightarrow> phase_step e blk (Cleanup s) c' = None | Create_lock q \<Rightarrow> True | Gone \<Rightarrow> True
      | _ \<Rightarrow> ready ph c' \<and> phase_step e blk ph c' = None" if ph: "phase_of cf (Node s) = ph" for s blk ph
  proof -
    have "\<not> in_cs ph" using tinvD(3) [OF xs] assms(4) ph by blast
    moreover have "own_ok (Node s) ph" using tinvD(6) [OF xs, of "Node s"] ph by simp
    ultimately show ?thesis using c'(3)
      by (cases ph) (simp_all add: none cleanup_mark_def thread_start_def init_node_def uv_mutex_lock_def node_cname_def)
  qed
  then show ?thesis using c' none by blast
qed

lemma node_exit_strands_witness:
  "\<exists>c'. qsf_node_exit no_nodes = Some c' \<and> ctx_nodes c' = Map.empty"
  using node_exit_strands [OF threads_init demo_start_ok no_nodes(3)] no_nodes(2) no_nodes_start
  by (auto simp: threads_start_def)

section \<open>A node is launched before it can be reached\<close>

text \<open>
  \<open>qsf_create_node\<close> returns 0, and with it \<open>node.launch\<close> returns \<open>true\<close>, as soon as the thread is
  created: there is a run in which the caller goes on while the new thread has not yet executed
  \<open>init_node\<close>, so that no dealer socket is connected under the new node's name. A message sent to it
  now is one for an unknown receiver.
\<close>

lemma launch_before_dealer:
  "\<exists>cf s. threads_reach e (threads_start no_nodes) cf \<and> phase_of cf Main = Running (Some 0) \<and>
     phase_of cf (Node s) = Init s \<and> find_from_node_list (reg cf) demo_name = Some (Some s) \<and>
     (\<exists>n. ctx_nodes (reg cf) s = Some n \<and> \<not> n_dealer n)"
proof -
  let ?n = "new_node demo_name demo_path [49]" and ?c0 = "no_nodes\<lparr>ctx_locked := True\<rparr>"
  define c1 where "c1 = ?c0\<lparr>ctx_nodes := (ctx_nodes ?c0)(4 := Some ?n)\<rparr>"
  define c2 where "c2 = c1\<lparr>ctx_list := Some 4, ctx_count := 1\<rparr>"
  define c3 where "c3 = c2\<lparr>ctx_locked := False\<rparr>"
  have none: "ctx_nodes no_nodes = Map.empty" "ctx_list no_nodes = None" "ctx_count no_nodes = 0"
    by (simp_all add: no_nodes_def qsf_node_init_def)
  have 1: "threads_reach e (threads_start no_nodes)
      \<lparr>reg = c1, phase_of = (\<lambda>_. Gone)(Main := Create_link demo_call 4 Head)\<rparr>"
    using threads_next [OF demo_cs_reach step_thread [where blk = 4 and t = Main]] none
    by (simp add: demo_cs_def demo_call_def c1_def c_assert_def new_node_def spawn_def)
  have 2: "threads_reach e (threads_start no_nodes)
      \<lparr>reg = c2, phase_of = (\<lambda>_. Gone)(Main := Create_spawn demo_call 4)\<rparr>"
    using threads_next [OF 1 step_thread [where blk = 7 and t = Main]] none by (simp add: c1_def c2_def spawn_def)
  have 3: "threads_reach e (threads_start no_nodes)
      \<lparr>reg = c2, phase_of = (\<lambda>_. Gone)(Main := Unlock (Return 0), Node 4 := Init 4)\<rparr>"
    using threads_next [OF 2 step_thread [where blk = 7 and t = Main]] none by (simp add: c1_def c2_def demo_call_def spawn_def)
  have 4: "threads_reach e (threads_start no_nodes)
      \<lparr>reg = c3, phase_of = (\<lambda>_. Gone)(Main := Running (Some 0), Node 4 := Init 4)\<rparr>"
    using threads_next [OF 3 step_thread [where blk = 7 and t = Main]] none
    by (simp add: c1_def c2_def c3_def spawn_def uv_mutex_unlock_def fun_upd_twist)
  have "node_cname c3 4 = Some demo_name"
    using demo_str by (simp add: node_cname_def c1_def c2_def c3_def new_node_def name_ok_def buf_cstr_strncpy)
  then have "find_from_node_list c3 demo_name = Some (Some 4)"
    by (simp add: find_from_node_list_def c2_def c3_def find_loop.simps)
  then show ?thesis
    using 4 by (intro exI [of _ "\<lparr>reg = c3, phase_of = (\<lambda>_. Gone)(Main := Running (Some 0), Node 4 := Init 4)\<rparr>"] exI [of _ 4])
      (simp add: c1_def c2_def c3_def new_node_def)
qed

end
