(* ===== verification/Lua_Fs_Win.thy ===== *)
theory Lua_Fs_Win
  imports Lua_Fs Node
begin

text \<open>
  The branches of the Lua module \<open>lfs\<close> (\<open>src/lualib/lua_fs.c\<close>) that are compiled on Windows: file
  and directory locks, text mode, directory iterators and file attributes. The functions that only
  call the C library by another name (\<open>_chdir\<close>, \<open>_getcwd\<close>, \<open>_rmdir\<close>) are those of theory Lua_Fs.

  The system is a parameter, the record \<open>win32\<close>. A \<open>long\<close> has 32 bits here. Search handles are
  integers, 0 before the first search and \<open>-1\<close> when it failed; a file handle \<open>None\<close> is
  \<open>INVALID_HANDLE_VALUE\<close>.
\<close>

record win_stat =
  ws_mode :: u16
  ws_dev :: u32
  ws_ino :: u16
  ws_nlink :: u16
  ws_uid :: u16
  ws_gid :: u16
  ws_rdev :: u32
  ws_atime :: u64
  ws_mtime :: u64
  ws_ctime :: u64
  ws_size :: u64

record 'w win32 =
  w_errno :: "'w \<Rightarrow> int"
  w_strerror :: "int \<Rightarrow> bytes"
  w_fileno :: "addr \<Rightarrow> 'w \<Rightarrow> int option"
  w_fseek :: "addr \<Rightarrow> u32 \<Rightarrow> nat \<Rightarrow> 'w \<Rightarrow> int \<times> 'w"
  w_ftell :: "addr \<Rightarrow> 'w \<Rightarrow> u32 \<times> 'w"
  locking :: "int \<Rightarrow> nat \<Rightarrow> u32 \<Rightarrow> 'w \<Rightarrow> int \<times> 'w"
  setmode_fd :: "int \<Rightarrow> int \<Rightarrow> 'w \<Rightarrow> int \<times> 'w"
  CreateFile :: "bytes \<Rightarrow> 'w \<Rightarrow> addr option \<times> 'w"
  CloseHandle :: "addr \<Rightarrow> 'w \<Rightarrow> bool \<times> 'w"
  GetLastError :: "'w \<Rightarrow> int"
  mkdir_path :: "bytes \<Rightarrow> 'w \<Rightarrow> int \<times> 'w"
  findfirst :: "bytes \<Rightarrow> 'w \<Rightarrow> int \<times> bytes \<times> 'w"
  findnext :: "int \<Rightarrow> 'w \<Rightarrow> int \<times> bytes \<times> 'w"
  findclose :: "int \<Rightarrow> 'w \<Rightarrow> int \<times> 'w"
  stati64 :: "bytes \<Rightarrow> 'w \<Rightarrow> win_stat option \<times> 'w"
  w_malloc_ok :: "nat \<Rightarrow> 'w \<Rightarrow> bool"
  w_files :: "nat \<Rightarrow> addr option option"

record win_dir_data =
  w_closed :: bool
  hFile :: int
  pattern :: bytes

record win_Lock =
  fd :: "addr option"

section \<open>Locks on files\<close>

definition LK_UNLCK :: nat where "LK_UNLCK = 0"
definition LK_NBLCK :: nat where "LK_NBLCK = 2"
definition SEEK_END :: nat where "SEEK_END = 2"

text \<open>The results of \<open>fseek\<close> are not looked at; the file position moves.\<close>

definition win_file_lock ::
    "'w win32 \<Rightarrow> addr \<Rightarrow> bytes \<Rightarrow> u32 \<Rightarrow> u32 \<Rightarrow> bytes \<Rightarrow> 'w \<Rightarrow> (bool lua_res \<times> 'w) option" where
  "win_file_lock os fh mode start len funcname w =
    (let c = (mode @ [0]) ! 0;
         lkmode = (if c = of_char CHR ''r'' then Some LK_NBLCK
                   else if c = of_char CHR ''w'' then Some LK_NBLCK
                   else if c = of_char CHR ''u'' then Some LK_UNLCK
                   else None)
     in case lkmode of
          None \<Rightarrow> Some (Inl (Lua_error (funcname @ str '': invalid mode'')), w)
        | Some lk \<Rightarrow> do {
            let (len, w) = (if len = 0 then w_ftell os fh (snd (w_fseek os fh 0 SEEK_END w)) else (len, w));
            let w = snd (w_fseek os fh start SEEK_SET w);
            f \<leftarrow> w_fileno os fh w;
            let (code, w) = locking os f lk len w;
            Some (Inr (code \<noteq> - 1), w) })"

definition win_lock_result :: "'w win32 \<Rightarrow> bool lua_res \<times> 'w \<Rightarrow> lua_value list lua_res \<times> 'w" where
  "win_lock_result os r =
    (case r of
       (Inl e, w) \<Rightarrow> (Inl e, w)
     | (Inr True, w) \<Rightarrow> (Inr [L_bool True], w)
     | (Inr False, w) \<Rightarrow> (Inr [L_nil, L_str (w_strerror os (w_errno os w))], w))"

text \<open>The casts to \<open>long\<close> keep the low 32 bits of the position and the length.\<close>

definition win_lock ::
    "lua_conv \<Rightarrow> 'w win32 \<Rightarrow> lua_value list \<Rightarrow> 'w \<Rightarrow> (lua_value list lua_res \<times> 'w) option" where
  "win_lock cv os args w =
    (case check_file (w_files os) args 1 (str ''lock'') of Inl e \<Rightarrow> Some (Inl e, w) | Inr fh \<Rightarrow>
     case luaL_checkstring cv args 2 of Inl e \<Rightarrow> Some (Inl e, w) | Inr mode \<Rightarrow>
     case luaL_optinteger cv args 3 0 of Inl e \<Rightarrow> Some (Inl e, w) | Inr start \<Rightarrow>
     case luaL_optinteger cv args 4 0 of Inl e \<Rightarrow> Some (Inl e, w) | Inr len \<Rightarrow>
     map_option (win_lock_result os) (win_file_lock os fh mode (ucast start) (ucast len) (str ''lock'') w))"

definition win_unlock ::
    "lua_conv \<Rightarrow> 'w win32 \<Rightarrow> lua_value list \<Rightarrow> 'w \<Rightarrow> (lua_value list lua_res \<times> 'w) option" where
  "win_unlock cv os args w =
    (case check_file (w_files os) args 1 (str ''unlock'') of Inl e \<Rightarrow> Some (Inl e, w) | Inr fh \<Rightarrow>
     case luaL_optinteger cv args 2 0 of Inl e \<Rightarrow> Some (Inl e, w) | Inr start \<Rightarrow>
     case luaL_optinteger cv args 3 0 of Inl e \<Rightarrow> Some (Inl e, w) | Inr len \<Rightarrow>
     map_option (win_lock_result os) (win_file_lock os fh (str ''u'') (ucast start) (ucast len) (str ''unlock'') w))"

section \<open>Locks on directories\<close>

definition ERROR_FILE_EXISTS :: int where "ERROR_FILE_EXISTS = 80"
definition ERROR_SHARING_VIOLATION :: int where "ERROR_SHARING_VIOLATION = 32"

text \<open>\<open>CreateFile\<close> stands for the call with the flags of the code: create new, delete on close.\<close>

definition win_lock_dir ::
    "lua_conv \<Rightarrow> 'w win32 \<Rightarrow> lua_value list \<Rightarrow> 'w \<Rightarrow> (lua_value list + win_Lock) lua_res \<times> 'w" where
  "win_lock_dir cv os args w =
    (case luaL_checklstring cv args 1 of Inl e \<Rightarrow> (Inl e, w) | Inr path \<Rightarrow>
     if \<not> w_malloc_ok os (length path + length lockfile + 1) w
     then (Inr (Inl [L_nil, L_str (w_strerror os (w_errno os w))]), w)
     else
       (let (h, w) = CreateFile os (cstr path @ lockfile) w
        in case h of
             None \<Rightarrow>
               (let en = GetLastError os w
                in (Inr (Inl [L_nil, L_str (if en = ERROR_FILE_EXISTS \<or> en = ERROR_SHARING_VIOLATION
                      then str ''File exists'' else w_strerror os en)]), w))
           | Some h \<Rightarrow> (Inr (Inr \<lparr>fd = Some h\<rparr>), w)))"

definition win_unlock_dir :: "'w win32 \<Rightarrow> win_Lock \<Rightarrow> 'w \<Rightarrow> win_Lock \<times> 'w" where
  "win_unlock_dir os lock w =
    (case fd lock of
       Some h \<Rightarrow> (let (r, w) = CloseHandle os h w in (lock\<lparr>fd := None\<rparr>, w))
     | None \<Rightarrow> (lock, w))"

definition win_lock_release :: "'w win32 \<Rightarrow> win_Lock \<Rightarrow> 'w \<Rightarrow> 'w" where
  "win_lock_release os lock w = (case fd lock of Some h \<Rightarrow> snd (CloseHandle os h w) | None \<Rightarrow> w)"

interpretation win_lock_res: resource "win_unlock_dir os" "\<lambda>l. fd l \<noteq> None" "\<lambda>l. l\<lparr>fd := None\<rparr>" "win_lock_release os"
  for os
  by unfold_locales (auto simp: win_unlock_dir_def win_lock_release_def Let_def split_beta)

section \<open>Text and binary mode\<close>

definition win_setmode_modes :: "(bytes \<times> int) list" where
  "win_setmode_modes = [(str ''binary'', 0x8000), (str ''text'', 0x4000)]"

definition win_g_setmode ::
    "lua_conv \<Rightarrow> 'w win32 \<Rightarrow> lua_value list \<Rightarrow> addr \<Rightarrow> nat \<Rightarrow> 'w \<Rightarrow> (lua_value list lua_res \<times> 'w) option" where
  "win_g_setmode cv os args f arg w =
    (case luaL_checkoption cv args arg None (map fst win_setmode_modes) of Inl e \<Rightarrow> Some (Inl e, w) | Inr op \<Rightarrow> do {
       d \<leftarrow> w_fileno os f w;
       let (res, w) = setmode_fd os d (snd (win_setmode_modes ! op)) w;
       Some (if res \<noteq> - 1
         then Inr [L_bool True,
                case List.find (\<lambda>m. snd m = res) win_setmode_modes of Some m \<Rightarrow> L_str (fst m) | None \<Rightarrow> L_nil]
         else Inr [L_nil, L_str (w_strerror os (w_errno os w)), L_int (of_int (w_errno os w))], w) })"

definition win_f_setmode ::
    "lua_conv \<Rightarrow> 'w win32 \<Rightarrow> lua_value list \<Rightarrow> 'w \<Rightarrow> (lua_value list lua_res \<times> 'w) option" where
  "win_f_setmode cv os args w =
    (case check_file (w_files os) args 1 (str ''setmode'') of Inl e \<Rightarrow> Some (Inl e, w)
     | Inr f \<Rightarrow> win_g_setmode cv os args f 2 w)"

section \<open>Links and directories\<close>

definition win_make_link :: "'w win32 \<Rightarrow> 'w \<Rightarrow> lua_value list" where
  "win_make_link os w =
    [L_nil, L_str (str ''make_link is not supported on Windows: '' @ w_strerror os (w_errno os w)), L_int (of_int (w_errno os w))]"

definition win_make_dir ::
    "lua_conv \<Rightarrow> 'w win32 \<Rightarrow> lua_value list \<Rightarrow> 'w \<Rightarrow> lua_value list lua_res \<times> 'w" where
  "win_make_dir cv os args w =
    (case luaL_checkstring cv args 1 of Inl e \<Rightarrow> (Inl e, w) | Inr path \<Rightarrow>
     (let (r, w) = mkdir_path os path w
      in if r \<noteq> 0 then (Inr [L_nil, L_str (w_strerror os (w_errno os w))], w) else (Inr [L_bool True], w)))"

section \<open>Directory iterators\<close>

definition win_dir_iter ::
    "'w win32 \<Rightarrow> win_dir_data \<Rightarrow> 'w \<Rightarrow> lua_value list lua_res \<times> win_dir_data \<times> 'w" where
  "win_dir_iter os d w =
    (if w_closed d then (Inl (Arg_error 1), d, w)
     else if hFile d = 0
     then (let (h, name, w) = findfirst os (pattern d) w
           in if h = - 1
              then (Inr [L_nil, L_str (w_strerror os (w_errno os w))], d\<lparr>hFile := h, w_closed := True\<rparr>, w)
              else (Inr [L_str name], d\<lparr>hFile := h\<rparr>, w))
     else (let (r, name, w) = findnext os (hFile d) w
           in if r = - 1
              then (let (_, w) = findclose os (hFile d) w in (Inr [], d\<lparr>w_closed := True\<rparr>, w))
              else (Inr [L_str name], d, w)))"

definition win_dir_close :: "'w win32 \<Rightarrow> win_dir_data \<Rightarrow> 'w \<Rightarrow> win_dir_data \<times> 'w" where
  "win_dir_close os d w =
    (d\<lparr>w_closed := True\<rparr>, if \<not> w_closed d \<and> hFile d \<noteq> 0 then snd (findclose os (hFile d) w) else w)"

definition win_dir_release :: "'w win32 \<Rightarrow> win_dir_data \<Rightarrow> 'w \<Rightarrow> 'w" where
  "win_dir_release os d w = (if hFile d \<noteq> 0 then snd (findclose os (hFile d) w) else w)"

interpretation win_dir_res: resource "win_dir_close os" "\<lambda>d. \<not> w_closed d" "\<lambda>d. d\<lparr>w_closed := True\<rparr>" "win_dir_release os"
  for os
  by unfold_locales (auto simp: win_dir_close_def win_dir_release_def)

text \<open>\<open>sprintf\<close> into the array \<open>pattern\<close> of \<open>MAX_PATH + 1\<close> bytes, with its terminator, must fit.\<close>

definition win_dir_iter_factory :: "lua_conv \<Rightarrow> lua_value list \<Rightarrow> (unit lua_res \<times> win_dir_data option) option" where
  "win_dir_iter_factory cv args =
    (case luaL_checkstring cv args 1 of Inl e \<Rightarrow> Some (Inl e, None) | Inr path \<Rightarrow>
     if MAX_PATH - 2 < length path
     then Some (Inl (Lua_error (str ''path too long: '' @ path)), Some \<lparr>w_closed = False, hFile = 0, pattern = []\<rparr>)
     else do {
       c_assert (length (path @ str ''/*'') + 1 \<le> MAX_PATH + 1);
       Some (Inr (), Some \<lparr>w_closed = False, hFile = 0, pattern = path @ str ''/*''\<rparr>) })"

section \<open>File attributes\<close>

text \<open>The type macros test one bit; links, sockets, pipes and block devices do not exist.\<close>

definition win_mode2string :: "u16 \<Rightarrow> bytes" where
  "win_mode2string mode =
    (if mode AND 0x8000 \<noteq> 0 then str ''file''
     else if mode AND 0x4000 \<noteq> 0 then str ''directory''
     else if mode AND 0x2000 \<noteq> 0 then str ''char device''
     else str ''other'')"

definition win_perm2string :: "u16 \<Rightarrow> bytes" where
  "win_perm2string mode =
    (let perms = replicate 9 (of_char CHR ''-'');
         perms = (if mode AND 0x100 \<noteq> 0 then perms[0 := of_char CHR ''r'', 3 := of_char CHR ''r'', 6 := of_char CHR ''r''] else perms);
         perms = (if mode AND 0x80 \<noteq> 0 then perms[1 := of_char CHR ''w'', 4 := of_char CHR ''w'', 7 := of_char CHR ''w''] else perms);
         perms = (if mode AND 0x40 \<noteq> 0 then perms[2 := of_char CHR ''x'', 5 := of_char CHR ''x'', 8 := of_char CHR ''x''] else perms)
     in perms)"

text \<open>Signed 16-bit fields are extended with their sign.\<close>

definition win_members :: "(bytes \<times> (win_stat \<Rightarrow> lua_value)) list" where
  "win_members =
    [(str ''mode'', \<lambda>i. L_str (win_mode2string (ws_mode i))), (str ''dev'', \<lambda>i. L_int (ucast (ws_dev i))),
     (str ''ino'', \<lambda>i. L_int (ucast (ws_ino i))), (str ''nlink'', \<lambda>i. L_int (scast (ws_nlink i))),
     (str ''uid'', \<lambda>i. L_int (scast (ws_uid i))), (str ''gid'', \<lambda>i. L_int (scast (ws_gid i))),
     (str ''rdev'', \<lambda>i. L_int (ucast (ws_rdev i))), (str ''access'', \<lambda>i. L_int (ws_atime i)),
     (str ''modification'', \<lambda>i. L_int (ws_mtime i)), (str ''change'', \<lambda>i. L_int (ws_ctime i)),
     (str ''size'', \<lambda>i. L_int (ws_size i)), (str ''permissions'', \<lambda>i. L_str (win_perm2string (ws_mode i)))]"

definition win_file_info ::
    "lua_conv \<Rightarrow> 'w win32 \<Rightarrow> nat \<Rightarrow> lua_value list \<Rightarrow> lua_tables \<Rightarrow> 'w
     \<Rightarrow> (lua_value list lua_res \<times> lua_tables \<times> 'w) option" where
  "win_file_info cv os new args ts w = file_info_impl cv win_members (stati64 os) new args ts w"

end
