(* ===== verification/Fs_Win_Properties.thy ===== *)
theory Fs_Win_Properties
  imports Fs_Properties Lua_Fs_Win
begin

text \<open>
  The Lua module \<open>lfs\<close> on Windows and elsewhere (\<open>src/lualib/lua_fs.c\<close>): that scripts see the same
  directory iteration on both, and what differs.
\<close>

section \<open>Directory iterators\<close>

text \<open>The further names of a search, as a stream of items.\<close>

definition next_name :: "'w win32 \<Rightarrow> int \<Rightarrow> 'w \<Rightarrow> bytes option \<times> 'w" where
  "next_name os h w = (case findnext os h w of (r, name, w) \<Rightarrow> (if r = - 1 then None else Some name, w))"

fun win_dir_calls :: "'w win32 \<Rightarrow> nat \<Rightarrow> win_dir_data \<Rightarrow> 'w \<Rightarrow> lua_value list lua_res list \<times> win_dir_data \<times> 'w" where
  "win_dir_calls os 0 d w = ([], d, w)"
| "win_dir_calls os (Suc n) d w =
     (let (r, d, w) = win_dir_iter os d w; (rs, d, w) = win_dir_calls os n d w in (r # rs, d, w))"

lemma win_calls_closed: "w_closed d \<Longrightarrow> win_dir_calls os k d w = (replicate k (Inl (Arg_error 1)), d, w)"
  by (induction k) (simp_all add: win_dir_iter_def)

lemma win_iter_entry:
  assumes "next_name os h w = (Some e, w1)" and "h \<noteq> 0"
  shows "win_dir_iter os \<lparr>w_closed = False, hFile = h, pattern = pat\<rparr> w = (Inr [L_str e], \<lparr>w_closed = False, hFile = h, pattern = pat\<rparr>, w1)"
  using assms by (auto simp: next_name_def win_dir_iter_def split: prod.splits if_splits)

lemma win_iter_end:
  assumes "next_name os h w = (None, w1)" and "h \<noteq> 0"
  shows "win_dir_iter os \<lparr>w_closed = False, hFile = h, pattern = pat\<rparr> w =
    (Inr [], \<lparr>w_closed = True, hFile = h, pattern = pat\<rparr>, snd (findclose os h w1))"
  using assms by (auto simp: next_name_def win_dir_iter_def split: prod.splits if_splits)

lemma win_calls_all:
  assumes "yields (next_name os h) w es w'" and "h \<noteq> 0"
  shows "win_dir_calls os (length es + 1 + k) \<lparr>w_closed = False, hFile = h, pattern = pat\<rparr> w =
    (map (\<lambda>e. Inr [L_str e]) es @ Inr [] # replicate k (Inl (Arg_error 1)),
     \<lparr>w_closed = True, hFile = h, pattern = pat\<rparr>, snd (findclose os h w'))"
  using assms(1)
proof (induction es arbitrary: w)
  case Nil
  then have nx: "next_name os h w = (None, w')" by simp
  show ?case by (simp add: win_iter_end [OF nx assms(2)] win_calls_closed)
next
  case (Cons e es)
  then obtain w1 where nx: "next_name os h w = (Some e, w1)" and "yields (next_name os h) w1 es w'" by auto
  note ih = Cons.IH [OF this(2)]
  have "length (e # es) + 1 + k = Suc (length es + 1 + k)" by simp
  then show ?case by (simp only: win_dir_calls.simps win_iter_entry [OF nx assms(2)] ih Let_def prod.case) simp
qed

text \<open>The results of fewer calls are the first ones.\<close>

lemma dir_calls_take:
  "dir_calls os (n + m) d w = Some (rs, d', w') \<Longrightarrow> \<exists>d1 w1. dir_calls os n d w = Some (take n rs, d1, w1)"
proof (induction n arbitrary: d w rs)
  case (Suc n)
  then obtain r d1 w1 rs1 where st: "dir_iter os d w = Some (r, d1, w1)" "dir_calls os (n + m) d1 w1 = Some (rs1, d', w')" "rs = r # rs1"
    by (auto simp: bind_Some_conv split: prod.splits)
  then show ?case using Suc.IH [OF st(2)] by auto
qed simp

lemma win_calls_take:
  "win_dir_calls os (n + m) d w = (rs, d', w') \<Longrightarrow> \<exists>d1 w1. win_dir_calls os n d w = (take n rs, d1, w1)"
proof (induction n arbitrary: d w rs)
  case (Suc n)
  obtain r d1 w1 where st: "win_dir_iter os d w = (r, d1, w1)" by (cases "win_dir_iter os d w") auto
  obtain rs1 where "win_dir_calls os (n + m) d1 w1 = (rs1, d', w')" "rs = r # rs1"
    using Suc.prems st by (auto split: prod.splits)
  then show ?case using Suc.IH st by fastforce
qed simp

text \<open>
  C29: The same iteration on both platforms. When the directory stream of a POSIX system and the
  search on Windows give the same names, a script gets the same result from every call of the
  iterator: the names in order, then the end, then errors. The pattern fits its array for every
  path the length check lets through, and on Windows as well the search is closed exactly once.
\<close>

theorem fs_iteration_portable:
  assumes "opendir os (cstr path) w = (Some p, w0)" and "yields (readdir os p) w0 (e # es) w1"
    and "length (cstr path) \<le> 258" and "findfirst win (cstr path @ str ''/*'') v = (h, e, v0)"
    and "h \<noteq> 0" and "h \<noteq> - 1" and "yields (next_name win h) v0 es v1"
  shows "\<exists>d x x'. dir_iter_factory cv os [L_str path] w = (Inr (), Some d, w0) \<and>
    win_dir_iter_factory cv [L_str path] = Some (Inr (), Some x) \<and>
    (\<forall>n. map_option fst (dir_calls os n d w0) = Some (fst (win_dir_calls win n x v))) \<and>
    snd (win_dir_calls win (length es + 2) x v) = (x', snd (findclose win h v1)) \<and>
    (\<forall>v2. win_dir_close win x' v2 = (x', v2))"
proof -
  let ?d = "\<lparr>closed = False, dir = Some p\<rparr>" and ?x = "\<lparr>w_closed = False, hFile = 0, pattern = cstr path @ str ''/*''\<rparr>"
  let ?h = "\<lparr>w_closed = False, hFile = h, pattern = cstr path @ str ''/*''\<rparr>"
  let ?rs = "\<lambda>k. map (\<lambda>e. Inr [L_str e]) (e # es) @ Inr [] # replicate k (Inl (Arg_error 1)) :: lua_value list lua_res list"
  have first: "win_dir_iter win ?x v = (Inr [L_str e], ?h, v0)"
    using assms(4,6) by (simp add: win_dir_iter_def)
  have win: "win_dir_calls win (length es + 2 + k) ?x v =
      (?rs k, \<lparr>w_closed = True, hFile = h, pattern = cstr path @ str ''/*''\<rparr>, snd (findclose win h v1))" for k
  proof -
    have "length es + 2 + k = Suc (length es + 1 + k)" by simp
    then show ?thesis
      by (simp only: win_dir_calls.simps first win_calls_all [OF assms(7,5)] Let_def prod.case) simp
  qed
  have posix: "\<exists>d'. dir_calls os (length es + 2 + k) ?d w0 = Some (?rs k, d')" for k
    using dir_calls_all [OF assms(2), of k] by (simp del: dir_calls.simps)
  have same: "map_option fst (dir_calls os n ?d w0) = Some (fst (win_dir_calls win n ?x v))" for n
  proof -
    have n: "n + (length es + 2) = length es + 2 + n" by simp
    obtain d' where "dir_calls os (n + (length es + 2)) ?d w0 = Some (?rs n, d')" using posix [of n] n by metis
    then obtain d1 w2 where d1: "dir_calls os n ?d w0 = Some (take n (?rs n), d1, w2)"
      using dir_calls_take [of os n "length es + 2"] by (metis prod.collapse)
    obtain x1 v2 where "win_dir_calls win n ?x v = (take n (?rs n), x1, v2)"
      using win_calls_take [of win n "length es + 2" ?x v] win [of n] n by metis
    then show ?thesis using d1 by simp
  qed
  have "dir_iter_factory cv os [L_str path] w = (Inr (), Some ?d, w0)"
    using assms(1) by (simp add: dir_iter_factory_def lua_arg_def)
  moreover have "win_dir_iter_factory cv [L_str path] = Some (Inr (), Some ?x)"
    using assms(3) by (simp add: win_dir_iter_factory_def lua_arg_def MAX_PATH_def c_assert_def str_def)
  moreover have "snd (win_dir_calls win (length es + 2) ?x v) =
      (\<lparr>w_closed = True, hFile = h, pattern = cstr path @ str ''/*''\<rparr>, snd (findclose win h v1))"
    using win [of 0] by simp
  moreover have "win_dir_close win \<lparr>w_closed = True, hFile = h, pattern = cstr path @ str ''/*''\<rparr> v2 =
      (\<lparr>w_closed = True, hFile = h, pattern = cstr path @ str ''/*''\<rparr>, v2)" for v2
    by (simp add: win_dir_close_def)
  ultimately show ?thesis using same by blast
qed

text \<open>A Windows system with one directory; its state holds the names that are still to come.\<close>

definition demo_win :: "(bytes list \<times> bytes list) win32" where
  "demo_win = \<lparr>w_errno = \<lambda>_. 2, w_strerror = \<lambda>_. str ''No such file'', w_fileno = \<lambda>_ _. Some 3,
     w_fseek = \<lambda>_ _ _ w. (0, w), w_ftell = \<lambda>_ w. (10, w), locking = \<lambda>_ _ _ w. (0, w), setmode_fd = \<lambda>_ _ w. (0x4000, w),
     CreateFile = \<lambda>n w. if n \<in> set (fst w) then (None, w) else (Some 7, (n # fst w, snd w)),
     CloseHandle = \<lambda>_ w. (True, (tl (fst w), snd w)), GetLastError = \<lambda>_. 80, mkdir_path = \<lambda>_ w. (0, w),
     findfirst = \<lambda>_ w. (case snd w of [] \<Rightarrow> (- 1, [], w) | e # es \<Rightarrow> (5, e, (fst w, es))),
     findnext = \<lambda>_ w. (case snd w of [] \<Rightarrow> (- 1, [], w) | e # es \<Rightarrow> (0, e, (fst w, es))),
     findclose = \<lambda>_ w. (0, w), stati64 = \<lambda>_ w. (None, w), w_malloc_ok = \<lambda>_ _. True, w_files = \<lambda>_. None\<rparr>"

theorem fs_iteration_portable_witness:
  "\<exists>d x. dir_iter_factory no_conv demo_os [L_str [46]] ([], [[46], [97]]) = (Inr (), Some d, ([], [[46], [97]])) \<and>
     win_dir_iter_factory no_conv [L_str [46]] = Some (Inr (), Some x) \<and>
     (\<forall>n. map_option fst (dir_calls demo_os n d ([], [[46], [97]])) = Some (fst (win_dir_calls demo_win n x ([], [[46], [97]]))))"
proof -
  have o: "opendir demo_os (cstr [46]) ([], [[46], [97]]) = (Some 3, ([], [[46], [97]]))" by (simp add: demo_os_def)
  have y: "yields (readdir demo_os 3) ([], [[46], [97]]) ([46] # [[97]]) ([], [])" by (simp add: demo_os_def)
  have l: "length (cstr [46]) \<le> 258" by (simp add: cstr_def)
  have f: "findfirst demo_win (cstr [46] @ str ''/*'') ([], [[46], [97]]) = (5, [46], ([], [[97]]))" by (simp add: demo_win_def)
  have n: "yields (next_name demo_win 5) ([], [[97]]) [[97]] ([], [])" by (simp add: demo_win_def next_name_def)
  show ?thesis using fs_iteration_portable [OF o y l f _ _ n, of no_conv] by auto
qed

text \<open>On a path that cannot be searched the iterator ends with an error text and closes nothing.\<close>

lemma win_iter_fails:
  assumes "findfirst win pat v = (- 1, e, v0)"
  shows "win_dir_iter win \<lparr>w_closed = False, hFile = 0, pattern = pat\<rparr> v =
      (Inr [L_nil, L_str (w_strerror win (w_errno win v0))], \<lparr>w_closed = True, hFile = - 1, pattern = pat\<rparr>, v0)"
    and "win_dir_close win \<lparr>w_closed = True, hFile = - 1, pattern = pat\<rparr> v1 = (\<lparr>w_closed = True, hFile = - 1, pattern = pat\<rparr>, v1)"
  using assms by (simp_all add: win_dir_iter_def win_dir_close_def)

section \<open>Directory locks\<close>

text \<open>
  The contract of \<open>CreateFile\<close> with the flags of the code, over the lock files that exist and the
  file each open handle stands for: it creates the file or fails, and the file goes with its handle.
\<close>

definition files_spec :: "'w win32 \<Rightarrow> ('w \<Rightarrow> addr \<rightharpoonup> bytes) \<Rightarrow> bool" where
  "files_spec os open \<longleftrightarrow>
    (\<forall>n w. case CreateFile os n w of
       (None, w') \<Rightarrow> open w' = open w
     | (Some h, w') \<Rightarrow> n \<notin> ran (open w) \<and> open w h = None \<and> open w' = (open w)(h \<mapsto> n)) \<and>
    (\<forall>h w. open (snd (CloseHandle os h w)) = (open w)(h := None))"

text \<open>
  A lock is given only when nobody holds it, while it is held every other attempt fails, and it is
  given up once.
\<close>

lemma win_lock_exclusive:
  assumes fs: "files_spec os open" and mem: "\<forall>n w. w_malloc_ok os n w"
    and got: "win_lock_dir cv os [L_str path] w = (Inr (Inr lock), w1)"
  shows "\<exists>h. fd lock = Some h \<and> cstr path @ lockfile \<notin> ran (open w) \<and> open w1 = (open w)(h \<mapsto> cstr path @ lockfile) \<and>
    (\<forall>w2. cstr path @ lockfile \<in> ran (open w2) \<longrightarrow>
       (\<exists>e w3. win_lock_dir cv os [L_str path] w2 = (Inr (Inl [L_nil, L_str e]), w3) \<and> open w3 = open w2)) \<and>
    (\<forall>w2. open (snd (win_unlock_dir os lock w2)) = (open w2)(h := None)) \<and>
    (\<forall>w2 w4. win_unlock_dir os (fst (win_unlock_dir os lock w2)) w4 = (fst (win_unlock_dir os lock w2), w4))"
proof -
  have create: "case CreateFile os (cstr path @ lockfile) w2 of
      (None, w') \<Rightarrow> open w' = open w2
    | (Some h, w') \<Rightarrow> cstr path @ lockfile \<notin> ran (open w2) \<and> open w2 h = None \<and>
        open w' = (open w2)(h \<mapsto> cstr path @ lockfile)" for w2
    using conjunct1 [OF fs [unfolded files_spec_def], THEN spec, THEN spec] .
  obtain h where h: "CreateFile os (cstr path @ lockfile) w = (Some h, w1)" "lock = \<lparr>fd = Some h\<rparr>"
    using got mem by (auto simp: win_lock_dir_def lua_arg_def Let_def split: prod.splits option.splits)
  have "\<exists>e w3. win_lock_dir cv os [L_str path] w2 = (Inr (Inl [L_nil, L_str e]), w3) \<and> open w3 = open w2"
    if held: "cstr path @ lockfile \<in> ran (open w2)" for w2
  proof -
    obtain w3 where "CreateFile os (cstr path @ lockfile) w2 = (None, w3)" "open w3 = open w2"
      using create [of w2] held by (auto split: prod.splits option.splits)
    then show ?thesis using mem by (simp add: win_lock_dir_def lua_arg_def Let_def)
  qed
  then show ?thesis
    using create [of w] h fs by (auto simp: win_unlock_dir_def files_spec_def Let_def split_beta)
qed

section \<open>File locks\<close>

text \<open>
  Two locks whose positions or lengths differ by a multiple of 4 GiB (here the positions) are the same lock: the Lua
  integers are cut down to a \<open>long\<close>.
\<close>

lemma win_lock_wraps:
  assumes "k = j + 2 ^ 32"
  shows "win_lock cv os [f, L_str mode, L_int k, L_int len] w = win_lock cv os [f, L_str mode, L_int j, L_int len] w"
proof -
  have "unat k = (unat j + 2 ^ 32) mod 2 ^ 64" unfolding assms by (simp add: unat_word_ariths(1))
  then have "unat k mod 2 ^ 32 = unat j mod 2 ^ 32" by (simp add: mod_mod_cancel)
  then have "unat (ucast k :: u32) = unat (ucast j :: u32)" by (simp add: unsigned_ucast_eq take_bit_eq_mod)
  then have "(ucast k :: u32) = ucast j" by (simp only: word_unat_eq_iff)
  moreover have "check_file fs [f, L_str mode, L_int k, L_int len] 1 n = check_file fs [f, L_str mode, L_int j, L_int len] 1 n"
    for fs n by (simp add: check_file_def lua_arg_def)
  ultimately show ?thesis
    by (cases "check_file (w_files os) [f, L_str mode, L_int j, L_int len] 1 (str ''lock'')")
      (simp_all add: win_lock_def lua_arg_def luaL_optinteger_def lua_isnoneornil_def)
qed

section \<open>Permissions\<close>

text \<open>The owner's three bits are shown for the group and for the others as well.\<close>

lemma win_perm2string_bits:
  "win_perm2string m = concat (replicate 3 (map (\<lambda>i. if bit m (8 - i) then str ''rwx'' ! i else of_char CHR ''-'') [0..<3]))"
proof -
  have b: "(m AND 0x100 \<noteq> 0) = bit m 8" "(m AND 0x80 \<noteq> 0) = bit m 7" "(m AND 0x40 \<noteq> 0) = bit m 6"
    using bit_and_pow [of 8 m] bit_and_pow [of 7 m] bit_and_pow [of 6 m] by simp_all
  show ?thesis
    unfolding win_perm2string_def b
    by (cases "bit m 8"; cases "bit m 7"; cases "bit m 6") (simp_all add: str_def numeral_eq_Suc upt_rec Let_def)
qed

end
