(* ===== verification/Lua_Process_Win.thy ===== *)
theory Lua_Process_Win
  imports Lua_Process
begin

text \<open>
  The branches of the Lua module \<open>process\<close> (\<open>src/lualib/lua_process.c\<close>) that are compiled on
  Windows, and how they agree with the other ones. The system time, the random number and the
  generated GUID are arguments.
\<close>

section \<open>Time\<close>

definition EPOCH_BIAS :: u64 where "EPOCH_BIAS = 116444736000000000"

text \<open>\<open>filetime\<close> counts 100 ns since 1601.\<close>

definition win_process_time :: "u64 \<Rightarrow> lua_value list" where
  "win_process_time filetime = [L_int ((filetime - EPOCH_BIAS) div 10000)]"

definition win_process_sleep :: "lua_conv \<Rightarrow> lua_value list \<Rightarrow> u32 lua_res" where
  "win_process_sleep cv args =
    (case luaL_checkinteger cv args 1 of Inl e \<Rightarrow> Inl e | Inr n \<Rightarrow> Inr (ucast n))"

definition win_process_rand32 :: "u32 \<Rightarrow> lua_value list" where
  "win_process_rand32 value = [L_int (ucast value)]"

section \<open>UUIDs\<close>

record guid =
  Data1 :: u32
  Data2 :: u16
  Data3 :: u16
  Data4 :: bytes

text \<open>\<open>%0nX\<close> of a number below \<open>16 ^ n\<close>.\<close>

definition hex_digit :: "nat \<Rightarrow> byte" where
  "hex_digit d = of_nat (if d < 10 then 48 + d else 55 + d)"

fun hex :: "nat \<Rightarrow> nat \<Rightarrow> bytes" where
  "hex 0 k = []"
| "hex (Suc n) k = hex n (k div 16) @ [hex_digit (k mod 16)]"

definition dash :: bytes where "dash = str ''-''"

definition guid_text :: "guid \<Rightarrow> bytes" where
  "guid_text g = hex 8 (unat (Data1 g)) @ dash @ hex 4 (unat (Data2 g)) @ dash @ hex 4 (unat (Data3 g)) @ dash @
     concat (map (\<lambda>b. hex 2 (unat b)) (take 2 (Data4 g))) @ dash @
     concat (map (\<lambda>b. hex 2 (unat b)) (take 6 (drop 2 (Data4 g))))"

text \<open>The structure in memory: the numbers are stored with their low byte first.\<close>

definition guid_bytes :: "guid \<Rightarrow> bytes" where
  "guid_bytes g = [ucast (Data1 g), ucast (drop_bit 8 (Data1 g)), ucast (drop_bit 16 (Data1 g)), ucast (drop_bit 24 (Data1 g)),
     ucast (Data2 g), ucast (drop_bit 8 (Data2 g)), ucast (Data3 g), ucast (drop_bit 8 (Data3 g))] @ Data4 g"

text \<open>\<open>sprintf_s\<close> ends the program when the text does not fit.\<close>

definition win_process_new_uuid :: "lua_conv \<Rightarrow> guid \<Rightarrow> lua_value list \<Rightarrow> lua_value list lua_res option" where
  "win_process_new_uuid cv uuid args =
    (case luaL_optlstring cv args 1 (str ''bin'') of Inl e \<Rightarrow> Some (Inl e) | Inr option \<Rightarrow> do {
       c_assert (3 \<le> length (option @ [0]));
       if take 3 (option @ [0]) = str ''hex''
       then do {
         let text = guid_text uuid;
         c_assert (length text < 40);
         Some (Inr [L_str (take 36 (text @ replicate (40 - length text) 0))]) }
       else Some (Inr [L_str (guid_bytes uuid)]) })"

section \<open>Properties\<close>

text \<open>For the same moment both platforms give the same number of milliseconds.\<close>

lemma process_time_portable:
  assumes "us < 1000000" and "sec < 2 ^ 33"
    and "unat filetime = 116444736000000000 + (sec * 1000000 + us) * 10"
  shows "win_process_time filetime = process_time (int sec, us)"
proof -
  define t where "t = (sec * 1000000 + us) * 10"
  have small: "t < 2 ^ 64" using assms(1,2) by (simp add: t_def)
  have again: "of_nat (unat x) = x" for x :: u64 by simp
  have "filetime = of_nat (116444736000000000 + t)" using again [of filetime] by (simp only: assms(3) t_def)
  then have d: "filetime - EPOCH_BIAS = of_nat t"
    by (simp only: EPOCH_BIAS_def of_nat_add of_nat_numeral add_diff_cancel_left')
  have "(us + sec * 1000 * 1000) div 1000 = sec * 1000 + us div 1000" by (rule div_mult_self1) simp
  moreover have "t = (us + sec * 1000 * 1000) * 10" by (simp add: t_def)
  moreover have "(us + sec * 1000 * 1000) * 10 div (1000 * 10) = (us + sec * 1000 * 1000) div 1000"
    by (rule div_mult_mult2) simp
  ultimately have "t div 10000 = sec * 1000 + us div 1000" by (simp only: mult_numeral_1 flip: numeral_mult) simp
  moreover have "unat (of_nat t div 10000 :: u64) = t div 10000"
    using small by (simp add: unat_div unat_of_nat)
  ultimately have "(filetime - EPOCH_BIAS) div 10000 = of_nat (sec * 1000 + us div 1000)"
    unfolding d using again [of "of_nat t div 10000"] by (simp only:)
  then show ?thesis by (simp add: win_process_time_def process_time_def)
qed

lemma length_hex [simp]: "length (hex n k) = n"
  by (induction n arbitrary: k) simp_all

lemma hex_digit_inj: "d < 16 \<Longrightarrow> d' < 16 \<Longrightarrow> hex_digit d = hex_digit d' \<longleftrightarrow> d = d'"
proof -
  assume d: "d < 16" "d' < 16"
  have u: "unat (hex_digit x) = (if x < 10 then 48 + x else 55 + x)" if "x < 16" for x
  proof -
    define c where "c = (if x < 10 then 48 + x else 55 + x)"
    have "c < 256" using that by (simp add: c_def)
    then have "unat (of_nat c :: byte) = c" by (simp add: unat_of_nat)
    then show ?thesis by (simp only: hex_digit_def c_def)
  qed
  have "unat (hex_digit d) = unat (hex_digit d') \<longleftrightarrow> d = d'" unfolding u [OF d(1)] u [OF d(2)] using d by auto
  then show ?thesis by (simp only: word_unat_eq_iff)
qed

lemma hex_inj: "hex n k = hex n k' \<longleftrightarrow> k mod 16 ^ n = k' mod 16 ^ n"
proof (induction n arbitrary: k k')
  case (Suc n)
  have split: "x mod 16 ^ Suc n = 16 * (x div 16 mod 16 ^ n) + x mod 16" for x :: nat
    by (simp add: mod_mult2_eq [of x 16 "16 ^ n"])
  have "hex (Suc n) k = hex (Suc n) k' \<longleftrightarrow> k div 16 mod 16 ^ n = k' div 16 mod 16 ^ n \<and> k mod 16 = k' mod 16"
    using Suc.IH hex_digit_inj [of "k mod 16" "k' mod 16"] by simp
  also have "\<dots> \<longleftrightarrow> k mod 16 ^ Suc n = k' mod 16 ^ Suc n"
    unfolding split by (auto dest: arg_cong [of _ _ "\<lambda>x. x mod 16"] arg_cong [of _ _ "\<lambda>x. x div 16"])
  finally show ?case .
qed simp

lemma hex_word_inj:
  "LENGTH('a) \<le> 4 * n \<Longrightarrow> hex n (unat v) = hex n (unat v') \<longleftrightarrow> v = v'" for v v' :: "'a :: len word"
proof -
  assume "LENGTH('a) \<le> 4 * n"
  then have "(2 :: nat) ^ LENGTH('a) \<le> 2 ^ (4 * n)" by (rule power_increasing) simp
  then have "unat x < 16 ^ n" for x :: "'a word"
  proof -
    have "unat x < 2 ^ LENGTH('a)" by (rule unsigned_less)
    also note \<open>2 ^ LENGTH('a) \<le> 2 ^ (4 * n)\<close>
    finally show ?thesis by (simp add: power_mult)
  qed
  then show ?thesis by (simp add: hex_inj word_unat_eq_iff)
qed

lemma length_hex_bytes [simp]: "length (concat (map (\<lambda>b :: byte. hex 2 (unat b)) bs)) = 2 * length bs"
  by (induction bs) simp_all

lemma hex_bytes_inj:
  "length bs = length cs \<Longrightarrow>
   concat (map (\<lambda>b :: byte. hex 2 (unat b)) bs) = concat (map (\<lambda>b. hex 2 (unat b)) cs) \<longleftrightarrow> bs = cs"
  by (induction bs cs rule: list_induct2) (simp_all add: hex_word_inj del: hex.simps)

text \<open>The text of a GUID has 36 characters, fits the buffer, and determines the GUID.\<close>

lemma guid_text_length: "length (Data4 g) = 8 \<Longrightarrow> length (guid_text g) = 36"
  by (simp add: guid_text_def dash_def str_def del: hex.simps)

lemma guid_text_inj:
  assumes "length (Data4 g) = 8" and "length (Data4 h) = 8"
  shows "guid_text g = guid_text h \<longleftrightarrow> g = h"
proof
  assume eq: "guid_text g = guid_text h"
  have "Data1 g = Data1 h \<and> Data2 g = Data2 h \<and> Data3 g = Data3 h \<and>
      take 2 (Data4 g) = take 2 (Data4 h) \<and> drop 2 (Data4 g) = drop 2 (Data4 h)"
    using eq assms by (simp add: guid_text_def append_eq_append_conv hex_word_inj hex_bytes_inj del: hex.simps)
  then have "Data1 g = Data1 h" "Data2 g = Data2 h" "Data3 g = Data3 h" "Data4 g = Data4 h"
    using append_take_drop_id [of 2 "Data4 g"] append_take_drop_id [of 2 "Data4 h"] by metis+
  then show "g = h" by simp
qed simp

lemma win_new_uuid_result:
  assumes "length (Data4 g) = 8"
  shows "win_process_new_uuid cv g [L_str (str ''hex'')] = Some (Inr [L_str (guid_text g)])"
    and "win_process_new_uuid cv g [] = Some (Inr [L_str (guid_bytes g)])"
  using guid_text_length [OF assms]
  by (simp_all add: win_process_new_uuid_def luaL_optlstring_def lua_arg_def lua_isnoneornil_def str_def c_assert_def Let_def)

end
