(* ===== verification/Channel.thy ===== *)
theory Channel
  imports Prelude
begin

text \<open>
  Runs of a step function that may fault, and the contract of a channel: what is taken out, followed
  by what is still inside, is what was inside, followed by what is put in.
\<close>

section \<open>Runs\<close>

fun run_of :: "('e \<Rightarrow> 's \<Rightarrow> ('r \<times> 's) option) \<Rightarrow> 'e list \<Rightarrow> 's \<Rightarrow> ('r list \<times> 's) option" where
  "run_of step [] s = Some ([], s)"
| "run_of step (e # es) s = do {
     (r, s) \<leftarrow> step e s;
     (rs, s) \<leftarrow> run_of step es s;
     Some (r # rs, s) }"

lemma run_of_append:
  "run_of step (es @ es') s = do {
     (rs, s) \<leftarrow> run_of step es s;
     (rs', s) \<leftarrow> run_of step es' s;
     Some (rs @ rs', s) }"
proof (induction es arbitrary: s)
  case (Cons e es)
  show ?case by (cases "step e s") (auto simp: Cons bind_Some_conv split: option.split bind_splits)
qed (auto split: bind_splits)

lemma run_of_length: "run_of step es s = Some (rs, s') \<Longrightarrow> length rs = length es"
  by (induction es arbitrary: s rs) (auto simp: bind_Some_conv)

text \<open>A step of one system that is matched by the other, with the same result, stays matched in runs.\<close>

lemma sim_Some: "rel_option (rel_prod (=) R) x (Some (r, m)) \<Longrightarrow> \<exists>z. x = Some (r, z) \<and> R z m"
  by (cases x) auto

lemma sim_None: "rel_option (rel_prod (=) R) x None \<longleftrightarrow> x = None"
  by (cases x) auto

lemma run_of_sim:
  assumes "\<And>e z m. R z m \<Longrightarrow> ok e \<Longrightarrow> rel_option (rel_prod (=) R) (step e z) (step' e m)"
    and "R z m" and "list_all ok es"
  shows "rel_option (rel_prod (=) R) (run_of step es z) (run_of step' es m)"
  using assms(2,3)
proof (induction es arbitrary: z m)
  case (Cons e es)
  have st: "rel_option (rel_prod (=) R) (step e z) (step' e m)"
    using assms(1) Cons.prems by simp
  show ?case
  proof (cases "step' e m")
    case None
    then show ?thesis using st by simp
  next
    case (Some rm)
    obtain r m1 where rm: "rm = (r, m1)" by (cases rm)
    obtain z1 where z1: "step e z = Some (r, z1)" "R z1 m1"
      using sim_Some [OF st [unfolded Some rm]] by blast
    have "rel_option (rel_prod (=) R) (run_of step es z1) (run_of step' es m1)"
      using Cons.IH [OF z1(2)] Cons.prems(2) by simp
    then show ?thesis using Some rm z1(1)
      by (cases "run_of step' es m1"; cases "run_of step es z1") auto
  qed
qed simp

section \<open>Channels\<close>

locale fifo_channel =
  fixes step :: "'e \<Rightarrow> 's \<Rightarrow> ('r \<times> 's) option"
    and put_in :: "'e \<Rightarrow> 'm list"
    and taken_out :: "'e \<Rightarrow> 'r \<Rightarrow> 'm list"
    and inside :: "'s \<Rightarrow> 'm list"
  assumes in_order: "step e s = Some (r, s') \<Longrightarrow> taken_out e r @ inside s' = inside s @ put_in e"
begin

lemma run_in_order:
  "run_of step es s = Some (rs, s') \<Longrightarrow>
    concat (map2 taken_out es rs) @ inside s' = inside s @ concat (map put_in es)"
proof (induction es arbitrary: s rs)
  case (Cons e es)
  obtain r s1 rs1 where st: "step e s = Some (r, s1)" "run_of step es s1 = Some (rs1, s')" "rs = r # rs1"
    using Cons.prems by (auto simp: bind_Some_conv)
  show ?case
    using Cons.IH [OF st(2)] in_order [OF st(1)] by (simp add: st(3))
qed simp

text \<open>A channel that was empty gives out a prefix of what was put in, and all of it when it is empty again.\<close>

lemma run_prefix:
  assumes "run_of step es s = Some (rs, s')" and "inside s = []"
  shows "\<exists>rest. concat (map put_in es) = concat (map2 taken_out es rs) @ rest"
  using run_in_order [OF assms(1)] assms(2) by (intro exI [of _ "inside s'"]) simp

lemma run_complete:
  assumes "run_of step es s = Some (rs, s')" and "inside s = []" and "inside s' = []"
  shows "concat (map2 taken_out es rs) = concat (map put_in es)"
  using run_in_order [OF assms(1)] assms(2,3) by simp

end

end
