(* ===== verification/Mail.thy ===== *)
theory Mail
  imports Router_Correct Lua_Node Channel
begin

text \<open>
  The message bus as a whole: every node sends and receives with the functions of its Lua module
  \<open>node\<close> (\<open>src/lualib/lua_node.c\<close>) on its own dealer socket, while the main thread runs the loop
  of \<open>qsf_start\<close> (\<open>src/qsf_start.c\<close>), one \<open>dispatch_message\<close> after the other. A sequence of
  events is one interleaving of these calls. ZeroMQ hands a message over as a whole, so one call
  of \<open>node.send\<close>, of \<open>node.recv\<close> or of \<open>dispatch_message\<close> is one event.

  The specification is a mailbox system: a list of messages on their way and a list of pairs in
  front of every node. The bus implements it exactly (\<open>mail_run_spec\<close>), and its order laws are
  proved there.
\<close>

section \<open>Runs of the bus\<close>

record 'z mail_system =
  ms_recv :: "'z router_recv"
  ms_send :: "'z zsend"
  ms_dsend :: "bytes \<Rightarrow> 'z zsend"
  ms_drecv :: "bytes \<Rightarrow> 'z zrecv"
  ms_conv :: lua_conv
  ms_ctx :: node_context
  ms_self :: "bytes \<Rightarrow> addr option"

datatype mail_event =
    Ev_send bytes bytes bytes
  | Ev_route
  | Ev_take bytes "lua_value list"

text \<open>
  \<open>Ev_send a b d\<close> is \<open>node.send(b, d)\<close> in the script of the node \<open>a\<close>; \<open>Ev_take p args\<close> is
  \<open>node.recv(args)\<close> in that of \<open>p\<close>; \<open>Ev_route\<close> is one turn of the dispatch loop, which has to go on.
\<close>

fun mail_step :: "'z mail_system \<Rightarrow> mail_event \<Rightarrow> 'z \<Rightarrow> (lua_value list lua_res \<times> 'z) option" where
  "mail_step M (Ev_send a b d) z =
     node_send (ms_conv M) (ms_ctx M) (ms_self M a) (ms_dsend M a) [L_str b, L_str d] z"
| "mail_step M Ev_route z =
     (let (r, z) = dispatch_message (ms_recv M) (ms_send M) z in if r < 0 then None else Some (Inr [], z))"
| "mail_step M (Ev_take p args) z =
     node_recv (ms_conv M) (ms_ctx M) (ms_self M p) (ms_drecv M p) args z"

abbreviation mail_run :: "'z mail_system \<Rightarrow> mail_event list \<Rightarrow> 'z \<Rightarrow> (lua_value list lua_res list \<times> 'z) option" where
  "mail_run M \<equiv> run_of (mail_step M)"

section \<open>The mailboxes\<close>

record mailboxes =
  on_way :: "(bytes \<times> bytes \<times> bytes) list"
  boxes :: "bytes \<Rightarrow> (bytes \<times> bytes) list"

definition no_mail :: mailboxes where "no_mail = \<lparr>on_way = [], boxes = (\<lambda>_. [])\<rparr>"

text \<open>\<open>P\<close> is the set of the nodes' names, \<open>strict\<close> whether \<open>router_mandatory\<close> is on.\<close>

fun box_step :: "bytes set \<Rightarrow> bool \<Rightarrow> mail_event \<Rightarrow> mailboxes \<Rightarrow> (lua_value list lua_res \<times> mailboxes) option" where
  "box_step P strict (Ev_send a b d) m =
     (if b = [] \<or> d = [] then None else Some (Inr [], m\<lparr>on_way := on_way m @ [(a, b, d)]\<rparr>))"
| "box_step P strict Ev_route m =
     (case on_way m of
        [] \<Rightarrow> None
      | (f, t, d) # ms \<Rightarrow>
          if t \<in> P then Some (Inr [], m\<lparr>on_way := ms, boxes := (boxes m)(t := boxes m t @ [(f, d)])\<rparr>)
          else if strict then None else Some (Inr [], m\<lparr>on_way := ms\<rparr>))"
| "box_step P strict (Ev_take p args) m =
     (case boxes m p of
        [] \<Rightarrow> Some (Inr [], m)
      | (f, d) # bs \<Rightarrow> Some (Inr [L_str f, L_str d], m\<lparr>boxes := (boxes m)(p := bs)\<rparr>))"

abbreviation box_run :: "bytes set \<Rightarrow> bool \<Rightarrow> mail_event list \<Rightarrow> mailboxes \<Rightarrow> (lua_value list lua_res list \<times> mailboxes) option" where
  "box_run P strict \<equiv> run_of (box_step P strict)"

section \<open>The laws of the sockets\<close>

text \<open>A dealer with nothing to receive reports an error, whether it waits for its timeout or not.\<close>

definition dealer_idle :: "'z zmq_view \<Rightarrow> bytes \<Rightarrow> 'z zrecv \<Rightarrow> bool" where
  "dealer_idle v me drecv \<longleftrightarrow> (\<forall>z w. inbox v z me = [] \<longrightarrow>
     (\<exists>e z'. drecv w z = (Inl e, z') \<and> view_eq v z (queue v z) (inbox v z) (target v z) z'))"

definition bus_contract :: "'z zmq_view \<Rightarrow> 'z mail_system \<Rightarrow> bytes set \<Rightarrow> bool" where
  "bus_contract v M P \<longleftrightarrow> router_contract v (ms_recv M) (ms_send M) \<and>
     (\<forall>z. queue v z = [] \<longrightarrow> (\<exists>e. ms_recv M z = (Inl e, z) \<and> e < 0)) \<and>
     (\<forall>a \<in> P. dealer_contract v a (ms_dsend M a) (ms_drecv M a) \<and> dealer_idle v a (ms_drecv M a))"

text \<open>The nodes are alive, and their names are those \<open>qsf_create_node\<close> accepts.\<close>

definition nodes_alive :: "'z mail_system \<Rightarrow> bytes set \<Rightarrow> bool" where
  "nodes_alive M P \<longleftrightarrow> (\<forall>a \<in> P. a \<noteq> [] \<and> length a < MAX_ID_LENGTH \<and>
     qsf_node_check_tag (ms_ctx M) (ms_self M a) = Some True)"

definition box_frames :: "(bytes \<times> bytes) list \<Rightarrow> bytes list" where
  "box_frames bs = concat (map (\<lambda>(f, d). [f, d]) bs)"

lemma box_frames_simps [simp]:
  "box_frames [] = []" "box_frames ((f, d) # bs) = f # d # box_frames bs"
  "box_frames (bs @ bs') = box_frames bs @ box_frames bs'"
  by (simp_all add: box_frames_def)

lemma msg_frames_append [simp]: "msg_frames (ms @ ms') = msg_frames ms @ msg_frames ms'"
  by (simp add: msg_frames_def)

text \<open>The state \<open>z\<close> of the message system holds the mail \<open>m\<close>.\<close>

definition mail_ok :: "bytes set \<Rightarrow> mailboxes \<Rightarrow> bool" where
  "mail_ok P m \<longleftrightarrow> (\<forall>(f, t, d) \<in> set (on_way m). f \<in> P \<and> t \<noteq> [] \<and> d \<noteq> []) \<and>
     (\<forall>p \<in> P. \<forall>(f, d) \<in> set (boxes m p). f \<in> P \<and> d \<noteq> [])"

definition holds_mail :: "'z zmq_view \<Rightarrow> bytes set \<Rightarrow> bool \<Rightarrow> 'z \<Rightarrow> mailboxes \<Rightarrow> bool" where
  "holds_mail v P strict z m \<longleftrightarrow> queue v z = msg_frames (on_way m) \<and> target v z = Idle \<and>
     peers v z = P \<and> mandatory v z = strict \<and> (\<forall>p \<in> P. inbox v z p = box_frames (boxes m p)) \<and>
     (\<forall>p \<in> P. outbuf v z p = []) \<and> mail_ok P m"

lemma holds_mailD:
  assumes "holds_mail v P strict z m"
  shows "queue v z = msg_frames (on_way m)" "target v z = Idle" "peers v z = P" "mandatory v z = strict"
    "p \<in> P \<Longrightarrow> inbox v z p = box_frames (boxes m p)" "mail_ok P m" "p \<in> P \<Longrightarrow> outbuf v z p = []"
  using assms by (simp_all add: holds_mail_def)

lemma holds_mail_view:
  assumes "holds_mail v P strict z m" and "view_eq v z (msg_frames (on_way m')) i Idle z'"
    and "\<forall>p \<in> P. i p = box_frames (boxes m' p)" and "mail_ok P m'"
  shows "holds_mail v P strict z' m'"
  using assms by (simp add: holds_mail_def view_eq_def)

section \<open>The bus implements the mailboxes\<close>

lemma node_recv_takes:
  assumes tag: "qsf_node_check_tag c self = Some True" and dc: "dealer_contract v p dsend drecv"
    and i: "inbox v z p = f # d # fs" and f: "f \<noteq> []" "length f < MAX_ID_LENGTH" and d: "d \<noteq> []"
  shows "\<exists>z'. node_recv cv c self drecv args z = Some (Inr [L_str f, L_str d], z') \<and>
    view_eq v z (queue v z) ((inbox v z)(p := fs)) (target v z) z'"
proof -
  let ?w = "case lua_tostring cv (lua_arg args (length args)) of None \<Rightarrow> False | Some s \<Rightarrow> strcmp_eq s (str ''nowait'')"
  obtain z' where z': "qsf_node_recv drecv handle_recv ?w args z = Some (2, args @ [L_str f, L_str d], z')"
      "view_eq v z (queue v z) ((inbox v z)(p := fs)) (target v z) z'"
    using dealer_takes [OF dc i f d, of handle_recv ?w args] handle_recv_pair [OF f(1) d, of args] by auto
  show ?thesis using node_recv_pair [OF tag z'(1)] z'(2) by blast
qed

lemma node_recv_idle:
  assumes tag: "qsf_node_check_tag c self = Some True" and di: "dealer_idle v p drecv" and i: "inbox v z p = []"
  shows "\<exists>z'. node_recv cv c self drecv args z = Some (Inr [], z') \<and>
    view_eq v z (queue v z) (inbox v z) (target v z) z'"
proof -
  let ?w = "case lua_tostring cv (lua_arg args (length args)) of None \<Rightarrow> False | Some s \<Rightarrow> strcmp_eq s (str ''nowait'')"
  obtain a where a: "self = Some a" using tag by (cases self) (auto simp: qsf_node_check_tag_def)
  obtain e z' where z': "drecv ?w z = (Inl e, z')" "view_eq v z (queue v z) (inbox v z) (target v z) z'"
    using di i unfolding dealer_idle_def by blast
  have "qsf_node_recv drecv handle_recv ?w args z = Some (0, args, z')"
    using z'(1) by (simp add: qsf_node_recv_def)
  then have "node_recv cv c self drecv args z = Some (Inr [], z')"
    using tag a by (simp add: node_recv_def with_good_node_def)
  then show ?thesis using z'(2) by blast
qed

lemma send_step:
  assumes b: "bus_contract v M P" "nodes_alive M P" and h: "holds_mail v P strict z m" and a: "a \<in> P"
  shows "rel_option (rel_prod (=) (holds_mail v P strict)) (mail_step M (Ev_send a b d) z)
    (box_step P strict (Ev_send a b d) m)"
proof -
  have dc: "dealer_contract v a (ms_dsend M a) (ms_drecv M a)" using b(1) a by (simp add: bus_contract_def)
  have tag: "qsf_node_check_tag (ms_ctx M) (ms_self M a) = Some True" using b(2) a by (simp add: nodes_alive_def)
  have st: "mail_step M (Ev_send a b d) z = map_option (Pair (Inr [])) (qsf_node_send (ms_dsend M a) b d z)"
    using node_send_ok [OF tag, of "[L_str b, L_str d]" b d] by (simp add: lua_arg_def)
  show ?thesis
  proof (cases "b = [] \<or> d = []")
    case True
    then have "qsf_node_send (ms_dsend M a) b d z = None" by (auto simp: qsf_node_send_def)
    then show ?thesis unfolding st using True by simp
  next
    case False
    then obtain z1 where z1: "qsf_node_send (ms_dsend M a) b d z = Some z1"
        "view_eq v z (queue v z @ [a, b, d]) (inbox v z) (target v z) z1"
      using dealer_sends [OF dc holds_mailD(7) [OF h a], of b d] by blast
    have "holds_mail v P strict z1 (m\<lparr>on_way := on_way m @ [(a, b, d)]\<rparr>)"
      by (rule holds_mail_view [OF h, of _ "inbox v z"])
         (use z1(2) h a False in \<open>auto simp: holds_mail_def mail_ok_def\<close>)
    then show ?thesis unfolding st z1(1) using False by simp
  qed
qed

lemma route_step:
  assumes b: "bus_contract v M P" and h: "holds_mail v P strict z m"
  shows "rel_option (rel_prod (=) (holds_mail v P strict)) (mail_step M Ev_route z) (box_step P strict Ev_route m)"
proof -
  have c: "router_contract v (ms_recv M) (ms_send M)" using b by (simp add: bus_contract_def)
  note hd = holds_mailD [OF h]
  show ?thesis
  proof (cases "on_way m")
    case Nil
    then obtain e where "ms_recv M z = (Inl e, z)" "e < 0"
      using b hd(1) unfolding bus_contract_def by (metis msg_lists_simps(1))
    then show ?thesis using Nil by (simp add: dispatch_message_def)
  next
    case (Cons x ms)
    obtain f t d where x: "x = (f, t, d)" by (cases x)
    have q: "queue v z = f # t # d # msg_frames ms" using hd(1) Cons x by simp
    have ok: "f \<in> P" "d \<noteq> []" using hd(6) Cons x by (auto simp: mail_ok_def)
    show ?thesis
    proof (cases "t \<in> P")
      case True
      then obtain z' where z': "dispatch_message (ms_recv M) (ms_send M) z = (int (length d), z')"
          "view_eq v z (msg_frames ms) ((inbox v z)(t := inbox v z t @ [f, d])) Idle z'"
        using dispatch_known [OF c q hd(2)] hd(3) by blast
      have "holds_mail v P strict z' (m\<lparr>on_way := ms, boxes := (boxes m)(t := boxes m t @ [(f, d)])\<rparr>)"
        by (rule holds_mail_view [OF h, of _ "(inbox v z)(t := inbox v z t @ [f, d])"])
           (use z'(2) hd(5,6) ok Cons True in \<open>auto simp: mail_ok_def\<close>)
      then show ?thesis using Cons x True z'(1) by simp
    next
      case False
      then obtain r z' where z': "dispatch_message (ms_recv M) (ms_send M) z = (r, z')"
          "view_eq v z (msg_frames ms) (inbox v z) Idle z'" "if strict then r < 0 else r = int (length d)"
        using dispatch_unknown [OF c q hd(2)] hd(3,4) by auto
      have "holds_mail v P strict z' (m\<lparr>on_way := ms\<rparr>)"
        by (rule holds_mail_view [OF h, of _ "inbox v z"])
           (use z'(2) hd(5,6) Cons in \<open>auto simp: mail_ok_def\<close>)
      then show ?thesis using Cons x False z'(1,3) by (auto split: if_splits)
    qed
  qed
qed

lemma take_step:
  assumes b: "bus_contract v M P" "nodes_alive M P" and h: "holds_mail v P strict z m" and p: "p \<in> P"
  shows "rel_option (rel_prod (=) (holds_mail v P strict)) (mail_step M (Ev_take p args) z)
    (box_step P strict (Ev_take p args) m)"
proof -
  have dc: "dealer_contract v p (ms_dsend M p) (ms_drecv M p)" "dealer_idle v p (ms_drecv M p)"
    using b(1) p by (simp_all add: bus_contract_def)
  have tag: "qsf_node_check_tag (ms_ctx M) (ms_self M p) = Some True" using b(2) p by (simp add: nodes_alive_def)
  note hd = holds_mailD [OF h]
  show ?thesis
  proof (cases "boxes m p")
    case Nil
    then have i: "inbox v z p = []" using hd(5) [OF p] by simp
    obtain z' where z': "mail_step M (Ev_take p args) z = Some (Inr [], z')"
        "view_eq v z (queue v z) (inbox v z) (target v z) z'"
      using node_recv_idle [OF tag dc(2) i, of "ms_conv M" args] by auto
    have "holds_mail v P strict z' m"
      by (rule holds_mail_view [OF h, of _ "inbox v z"]) (use z'(2) hd in auto)
    then show ?thesis unfolding z'(1) using Nil by simp
  next
    case (Cons x bs)
    obtain f d where x: "x = (f, d)" by (cases x)
    have ok: "f \<in> P" "d \<noteq> []" using hd(6) p Cons x by (auto simp: mail_ok_def)
    then have f: "f \<noteq> []" "length f < MAX_ID_LENGTH" using b(2) by (auto simp: nodes_alive_def)
    have i: "inbox v z p = f # d # box_frames bs" using hd(5) [OF p] Cons x by simp
    obtain z' where z': "mail_step M (Ev_take p args) z = Some (Inr [L_str f, L_str d], z')"
        "view_eq v z (queue v z) ((inbox v z)(p := box_frames bs)) (target v z) z'"
      using node_recv_takes [OF tag dc(1) i f ok(2), of "ms_conv M" args] by auto
    have "holds_mail v P strict z' (m\<lparr>boxes := (boxes m)(p := bs)\<rparr>)"
      by (rule holds_mail_view [OF h, of _ "(inbox v z)(p := box_frames bs)"])
         (use z'(2) hd Cons in \<open>auto simp: mail_ok_def\<close>)
    then show ?thesis unfolding z'(1) using Cons x by simp
  qed
qed

fun event_by :: "bytes set \<Rightarrow> mail_event \<Rightarrow> bool" where
  "event_by P (Ev_send a b d) = (a \<in> P)"
| "event_by P Ev_route = True"
| "event_by P (Ev_take p args) = (p \<in> P)"

lemma mail_step_spec:
  assumes "bus_contract v M P" and "nodes_alive M P" and "holds_mail v P strict z m" and "event_by P ev"
  shows "rel_option (rel_prod (=) (holds_mail v P strict)) (mail_step M ev z) (box_step P strict ev m)"
  using assms send_step [OF assms(1-3)] route_step [OF assms(1,3)] take_step [OF assms(1-3)]
  by (cases ev) (simp_all only: event_by.simps)

lemma mail_run_spec:
  assumes "bus_contract v M P" and "nodes_alive M P" and "holds_mail v P strict z m"
    and "list_all (event_by P) evs"
  shows "rel_option (rel_prod (=) (holds_mail v P strict)) (mail_run M evs z) (box_run P strict evs m)"
  using run_of_sim [OF mail_step_spec [OF assms(1,2)] assms(3,4)] .

section \<open>Order and delivery\<close>

text \<open>
  What was sent to \<open>p\<close>, with the sender's name, in the order of the calls; what the script of \<open>p\<close> got
  from its \<open>node.recv\<close>; what is on its way to it.
\<close>

definition sent_to :: "bytes \<Rightarrow> mail_event list \<Rightarrow> (bytes \<times> bytes) list" where
  "sent_to p evs = concat (map (\<lambda>ev. case ev of Ev_send a b d \<Rightarrow> if b = p then [(a, d)] else [] | _ \<Rightarrow> []) evs)"

fun received :: "bytes \<Rightarrow> mail_event \<times> lua_value list lua_res \<Rightarrow> (bytes \<times> bytes) list" where
  "received p (Ev_take q args, Inr [L_str f, L_str d]) = (if q = p then [(f, d)] else [])"
| "received p _ = []"

definition got_by :: "bytes \<Rightarrow> mail_event list \<Rightarrow> lua_value list lua_res list \<Rightarrow> (bytes \<times> bytes) list" where
  "got_by p evs rs = concat (map (received p) (zip evs rs))"

definition way_to :: "bytes \<Rightarrow> (bytes \<times> bytes \<times> bytes) list \<Rightarrow> (bytes \<times> bytes) list" where
  "way_to p ms = concat (map (\<lambda>(f, t, d). if t = p then [(f, d)] else []) ms)"

lemma mail_lists_simps [simp]:
  "sent_to p [] = []" "sent_to p (Ev_send a b d # evs) = (if b = p then [(a, d)] else []) @ sent_to p evs"
  "sent_to p (Ev_route # evs) = sent_to p evs" "sent_to p (Ev_take q args # evs) = sent_to p evs"
  "sent_to p (evs @ evs') = sent_to p evs @ sent_to p evs'"
  "got_by p [] rs = []" "got_by p (ev # evs) (r # rs) = received p (ev, r) @ got_by p evs rs"
  "way_to p [] = []" "way_to p ((f, t, d) # ms) = (if t = p then [(f, d)] else []) @ way_to p ms"
  "way_to p (ms @ ms') = way_to p ms @ way_to p ms'"
  by (simp_all add: sent_to_def got_by_def way_to_def)

lemma got_by_append: "length evs = length rs \<Longrightarrow> got_by p (evs @ evs') (rs @ rs') = got_by p evs rs @ got_by p evs' rs'"
  by (simp add: got_by_def)

lemma box_step_order:
  assumes "box_step P strict ev m = Some (r, m')" and "p \<in> P"
  shows "received p (ev, r) @ boxes m' p @ way_to p (on_way m') =
    boxes m p @ way_to p (on_way m) @ sent_to p [ev]"
  using assms by (cases ev) (auto split: if_splits list.splits)

text \<open>To each node the mailboxes are a channel: its box and, behind it, what is on the way to it.\<close>

definition mail_for :: "bytes set \<Rightarrow> bytes \<Rightarrow> mailboxes \<Rightarrow> (bytes \<times> bytes) list" where
  "mail_for P p m = (if p \<in> P then boxes m p @ way_to p (on_way m) else [])"

interpretation mailbox: fifo_channel "box_step P strict" "\<lambda>ev. if p \<in> P then sent_to p [ev] else []"
    "\<lambda>ev r. if p \<in> P then received p (ev, r) else []" "mail_for P p" for P strict p
  by unfold_locales (auto simp: mail_for_def dest: box_step_order)

lemma channel_lists:
  assumes "p \<in> P"
  shows "concat (map (\<lambda>ev. if p \<in> P then sent_to p [ev] else []) evs) = sent_to p evs"
    "concat (map2 (\<lambda>ev r. if p \<in> P then received p (ev, r) else []) evs rs) = got_by p evs rs"
  using assms by (simp_all add: sent_to_def got_by_def split_beta)

lemma box_run_order:
  assumes "box_run P strict evs m = Some (rs, m')" and "p \<in> P"
  shows "got_by p evs rs @ boxes m' p @ way_to p (on_way m') =
    boxes m p @ way_to p (on_way m) @ sent_to p evs"
  using mailbox.run_in_order [OF assms(1), of p] channel_lists [OF assms(2)] assms(2) by (simp add: mail_for_def)

lemma box_run_prefix:
  assumes "box_run P strict evs no_mail = Some (rs, m)" and "p \<in> P"
  shows "\<exists>rest. sent_to p evs = got_by p evs rs @ rest"
  using mailbox.run_prefix [OF assms(1), of p] channel_lists [OF assms(2)] by (simp add: mail_for_def no_mail_def)

lemma box_run_complete:
  assumes "box_run P strict evs no_mail = Some (rs, m)" and "p \<in> P" and "boxes m p = []" and "on_way m = []"
  shows "got_by p evs rs = sent_to p evs"
  using mailbox.run_complete [OF assms(1), of p] channel_lists [OF assms(2)] assms(3,4)
  by (simp add: mail_for_def no_mail_def)

text \<open>With nothing sent any more, the dispatcher empties the queue, and the nodes their boxes.\<close>

fun no_send :: "mail_event \<Rightarrow> bool" where
  "no_send (Ev_send a b d) = False"
| "no_send ev = True"

lemma sent_to_no_send: "list_all no_send evs \<Longrightarrow> sent_to p evs = []"
proof (induction evs)
  case (Cons ev evs)
  then show ?case by (cases ev) simp_all
qed simp

lemma route_all:
  assumes "\<not> strict \<or> (\<forall>e \<in> set (on_way m). fst (snd e) \<in> P)"
  shows "\<exists>rs m'. box_run P strict (replicate (length (on_way m)) Ev_route) m = Some (rs, m') \<and> on_way m' = []"
  using assms
proof (induction "on_way m" arbitrary: m)
  case (Cons x ms)
  obtain f t d where x: "x = (f, t, d)" by (cases x)
  have "\<exists>m1. box_step P strict Ev_route m = Some (Inr [], m1) \<and> on_way m1 = ms"
    using Cons.prems by (cases "t \<in> P") (auto simp: Cons.hyps(2) [symmetric] x)
  then obtain m1 where m1: "box_step P strict Ev_route m = Some (Inr [], m1)" "on_way m1 = ms" by blast
  then show ?case
    using Cons.hyps(1) [of m1] Cons.prems unfolding Cons.hyps(2) [symmetric] by auto
qed simp

lemma take_all:
  "\<exists>rs m'. box_run P strict (replicate (length (boxes m p)) (Ev_take p [])) m = Some (rs, m') \<and>
    on_way m' = on_way m \<and> boxes m' = (boxes m)(p := [])"
proof (induction "boxes m p" arbitrary: m)
  case (Cons x bs)
  obtain f d where x: "x = (f, d)" by (cases x)
  define m1 where "m1 = m\<lparr>boxes := (boxes m)(p := bs)\<rparr>"
  have "box_step P strict (Ev_take p []) m = Some (Inr [L_str f, L_str d], m1)"
    by (simp add: Cons.hyps(2) [symmetric] x m1_def)
  then show ?case using Cons.hyps(1) [of m1] unfolding Cons.hyps(2) [symmetric] by (auto simp: m1_def)
qed auto

lemma take_boxes:
  assumes "set ps \<subseteq> P"
  shows "\<exists>evs rs m'. box_run P strict evs m = Some (rs, m') \<and> list_all no_send evs \<and> list_all (event_by P) evs \<and>
    on_way m' = on_way m \<and> (\<forall>p \<in> set ps. boxes m' p = [])"
  using assms
proof (induction ps arbitrary: m)
  case Nil
  show ?case by (rule exI [of _ "[]"]) simp
next
  case (Cons q ps)
  obtain rs m1 where m1: "box_run P strict (replicate (length (boxes m q)) (Ev_take q [])) m = Some (rs, m1)"
      "on_way m1 = on_way m" "boxes m1 = (boxes m)(q := [])"
    using take_all by blast
  obtain evs rs' m' where m': "box_run P strict evs m1 = Some (rs', m')" "list_all no_send evs"
      "list_all (event_by P) evs" "on_way m' = on_way m1" "\<forall>p \<in> set ps. boxes m' p = []"
    using Cons.IH [of m1] Cons.prems by auto
  have "boxes m' q = []"
    using box_run_order [OF m'(1), of q] sent_to_no_send [OF m'(2), of q] Cons.prems m1(3) m'(4)
    by (auto simp: append_eq_append_conv_if)
  then show ?case
    using m1 m' Cons.prems
    by (intro exI [of _ "replicate (length (boxes m q)) (Ev_take q []) @ evs"])
       (auto simp: run_of_append list_all_iff)
qed

lemma box_drain:
  assumes "finite P" and "\<not> strict \<or> (\<forall>e \<in> set (on_way m). fst (snd e) \<in> P)"
  shows "\<exists>evs rs m'. box_run P strict evs m = Some (rs, m') \<and> list_all no_send evs \<and> list_all (event_by P) evs \<and>
    on_way m' = [] \<and> (\<forall>p \<in> P. boxes m' p = [])"
proof -
  obtain ps where ps: "set ps = P" using finite_list [OF assms(1)] by blast
  obtain rs m1 where m1: "box_run P strict (replicate (length (on_way m)) Ev_route) m = Some (rs, m1)" "on_way m1 = []"
    using route_all [OF assms(2)] by blast
  obtain evs rs' m' where m': "box_run P strict evs m1 = Some (rs', m')" "list_all no_send evs"
      "list_all (event_by P) evs" "on_way m' = on_way m1" "\<forall>p \<in> set ps. boxes m' p = []"
    using take_boxes [of ps P strict m1] ps by blast
  then show ?thesis
    using m1 ps by (intro exI [of _ "replicate (length (on_way m)) Ev_route @ evs"])
      (auto simp: run_of_append list_all_iff)
qed

fun to_known :: "bytes set \<Rightarrow> mail_event \<Rightarrow> bool" where
  "to_known P (Ev_send a b d) = (b \<in> P)"
| "to_known P ev = True"

lemma box_step_way:
  assumes "box_step P strict ev m = Some (r, m')" and "\<forall>e \<in> set (on_way m). fst (snd e) \<in> P" and "to_known P ev"
  shows "\<forall>e \<in> set (on_way m'). fst (snd e) \<in> P"
proof (cases ev)
  case Ev_route
  then have "set (on_way m') \<subseteq> set (on_way m)" using assms(1) by (auto split: list.splits if_splits)
  then show ?thesis using assms(2) by blast
qed (use assms in \<open>auto split: if_splits list.splits\<close>)

lemma box_run_way:
  assumes "box_run P strict evs m = Some (rs, m')" and "\<forall>e \<in> set (on_way m). fst (snd e) \<in> P"
    and "list_all (to_known P) evs"
  shows "\<forall>e \<in> set (on_way m'). fst (snd e) \<in> P"
  using assms
proof (induction evs arbitrary: m rs)
  case (Cons ev evs)
  obtain r m1 rs1 where st: "box_step P strict ev m = Some (r, m1)" "box_run P strict evs m1 = Some (rs1, m')"
    using Cons.prems(1) by (auto simp: bind_Some_conv)
  show ?case using Cons.IH [OF st(2) box_step_way [OF st(1)]] Cons.prems by simp
qed simp

end
