(* ===== verification/Qsf_Service.thy ===== *)
theory Qsf_Service
  imports Mail Luv
begin

text \<open>
  The framework of a service in Lua, \<open>lib/qsf.lua\<close>, over the modules \<open>node\<close> and \<open>luv\<close>. Its function
  \<open>dispatch_message\<close> is meant to be called by a timer every 50 ms; it runs in the thread of one node
  while the bus stands still, so it is a function of the bus state \<open>'z\<close>. The timer itself is never
  made: \<open>qsf_timeout_fails\<close>.

  The module \<open>proto\<close> is not in the repository: \<open>proto.dispatch_ipc_message(router, data)\<close> is the
  argument \<open>ipc\<close>, over the state \<open>'r\<close> of the service; it raises an error or returns a value. The
  packing of \<open>MessagePack\<close> is the argument \<open>mp_pack\<close>.
\<close>

section \<open>The functions\<close>

type_synonym 'r ipc = "'r \<Rightarrow> bytes \<Rightarrow> lua_value lua_res \<times> 'r"

definition svc_send ::
    "'z mail_system \<Rightarrow> bytes \<Rightarrow> lua_value list \<Rightarrow> 'z \<Rightarrow> (lua_value list lua_res \<times> 'z) option" where
  "svc_send M me args z = node_send (ms_conv M) (ms_ctx M) (ms_self M me) (ms_dsend M me) args z"

definition svc_recv ::
    "'z mail_system \<Rightarrow> bytes \<Rightarrow> lua_value list \<Rightarrow> 'z \<Rightarrow> (lua_value list lua_res \<times> 'z) option" where
  "svc_recv M me args z = node_recv (ms_conv M) (ms_ctx M) (ms_self M me) (ms_drecv M me) args z"

text \<open>
  \<open>dispatch_message\<close> of the script: until \<open>node.recv\<close> has nothing, hand the data to \<open>ipc\<close> and send
  what it returns, if anything, to where the data came from. An error leaves the loop.
\<close>

partial_function (option) service_dispatch ::
    "'z mail_system \<Rightarrow> bytes \<Rightarrow> 'r ipc \<Rightarrow> 'r \<Rightarrow> 'z \<Rightarrow> (unit lua_res \<times> 'r \<times> 'z) option" where
  "service_dispatch M me ipc r z =
    Option.bind (svc_recv M me [L_str (str ''nowait'')] z) (\<lambda>(res, z).
    case res of Inl e \<Rightarrow> Some (Inl e, r, z) | Inr vs \<Rightarrow>
    if lua_toboolean (lua_arg vs 1) \<and> lua_toboolean (lua_arg vs 2) then
      let (response, r) = ipc r (the (lua_tostring (ms_conv M) (lua_arg vs 2))) in
      case response of Inl e \<Rightarrow> Some (Inl e, r, z) | Inr v \<Rightarrow>
      if lua_toboolean (Some v) then
        Option.bind (svc_send M me [the (lua_arg vs 1), v] z) (\<lambda>(res, z).
        case res of Inl e \<Rightarrow> Some (Inl e, r, z) | Inr _ \<Rightarrow> service_dispatch M me ipc r z)
      else service_dispatch M me ipc r z
    else Some (Inr (), r, z))"

definition qsf_notify ::
    "'z mail_system \<Rightarrow> bytes \<Rightarrow> (bytes \<Rightarrow> lua_value list \<Rightarrow> bytes) \<Rightarrow> lua_value \<Rightarrow> bytes \<Rightarrow> lua_value list
     \<Rightarrow> 'z \<Rightarrow> (lua_value list lua_res \<times> 'z) option" where
  "qsf_notify M me mp_pack dst method params z = svc_send M me [dst, L_str (mp_pack method params)] z"

definition qsf_log ::
    "'z mail_system \<Rightarrow> bytes \<Rightarrow> (bytes \<Rightarrow> lua_value list \<Rightarrow> bytes) \<Rightarrow> lua_value list
     \<Rightarrow> 'z \<Rightarrow> (lua_value list lua_res \<times> 'z) option" where
  "qsf_log M me mp_pack params z = qsf_notify M me mp_pack (L_str (str ''logger'')) (str ''print'') params z"

definition qsf_launch ::
    "lua_conv \<Rightarrow> addr option \<Rightarrow> int \<Rightarrow> addr option \<Rightarrow> lua_value \<Rightarrow> lua_value \<Rightarrow> lua_value list \<Rightarrow> node_context
     \<Rightarrow> (lua_value list lua_res \<times> node_context) option" where
  "qsf_launch cv block thread self name path args c = do {
     (r, c) \<leftarrow> node_launch cv block thread self ([name, path] @ args) c;
     Some (case r of Inl e \<Rightarrow> Inl e | Inr _ \<Rightarrow> Inr [], c) }"

text \<open>
  \<open>qsf.timeout\<close>: the timer is made by \<open>uv.createTimer()\<close> without arguments, and its result, which is
  no value at all, is indexed.
\<close>

definition qsf_timeout ::
    "lua_conv \<Rightarrow> 'w uv \<Rightarrow> bool \<Rightarrow> addr option \<Rightarrow> lua_value \<Rightarrow> lua_value \<Rightarrow> lua_value \<Rightarrow> 'w luv_state
     \<Rightarrow> (lua_value lua_res \<times> 'w luv_state) option" where
  "qsf_timeout cv lib tag_ok malloc func msec rp s =
    (if \<not> lua_isfunction (Some func) then Some (luaL_error ''assertion failed!'', s)
     else do {
       (r, s) \<leftarrow> luv_new_timer cv lib tag_ok malloc [] s;
       Some (case r of Inl e \<Rightarrow> Inl e | Inr _ \<Rightarrow> luaL_error ''attempt to index a nil value (local 'timer')'', s) })"

text \<open>
  The loop of \<open>qsf.start\<close>, after the timer is set: \<open>xpcall(node.run, trace.dump_stack)\<close> again and
  again; the first error ends it, after one message to the logger. \<open>run\<close> is one call of \<open>node.run\<close>.
\<close>

partial_function (option) service_loop ::
    "'z mail_system \<Rightarrow> bytes \<Rightarrow> (bytes \<Rightarrow> lua_value list \<Rightarrow> bytes) \<Rightarrow> ('z \<Rightarrow> (lua_value option \<times> 'z) option)
     \<Rightarrow> 'z \<Rightarrow> (lua_value list lua_res \<times> 'z) option" where
  "service_loop M me mp_pack run z =
    Option.bind (run z) (\<lambda>(err, z).
    case err of None \<Rightarrow> service_loop M me mp_pack run z | Some result \<Rightarrow> qsf_log M me mp_pack [result] z)"

definition service_start ::
    "'z mail_system \<Rightarrow> bytes \<Rightarrow> (bytes \<Rightarrow> lua_value list \<Rightarrow> bytes) \<Rightarrow> ('z \<Rightarrow> (lua_value option \<times> 'z) option)
     \<Rightarrow> 'w uv \<Rightarrow> bool \<Rightarrow> addr option \<Rightarrow> nat \<Rightarrow> 'z \<Rightarrow> 'w luv_state
     \<Rightarrow> (lua_value list lua_res \<times> 'z \<times> 'w luv_state) option" where
  "service_start M me mp_pack run lib tag_ok malloc dispatch z s = do {
     (timer, s) \<leftarrow> qsf_timeout (ms_conv M) lib tag_ok malloc (L_fun dispatch) (L_int 50) (L_int 50) s;
     case timer of Inl e \<Rightarrow> Some (Inl e, z, s) | Inr _ \<Rightarrow> do {
       (r, z) \<leftarrow> service_loop M me mp_pack run z;
       Some (r, z, s) } }"

text \<open>
  No service of this framework starts: \<open>uv.createTimer\<close> takes the timeout, the interval and the
  function, so the call without them raises an error, after it has made a timer that nothing frees.
\<close>

lemma qsf_timeout_fails:
  assumes "uv_timer_init lib p (luv_world s) = (r, w)" and "0 \<le> r"
  shows "qsf_timeout cv lib True (Some p) (L_fun f) msec rp s =
      Some (Inl (Arg_error 1), s\<lparr>luv_world := w, timers := (timers s)(p \<mapsto> \<lparr>timer_ref = Some 0\<rparr>)\<rparr>)"
    and "service_start M me mp_pack run lib True (Some p) f z s =
      Some (Inl (Arg_error 1), z, s\<lparr>luv_world := w, timers := (timers s)(p \<mapsto> \<lparr>timer_ref = Some 0\<rparr>)\<rparr>)"
  using assms
  by (simp_all add: service_start_def qsf_timeout_def luv_new_timer_def luv_loop_def lua_isfunction_def
      luaL_checkinteger_def lua_tointeger_def lua_arg_def)

section \<open>Serving\<close>

text \<open>What the handler returns for a sequence of requests \<open>(from, data)\<close>, and the replies it sends.\<close>

fun ipc_state :: "'r ipc \<Rightarrow> 'r \<Rightarrow> (bytes \<times> bytes) list \<Rightarrow> 'r" where
  "ipc_state ipc r [] = r"
| "ipc_state ipc r ((f, d) # bs) = ipc_state ipc (snd (ipc r d)) bs"

fun replies :: "'r ipc \<Rightarrow> 'r \<Rightarrow> (bytes \<times> bytes) list \<Rightarrow> (bytes \<times> bytes) list" where
  "replies ipc r [] = []"
| "replies ipc r ((f, d) # bs) =
     (case fst (ipc r d) of Inr (L_str s) \<Rightarrow> [(f, s)] | _ \<Rightarrow> []) @ replies ipc (snd (ipc r d)) bs"

text \<open>A handler that raises no error and answers with a string that is not empty, \<open>nil\<close> or \<open>false\<close>.\<close>

definition ipc_ok :: "'r ipc \<Rightarrow> bool" where
  "ipc_ok ipc \<longleftrightarrow> (\<forall>r d. (\<exists>s. s \<noteq> [] \<and> fst (ipc r d) = Inr (L_str s)) \<or>
     fst (ipc r d) = Inr L_nil \<or> fst (ipc r d) = Inr (L_bool False))"

lemma svc_steps:
  "svc_send M me [L_str b, L_str d] z = mail_step M (Ev_send me b d) z"
  "svc_recv M me args z = mail_step M (Ev_take me args) z"
  by (simp_all add: svc_send_def svc_recv_def)

lemma service_dispatch_serves:
  assumes b: "bus_contract v M P" "nodes_alive M P" and me: "me \<in> P" and ok: "ipc_ok ipc"
    and h: "holds_mail v P strict z m"
  shows "\<exists>z'. service_dispatch M me ipc r z = Some (Inr (), ipc_state ipc r (boxes m me), z') \<and>
    holds_mail v P strict z' (m\<lparr>boxes := (boxes m)(me := []),
      on_way := on_way m @ map (Pair me) (replies ipc r (boxes m me))\<rparr>)"
  using h
proof (induction "boxes m me" arbitrary: m r z)
  case Nil
  have "rel_option (rel_prod (=) (holds_mail v P strict)) (svc_recv M me [L_str (str ''nowait'')] z) (Some (Inr [], m))"
    using take_step [OF b Nil.prems me, of "[L_str (str ''nowait'')]"] Nil.hyps [symmetric] unfolding svc_steps by simp
  from sim_Some [OF this] obtain z' where z': "svc_recv M me [L_str (str ''nowait'')] z = Some (Inr [], z')" "holds_mail v P strict z' m"
    by blast
  have "service_dispatch M me ipc r z = Some (Inr (), r, z')"
    by (subst service_dispatch.simps) (simp add: z'(1) lua_arg_def lua_toboolean_def)
  moreover have "m\<lparr>boxes := (boxes m)(me := []),
      on_way := on_way m @ map (Pair me) (replies ipc r (boxes m me))\<rparr> = m"
    using Nil.hyps [symmetric] by (cases m) (simp add: fun_upd_idem)
  ultimately show ?case using z'(2) Nil.hyps [symmetric] by (metis ipc_state.simps(1))
next
  case (Cons x bs)
  obtain f d where x: "x = (f, d)" by (cases x)
  note bx = Cons.hyps(2) [symmetric, unfolded x]
  define m1 where "m1 = m\<lparr>boxes := (boxes m)(me := bs)\<rparr>"
  have "rel_option (rel_prod (=) (holds_mail v P strict)) (svc_recv M me [L_str (str ''nowait'')] z)
      (Some (Inr [L_str f, L_str d], m1))"
    using take_step [OF b Cons.prems me, of "[L_str (str ''nowait'')]"] bx unfolding svc_steps m1_def by simp
  from sim_Some [OF this] obtain z1 where z1: "svc_recv M me [L_str (str ''nowait'')] z = Some (Inr [L_str f, L_str d], z1)"
      "holds_mail v P strict z1 m1"
    by blast
  obtain res r1 where ipc: "ipc r d = (res, r1)" by (cases "ipc r d")
  have args: "lua_arg [L_str f, L_str d] 1 = Some (L_str f)" "lua_arg [L_str f, L_str d] 2 = Some (L_str d)"
    by (simp_all add: lua_arg_def)
  have "f \<in> P" using holds_mailD(6) [OF Cons.prems] bx me by (auto simp: mail_ok_def)
  then have f: "f \<noteq> []" using b(2) by (simp add: nodes_alive_def)
  have "(\<exists>s. s \<noteq> [] \<and> res = Inr (L_str s)) \<or> res = Inr L_nil \<or> res = Inr (L_bool False)"
    using ok ipc unfolding ipc_ok_def by (metis fst_conv)
  then consider (reply) s where "s \<noteq> []" "res = Inr (L_str s)" | (silent) v where "res = Inr v" "v = L_nil \<or> v = L_bool False"
    by blast
  then show ?case
  proof cases
    case reply
    define m2 where "m2 = m1\<lparr>on_way := on_way m1 @ [(me, f, s)]\<rparr>"
    have "rel_option (rel_prod (=) (holds_mail v P strict)) (svc_send M me [L_str f, L_str s] z1) (Some (Inr [], m2))"
      using send_step [OF b z1(2) me, of f s] f reply(1) unfolding svc_steps m2_def by simp
    from sim_Some [OF this] obtain z2 where z2: "svc_send M me [L_str f, L_str s] z1 = Some (Inr [], z2)" "holds_mail v P strict z2 m2"
      by blast
    have bs: "bs = boxes m2 me" by (simp add: m2_def m1_def)
    have "service_dispatch M me ipc r z = service_dispatch M me ipc r1 z2"
      using z1(1) z2(1) ipc reply(2) args
      by (subst service_dispatch.simps) (simp add: lua_toboolean_def lua_tostring_def)
    then show ?thesis
      using Cons.hyps(1) [OF bs z2(2), of r1] bx ipc reply(2) by (auto simp: m2_def m1_def)
  next
    case silent
    have bs: "bs = boxes m1 me" by (simp add: m1_def)
    have "service_dispatch M me ipc r z = service_dispatch M me ipc r1 z1"
      using z1(1) ipc silent args
      by (subst service_dispatch.simps) (auto simp: lua_toboolean_def lua_tostring_def)
    then show ?thesis
      using Cons.hyps(1) [OF bs z1(2), of r1] bx ipc silent by (auto simp: m1_def)
  qed
qed

text \<open>A handler that answers with the empty string, which Lua takes for true, ends the process.\<close>

lemma service_dispatch_empty_reply:
  assumes b: "bus_contract v M P" "nodes_alive M P" and me: "me \<in> P" and h: "holds_mail v P strict z m"
    and bx: "boxes m me = (f, d) # bs" and empty: "fst (ipc r d) = Inr (L_str [])"
  shows "service_dispatch M me ipc r z = None"
proof -
  define m1 where "m1 = m\<lparr>boxes := (boxes m)(me := bs)\<rparr>"
  have "rel_option (rel_prod (=) (holds_mail v P strict)) (svc_recv M me [L_str (str ''nowait'')] z)
      (Some (Inr [L_str f, L_str d], m1))"
    using take_step [OF b h me, of "[L_str (str ''nowait'')]"] bx unfolding svc_steps m1_def by simp
  from sim_Some [OF this] obtain z1 where z1: "svc_recv M me [L_str (str ''nowait'')] z = Some (Inr [L_str f, L_str d], z1)"
      "holds_mail v P strict z1 m1"
    by blast
  have "svc_send M me [L_str f, L_str []] z1 = None"
    using send_step [OF b z1(2) me, of f "[]"] unfolding svc_steps by (simp only: box_step.simps sim_None simp_thms if_True)
  then show ?thesis
    using z1(1) empty by (subst service_dispatch.simps)
      (simp add: lua_arg_def lua_toboolean_def lua_tostring_def split_beta)
qed

text \<open>The outer loop runs as long as \<open>node.run\<close> raises no error, and logs the first one.\<close>

lemma service_loop_logs:
  assumes "\<forall>i < n. run (zs i) = Some (None, zs (Suc i))" and "run (zs n) = Some (Some result, z)"
  shows "service_loop M me mp_pack run (zs 0) = qsf_log M me mp_pack [result] z"
  using assms
proof (induction n arbitrary: zs)
  case 0
  then show ?case by (subst service_loop.simps) simp
next
  case (Suc n)
  have "service_loop M me mp_pack run (zs (Suc 0)) = qsf_log M me mp_pack [result] z"
    using Suc.IH [of "\<lambda>i. zs (Suc i)"] Suc.prems by simp
  moreover have "run (zs 0) = Some (None, zs (Suc 0))" using Suc.prems(1) by simp
  ultimately show ?case by (subst service_loop.simps) simp
qed

end
