(* ===== verification/Mail_Steps.thy ===== *)
theory Mail_Steps
  imports Mail
begin

text \<open>
  The message bus at the grain of single socket calls. In theory Mail a call of \<open>node.send\<close>, of
  \<open>node.recv\<close> or of \<open>dispatch_message\<close> is one event; here every node and the dispatcher is a program
  with a counter that makes one \<open>zmq_send\<close> or \<open>zmq_msg_recv\<close> at a time, and the steps of all of them
  interleave. The calls turn out to be linearizable: the calls that have returned, in the order in
  which they returned, are a run of the mailboxes.
\<close>

section \<open>The programs, call by call\<close>

text \<open>
  Where the script of a node is inside its module \<open>node\<close>, before which socket call:
  \<open>qsf_node_send\<close> and \<open>qsf_node_recv\<close> make two each.
\<close>

datatype node_phase =
    At_script
  | Send_name bytes bytes
  | Send_data bytes bytes
  | Recv_name "lua_value list"
  | Recv_data bytes "lua_value list"

definition recv_nowait :: "lua_conv \<Rightarrow> lua_value list \<Rightarrow> bool" where
  "recv_nowait cv args = (case lua_tostring cv (lua_arg args (length args)) of
     None \<Rightarrow> False | Some s \<Rightarrow> strcmp_eq s (str ''nowait''))"

text \<open>From the call of the Lua function to the first socket call.\<close>

fun node_begin :: "'z mail_system \<Rightarrow> mail_event \<Rightarrow> node_phase lua_res option" where
  "node_begin M (Ev_send a b d) = do {
     good \<leftarrow> qsf_node_check_tag (ms_ctx M) (ms_self M a);
     if \<not> good then Some (luaL_error ''invalid node object'')
     else do { c_assert (b \<noteq> []); c_assert (d \<noteq> []); Some (Inr (Send_name b d)) } }"
| "node_begin M (Ev_take p args) = do {
     good \<leftarrow> qsf_node_check_tag (ms_ctx M) (ms_self M p);
     if \<not> good then Some (luaL_error ''invalid node object'') else Some (Inr (Recv_name args)) }"
| "node_begin M Ev_route = None"

text \<open>One socket call and what follows it: the next phase, or the values the Lua function returns.\<close>

fun node_micro ::
    "'z mail_system \<Rightarrow> bytes \<Rightarrow> node_phase \<Rightarrow> 'z \<Rightarrow> ((node_phase + lua_value list lua_res) \<times> 'z) option" where
  "node_micro M me At_script z = None"
| "node_micro M me (Send_name b d) z =
     (let (r, z) = ms_dsend M me b True z in do {
        c_assert (r = int (length b));
        Some (Inl (Send_data b d), z) })"
| "node_micro M me (Send_data b d) z =
     (let (r, z) = ms_dsend M me d False z in do {
        c_assert (r = int (length d));
        Some (Inr (Inr []), z) })"
| "node_micro M me (Recv_name args) z =
     (let (r, z) = ms_drecv M me (recv_nowait (ms_conv M) args) z in
      case r of
        Inl err \<Rightarrow> Some (Inr (Inr []), z)
      | Inr name \<Rightarrow>
          if name = [] then Some (Inr (Inr []), z)
          else do { c_assert (length name < MAX_ID_LENGTH); Some (Inl (Recv_data name args), z) })"
| "node_micro M me (Recv_data name args) z =
     (let (r, z) = ms_drecv M me (recv_nowait (ms_conv M) args) z in
      case r of
        Inl err \<Rightarrow> Some (Inr (Inr []), z)
      | Inr data \<Rightarrow>
          if data = [] then Some (Inr (Inr []), z)
          else do {
            (r, st) \<leftarrow> handle_recv name data args;
            Some (Inr (Inr (drop (length st - nat (if 0 < r then r else 0)) st)), z) })"

text \<open>The dispatcher: which frames it holds and what it does next. \<open>Halted\<close> is after its loop.\<close>

datatype router_phase =
    Get_from
  | Get_to bytes
  | Get_msg bytes bytes
  | Put_to bytes bytes bytes
  | Put_from bytes bytes bytes
  | Put_msg bytes bytes bytes
  | Halted "bytes list"

fun router_micro :: "'z mail_system \<Rightarrow> router_phase \<Rightarrow> 'z \<Rightarrow> (router_phase + int) \<times> 'z" where
  "router_micro M Get_from z =
     (let (r, z) = ms_recv M z in case r of Inl n \<Rightarrow> (Inr n, z) | Inr f \<Rightarrow> (Inl (Get_to f), z))"
| "router_micro M (Get_to f) z =
     (let (r, z) = ms_recv M z in case r of Inl n \<Rightarrow> (Inr n, z) | Inr t \<Rightarrow> (Inl (Get_msg f t), z))"
| "router_micro M (Get_msg f t) z =
     (let (r, z) = ms_recv M z in case r of Inl n \<Rightarrow> (Inr n, z) | Inr d \<Rightarrow> (Inl (Put_to f t d), z))"
| "router_micro M (Put_to f t d) z =
     (let (n, z) = ms_send M t True z in if n < 0 then (Inr n, z) else (Inl (Put_from f t d), z))"
| "router_micro M (Put_from f t d) z =
     (let (n, z) = ms_send M f True z in if n < 0 then (Inr n, z) else (Inl (Put_msg f t d), z))"
| "router_micro M (Put_msg f t d) z = (let (n, z) = ms_send M d False z in (Inr n, z))"
| "router_micro M (Halted fs) z = (Inr (- 1), z)"

section \<open>One call without interruption\<close>

fun node_finish :: "'z mail_system \<Rightarrow> bytes \<Rightarrow> nat \<Rightarrow> node_phase \<Rightarrow> 'z \<Rightarrow> (lua_value list lua_res \<times> 'z) option" where
  "node_finish M me 0 ph z = None"
| "node_finish M me (Suc n) ph z = do {
     (r, z) \<leftarrow> node_micro M me ph z;
     case r of Inl ph \<Rightarrow> node_finish M me n ph z | Inr res \<Rightarrow> Some (res, z) }"

fun router_finish :: "'z mail_system \<Rightarrow> nat \<Rightarrow> router_phase \<Rightarrow> 'z \<Rightarrow> (int \<times> 'z) option" where
  "router_finish M 0 ph z = None"
| "router_finish M (Suc n) ph z =
     (case router_micro M ph z of (Inl ph, z) \<Rightarrow> router_finish M n ph z | (Inr r, z) \<Rightarrow> Some (r, z))"

text \<open>Two steps of a node are its Lua function, and six of the dispatcher are \<open>dispatch_message\<close>.\<close>

lemma node_send_micro:
  "mail_step M (Ev_send a b d) z = do {
     ph \<leftarrow> node_begin M (Ev_send a b d);
     case ph of Inl e \<Rightarrow> Some (Inl e, z) | Inr ph \<Rightarrow> node_finish M a 2 ph z }"
proof (cases "qsf_node_check_tag (ms_ctx M) (ms_self M a) = Some True \<and> b \<noteq> [] \<and> d \<noteq> []")
  case True
  have "mail_step M (Ev_send a b d) z = map_option (Pair (Inr [])) (qsf_node_send (ms_dsend M a) b d z)"
    using node_send_ok [of "ms_ctx M" "ms_self M a" "[L_str b, L_str d]" b d] True by (simp add: lua_arg_def)
  then show ?thesis
    using True by (cases "ms_dsend M a b True z"; cases "ms_dsend M a d False (snd (ms_dsend M a b True z))")
      (simp add: qsf_node_send_def numeral_2_eq_2 c_assert_def)
next
  case False
  then show ?thesis
    by (cases "ms_self M a"; cases "qsf_node_check_tag (ms_ctx M) (ms_self M a)")
       (auto simp: node_send_def with_good_node_def lua_arg_def qsf_node_send_def luaL_checklstring_def lua_tostring_def
         qsf_node_check_tag_def luaL_error_def)
qed

lemma node_recv_micro:
  "mail_step M (Ev_take p args) z = do {
     ph \<leftarrow> node_begin M (Ev_take p args);
     case ph of Inl e \<Rightarrow> Some (Inl e, z) | Inr ph \<Rightarrow> node_finish M p 2 ph z }"
proof (cases "qsf_node_check_tag (ms_ctx M) (ms_self M p)")
  case None
  then show ?thesis by (simp add: node_recv_def with_good_node_def)
next
  case (Some good)
  show ?thesis
  proof (cases good)
    case True
    then obtain a where "ms_self M p = Some a"
      using Some by (cases "ms_self M p") (auto simp: qsf_node_check_tag_def)
    then show ?thesis
      using Some True
      by (simp add: node_recv_def with_good_node_def qsf_node_recv_def recv_nowait_def [symmetric] numeral_2_eq_2
        Let_def split_beta c_assert_def bind_eq_None_conv split: sum.split option.split)
  next
    case False
    then show ?thesis using Some by (simp add: node_recv_def with_good_node_def luaL_error_def)
  qed
qed

lemma dispatch_micro: "router_finish M 6 Get_from z = Some (dispatch_message (ms_recv M) (ms_send M) z)"
  by (simp add: dispatch_message_def eval_nat_numeral Let_def split_beta split: sum.split)

section \<open>All programs together\<close>

record 'z mail_conf =
  bus :: 'z
  at_node :: "bytes \<Rightarrow> node_phase"
  at_router :: router_phase

text \<open>The event a node's call is recorded as when it returns.\<close>

fun call_of :: "bytes \<Rightarrow> node_phase \<Rightarrow> mail_event" where
  "call_of a (Send_name b d) = Ev_send a b d"
| "call_of a (Send_data b d) = Ev_send a b d"
| "call_of a (Recv_name args) = Ev_take a args"
| "call_of a (Recv_data f args) = Ev_take a args"
| "call_of a At_script = Ev_route"

fun held :: "router_phase \<Rightarrow> bytes list" where
  "held Get_from = []"
| "held (Get_to f) = [f]"
| "held (Get_msg f t) = [f, t]"
| "held (Put_to f t d) = [f, t, d]"
| "held (Put_from f t d) = [f, t, d]"
| "held (Put_msg f t d) = [f, t, d]"
| "held (Halted fs) = fs"

text \<open>
  A step of any program, with the call that returns in it, if any. The script of a node may call
  the module whenever it is not inside a call; the dispatcher goes on with the next message when one
  is through, and halts at an error.
\<close>

inductive mail_micro ::
    "'z mail_system \<Rightarrow> bytes set \<Rightarrow> 'z mail_conf \<Rightarrow> (mail_event \<times> lua_value list lua_res) list \<Rightarrow> 'z mail_conf \<Rightarrow> bool"
  for M P where
  micro_begin: "a \<in> P \<Longrightarrow> at_node cf a = At_script \<Longrightarrow> call_of a ph = ev \<Longrightarrow>
    node_begin M ev = Some (Inr ph) \<Longrightarrow>
    mail_micro M P cf [] (cf\<lparr>at_node := (at_node cf)(a := ph)\<rparr>)"
| micro_go: "a \<in> P \<Longrightarrow> at_node cf a \<noteq> At_script \<Longrightarrow> node_micro M a (at_node cf a) (bus cf) = Some (Inl ph, z) \<Longrightarrow>
    mail_micro M P cf [] (cf\<lparr>bus := z, at_node := (at_node cf)(a := ph)\<rparr>)"
| micro_return: "a \<in> P \<Longrightarrow> at_node cf a \<noteq> At_script \<Longrightarrow> node_micro M a (at_node cf a) (bus cf) = Some (Inr r, z) \<Longrightarrow>
    mail_micro M P cf [(call_of a (at_node cf a), r)] (cf\<lparr>bus := z, at_node := (at_node cf)(a := At_script)\<rparr>)"
| micro_router: "router_micro M (at_router cf) (bus cf) = (Inl ph, z) \<Longrightarrow>
    mail_micro M P cf [] (cf\<lparr>bus := z, at_router := ph\<rparr>)"
| micro_routed: "router_micro M (at_router cf) (bus cf) = (Inr n, z) \<Longrightarrow> 0 \<le> n \<Longrightarrow>
    mail_micro M P cf [(Ev_route, Inr [])] (cf\<lparr>bus := z, at_router := Get_from\<rparr>)"
| micro_halt: "router_micro M (at_router cf) (bus cf) = (Inr n, z) \<Longrightarrow> n < 0 \<Longrightarrow>
    mail_micro M P cf [] (cf\<lparr>bus := z, at_router := Halted (held (at_router cf))\<rparr>)"

inductive mail_micros ::
    "'z mail_system \<Rightarrow> bytes set \<Rightarrow> 'z mail_conf \<Rightarrow> (mail_event \<times> lua_value list lua_res) list \<Rightarrow> 'z mail_conf \<Rightarrow> bool"
  for M P cf0 where
  micros_init: "mail_micros M P cf0 [] cf0"
| micros_step: "mail_micros M P cf0 log cf \<Longrightarrow> mail_micro M P cf l cf' \<Longrightarrow> mail_micros M P cf0 (log @ l) cf'"

section \<open>The configurations and the mail they hold\<close>

fun out_route :: "bytes set \<Rightarrow> router_phase \<Rightarrow> route" where
  "out_route P (Put_from f t d) = (if t \<in> P then To t [] else Discard)"
| "out_route P (Put_msg f t d) = (if t \<in> P then To t [f] else Discard)"
| "out_route P ph = Idle"

fun router_ok :: "bytes set \<Rightarrow> bool \<Rightarrow> router_phase \<Rightarrow> bool" where
  "router_ok P strict (Put_from f t d) = (t \<in> P \<or> \<not> strict)"
| "router_ok P strict (Put_msg f t d) = (t \<in> P \<or> \<not> strict)"
| "router_ok P strict ph = True"

fun node_holds :: "node_phase \<Rightarrow> bytes list \<Rightarrow> bytes list \<Rightarrow> (bytes \<times> bytes) list \<Rightarrow> bool" where
  "node_holds At_script ib ob bs = (ib = box_frames bs \<and> ob = [])"
| "node_holds (Send_name b d) ib ob bs = (ib = box_frames bs \<and> ob = [] \<and> b \<noteq> [] \<and> d \<noteq> [])"
| "node_holds (Send_data b d) ib ob bs = (ib = box_frames bs \<and> ob = [b] \<and> b \<noteq> [] \<and> d \<noteq> [])"
| "node_holds (Recv_name args) ib ob bs = (ib = box_frames bs \<and> ob = [])"
| "node_holds (Recv_data f args) ib ob bs = (f # ib = box_frames bs \<and> ob = [])"

definition conf_holds :: "'z zmq_view \<Rightarrow> bytes set \<Rightarrow> bool \<Rightarrow> 'z mail_conf \<Rightarrow> mailboxes \<Rightarrow> bool" where
  "conf_holds v P strict cf m \<longleftrightarrow>
     held (at_router cf) @ queue v (bus cf) = msg_frames (on_way m) \<and>
     target v (bus cf) = out_route P (at_router cf) \<and> router_ok P strict (at_router cf) \<and>
     peers v (bus cf) = P \<and> mandatory v (bus cf) = strict \<and>
     (\<forall>p \<in> P. node_holds (at_node cf p) (inbox v (bus cf) p) (outbuf v (bus cf) p) (boxes m p)) \<and> mail_ok P m"

lemma conf_holdsD:
  assumes "conf_holds v P strict cf m"
  shows "held (at_router cf) @ queue v (bus cf) = msg_frames (on_way m)"
    "target v (bus cf) = out_route P (at_router cf)" "router_ok P strict (at_router cf)"
    "peers v (bus cf) = P" "mandatory v (bus cf) = strict"
    "p \<in> P \<Longrightarrow> node_holds (at_node cf p) (inbox v (bus cf) p) (outbuf v (bus cf) p) (boxes m p)" "mail_ok P m"
  using assms by (simp_all add: conf_holds_def)

text \<open>The next configuration after a step of the node \<open>a\<close>, by its effect on the views.\<close>

lemma conf_node:
  assumes "conf_holds v P strict cf m"
    and "held (at_router cf) @ queue v z = msg_frames (on_way m')" and "mail_ok P m'"
    and "target v z = target v (bus cf)" "peers v z = peers v (bus cf)" "mandatory v z = mandatory v (bus cf)"
    and "node_holds ph (inbox v z a) (outbuf v z a) (boxes m' a)"
    and "\<And>p. p \<noteq> a \<Longrightarrow> inbox v z p = inbox v (bus cf) p \<and> outbuf v z p = outbuf v (bus cf) p \<and> boxes m' p = boxes m p"
  shows "conf_holds v P strict (cf\<lparr>bus := z, at_node := (at_node cf)(a := ph)\<rparr>) m'"
  using assms by (auto simp: conf_holds_def)

lemma node_micro_ok:
  assumes b: "bus_contract v M P" "nodes_alive M P" and h: "conf_holds v P strict cf m"
    and a: "a \<in> P" and ph: "at_node cf a \<noteq> At_script"
  shows "\<exists>res z. node_micro M a (at_node cf a) (bus cf) = Some (res, z) \<and>
    (case res of
       Inl ph' \<Rightarrow> conf_holds v P strict (cf\<lparr>bus := z, at_node := (at_node cf)(a := ph')\<rparr>) m
     | Inr r \<Rightarrow> \<exists>m'. box_step P strict (call_of a (at_node cf a)) m = Some (r, m') \<and>
         conf_holds v P strict (cf\<lparr>bus := z, at_node := (at_node cf)(a := At_script)\<rparr>) m')"
proof -
  have dc: "dealer_contract v a (ms_dsend M a) (ms_drecv M a)" "dealer_idle v a (ms_drecv M a)"
    using b(1) a by (simp_all add: bus_contract_def)
  note hd = conf_holdsD [OF h]
  note nh = hd(6) [OF a]
  show ?thesis
  proof (cases "at_node cf a")
    case At_script
    then show ?thesis using ph by simp
  next
    case (Send_name b d)
    have nb: "inbox v (bus cf) a = box_frames (boxes m a)" "outbuf v (bus cf) a = []" "b \<noteq> []" "d \<noteq> []"
      using nh Send_name by simp_all
    obtain z where z: "ms_dsend M a b True (bus cf) = (int (length b), z)"
        "sent_eq v (bus cf) (queue v (bus cf)) ((outbuf v (bus cf))(a := [b])) z"
      by (rule dealer_first [OF dc(1) nb(2)])
    have "conf_holds v P strict (cf\<lparr>bus := z, at_node := (at_node cf)(a := Send_data b d)\<rparr>) m"
      by (rule conf_node [OF h]) (use z(2) hd(1,7) nb in \<open>auto simp: sent_eq_def\<close>)
    then show ?thesis using z(1) Send_name by simp
  next
    case (Send_data b d)
    have nb: "inbox v (bus cf) a = box_frames (boxes m a)" "outbuf v (bus cf) a = [b]" "b \<noteq> []" "d \<noteq> []"
      using nh Send_data by simp_all
    obtain z where z: "ms_dsend M a d False (bus cf) = (int (length d), z)"
        "sent_eq v (bus cf) (queue v (bus cf) @ [a, b, d]) ((outbuf v (bus cf))(a := [])) z"
      by (rule dealer_last [OF dc(1) nb(2)])
    have "held (at_router cf) @ queue v z = msg_frames (on_way m) @ [a, b, d]"
      using z(2) hd(1) by (simp add: sent_eq_def flip: append_assoc)
    then have "conf_holds v P strict (cf\<lparr>bus := z, at_node := (at_node cf)(a := At_script)\<rparr>)
        (m\<lparr>on_way := on_way m @ [(a, b, d)]\<rparr>)"
      by (intro conf_node [OF h]) (use z(2) hd(7) nb a in \<open>auto simp: sent_eq_def mail_ok_def\<close>)
    then show ?thesis using z(1) Send_data nb(3,4) by simp
  next
    case (Recv_name args)
    have nb: "inbox v (bus cf) a = box_frames (boxes m a)" "outbuf v (bus cf) a = []"
      using nh Recv_name by simp_all
    show ?thesis
    proof (cases "boxes m a")
      case Nil
      then have "inbox v (bus cf) a = []" using nb by simp
      then obtain e z where z: "ms_drecv M a (recv_nowait (ms_conv M) args) (bus cf) = (Inl e, z)"
          "view_eq v (bus cf) (queue v (bus cf)) (inbox v (bus cf)) (target v (bus cf)) z"
        using dc(2) unfolding dealer_idle_def by blast
      have "conf_holds v P strict (cf\<lparr>bus := z, at_node := (at_node cf)(a := At_script)\<rparr>) m"
        by (rule conf_node [OF h]) (use z(2) hd(1,7) nb in \<open>auto simp: view_eq_def\<close>)
      then show ?thesis using z(1) Recv_name Nil by simp
    next
      case (Cons x bs)
      obtain f d where x: "x = (f, d)" by (cases x)
      then have "f \<in> P" using hd(7) a Cons by (auto simp: mail_ok_def)
      then have f: "f \<noteq> []" "length f < MAX_ID_LENGTH" using b(2) by (auto simp: nodes_alive_def)
      have i: "inbox v (bus cf) a = f # d # box_frames bs" using nb(1) Cons x by simp
      obtain z where z: "ms_drecv M a (recv_nowait (ms_conv M) args) (bus cf) = (Inr f, z)"
          "view_eq v (bus cf) (queue v (bus cf)) ((inbox v (bus cf))(a := d # box_frames bs)) (target v (bus cf)) z"
        by (rule dealer_frame [OF dc(1) i])
      have "conf_holds v P strict (cf\<lparr>bus := z, at_node := (at_node cf)(a := Recv_data f args)\<rparr>) m"
        by (rule conf_node [OF h]) (use z(2) hd(1,7) nb Cons x in \<open>auto simp: view_eq_def\<close>)
      then show ?thesis using z(1) Recv_name f by simp
    qed
  next
    case (Recv_data f args)
    have nb: "f # inbox v (bus cf) a = box_frames (boxes m a)" "outbuf v (bus cf) a = []"
      using nh Recv_data by simp_all
    then obtain d bs where bx: "boxes m a = (f, d) # bs" "inbox v (bus cf) a = d # box_frames bs"
      by (cases "boxes m a") auto
    have ok: "f \<in> P" "d \<noteq> []" using hd(7) a bx(1) by (auto simp: mail_ok_def)
    then have f: "f \<noteq> []" using b(2) by (auto simp: nodes_alive_def)
    obtain z where z: "ms_drecv M a (recv_nowait (ms_conv M) args) (bus cf) = (Inr d, z)"
        "view_eq v (bus cf) (queue v (bus cf)) ((inbox v (bus cf))(a := box_frames bs)) (target v (bus cf)) z"
      by (rule dealer_frame [OF dc(1) bx(2)])
    have "conf_holds v P strict (cf\<lparr>bus := z, at_node := (at_node cf)(a := At_script)\<rparr>)
        (m\<lparr>boxes := (boxes m)(a := bs)\<rparr>)"
      by (rule conf_node [OF h]) (use z(2) hd(1,7) nb bx in \<open>auto simp: view_eq_def mail_ok_def\<close>)
    then show ?thesis using z(1) Recv_data bx(1) ok(2) f by (simp add: handle_recv_pair)
  qed
qed

text \<open>The same for a step of the dispatcher, which may add to one node's inbox.\<close>

lemma conf_router:
  assumes h: "conf_holds v P strict cf m" and v: "view_eq v (bus cf) q i (out_route P ph) z"
    and "held ph @ q = msg_frames (on_way m')" and "mail_ok P m'" and "router_ok P strict ph"
    and box: "\<And>p. p \<in> P \<Longrightarrow> \<exists>new. i p = inbox v (bus cf) p @ box_frames new \<and> boxes m' p = boxes m p @ new"
  shows "conf_holds v P strict (cf\<lparr>bus := z, at_router := ph\<rparr>) m'"
proof -
  have "node_holds (at_node cf p) (i p) (outbuf v (bus cf) p) (boxes m' p)" if p: "p \<in> P" for p
  proof -
    obtain new where new: "i p = inbox v (bus cf) p @ box_frames new" "boxes m' p = boxes m p @ new" using box [OF p] by blast
    then show ?thesis using conf_holdsD(6) [OF h p] by (cases "at_node cf p") (auto simp flip: append_Cons)
  qed
  then show ?thesis using assms(1,3-5) v by (simp add: conf_holds_def view_eq_def)
qed

lemma conf_router_same:
  assumes "conf_holds v P strict cf m" and "view_eq v (bus cf) q (inbox v (bus cf)) (out_route P ph) z"
    and "held ph @ q = msg_frames (on_way m)" and "router_ok P strict ph"
  shows "conf_holds v P strict (cf\<lparr>bus := z, at_router := ph\<rparr>) m"
  by (rule conf_router [OF assms(1,2,3) conf_holdsD(7) [OF assms(1)] assms(4)]) (auto intro: exI [of _ "[]"])

text \<open>The message the dispatcher is at, read off the frames it holds and the queue.\<close>

lemma at_message:
  assumes "f # fs = msg_frames ms"
  obtains t d ms' where "ms = (f, t, d) # ms'" "fs = t # d # msg_frames ms'"
  using assms by (cases ms) auto

definition router_next :: "'z zmq_view \<Rightarrow> bytes set \<Rightarrow> bool \<Rightarrow> 'z mail_conf \<Rightarrow> mailboxes \<Rightarrow> (router_phase + int) \<times> 'z \<Rightarrow> bool" where
  "router_next v P strict cf m res \<longleftrightarrow>
     (case res of
        (Inl ph, z) \<Rightarrow> conf_holds v P strict (cf\<lparr>bus := z, at_router := ph\<rparr>) m
      | (Inr n, z) \<Rightarrow>
          if n < 0 then conf_holds v P strict (cf\<lparr>bus := z, at_router := Halted (held (at_router cf))\<rparr>) m
          else \<exists>m'. box_step P strict Ev_route m = Some (Inr [], m') \<and>
            conf_holds v P strict (cf\<lparr>bus := z, at_router := Get_from\<rparr>) m')"

lemma router_get:
  assumes b: "bus_contract v M P" and h: "conf_holds v P strict cf m"
    and ph: "at_router cf = Get_from \<or> at_router cf = Get_to f \<or> at_router cf = Get_msg f t"
  shows "router_next v P strict cf m (router_micro M (at_router cf) (bus cf))"
proof -
  have c: "router_contract v (ms_recv M) (ms_send M)" using b by (simp add: bus_contract_def)
  note hd = conf_holdsD [OF h]
  have idle: "target v (bus cf) = Idle" using hd(2) ph by auto
  show ?thesis
  proof (cases "queue v (bus cf)")
    case Nil
    then obtain e where e: "ms_recv M (bus cf) = (Inl e, bus cf)" "e < 0"
      using b unfolding bus_contract_def by blast
    have "conf_holds v P strict (cf\<lparr>bus := bus cf, at_router := Halted (held (at_router cf))\<rparr>) m"
      by (rule conf_router_same [OF h, of "queue v (bus cf)"]) (use hd(1) idle in \<open>simp_all add: view_eq_def\<close>)
    then show ?thesis using e ph by (auto simp: router_next_def)
  next
    case (Cons g fs)
    obtain z where z: "ms_recv M (bus cf) = (Inr g, z)"
        "view_eq v (bus cf) fs (inbox v (bus cf)) (target v (bus cf)) z"
      by (rule contract_recv [OF c Cons])
    have step: "conf_holds v P strict (cf\<lparr>bus := z, at_router := ph'\<rparr>) m"
      if "held ph' = held (at_router cf) @ [g]" "out_route P ph' = Idle" "router_ok P strict ph'" for ph'
      by (rule conf_router_same [OF h, of fs]) (use z(2) hd(1) idle that Cons in simp_all)
    show ?thesis using z(1) ph step [of "Get_to g"] step [of "Get_msg f g"] step [of "Put_to f t g"]
      by (auto simp: router_next_def)
  qed
qed

lemma router_put_to:
  assumes b: "bus_contract v M P" and h: "conf_holds v P strict cf m" and ph: "at_router cf = Put_to f t d"
  shows "router_next v P strict cf m (router_micro M (at_router cf) (bus cf))"
proof -
  have c: "router_contract v (ms_recv M) (ms_send M)" using b by (simp add: bus_contract_def)
  note hd = conf_holdsD [OF h]
  have idle: "target v (bus cf) = Idle" using hd(2) ph by simp
  show ?thesis
  proof (cases "t \<in> P")
    case True
    then have "t \<in> peers v (bus cf)" using hd(4) by simp
    then obtain z where z: "ms_send M t True (bus cf) = (int (length t), z)"
        "view_eq v (bus cf) (queue v (bus cf)) (inbox v (bus cf)) (To t []) z"
      by (rule contract_known [OF c idle])
    have "conf_holds v P strict (cf\<lparr>bus := z, at_router := Put_from f t d\<rparr>) m"
      by (rule conf_router_same [OF h]) (use z(2) hd(1) ph True in simp_all)
    then show ?thesis using z(1) ph by (simp add: router_next_def)
  next
    case False
    then have "t \<notin> peers v (bus cf)" using hd(4) by simp
    then obtain r z where z: "ms_send M t True (bus cf) = (r, z)"
        "if strict then r < 0 \<and> view_eq v (bus cf) (queue v (bus cf)) (inbox v (bus cf)) Idle z
          else r = int (length t) \<and> view_eq v (bus cf) (queue v (bus cf)) (inbox v (bus cf)) Discard z"
      using contract_unknown [OF c idle] hd(5) by metis
    have "conf_holds v P strict (cf\<lparr>bus := z, at_router := (if strict then Halted [f, t, d] else Put_from f t d)\<rparr>) m"
      by (rule conf_router_same [OF h]) (use z(2) hd(1) ph False in \<open>auto split: if_splits\<close>)
    then show ?thesis using z ph by (auto simp: router_next_def split: if_splits)
  qed
qed

lemma router_put_from:
  assumes b: "bus_contract v M P" and h: "conf_holds v P strict cf m" and ph: "at_router cf = Put_from f t d"
  shows "router_next v P strict cf m (router_micro M (at_router cf) (bus cf))"
proof -
  have c: "router_contract v (ms_recv M) (ms_send M)" using b by (simp add: bus_contract_def)
  note hd = conf_holdsD [OF h]
  obtain z where z: "ms_send M f True (bus cf) = (int (length f), z)"
      "view_eq v (bus cf) (queue v (bus cf)) (inbox v (bus cf)) (out_route P (Put_msg f t d)) z"
  proof (cases "t \<in> P")
    case True
    then have "target v (bus cf) = To t []" using hd(2) ph by simp
    from contract_to [OF c this] show ?thesis using that True by (metis append_Nil out_route.simps(2))
  next
    case False
    then have "target v (bus cf) = Discard" using hd(2) ph by simp
    from contract_discard [OF c this, of f True] show ?thesis using that False by auto
  qed
  have "conf_holds v P strict (cf\<lparr>bus := z, at_router := Put_msg f t d\<rparr>) m"
    by (rule conf_router_same [OF h z(2)]) (use hd(1,3) ph in simp_all)
  then show ?thesis using z(1) ph by (simp add: router_next_def)
qed

lemma router_put_msg:
  assumes b: "bus_contract v M P" and h: "conf_holds v P strict cf m" and ph: "at_router cf = Put_msg f t d"
  shows "router_next v P strict cf m (router_micro M (at_router cf) (bus cf))"
proof -
  have c: "router_contract v (ms_recv M) (ms_send M)" using b by (simp add: bus_contract_def)
  note hd = conf_holdsD [OF h]
  obtain ms where ms: "on_way m = (f, t, d) # ms" "queue v (bus cf) = msg_frames ms"
    using at_message [of f "[t, d] @ queue v (bus cf)" "on_way m"] hd(1) ph by auto
  have ok: "f \<in> P" "d \<noteq> []" using hd(7) ms(1) by (auto simp: mail_ok_def)
  show ?thesis
  proof (cases "t \<in> P")
    case True
    then have "target v (bus cf) = To t [f]" using hd(2) ph by simp
    then obtain z where z: "ms_send M d False (bus cf) = (int (length d), z)"
        "view_eq v (bus cf) (queue v (bus cf)) ((inbox v (bus cf))(t := inbox v (bus cf) t @ [f] @ [d])) Idle z"
      by (rule contract_last [OF c])
    have "conf_holds v P strict (cf\<lparr>bus := z, at_router := Get_from\<rparr>)
        (m\<lparr>on_way := ms, boxes := (boxes m)(t := boxes m t @ [(f, d)])\<rparr>)"
    proof (rule conf_router [OF h])
      show "view_eq v (bus cf) (msg_frames ms) ((inbox v (bus cf))(t := inbox v (bus cf) t @ [f] @ [d])) (out_route P Get_from) z"
        using z(2) ms(2) by simp
      show "mail_ok P (m\<lparr>on_way := ms, boxes := (boxes m)(t := boxes m t @ [(f, d)])\<rparr>)"
        using hd(7) ms(1) ok by (auto simp: mail_ok_def)
      show "\<exists>new. ((inbox v (bus cf))(t := inbox v (bus cf) t @ [f] @ [d])) p = inbox v (bus cf) p @ box_frames new \<and>
          boxes (m\<lparr>on_way := ms, boxes := (boxes m)(t := boxes m t @ [(f, d)])\<rparr>) p = boxes m p @ new" for p
        by (rule exI [of _ "if p = t then [(f, d)] else []"]) simp
    qed simp_all
    then show ?thesis using z(1) ph ms(1) True by (simp add: router_next_def)
  next
    case False
    then have "target v (bus cf) = Discard" using hd(2) ph by simp
    then obtain z where z: "ms_send M d False (bus cf) = (int (length d), z)"
        "view_eq v (bus cf) (queue v (bus cf)) (inbox v (bus cf)) (if False then Discard else Idle) z"
      by (rule contract_discard [OF c])
    have "conf_holds v P strict (cf\<lparr>bus := z, at_router := Get_from\<rparr>) (m\<lparr>on_way := ms\<rparr>)"
      by (rule conf_router [OF h, of "msg_frames ms" "inbox v (bus cf)"])
         (use z(2) ms hd(7) in \<open>auto simp: mail_ok_def intro: exI [of _ "[]"]\<close>)
    then show ?thesis using z(1) ph ms(1) False hd(3) by (simp add: router_next_def)
  qed
qed

lemma router_halted:
  assumes "conf_holds v P strict cf m" and "at_router cf = Halted fs"
  shows "router_next v P strict cf m (router_micro M (at_router cf) (bus cf))"
  using assms by (simp add: router_next_def conf_holds_def)

lemma router_micro_ok:
  assumes "bus_contract v M P" and "conf_holds v P strict cf m"
  shows "router_next v P strict cf m (router_micro M (at_router cf) (bus cf))"
  using router_get [OF assms] router_put_to [OF assms] router_put_from [OF assms] router_put_msg [OF assms]
    router_halted [OF assms(2)]
  by (cases "at_router cf") blast+

section \<open>Linearizability\<close>

text \<open>A step changes no mail unless a call returns in it, and then as this call does.\<close>

lemma mail_micro_sim:
  assumes b: "bus_contract v M P" "nodes_alive M P" and h: "conf_holds v P strict cf m"
    and step: "mail_micro M P cf l cf'"
  shows "\<exists>m'. box_run P strict (map fst l) m = Some (map snd l, m') \<and> conf_holds v P strict cf' m' \<and>
    list_all (event_by P) (map fst l)"
  using step
proof (cases rule: mail_micro.cases)
  case (micro_begin a ph ev)
  have "node_holds ph (inbox v (bus cf) a) (outbuf v (bus cf) a) (boxes m a)"
    using conf_holdsD(6) [OF h micro_begin(3)] micro_begin(4-6)
    by (cases ph) (auto simp: bind_Some_conv c_assert_def luaL_error_def split: if_splits)
  then have "conf_holds v P strict (cf\<lparr>bus := bus cf, at_node := (at_node cf)(a := ph)\<rparr>) m"
    by (intro conf_node [OF h conf_holdsD(1) [OF h] conf_holdsD(7) [OF h]]) auto
  moreover have "cf\<lparr>bus := bus cf, at_node := (at_node cf)(a := ph)\<rparr> = cf\<lparr>at_node := (at_node cf)(a := ph)\<rparr>" by simp
  ultimately show ?thesis using micro_begin by auto
next
  case (micro_go a ph z)
  then show ?thesis using node_micro_ok [OF b h micro_go(3,4)] micro_go by auto
next
  case (micro_return a r z)
  obtain m' where m': "box_step P strict (call_of a (at_node cf a)) m = Some (r, m')" "conf_holds v P strict cf' m'"
    using node_micro_ok [OF b h micro_return(3,4)] micro_return by auto
  have "event_by P (call_of a (at_node cf a))" using micro_return(3,4) by (cases "at_node cf a") simp_all
  then show ?thesis using micro_return(1) m' by simp
next
  case (micro_router ph z)
  then show ?thesis using router_micro_ok [OF b(1) h] by (simp add: router_next_def)
next
  case (micro_routed n z)
  obtain m' where "box_step P strict Ev_route m = Some (Inr [], m')" "conf_holds v P strict cf' m'"
    using router_micro_ok [OF b(1) h] micro_routed by (auto simp: router_next_def)
  then show ?thesis using micro_routed(1) by simp
next
  case (micro_halt n z)
  then show ?thesis using router_micro_ok [OF b(1) h] by (simp add: router_next_def)
qed

lemma mail_micros_sim:
  assumes b: "bus_contract v M P" "nodes_alive M P" and h: "conf_holds v P strict cf0 m0"
    and run: "mail_micros M P cf0 log cf"
  shows "\<exists>m. box_run P strict (map fst log) m0 = Some (map snd log, m) \<and> conf_holds v P strict cf m \<and>
    list_all (event_by P) (map fst log)"
  using run
proof (induction rule: mail_micros.induct)
  case micros_init
  show ?case using h by simp
next
  case (micros_step log cf l cf')
  then obtain m where m: "box_run P strict (map fst log) m0 = Some (map snd log, m)" "conf_holds v P strict cf m"
      "list_all (event_by P) (map fst log)" by blast
  obtain m' where m': "box_run P strict (map fst l) m = Some (map snd l, m')" "conf_holds v P strict cf' m'"
      "list_all (event_by P) (map fst l)"
    using mail_micro_sim [OF b m(2) micros_step.hyps(2)] by blast
  show ?case using m m' by (auto simp: run_of_append)
qed

end
