(* ===== verification/Mail_Properties.thy ===== *)
theory Mail_Properties
  imports Qsf_Service Mail_Steps Router_Properties
begin













section \<open>Socket call by socket call\<close>









section \<open>Services\<close>


lemma received_other [simp]: "q \<noteq> p \<Longrightarrow> received p (Ev_take q args, r) = []"
  by (cases "(p, Ev_take q args, r)" rule: received.cases) auto








end
