(* ===== verification/Lua_Echo.thy ===== *)
theory Lua_Echo
  imports Lua_Stream
begin

text \<open>
  The echo server of \<open>test/test_net.lua\<close>: a script whose read callback writes every message back to
  its session with \<open>server:write\<close>, from inside the callback. The environment \<open>e\<close> says how these
  writes go, and \<open>err_value\<close> what an error of \<open>server:write\<close> is as a Lua value; the output of \<open>print\<close>
  is left out.
\<close>

definition echo_read_cb ::
    "lua_conv \<Rightarrow> (lua_error \<Rightarrow> lua_value) \<Rightarrow> write_env \<Rightarrow> lua_value \<Rightarrow> lua_calls" where
  "echo_read_cb cv err_value e self f args s =
    (if lua_toboolean (lua_arg args 1) then Some (None, s)
     else do {
       (r, s) \<leftarrow> server_write cv e [self, args ! 1, args ! 2] s;
       Some (case r of Inl er \<Rightarrow> Some (err_value er) | Inr _ \<Rightarrow> None, s) })"

text \<open>What was written to the sessions \<open>xs\<close>, and one more message for the session with serial \<open>k\<close>.\<close>

definition written_to :: "addr list \<Rightarrow> ('c, 'u) net_server \<Rightarrow> addr \<Rightarrow> bytes list" where
  "written_to xs s a = (if a \<in> set xs then h_written (the (sessions s a)) else [])"

definition echo_adds :: "addr list \<Rightarrow> (addr \<Rightarrow> u32) \<Rightarrow> u32 \<Rightarrow> bytes \<Rightarrow> (addr \<Rightarrow> bytes list) \<Rightarrow> addr \<Rightarrow> bytes list" where
  "echo_adds xs ser k m w a = (if a \<in> set xs \<and> ser a = k then w a @ [wire_frame m] else w a)"

lemma echo_adds_fold:
  assumes "a \<in> set xs"
  shows "fold (\<lambda>(k, m). echo_adds xs ser k m) log w a = w a @ map wire_frame (msgs_of (ser a) log)"
  using assms
proof (induction log arbitrary: w)
  case (Cons e log)
  then show ?case by (cases e) (auto simp: echo_adds_def msgs_of_def)
qed simp

definition has_callback :: "net_server_t \<Rightarrow> bool" where
  "has_callback u \<longleftrightarrow> (\<exists>i. L_registry u (read_ref u) = L_fun i)"

text \<open>
  The callback is called while the server is inside its read; its write finds the session, adds one
  packet and leaves everything else as it was.
\<close>

lemma echo_write:
  assumes inv: "server_inv s xs" and a: "a \<in> set xs" "sessions s a = Some ss" and m: "wire_ok m"
    and e: "\<forall>a. we_malloc e a" "\<forall>a. we_write e a \<ge> 0"
  shows "echo_read_cb cv ev e self i (msg_args (serial_of s a) m) s =
    Some (None, set_session s a (ss\<lparr>h_written := h_written ss @ [wire_frame m]\<rparr>))"
proof -
  have k: "ucast (ucast (serial_of s a) :: lua_Integer) = serial_of s a" by (simp add: ucast_up_ucast_id is_up)
  have "qsf_net_server_write e (serial_of s a) m (of_nat (length m)) s =
      Some (0, set_session s a (ss\<lparr>h_written := h_written ss @ [wire_frame m]\<rparr>))"
    using qsf_net_server_write_sent [OF inv write_ok_wire(1) [OF m e(1)] a] e(2) [rule_format, of a]
      write_ok_wire(2) [OF m e(1)]
    by (simp add: sent_def not_less)
  then show ?thesis
    using m k by (simp add: echo_read_cb_def msg_args_def lua_arg_def lua_toboolean_def server_write_def
        UINT16_MAX_def wire_ok_def)
qed

lemma echo_tells:
  assumes e: "\<forall>a. we_malloc e a" "\<forall>a. we_write e a \<ge> 0"
  shows "tells (on_server_read (echo_read_cb cv ev e self)) xs ser has_callback (written_to xs) (echo_adds xs ser)"
  unfolding tells_def
proof (intro conjI allI impI)
  fix c :: read_handler and k :: u32 and m :: bytes and s :: lua_server
  assume inv: "server_inv s xs" and ser: "serial_of s = ser" and cb: "has_callback (udata s)"
    and k: "k \<in> ser ` set xs" and m: "wire_ok m"
  have c: "c = On_server_read" by (cases c) simp
  obtain i where i: "L_registry (udata s) (read_ref (udata s)) = L_fun i" using cb by (auto simp: has_callback_def)
  obtain a where a: "a \<in> set xs" "k = serial_of s a" using k ser by auto
  obtain ss where ss: "sessions s a = Some ss" by (rule server_inv_liveE [OF inv a(1)])
  define s' where "s' = set_session s a (ss\<lparr>h_written := h_written ss @ [wire_frame m]\<rparr>)"
  have "on_server_read (echo_read_cb cv ev e self) c 0 k m (of_nat (length m)) s = Some s'"
    unfolding c on_server_read_calls [OF m i]
    using echo_write [OF inv a(1) ss m e, of cv ev self i] by (simp add: qsf_trace_pcall_def a(2) msg_args_def s'_def)
  moreover have "keeps s s'" unfolding s'_def by (rule keeps_set_session [OF ss]) (simp add: sess_core_def)
  moreover have "ser b = k \<longleftrightarrow> b = a" if "b \<in> set xs" for b
    using serial_of_inj [OF inv that a(1)] ser a(2) by auto
  then have "written_to xs s' = echo_adds xs ser k m (written_to xs s)"
    using a(1) ss by (auto simp: written_to_def echo_adds_def s'_def fun_eq_iff)
  ultimately show "\<exists>s'. on_server_read (echo_read_cb cv ev e self) c 0 k m (of_nat (length m)) s = Some s' \<and> keeps s s' \<and>
      has_callback (udata s') \<and> written_to xs s' = echo_adds xs ser k m (written_to xs s)"
    using cb by (auto simp: s'_def)
next
  fix s :: lua_server and a and ss ss' :: net_session
  assume "sessions s a = Some ss" and "h_written ss' = h_written ss"
  then show "written_to xs (set_session s a ss') = written_to xs s" by (auto simp: written_to_def fun_eq_iff)
qed

end
