(* ===== verification/Lua_Echo_Properties.thy ===== *)
theory Lua_Echo_Properties
  imports Lua_Echo Lua_Properties
begin

text \<open>The property of the echo server of \<open>test/test_net.lua\<close>, with a witness.\<close>

text \<open>
  C10: The echo server echoes. Whatever bytes its sessions send, interleaved and cut in any way, the run
  goes through, although every callback writes to the server that is calling it; and each session is
  sent exactly its own complete messages, one packet for each and in order, which the client reads back
  as the messages it sent.
\<close>

theorem echo_server:
  assumes "server_inv s xs" and "has_callback (udata s)" and "\<forall>a. we_malloc e a" and "\<forall>a. we_write e a \<ge> 0"
    and "\<forall>n < 2 ^ 16. avail n" and "(fst \<circ> snd) ` set evs \<subseteq> set xs" and "wire_fits (pending_of s) evs"
  shows "\<exists>s'. net_recvs (on_server_read (echo_read_cb cv ev e self)) uv_strerror avail s evs s' \<and>
    (\<forall>a \<in> set xs. \<exists>out. h_written (the (sessions s' a)) = h_written (the (sessions s a)) @ out \<and>
       wire_parse (concat out) = (fst (wire_parse (pending_of s a @ stream_of a evs)), []) \<and>
       pending_of s' a = snd (wire_parse (pending_of s a @ stream_of a evs)))"
proof -
  note t = echo_tells [OF assms(3,4), of cv ev self xs "serial_of s"]
  obtain s' where run: "net_recvs (on_server_read (echo_read_cb cv ev e self)) uv_strerror avail s evs s'"
    using net_recvs_runs [OF t assms(1,5-7) refl assms(2)] by blast
  obtain log where log: "written_to xs s' = fold (\<lambda>(k, m). echo_adds xs (serial_of s) k m) log (written_to xs s)"
      "\<forall>a \<in> set xs. msgs_of (serial_of s a) log = fst (wire_parse (pending_of s a @ stream_of a evs)) \<and>
         pending_of s' a = snd (wire_parse (pending_of s a @ stream_of a evs))"
    using net_recvs_tells [OF run t assms(1) refl assms(2)] by blast
  have "\<exists>out. h_written (the (sessions s' a)) = h_written (the (sessions s a)) @ out \<and>
      wire_parse (concat out) = (fst (wire_parse (pending_of s a @ stream_of a evs)), [])" if a: "a \<in> set xs" for a
  proof -
    let ?ms = "fst (wire_parse (pending_of s a @ stream_of a evs))"
    have "written_to xs s' a = written_to xs s a @ map wire_frame ?ms"
      unfolding log(1) echo_adds_fold [OF a] using log(2) a by simp
    moreover have "\<forall>m \<in> set ?ms. wire_ok m" using wire_parse_msg_ok by blast
    ultimately show ?thesis using a wire_parse_frames [of ?ms] by (auto simp: written_to_def)
  qed
  then show ?thesis using run log(2) by blast
qed

theorem echo_server_witness:
  "\<exists>s'. net_recvs (on_server_read (echo_read_cb no_conv (\<lambda>_. L_nil) \<lparr>we_malloc = \<lambda>_. True, we_write = \<lambda>_. 0\<rparr> L_nil))
      (\<lambda>_. []) (\<lambda>_. True) lua_one demo_bytes s' \<and>
     wire_parse (concat (h_written (the (sessions s' 3)))) = ([[65], [7, 8]], [])"
proof -
  let ?e = "\<lparr>we_malloc = \<lambda>_. True, we_write = \<lambda>_. 0\<rparr>"
  have cb: "has_callback (udata lua_one)" by (simp add: has_callback_def lua_one(3) demo_ud_def)
  have e: "\<forall>a. we_malloc ?e a" "\<forall>a. we_write ?e a \<ge> 0" by simp_all
  have all: "\<forall>n < 2 ^ 16. (\<lambda>_. True) (n :: nat)" by simp
  have ms: "\<forall>m \<in> set [[65], [7, 8]]. wire_ok m" by (simp add: wire_ok_def)
  have "pending_of lua_one 3 @ stream_of 3 demo_bytes = concat (map wire_frame [[65], [7, 8]])"
    by (simp add: demo_bytes(3) pending_of_def lua_one(2) new_session_ok(2))
  then have p: "wire_parse (pending_of lua_one 3 @ stream_of 3 demo_bytes) = ([[65], [7, 8]], [])"
    using wire_parse_frames [OF ms] by simp
  have w: "h_written (the (sessions lua_one 3)) = []" by (simp add: lua_one(2) new_session_def)
  show ?thesis
    using echo_server [OF lua_one(1) cb e all demo_bytes(1,2), of no_conv "\<lambda>_. L_nil" L_nil "\<lambda>_. []"] p w by auto
qed

end
