(* ===== verification/Lua_Meta.thy ===== *)
theory Lua_Meta
  imports Lua_Net Lua_Mysql Crypto
begin

text \<open>
  The metatables of the objects that the Lua modules hand out: \<open>create_meta\<close> of
  \<open>src/lualib/lua_crypto.c\<close>, which \<open>lua_mysql.c\<close> repeats word for word and \<open>lua_zmq.c\<close> inside its
  \<open>create_metatable\<close>, and \<open>make_meta\<close> of \<open>src/lualib/lua_net.c\<close>. The registry of the Lua state is a
  map from the names of the metatables; a C function is represented by its name.
\<close>

datatype meta_field =
    M_fun bytes
  | M_str bytes
  | M_self

type_synonym metatable = "bytes \<Rightarrow> meta_field option"

text \<open>
  What \<open>luaL_newmetatable\<close> leaves on the stack: the registered table, or a new one with its name;
  and the entries \<open>luaL_setfuncs\<close> makes.
\<close>

definition luaL_newmetatable :: "bytes \<Rightarrow> (bytes \<Rightarrow> metatable option) \<Rightarrow> metatable" where
  "luaL_newmetatable name reg = (case reg name of Some mt \<Rightarrow> mt | None \<Rightarrow> [str ''__name'' \<mapsto> M_str name])"

fun luaL_setfuncs :: "(bytes \<times> bytes) list \<Rightarrow> metatable \<Rightarrow> metatable" where
  "luaL_setfuncs [] mt = mt"
| "luaL_setfuncs ((k, f) # ms) mt = luaL_setfuncs ms (mt(k \<mapsto> M_fun f))"

definition create_meta ::
    "bytes \<Rightarrow> (bytes \<times> bytes) list \<Rightarrow> (bytes \<Rightarrow> metatable option) \<Rightarrow> (bytes \<Rightarrow> metatable option)" where
  "create_meta name methods reg =
    (let mt = luaL_newmetatable name reg;
         mt = mt(str ''__index'' \<mapsto> M_self);
         mt = luaL_setfuncs methods mt;
         mt = mt(str ''__metatable'' \<mapsto> M_str (str ''cannot access this metatable''))
     in reg(name \<mapsto> mt))"

definition SERVER_HANDLE :: bytes where "SERVER_HANDLE = str ''server*''"

definition net_make_meta :: "(bytes \<Rightarrow> metatable option) \<Rightarrow> (bytes \<Rightarrow> metatable option)" where
  "net_make_meta reg =
    (let mt = luaL_newmetatable SERVER_HANDLE reg;
         mt = mt(str ''__index'' \<mapsto> M_self);
         mt = luaL_setfuncs server_methods mt
     in reg(SERVER_HANDLE \<mapsto> mt))"

text \<open>
  What a script can do with an object of such a metatable: \<open>obj.key\<close>, and \<open>getmetatable(obj)\<close>,
  which gives the field \<open>__metatable\<close> if there is one (\<open>Inl\<close>) and else the table itself.
\<close>

definition object_index :: "metatable \<Rightarrow> bytes \<Rightarrow> meta_field option" where
  "object_index mt key = (case mt (str ''__index'') of Some M_self \<Rightarrow> mt key | _ \<Rightarrow> None)"

definition script_getmetatable :: "metatable \<Rightarrow> meta_field + metatable" where
  "script_getmetatable mt = (case mt (str ''__metatable'') of Some v \<Rightarrow> Inl v | None \<Rightarrow> Inr mt)"

section \<open>Every method is found\<close>

lemma luaL_setfuncs_other: "k \<notin> fst ` set ms \<Longrightarrow> luaL_setfuncs ms mt k = mt k"
  by (induction ms mt rule: luaL_setfuncs.induct) auto

lemma luaL_setfuncs_in: "distinct (map fst ms) \<Longrightarrow> (k, f) \<in> set ms \<Longrightarrow> luaL_setfuncs ms mt k = Some (M_fun f)"
  by (induction ms mt rule: luaL_setfuncs.induct) (auto simp: luaL_setfuncs_other)

lemma meta_keys: "str ''__index'' \<noteq> str ''__metatable''"
  by (simp add: str_def)

text \<open>The methods are found through the object, and the table itself is hidden from scripts.\<close>

lemma create_meta_object:
  assumes "distinct (map fst ms)" and "(k, f) \<in> set ms"
    and "str ''__index'' \<notin> fst ` set ms" and "str ''__metatable'' \<notin> fst ` set ms"
  shows "\<exists>mt. create_meta name ms reg name = Some mt \<and> object_index mt k = Some (M_fun f) \<and>
    script_getmetatable mt = Inl (M_str (str ''cannot access this metatable''))"
proof -
  have "k \<noteq> str ''__metatable''" using assms(2,4) by force
  then show ?thesis
    using assms luaL_setfuncs_in [OF assms(1,2)] luaL_setfuncs_other [OF assms(3)] meta_keys
    by (simp add: create_meta_def object_index_def script_getmetatable_def)
qed

text \<open>Registering again a name that is registered keeps the table and renews its methods.\<close>

lemma create_meta_again:
  assumes "distinct (map fst ms)" and "str ''__index'' \<notin> fst ` set ms" and "str ''__metatable'' \<notin> fst ` set ms"
  shows "create_meta name ms (create_meta name ms reg) = create_meta name ms reg"
proof -
  let ?up = "\<lambda>mt :: metatable. (luaL_setfuncs ms (mt(str ''__index'' \<mapsto> M_self)))
    (str ''__metatable'' \<mapsto> M_str (str ''cannot access this metatable''))"
  have "?up (?up mt) = ?up mt" for mt
  proof
    fix k
    show "?up (?up mt) k = ?up mt k"
    proof (cases "k \<in> fst ` set ms")
      case True
      then obtain f where "(k, f) \<in> set ms" by force
      then show ?thesis using luaL_setfuncs_in [OF assms(1)] by simp
    next
      case False
      then show ?thesis by (simp add: luaL_setfuncs_other)
    qed
  qed
  then show ?thesis by (simp add: create_meta_def luaL_newmetatable_def)
qed

lemma all_methods_found:
  assumes "(handle, ms) \<in> set (crypto_make_meta @ mysql_make_meta)"
    and "(k, f) \<in> set ms"
  shows "\<exists>mt. create_meta handle ms reg handle = Some mt \<and> object_index mt k = Some (M_fun f)"
proof -
  have "list_all (\<lambda>(h, ms). distinct (map fst ms) \<and> str ''__index'' \<notin> fst ` set ms \<and> str ''__metatable'' \<notin> fst ` set ms)
      (crypto_make_meta @ mysql_make_meta)"
    by code_simp
  then have "distinct (map fst ms) \<and> str ''__index'' \<notin> fst ` set ms \<and> str ''__metatable'' \<notin> fst ` set ms"
    using assms(1) by (auto simp only: list_all_iff split: prod.splits)
  then show ?thesis using create_meta_object [of ms k f handle reg] assms(2) by blast
qed

section \<open>The finalizer of a server is a method\<close>

text \<open>
  The metatable of a net server is its own \<open>__index\<close> and is not hidden, so a script can call the
  finalizer, \<open>server:__gc()\<close>. It frees the server but leaves the pointer in the object; every later
  method call, and the finalizer that the garbage collector runs, then works on the freed server.
\<close>

lemma server_gc_exposed:
  "\<exists>mt. net_make_meta reg SERVER_HANDLE = Some mt \<and> object_index mt (str ''__gc'') = Some (M_fun (str ''server_gc'')) \<and>
    (server_gc s = Some s' \<longrightarrow> server_freed s')"
proof -
  have d: "distinct (map fst server_methods)" "(str ''__gc'', str ''server_gc'') \<in> set server_methods"
    "str ''__index'' \<notin> fst ` set server_methods" by code_simp+
  have "object_index (luaL_setfuncs server_methods ((luaL_newmetatable SERVER_HANDLE reg)(str ''__index'' \<mapsto> M_self)))
      (str ''__gc'') = Some (M_fun (str ''server_gc''))"
    using luaL_setfuncs_in [OF d(1,2)] luaL_setfuncs_other [OF d(3)] by (simp add: object_index_def)
  moreover have "server_freed s'" if "server_gc s = Some s'"
    using that by (auto simp: server_gc_def qsf_net_server_destroy_def upd_ud_def bind_Some_conv)
  ultimately show ?thesis by (simp add: net_make_meta_def)
qed

end
