(* ===== verification/Spec2Isabelle.thy ===== *)
theory Spec2Isabelle
  imports Net_Properties Node_Properties Router_Properties Lua_Properties Crypto_Properties
    Zlib_Properties Fs_Properties Zmq_Properties Mysql_Properties Luv_Properties Resource_Properties Lua_Process
    Uthash_Properties Node_Threads_Properties Fs_Win_Properties Lua_Process_Win Mail_Properties
    Lua_Echo_Properties Lua_Meta
begin

text \<open>
  QSF is a small server framework in C. A process runs one Lua script per \<^emph>\<open>node\<close>, each on a thread
  with its own Lua state, event loop and message socket; the main thread is a \<^emph>\<open>router\<close> that moves
  messages between nodes by name; a TCP \<^emph>\<open>net server\<close> with a length-prefixed protocol, and bindings
  of several libraries, are offered to the scripts as Lua modules. This development models that C code
  (\<open>src/\<close>) and proves what makes its parts correct.

  \<^bold>\<open>Conventions.\<close>
  A C function that can fault is a function into \<open>option\<close>: \<open>None\<close> is a dangling or null dereference,
  an access out of bounds, a failed assertion, a signed overflow or an abort; return codes are
  ordinary values. A function called from Lua gives a \<open>lua_res\<close>, \<open>Inl\<close> for a raised Lua error and
  \<open>Inr\<close> for its values. Integers have their C width (\<open>byte\<close> to \<open>u64\<close> as words, or \<open>int\<close> with an explicit
  conversion such as \<open>to_int32\<close>). The heap of a component is a map from addresses to records, so
  freeing, aliasing and the links of intrusive lists are what they are in the code. Asserts are those
  of the Debug build. Libraries that are not part of the program are parameters: a record of
  functions (OpenSSL, zlib, libzmq, libmysql, POSIX, libuv's system functions) or the results of the
  calls as arguments (libuv in the net server); what a theorem needs of them is a named predicate in
  its hypotheses that states their documentation, and each such theorem has a witness on a concrete
  library.

  \<^bold>\<open>Theories and sources.\<close>
  \<^item> \<open>Prelude\<close>: machine types, C strings, the fault monad, linked list segments. \<open>Lua_Api\<close>: Lua values,
    argument checks, fixed-size string buffers. \<open>Resource\<close>: the contract of objects that are closed once,
    as a locale, and streams of items; \<open>Resource_Properties\<close>: its consequences for the modules.
    \<open>Channel\<close>: runs of a step function and the contract of an ordered channel, as a locale.
  \<^item> \<open>Uthash\<close> (\<open>net/uthash.h\<close>): the intrusive hash table with its Jenkins hash, bucket chains, doubly
    linked application order and bucket expansion. \<open>Uthash_Correct\<close>: the representation invariant
    \<open>ut_rep\<close> and the effect of every operation on the list of elements it represents. \<open>Keyed_Table\<close>:
    what the server uses of a table, as a locale, interpreted on the hash table. \<open>Uthash_Sort\<close>:
    \<open>HASH_SRT\<close>, which merges runs in place, against the stable sort of HOL-Library. \<open>Uthash_Ops\<close>,
    \<open>Uthash_Ops_Correct\<close>: replacing, clearing, selecting into a second table, the integrity check
    \<open>HASH_FSCK\<close>. \<open>Uthash_Hash\<close>: the other hash functions and the bloom filter.
    \<open>Uthash_Properties\<close>: the tables that sequences of all these operations build.
  \<^item> \<open>Net_Server\<close> (\<open>net/qsf_net_server.c\<close>, \<open>qsf_net_def.h\<close>): sessions, serial numbers, the libuv
    callbacks, heartbeat, writing and closing. \<open>Wire\<close>: the packet format as a specification.
    \<open>Session_Correct\<close>: one session's receive buffer refines the parser of \<open>Wire\<close>.
    \<open>Net_Server_Correct\<close>, \<open>Net_Server_Run\<close>: the server invariant, the effect of each operation,
    events as an inductive step relation and its reachable states. \<open>Net_Stream\<close>: whole runs of
    interleaved reads. \<open>Net_Demo\<close>, \<open>Net_Properties\<close>: an example server and the properties.
  \<^item> \<open>Node\<close> (\<open>qsf_node.c\<close>, \<open>lualib/lua_init.c\<close>): the registry as a singly linked list with a double
    pointer, the node threads, sending and receiving. \<open>Node_Correct\<close>, \<open>Node_Run\<close>, \<open>Node_Properties\<close>:
    the registry refines a list of nodes with different names. \<open>Node_Threads\<close>: the same functions
    as small steps of many threads in any interleaving, with \<open>Node_Threads_Correct\<close> (the invariant),
    \<open>Node_Threads_Live\<close> (how long the mutex is held) and \<open>Node_Threads_Properties\<close>.
  \<^item> \<open>Env\<close> (\<open>qsf_env.c\<close>), \<open>Log\<close> (\<open>qsf_log.c\<close>), \<open>Router\<close> (\<open>qsf_start.c\<close>, \<open>qsf_main.c\<close>): settings, log
    lines, start-up, the dispatcher. \<open>Router_Correct\<close>, \<open>Router_Properties\<close>: message delivery over
    the contract of ZeroMQ's router and dealer sockets.
  \<^item> \<open>Mail\<close>: the message bus, that is the module \<open>node\<close> of every node and the loop of the dispatcher as
    interleaved calls, against a system of mailboxes. \<open>Mail_Steps\<close>: the same at the grain of single
    socket calls, which refines it. \<open>Qsf_Service\<close> (\<open>lib/qsf.lua\<close>): the Lua framework of a service on
    this bus. \<open>Mail_Properties\<close>: their properties.
  \<^item> \<open>Lua_Net\<close>, \<open>Lua_Node\<close>, \<open>Base64\<close> (\<open>lualib/lua_net.c\<close>, \<open>lua_node.c\<close>, \<open>lua_b64.c\<close>) with
    \<open>Base64_Correct\<close> and \<open>Lua_Properties\<close>: the framework as scripts see it; \<open>Lua_Stream\<close>: two scripts
    that talk to each other over the net; \<open>Lua_Echo\<close>, \<open>Lua_Echo_Properties\<close> (\<open>test/test_net.lua\<close>): an
    echo server, whose callback writes to the server that calls it. \<open>Lua_Meta\<close>: the metatables of the
    objects the modules hand out, and what scripts reach through them.
  \<^item> \<open>Crypto\<close>, \<open>Zlib\<close>, \<open>Lua_Fs\<close>, \<open>Lua_Process\<close>, \<open>Lua_Mysql\<close>, \<open>Lua_Zmq\<close> and \<open>Zmq_Options\<close>, \<open>Luv\<close>
    (\<open>lualib/lua_crypto.c\<close>, \<open>lua_zlib.c\<close>, \<open>lua_fs.c\<close>, \<open>lua_process.c\<close>, \<open>lua_mysql.c\<close>, \<open>lua_zmq.c\<close>,
    \<open>luv/\<close>), each with its \<open>_Properties\<close>: the bindings of libraries. \<open>Lua_Fs_Win\<close> with
    \<open>Fs_Win_Properties\<close> and \<open>Lua_Process_Win\<close> hold the branches that are compiled on Windows.

  \<^bold>\<open>How the parts interact.\<close>
  The net server keeps its sessions in the hash table and reaches it only through the laws of
  \<open>Keyed_Table\<close>. \<open>Lua_Net\<close> instantiates the server's read handler with the
  call of a Lua function, so that the server's theorems hold for scripts: what one script writes
  with \<open>server:write\<close> is what the callback of another is called with.
  \<open>Router\<close> reads \<open>Env\<close>. \<open>Mail\<close> composes \<open>dispatch_message\<close> of \<open>Router\<close> with
  \<open>qsf_node_send\<close> and \<open>qsf_node_recv\<close> of \<open>Node\<close> inside the Lua functions of \<open>Lua_Node\<close>; the service loop
  of \<open>Qsf_Service\<close> uses these and the timers of \<open>Luv\<close>. A read handler enters the theorems on streams
  through \<open>tells\<close> of \<open>Net_Stream\<close>, which allows it to use the server it is called by. To each node the
  mailboxes of \<open>Mail\<close> are a channel in the sense of \<open>Channel\<close>, and the order theorems of the bus rest on this.
  \<open>Node_Threads\<close> uses the state, the slots and the mutex of \<open>Node\<close>, and an
  uninterrupted run of its steps is the operation of \<open>Node\<close>.

  \<^bold>\<open>What the lemmas show.\<close>
  Type and heap invariants (\<open>ut_rep\<close>, \<open>sess_ok\<close>,
  \<open>server_inv\<close>, \<open>node_inv\<close>) with preservation by every operation;
  refinement of abstract specifications (the table by a list, the receive path by a parser, the
  registry by a list of names, the message bus by mailboxes, with its calls linearizable); the reachable states of the server, of the registry, of its
  interleaved threads and of the hash table by rule induction; round trips (packets, base64, AES,
  RSA, socket options, settings); termination (serial numbers, dispatch, base64, the zlib loop,
  sorting, the integrity check on any finite memory); and the faults and error paths the code has.

  \<^bold>\<open>Bounds and fuel.\<close>
  The hash chains and the search for a free serial number are loops over structures the invariant
  makes finite; where a loop may not end for some library or state it is a
  \<open>partial_function\<close> and the theorems prove that it returns. A critical section of a
  node thread takes at most three times the length of the node list and eight steps.
  \<open>rand32_loop\<close> counts its 100 tries. Sizes of buffers are those of the code. No other
  fuel is used.

  \<^bold>\<open>Not modelled.\<close>
  The libraries themselves, including libuv's loop and ZeroMQ's transport; string and pointer keys
  of \<open>uthash.h\<close>, its \<open>HASH_EMIT_KEY\<close> and the big-endian word pieces of
  \<open>HASH_MUR\<close>; on Windows the functions that differ only in the name of the library
  call; formatting by \<open>printf\<close>, whose results are arguments; allocation failure, except
  where the code handles it; \<open>qsf_node_exit\<close> as small steps among the interleaved threads, since it
  does not wait for them (as one step, it makes every other thread fault: \<open>node_exit_strands\<close>); the
  interleaving of accesses to the settings, which are one step under their mutex; the high-water
  marks of the sockets, at which ZeroMQ blocks or drops messages; the Lua libraries under \<open>lib/\<close> other
  than \<open>qsf.lua\<close>.
\<close>

end
